(* ===== verification/Sig_Prelude.thy ===== *)
theory Sig_Prelude
  imports Main "HOL-Library.Word" "HOL-Library.Sublist"
begin

text \<open>
  Shared vocabulary of the development: machine integers, sequenced effects, the ordered maps
  of the Rust standard library, prefix tests on strings, and the list lemmas the components use.

  \<^item> \<open>run\<close> composes operations that take a state, return the new state and a list of emitted
    outputs: the shape of every sans-I/O state machine of the program
    (\<^verbatim>\<open>&mut self, out: &mut Vec<Action>\<close>).
  \<^item> \<open>bt_get\<close>, \<open>bt_insert\<close>, \<open>bt_remove\<close> and \<open>bt_entry\<close> model \<^verbatim>\<open>BTreeMap\<close> as an association
    list in key order, so that iteration order is part of the model; the interface is the
    locale \<open>ordered_map\<close>, interpreted on these functions.
\<close>

section \<open>Machine integers and time\<close>

type_synonym u8 = "8 word"
type_synonym u16 = "16 word"
type_synonym u32 = "32 word"
type_synonym u64 = "64 word"
type_synonym octets = "8 word list"

text \<open>
  Durations and instants count time units from a common origin; the program only subtracts
  instants with saturation, which is what subtraction on \<open>nat\<close> does.
\<close>

type_synonym duration = nat
type_synonym instant = nat

named_theorems state_defs \<open>definitions of the operations of a state machine\<close>
named_theorems inv_intros \<open>preservation lemmas of an invariant\<close>

section \<open>Sequenced effects\<close>

primrec run :: "('s \<Rightarrow> 's \<times> 'o list) list \<Rightarrow> 's \<Rightarrow> 's \<times> 'o list" where
  "run [] s = (s, [])"
| "run (f # fs) s = (case f s of (s1, o1) \<Rightarrow> (case run fs s1 of (s2, o2) \<Rightarrow> (s2, o1 @ o2)))"

definition emit :: "'o list \<Rightarrow> 's \<Rightarrow> 's \<times> 'o list" where
  "emit os s = (s, os)"

definition upd :: "('s \<Rightarrow> 's) \<Rightarrow> 's \<Rightarrow> 's \<times> 'o list" where
  "upd f s = (f s, [])"

lemma emit_simp [simp]: "emit os s = (s, os)"
  by (simp add: emit_def)

lemma upd_simp [simp]: "upd f s = (f s, [])"
  by (simp add: upd_def)

lemma run_append: "run (fs @ gs) s =
    (case run fs s of (s1, o1) \<Rightarrow> (case run gs s1 of (s2, o2) \<Rightarrow> (s2, o1 @ o2)))"
  by (induction fs arbitrary: s) (auto split: prod.splits)

text \<open>An invariant kept by every part of a sequence is kept by the sequence.\<close>

lemma run_inv:
  assumes "P s" and "\<And>f s. f \<in> set fs \<Longrightarrow> P s \<Longrightarrow> P (fst (f s))"
  shows "P (fst (run fs s))"
  using assms
proof (induction fs arbitrary: s)
  case Nil
  then show ?case by simp
next
  case (Cons f fs)
  have "P (fst (f s))" using Cons.prems by simp
  then have "P (fst (run fs (fst (f s))))" using Cons by simp
  then show ?case by (simp add: case_prod_beta)
qed

section \<open>Machines with clocks\<close>

text \<open>
  The contract of the state machines without I/O: an event and a state give a new state and outputs;
  some outputs start and stop timers of the caller, and the expiry of an armed timer is an event.
  \<open>keeps\<close> is what each machine proves of one event; the locale derives what holds of every run.
\<close>

locale clocked_machine =
  fixes step :: "'e \<Rightarrow> 's \<Rightarrow> 's \<times> 'o list"
    and arm :: "'o \<Rightarrow> 't set \<Rightarrow> 't set"
    and fires :: "'e \<Rightarrow> 't set"
    and enabled :: "'e \<Rightarrow> 's \<Rightarrow> bool"
    and inv :: "'s \<Rightarrow> 't set \<Rightarrow> bool"
  assumes keeps: "inv s A \<Longrightarrow> enabled e s \<Longrightarrow> fires e \<subseteq> A \<Longrightarrow>
    inv (fst (step e s)) (fold arm (snd (step e s)) (A - fires e))"
begin

text \<open>\<open>reaches s0 A0 s A\<close>: some sequence of events leads from \<open>s0\<close>, with the timers \<open>A0\<close> armed, to \<open>s\<close> and \<open>A\<close>.\<close>

inductive reaches :: "'s \<Rightarrow> 't set \<Rightarrow> 's \<Rightarrow> 't set \<Rightarrow> bool" for s0 A0 where
  reaches_start: "reaches s0 A0 s0 A0"
| reaches_step: "reaches s0 A0 s A \<Longrightarrow> enabled e s \<Longrightarrow> fires e \<subseteq> A \<Longrightarrow>
    reaches s0 A0 (fst (step e s)) (fold arm (snd (step e s)) (A - fires e))"

lemma reaches_inv: "reaches s0 A0 s A \<Longrightarrow> inv s0 A0 \<Longrightarrow> inv s A"
  by (induction rule: reaches.induct) (simp_all add: keeps)

lemma reaches_trans: "reaches s1 A1 s2 A2 \<Longrightarrow> reaches s0 A0 s1 A1 \<Longrightarrow> reaches s0 A0 s2 A2"
  by (induction rule: reaches.induct) (simp_all add: reaches_step)

lemma reaches_once:
  "enabled e s \<Longrightarrow> fires e \<subseteq> A \<Longrightarrow> reaches s A (fst (step e s)) (fold arm (snd (step e s)) (A - fires e))"
  by (intro reaches_step reaches_start)

end

section \<open>Ordered maps\<close>

type_synonym ('k, 'v) btree = "('k \<times> 'v) list"

definition bt_get :: "'k \<Rightarrow> ('k, 'v) btree \<Rightarrow> 'v option" where
  "bt_get k m = map_of m k"

fun bt_insert :: "'k::linorder \<Rightarrow> 'v \<Rightarrow> ('k, 'v) btree \<Rightarrow> ('k, 'v) btree" where
  "bt_insert k v [] = [(k, v)]"
| "bt_insert k v ((k', v') # m) =
     (if k < k' then (k, v) # (k', v') # m
      else if k = k' then (k, v) # m
      else (k', v') # bt_insert k v m)"

definition bt_remove :: "'k \<Rightarrow> ('k, 'v) btree \<Rightarrow> ('k, 'v) btree" where
  "bt_remove k m = filter (\<lambda>e. fst e \<noteq> k) m"

definition bt_ok :: "('k::linorder, 'v) btree \<Rightarrow> bool" where
  "bt_ok m \<longleftrightarrow> sorted_wrt (<) (map fst m)"

text \<open>\<^verbatim>\<open>entry(k).or_default()\<close> followed by an update in place.\<close>

definition bt_entry :: "'k::linorder \<Rightarrow> 'v \<Rightarrow> ('v \<Rightarrow> 'v) \<Rightarrow> ('k, 'v) btree \<Rightarrow> ('k, 'v) btree" where
  "bt_entry k d f m = bt_insert k (f (case bt_get k m of None \<Rightarrow> d | Some v \<Rightarrow> v)) m"

text \<open>An update of every value, in key order (\<^verbatim>\<open>values_mut\<close>).\<close>

definition bt_map :: "('k \<Rightarrow> 'v \<Rightarrow> 'w) \<Rightarrow> ('k, 'v) btree \<Rightarrow> ('k, 'w) btree" where
  "bt_map f m = map (\<lambda>(k, v). (k, f k v)) m"

lemma bt_insert_keys: "fst ` set (bt_insert k v m) = insert k (fst ` set m)"
  by (induction k v m rule: bt_insert.induct) auto

lemma bt_get_Nil [simp]: "bt_get k [] = None"
  by (simp add: bt_get_def)

lemma bt_get_insert [simp]:
  "bt_get k (bt_insert k' v m) = (if k = k' then Some v else bt_get k m)"
  by (induction k' v m rule: bt_insert.induct) (auto simp: bt_get_def)

lemma bt_get_remove [simp]: "bt_get k (bt_remove k' m) = (if k = k' then None else bt_get k m)"
  by (induction m) (auto simp: bt_get_def bt_remove_def)

lemma bt_get_entry [simp]:
  "bt_get k (bt_entry k' d f m) =
     (if k = k' then Some (f (case bt_get k' m of None \<Rightarrow> d | Some v \<Rightarrow> v)) else bt_get k m)"
  by (simp add: bt_entry_def)

lemma bt_get_map [simp]: "bt_get k (bt_map f m) = map_option (f k) (bt_get k m)"
  by (induction m) (auto simp: bt_get_def bt_map_def)

lemma bt_ok_Nil [simp]: "bt_ok []"
  by (simp add: bt_ok_def)

lemma bt_ok_insert [simp]: "bt_ok m \<Longrightarrow> bt_ok (bt_insert k v m)"
proof (induction k v m rule: bt_insert.induct)
  case (1 k v)
  show ?case by (simp add: bt_ok_def)
next
  case (2 k v k' v' m)
  then show ?case
    using bt_insert_keys [of k v m] by (auto simp: bt_ok_def image_iff)
qed

lemma bt_ok_remove [simp]: "bt_ok m \<Longrightarrow> bt_ok (bt_remove k m)"
  by (induction m) (auto simp: bt_ok_def bt_remove_def)

lemma bt_ok_entry [simp]: "bt_ok m \<Longrightarrow> bt_ok (bt_entry k d f m)"
  by (simp add: bt_entry_def)

lemma bt_ok_map [simp]: "bt_ok (bt_map f m) = bt_ok m"
  by (simp add: bt_ok_def bt_map_def comp_def case_prod_beta)

lemma bt_keys_map [simp]: "map fst (bt_map f m) = map fst m"
  by (simp add: bt_map_def comp_def case_prod_beta)

lemma bt_ok_distinct: "bt_ok m \<Longrightarrow> distinct (map fst m)"
  by (simp add: bt_ok_def strict_sorted_iff)

lemma bt_get_in: "bt_ok m \<Longrightarrow> bt_get k m = Some v \<longleftrightarrow> (k, v) \<in> set m"
  unfolding bt_get_def using bt_ok_distinct map_of_eq_Some_iff by fastforce

lemma bt_get_dom: "bt_get k m \<noteq> None \<longleftrightarrow> k \<in> fst ` set m"
  by (simp add: bt_get_def map_of_eq_None_iff)

text \<open>
  The interface of an ordered map. Everything that holds of \<^verbatim>\<open>BTreeMap\<close> for its clients is
  derived here from four laws and the order of the keys.
\<close>

locale ordered_map =
  fixes empty :: "'m"
    and get :: "'k::linorder \<Rightarrow> 'm \<Rightarrow> 'v option"
    and put :: "'k \<Rightarrow> 'v \<Rightarrow> 'm \<Rightarrow> 'm"
    and del :: "'k \<Rightarrow> 'm \<Rightarrow> 'm"
    and entries :: "'m \<Rightarrow> ('k \<times> 'v) list"
    and invar :: "'m \<Rightarrow> bool"
  assumes get_empty: "get k empty = None"
    and get_put: "invar m \<Longrightarrow> get k (put k' v m) = (if k = k' then Some v else get k m)"
    and get_del: "invar m \<Longrightarrow> get k (del k' m) = (if k = k' then None else get k m)"
    and get_entries: "invar m \<Longrightarrow> get k m = Some v \<longleftrightarrow> (k, v) \<in> set (entries m)"
    and entries_sorted: "invar m \<Longrightarrow> sorted_wrt (<) (map fst (entries m))"
    and invar_empty: "invar empty"
    and invar_put: "invar m \<Longrightarrow> invar (put k v m)"
    and invar_del: "invar m \<Longrightarrow> invar (del k m)"
begin

definition build :: "('k \<times> 'v) list \<Rightarrow> 'm \<Rightarrow> 'm" where
  "build kvs m = fold (\<lambda>(k, v). put k v) kvs m"

lemma invar_build: "invar m \<Longrightarrow> invar (build kvs m)"
  by (induction kvs arbitrary: m) (auto simp: build_def invar_put)

text \<open>Collecting pairs into a map keeps the last value of every key.\<close>

lemma get_build:
  "invar m \<Longrightarrow> get k (build kvs m) =
     (case map_of (rev kvs) k of Some v \<Rightarrow> Some v | None \<Rightarrow> get k m)"
proof (induction kvs arbitrary: m)
  case Nil
  then show ?case by (simp add: build_def)
next
  case (Cons kv kvs)
  obtain k' v where kv: "kv = (k', v)" by (cases kv)
  have "get k (build (kv # kvs) m) = get k (build kvs (put k' v m))"
    by (simp add: build_def kv)
  also have "\<dots> = (case map_of (rev kvs) k of Some v \<Rightarrow> Some v | None \<Rightarrow> get k (put k' v m))"
    using Cons.IH [OF invar_put [OF Cons.prems]] .
  finally show ?case
    using Cons.prems by (auto simp: kv get_put map_add_def split: option.splits)
qed

lemma put_idem: "invar m \<Longrightarrow> get k (put k' v (put k' v' m)) = get k (put k' v m)"
  by (simp add: get_put invar_put)

lemma entries_keys: "invar m \<Longrightarrow> fst ` set (entries m) = {k. get k m \<noteq> None}"
  by (force simp: get_entries)

end

interpretation bt: ordered_map "[]" bt_get bt_insert bt_remove "\<lambda>m. m" bt_ok
  by unfold_locales (auto simp: bt_get_in, simp add: bt_ok_def)

definition bt_collect :: "('k::linorder \<times> 'v) list \<Rightarrow> ('k, 'v) btree" where
  "bt_collect kvs = fold (\<lambda>(k, v). bt_insert k v) kvs []"

lemma bt_collect_ok [simp]: "bt_ok (bt_collect kvs)"
  using bt.invar_build [of "[]" kvs] by (simp add: bt_collect_def bt.build_def)

lemma bt_get_collect: "bt_get k (bt_collect kvs) = map_of (rev kvs) k"
  using bt.get_build [of "[]" k kvs]
  by (simp add: bt_collect_def bt.build_def split: option.splits)

section \<open>Strings\<close>

definition strip_prefix :: "string \<Rightarrow> string \<Rightarrow> string option" where
  "strip_prefix p s = (if prefix p s then Some (drop (length p) s) else None)"

lemma strip_prefix_Some: "strip_prefix p s = Some t \<longleftrightarrow> s = p @ t"
  by (auto simp: strip_prefix_def prefix_def)

lemma strip_prefix_None: "strip_prefix p s = None \<longleftrightarrow> \<not> prefix p s"
  by (simp add: strip_prefix_def)

section \<open>Lists\<close>

definition position :: "('a \<Rightarrow> bool) \<Rightarrow> 'a list \<Rightarrow> nat option" where
  "position P xs = find (\<lambda>i. P (xs ! i)) [0..<length xs]"

lemma position_Some:
  "position P xs = Some i \<Longrightarrow> i < length xs \<and> P (xs ! i) \<and> (\<forall>j<i. \<not> P (xs ! j))"
  unfolding position_def by (auto simp: find_Some_iff)

lemma position_Cons: "position P (x # xs) = (if P x then Some 0 else map_option Suc (position P xs))"
proof -
  have "find Q (map Suc ys) = map_option Suc (find (\<lambda>i. Q (Suc i)) ys)" for Q ys by (induction ys) auto
  moreover have "[0..<length (x # xs)] = 0 # map Suc [0..<length xs]" by (simp add: upt_conv_Cons map_Suc_upt del: upt_Suc)
  ultimately show ?thesis by (simp add: position_def del: upt_Suc)
qed

lemma position_None: "position P xs = None \<longleftrightarrow> (\<forall>x \<in> set xs. \<not> P x)"
  unfolding position_def by (simp add: find_None_iff all_set_conv_all_nth)

text \<open>A search of a slice for its first match.\<close>

lemma find_first:
  "find P xs = Some x \<longleftrightarrow> (\<exists>ys zs. xs = ys @ x # zs \<and> P x \<and> (\<forall>y \<in> set ys. \<not> P y))"
proof
  assume "find P xs = Some x"
  then show "\<exists>ys zs. xs = ys @ x # zs \<and> P x \<and> (\<forall>y \<in> set ys. \<not> P y)"
  proof (induction xs)
    case Nil
    then show ?case by simp
  next
    case (Cons a xs)
    show ?case
    proof (cases "P a")
      case True
      with Cons.prems have "a # xs = [] @ x # xs \<and> P x" by simp
      then show ?thesis by fastforce
    next
      case False
      with Cons obtain ys zs where "xs = ys @ x # zs" "P x" "\<forall>y \<in> set ys. \<not> P y" by auto
      with False have "a # xs = (a # ys) @ x # zs \<and> P x \<and> (\<forall>y \<in> set (a # ys). \<not> P y)" by simp
      then show ?thesis by blast
    qed
  qed
next
  assume "\<exists>ys zs. xs = ys @ x # zs \<and> P x \<and> (\<forall>y \<in> set ys. \<not> P y)"
  then obtain ys zs where *: "xs = ys @ x # zs" "P x" "\<forall>y \<in> set ys. \<not> P y" by blast
  have "find P (ys @ x # zs) = Some x"
    using *(2,3) by (induction ys) auto
  with * show "find P xs = Some x" by simp
qed

lemma sorted_wrt_nth_le:
  "sorted (map f xs) \<Longrightarrow> i \<le> j \<Longrightarrow> j < length xs \<Longrightarrow> f (xs ! i) \<le> f (xs ! j)"
  using sorted_nth_mono [of "map f xs" i j] by simp

text \<open>One element taken off a quantified index range.\<close>

lemma range_all_Suc:
  "(\<forall>i. e \<le> i \<and> i < f \<longrightarrow> Q i) \<longleftrightarrow> (e < f \<longrightarrow> Q e) \<and> (\<forall>i. Suc e \<le> i \<and> i < f \<longrightarrow> Q i)"
  by (metis Suc_leD Suc_leI le_eq_less_or_eq)

lemma range_ex_Suc:
  "(\<exists>i. e \<le> i \<and> i < f \<and> Q i) \<longleftrightarrow> (e < f \<and> Q e) \<or> (\<exists>i. Suc e \<le> i \<and> i < f \<and> Q i)"
  by (metis Suc_leD Suc_leI le_eq_less_or_eq)

lemma filter_nth_in:
  "k < length (filter P xs) \<Longrightarrow> filter P xs ! k \<in> set xs \<and> P (filter P xs ! k)"
  using nth_mem [of k "filter P xs"] by simp

text \<open>A stable sort puts first the first of the least elements.\<close>

lemma sort_key_head:
  assumes "sort_key f xs = y # ys"
  shows "\<exists>before after. xs = before @ y # after \<and> (\<forall>x \<in> set before. f y < f x) \<and> (\<forall>x \<in> set after. f y \<le> f x)"
proof -
  have least: "f y \<le> f x" if "x \<in> set xs" for x
  proof -
    have "sorted (map f (y # ys))" using sorted_sort_key [of f xs] assms by simp
    moreover have "x \<in> set (y # ys)" using that set_sort [of f xs] assms by metis
    ultimately show ?thesis by auto
  qed
  have "filter (\<lambda>x. f x = f y) xs = filter (\<lambda>x. f x = f y) (y # ys)"
    using sort_key_stable [of f "f y" xs] assms by simp
  then obtain rest where "filter (\<lambda>x. f x = f y) xs = y # rest" by simp
  then obtain before after where xs: "xs = before @ y # after" and ne: "\<forall>x \<in> set before. f x \<noteq> f y"
    by (auto simp: filter_eq_Cons_iff)
  have "f y < f x" if "x \<in> set before" for x
  proof -
    have "f x \<noteq> f y" using ne that by blast
    moreover have "f y \<le> f x" using least [of x] that by (simp add: xs)
    ultimately show ?thesis by simp
  qed
  moreover have "f y \<le> f x" if "x \<in> set after" for x using least [of x] that by (simp add: xs)
  ultimately show ?thesis using xs by blast
qed

lemma sort_key_map: "sort_key f (map g xs) = map g (sort_key (\<lambda>x. f (g x)) xs)"
proof -
  have "insort_key f (g x) (map g xs) = map g (insort_key (\<lambda>x. f (g x)) x xs)" for x xs
    by (induction xs) simp_all
  then show ?thesis by (induction xs) simp_all
qed

end
