(* ===== verification/Config_Model.thy ===== *)
theory Config_Model
  imports Sig_Prelude
begin

text \<open>
  The typed configuration model (\<^verbatim>\<open>src/src/config.rs\<close>, \<^verbatim>\<open>src/src/point_code.rs\<close>): the data the
  routing brain and the state machines are compiled from. Millisecond settings and sizes are
  natural numbers (the program converts them to durations and capacities and computes nothing
  else with them); identifiers that travel on the wire keep their width.

  The point-code type belongs to the \<^verbatim>\<open>mtp3\<close> crate. Its two observations, the value and the
  variant, are the fields of \<open>point_code\<close>; the constructor \<^verbatim>\<open>PointCode::from_value\<close>, which checks
  the width of the variant, is a parameter of every definition that calls it.
\<close>

section \<open>Point codes\<close>

datatype variant = Itu | Ansi | China

record point_code =
  pc_value :: u32
  pc_variant :: variant

type_synonym from_value = "u32 \<Rightarrow> variant \<Rightarrow> point_code option"

datatype network_indicator = International | InternationalSpare | National | NationalSpare

fun ni_bits :: "network_indicator \<Rightarrow> u8" where
  "ni_bits International = 0"
| "ni_bits InternationalSpare = 1"
| "ni_bits National = 2"
| "ni_bits NationalSpare = 3"

section \<open>Associations\<close>

datatype adaptation = M3ua | M2pa | Sua

datatype role = Server | Client

datatype proving_mode = ProvingModeNormal | ProvingModeEmergency

record m2pa_link =
  ml_proving :: proving_mode
  ml_t1_ms :: nat
  ml_t2_ms :: nat
  ml_t3_ms :: nat
  ml_t4n_ms :: nat
  ml_t4e_ms :: nat
  ml_t6_ms :: nat
  ml_t7_ms :: nat
  ml_proving_interval_ms :: nat
  ml_restart_ms :: nat
  ml_tx_queue :: nat

definition m2pa_link_default :: m2pa_link where
  "m2pa_link_default = \<lparr>ml_proving = ProvingModeNormal, ml_t1_ms = 45000, ml_t2_ms = 30000,
     ml_t3_ms = 1500, ml_t4n_ms = 8200, ml_t4e_ms = 500, ml_t6_ms = 4500, ml_t7_ms = 2000,
     ml_proving_interval_ms = 100, ml_restart_ms = 1000, ml_tx_queue = 4096\<rparr>"

record association =
  assoc_id :: string
  assoc_adaptation :: adaptation
  assoc_role :: role
  assoc_adjacent_pc :: "u32 option"
  assoc_m2pa :: "m2pa_link option"

section \<open>Application servers, linksets, routes\<close>

datatype traffic_mode = Loadshare | Override | Broadcast

record application_server =
  as_name :: string
  as_traffic_mode :: traffic_mode
  as_routing_context :: u32
  as_asps :: "string list"
  as_recovery_ms :: nat
  as_pending_queue :: nat
  as_required_asps :: nat

record cfg_link =
  link_assoc :: string
  link_slc :: "u8 option"

text \<open>
  The link test of a linkset. \<open>hex_pair\<close> is \<^verbatim>\<open>u8::from_str_radix(pair, 16)\<close> on two characters, which
  accepts a leading plus sign.
\<close>

record cfg_link_test =
  clt_enabled :: bool
  clt_t1_ms :: nat
  clt_t2_ms :: nat
  clt_pattern :: string

definition link_test_default :: cfg_link_test where
  "link_test_default = \<lparr>clt_enabled = True, clt_t1_ms = 8000, clt_t2_ms = 60000, clt_pattern = ''a5a5a5a5a5a5a5a5''\<rparr>"

definition hex_digit :: "char \<Rightarrow> u8 option" where
  "hex_digit c =
     (let n = of_char c :: nat
      in if 48 \<le> n \<and> n \<le> 57 then Some (word_of_nat (n - 48))
         else if 97 \<le> n \<and> n \<le> 102 then Some (word_of_nat (n - 87))
         else if 65 \<le> n \<and> n \<le> 70 then Some (word_of_nat (n - 55))
         else None)"

definition hex_pair :: "char \<Rightarrow> char \<Rightarrow> u8 option" where
  "hex_pair a b =
     (if a = CHR ''+'' then hex_digit b
      else case (hex_digit a, hex_digit b) of (Some h, Some l) \<Rightarrow> Some (16 * h + l) | _ \<Rightarrow> None)"

fun hex_octets :: "string \<Rightarrow> octets option" where
  "hex_octets [] = Some []"
| "hex_octets [a] = None"
| "hex_octets (a # b # rest) =
     (case (hex_pair a b, hex_octets rest) of (Some x, Some xs) \<Rightarrow> Some (x # xs) | _ \<Rightarrow> None)"

definition pattern_octets :: "cfg_link_test \<Rightarrow> octets option" where
  "pattern_octets t =
     (let n = length (clt_pattern t) in if n mod 2 \<noteq> 0 \<or> \<not> (2 \<le> n \<and> n \<le> 30) then None else hex_octets (clt_pattern t))"

record linkset =
  ls_name :: string
  ls_links :: "cfg_link list"
  ls_link_test :: cfg_link_test

text \<open>\<^verbatim>\<open>slc_of\<close>: the link's own code, or its position masked to four bits.\<close>

definition slc_of :: "linkset \<Rightarrow> nat \<Rightarrow> u8" where
  "slc_of ls index =
     (case (if index < length (ls_links ls) then link_slc (ls_links ls ! index) else None) of
        Some slc \<Rightarrow> slc
      | None \<Rightarrow> word_of_nat (index mod 16))"

record mtp3_route =
  rt_dpc :: u32
  rt_as :: "string option"
  rt_linkset :: "string option"
  rt_priority :: u8

record mtp3_settings =
  mtp3_t1_ms :: nat
  mtp3_t2_ms :: nat
  mtp3_t3_ms :: nat
  mtp3_t4_ms :: nat
  mtp3_t5_ms :: nat
  mtp3_t6_ms :: nat
  mtp3_t8_ms :: nat
  mtp3_t10_ms :: nat
  mtp3_t12_ms :: nat
  mtp3_t13_ms :: nat
  mtp3_t18_ms :: nat
  mtp3_t19_ms :: nat
  mtp3_t20_ms :: nat
  mtp3_t21_ms :: nat
  mtp3_t23_ms :: nat
  mtp3_tfp_for_unknown_destination :: bool
  mtp3_rerouting_buffer :: nat

definition mtp3_default :: mtp3_settings where
  "mtp3_default = \<lparr>mtp3_t1_ms = 800, mtp3_t2_ms = 1400, mtp3_t3_ms = 800, mtp3_t4_ms = 800,
     mtp3_t5_ms = 800, mtp3_t6_ms = 800, mtp3_t8_ms = 1000, mtp3_t10_ms = 45000,
     mtp3_t12_ms = 1150, mtp3_t13_ms = 1150, mtp3_t18_ms = 20000, mtp3_t19_ms = 68000,
     mtp3_t20_ms = 60000, mtp3_t21_ms = 64000, mtp3_t23_ms = 240000,
     mtp3_tfp_for_unknown_destination = True, mtp3_rerouting_buffer = 4096\<rparr>"

section \<open>SCCP\<close>

datatype group_mode = Cost | Share

record group_member =
  gm_dpc :: u32
  gm_ssn :: u8
  gm_cost :: "u8 option"
  gm_weight :: "u8 option"

record gtt_group =
  gg_name :: string
  gg_mode :: group_mode
  gg_members :: "group_member list"

record gtt_match =
  gt_prefix :: "string option"
  match_gti :: "u8 option"
  match_tt :: "u8 option"
  match_np :: "u8 option"
  match_nai :: "u8 option"

record route_target =
  target_dpc :: "u32 option"
  target_ssn :: "u8 option"
  target_group :: "string option"
  target_local :: "bool option"
  target_tenant :: "string option"

definition route_target_default :: route_target where
  "route_target_default = \<lparr>target_dpc = None, target_ssn = None, target_group = None,
     target_local = None, target_tenant = None\<rparr>"

record gtt_rule =
  rule_match :: gtt_match
  rule_to :: route_target

record plmn_map_entry =
  plmn_mcc :: string
  plmn_mnc :: string
  plmn_e164_prefix :: string

record gt_conversion =
  gc_plmn_map :: "plmn_map_entry list"

record sccp =
  sccp_local_ssns :: "u8 list"
  sccp_gtt_groups :: "gtt_group list"
  sccp_gtt :: "gtt_rule list"
  sccp_gt_conversion :: gt_conversion

section \<open>Content routing and ISUP screening\<close>

record address_table =
  at_name :: string
  at_addrs :: "string list"

record imsi_table =
  it_name :: string
  it_prefixes :: "string list"

datatype one_or_many = One string | Many "string list"

fun oom_as_slice :: "one_or_many \<Rightarrow> string list" where
  "oom_as_slice (One s) = [s]"
| "oom_as_slice (Many v) = v"

record content_match =
  cm_operation :: "one_or_many option"
  cm_imsi_in :: "string option"
  cm_imsi_prefix :: "string option"
  cm_cdpa_gt_in :: "string option"
  cm_cgpa_gt_in :: "string option"

record content_action =
  ca_route :: "route_target option"
  ca_rewrite_cdpa_gt :: "string option"
  ca_screen :: "bool option"

record content_rule =
  cr_name :: string
  cr_match :: content_match
  cr_action :: content_action

datatype content_protocol = GsmMap | GsmCap

record content_routing =
  ct_protocol :: content_protocol
  ct_address_tables :: "address_table list"
  ct_imsi_tables :: "imsi_table list"
  ct_rules :: "content_rule list"

datatype screen_action = Block | Allow

record screen_match =
  sm_message_type :: "string option"
  sm_called_prefix :: "string option"
  sm_calling_prefix :: "string option"

record screen_rule =
  sr_name :: string
  sr_match :: screen_match
  sr_action :: screen_action

record isup_screening =
  is_default :: screen_action
  is_rules :: "screen_rule list"

section \<open>A tenant and the whole configuration\<close>

record tenant =
  tn_point_code :: u32
  tn_variant :: variant
  tn_network_indicator :: network_indicator
  tn_application_servers :: "application_server list"
  tn_linksets :: "linkset list"
  tn_mtp3_routes :: "mtp3_route list"
  tn_mtp3 :: mtp3_settings
  tn_sccp :: sccp
  tn_content_routing :: "content_routing option"
  tn_isup_screening :: "isup_screening option"

record config =
  cfg_associations :: "association list"
  cfg_tenants :: "(string \<times> tenant) list"

definition resolved_point_code :: "from_value \<Rightarrow> tenant \<Rightarrow> point_code option" where
  "resolved_point_code from_value t = from_value (tn_point_code t) (tn_variant t)"

end
