(* ===== verification/M2pa_Link.thy ===== *)
theory M2pa_Link
  imports Config_Model
begin

unbundle bit_operations_syntax

text \<open>
  Level 2 of one M2PA signalling link (\<^verbatim>\<open>src/src/transport/m2pa/link.rs\<close>): alignment, the
  24-bit sequence numbering and acknowledgement of User Data, the buffers kept for changeover,
  remote processor outage and remote congestion.

  A \<open>link\<close> is the record of \<^verbatim>\<open>struct Link\<close>; every method is a function from the link to the new
  link and the actions it pushes on \<^verbatim>\<open>out\<close>, in order. The wire codec belongs to the \<^verbatim>\<open>m2pa\<close>
  crate and is the parameter \<open>enc\<close> of every operation that sends (\<^verbatim>\<open>M2paMessage::encode\<close>, whose
  error is \<open>None\<close>). A received User Data message is given by the two things the link asks of
  it: whether it is empty and its MSU.
\<close>

section \<open>Data\<close>

definition SEQ_MASK :: u32 where
  "SEQ_MASK = 0x00FFFFFF"

definition STATUS_STREAM :: u16 where
  "STATUS_STREAM = 0"

definition DATA_STREAM :: u16 where
  "DATA_STREAM = 1"

definition seq_distance :: "u32 \<Rightarrow> u32 \<Rightarrow> u32" where
  "seq_distance from to = (to - from) AND SEQ_MASK"

datatype proving = PvNormal | PvEmergency

record link_timers =
  lt_t1 :: duration
  lt_t2 :: duration
  lt_t3 :: duration
  lt_t4_normal :: duration
  lt_t4_emergency :: duration
  lt_t6 :: duration
  lt_t7 :: duration
  lt_proving_interval :: duration

definition link_timers_default :: link_timers where
  "link_timers_default = \<lparr>lt_t1 = 45000, lt_t2 = 30000, lt_t3 = 1500, lt_t4_normal = 8200,
     lt_t4_emergency = 500, lt_t6 = 4500, lt_t7 = 2000, lt_proving_interval = 100\<rparr>"

datatype link_state = LsOutOfService | LsNotAligned | LsAligned | LsProving | LsAlignedReady
  | LsInService | LsProcessorOutage

datatype link_timer = LtT1 | LtT2 | LtT3 | LtT4 | LtT6 | LtT7 | LtProving

definition link_timer_all :: "link_timer list" where
  "link_timer_all = [LtT1, LtT2, LtT3, LtT4, LtT6, LtT7, LtProving]"

datatype failure = FlT1 | FlT2 | FlT3 | FlT6 | FlT7 | FlPeerStatus | FlAbnormalBsn | FlLinkTest
  | FlAssociation | FlStopped

datatype discard = DcRxOutOfSequence | DcRxNotInService | DcRxAbnormalBsn | DcTxNotInService
  | DcTxCongestion | DcTxLostOnFailure | DcTxFlushedByPeer | DcEncode

text \<open>The link status values of RFC 4165 2.3.2 (\<^verbatim>\<open>m2pa::LinkState\<close>).\<close>

datatype link_status = StAlignment | StProvingNormal | StProvingEmergency | StReady
  | StProcessorOutage | StProcessorRecovered | StBusy | StBusyEnded | StOutOfService

text \<open>
  The messages the link asks the codec to encode: User Data with a priority and an MSU
  (\<^verbatim>\<open>UserDataMessage::new\<close>), User Data with no payload (\<^verbatim>\<open>UserDataMessage::empty\<close>), Link Status.
  The first two numbers are the BSN and the FSN.
\<close>

datatype m2pa_message =
    UserData u32 u32 u8 octets
  | EmptyUserData u32 u32
  | LinkStatus u32 u32 link_status

type_synonym m2pa_encode = "m2pa_message \<Rightarrow> octets option"

record user_data =
  ud_is_empty :: bool
  ud_msu :: octets

datatype action =
    AcSend octets u16 "u8 option"
  | AcDeliver octets
  | AcStart link_timer duration
  | AcStop link_timer
  | AcInService
  | AcOutOfService failure
  | AcRemoteProcessorOutage bool
  | AcDiscarded discard nat

record unacked =
  un_fsn :: u32
  un_sent_at :: instant
  un_msu :: octets

record retrievable =
  re_bsnt :: u32
  re_acked :: u32
  re_unacked :: "(u32 \<times> octets) list"
  re_unsent :: "octets list"

record retrieval =
  rv_resend :: "octets list"
  rv_confirmed :: nat
  rv_unconfirmed :: "octets list"

record link =
  lk_timers :: link_timers
  lk_proving :: proving
  lk_tx_queue :: nat
  lk_state :: link_state
  lk_use_emergency :: bool
  lk_peer_ready :: bool
  lk_fsn_out :: u32
  lk_fsn_in :: u32
  lk_acked :: u32
  lk_bsn_watch :: u8
  lk_remote_busy :: bool
  lk_ack_due :: bool
  lk_unacked :: "unacked list"
  lk_unsent :: "octets list"
  lk_retrievable :: "retrievable option"

section \<open>Retrieval\<close>

definition re_len :: "retrievable \<Rightarrow> nat" where
  "re_len r = length (re_unacked r) + length (re_unsent r)"

definition re_is_empty :: "retrievable \<Rightarrow> bool" where
  "re_is_empty r \<longleftrightarrow> re_len r = 0"

definition re_last_sent :: "retrievable \<Rightarrow> u32" where
  "re_last_sent r = (if re_unacked r = [] then re_acked r else fst (last (re_unacked r)))"

definition fsnc_valid :: "retrievable \<Rightarrow> u32 \<Rightarrow> bool" where
  "fsnc_valid r f \<longleftrightarrow>
     seq_distance (re_acked r) (f AND SEQ_MASK) \<le> seq_distance (re_acked r) (re_last_sent r)"

definition re_retrieve :: "u32 option \<Rightarrow> retrievable \<Rightarrow> retrieval" where
  "re_retrieve fsnc r =
     (case (case fsnc of None \<Rightarrow> None | Some f \<Rightarrow> if fsnc_valid r f then Some f else None) of
        Some f \<Rightarrow>
          (let accepted = seq_distance (re_acked r) (f AND SEQ_MASK);
               later = (\<lambda>(fsn, _). seq_distance (re_acked r) fsn > accepted)
           in \<lparr>rv_resend = map snd (filter later (re_unacked r)) @ re_unsent r,
               rv_confirmed = length (filter (\<lambda>u. \<not> later u) (re_unacked r)),
               rv_unconfirmed = []\<rparr>)
      | None \<Rightarrow> \<lparr>rv_resend = re_unsent r, rv_confirmed = 0, rv_unconfirmed = map snd (re_unacked r)\<rparr>)"

section \<open>The link\<close>

definition link_new :: "link_timers \<Rightarrow> proving \<Rightarrow> nat \<Rightarrow> link" where
  "link_new timers prv tx_queue =
     \<lparr>lk_timers = timers, lk_proving = prv, lk_tx_queue = tx_queue, lk_state = LsOutOfService,
      lk_use_emergency = (prv = PvEmergency), lk_peer_ready = False, lk_fsn_out = SEQ_MASK,
      lk_fsn_in = SEQ_MASK, lk_acked = SEQ_MASK, lk_bsn_watch = 0, lk_remote_busy = False,
      lk_ack_due = False, lk_unacked = [], lk_unsent = [], lk_retrievable = None\<rparr>"

definition is_aligned :: "link \<Rightarrow> bool" where
  "is_aligned l \<longleftrightarrow> lk_state l = LsInService \<or> lk_state l = LsProcessorOutage"

definition unacknowledged :: "link \<Rightarrow> nat" where
  "unacknowledged l = length (lk_unacked l)"

definition proving_status :: "link \<Rightarrow> link_status" where
  "proving_status l = (case lk_proving l of PvNormal \<Rightarrow> StProvingNormal | PvEmergency \<Rightarrow> StProvingEmergency)"

definition link_t4 :: "link \<Rightarrow> duration" where
  "link_t4 l = (if lk_use_emergency l then lt_t4_emergency (lk_timers l) else lt_t4_normal (lk_timers l))"

definition send_frame :: "m2pa_encode \<Rightarrow> m2pa_message \<Rightarrow> u16 \<Rightarrow> u8 option \<Rightarrow> action" where
  "send_frame enc message stream si =
     (case enc message of Some frame \<Rightarrow> AcSend frame stream si | None \<Rightarrow> AcDiscarded DcEncode 1)"

definition send_status :: "m2pa_encode \<Rightarrow> link_status \<Rightarrow> u16 \<Rightarrow> link \<Rightarrow> link \<times> action list" where
  "send_status enc status stream l =
     (l, [send_frame enc (LinkStatus (lk_fsn_in l) (lk_fsn_out l) status) stream None])"

definition start_timer :: "link_timer \<Rightarrow> (link \<Rightarrow> duration) \<Rightarrow> link \<Rightarrow> link \<times> action list" where
  "start_timer t d l = (l, [AcStart t (d l)])"

definition enter_service :: "link \<Rightarrow> link \<times> action list" where
  "enter_service l = run
     [emit [AcStop LtT1], upd (\<lambda>l. l\<lparr>lk_state := LsInService, lk_peer_ready := False\<rparr>),
      emit [AcInService]] l"

definition link_established :: "m2pa_encode \<Rightarrow> link \<Rightarrow> link \<times> action list" where
  "link_established enc l = send_status enc StOutOfService STATUS_STREAM l"

definition link_abandon :: "link \<Rightarrow> link \<times> nat" where
  "link_abandon l =
     (l\<lparr>lk_retrievable := None\<rparr>,
      case lk_retrievable l of None \<Rightarrow> 0 | Some left \<Rightarrow> length (re_unacked left) + length (re_unsent left))"

definition link_start :: "m2pa_encode \<Rightarrow> link \<Rightarrow> link \<times> action list" where
  "link_start enc l =
     (if lk_state l \<noteq> LsOutOfService then (l, [])
      else case link_abandon l of (l, count) \<Rightarrow> run
        [emit (if count > 0 then [AcDiscarded DcTxLostOnFailure count] else []),
         upd (\<lambda>l. l\<lparr>lk_fsn_out := SEQ_MASK, lk_fsn_in := SEQ_MASK, lk_acked := SEQ_MASK,
           lk_bsn_watch := 0, lk_remote_busy := False, lk_ack_due := False, lk_peer_ready := False,
           lk_use_emergency := (lk_proving l = PvEmergency), lk_state := LsNotAligned\<rparr>),
         send_status enc StAlignment STATUS_STREAM,
         start_timer LtT2 (\<lambda>l. lt_t2 (lk_timers l))] l)"

definition keep_retrievable :: "link \<Rightarrow> link" where
  "keep_retrievable l =
     l\<lparr>lk_retrievable := Some \<lparr>re_bsnt = lk_fsn_in l, re_acked = lk_acked l,
         re_unacked = map (\<lambda>u. (un_fsn u, un_msu u)) (lk_unacked l), re_unsent = lk_unsent l\<rparr>,
       lk_unacked := [], lk_unsent := []\<rparr>"

definition link_fail :: "m2pa_encode \<Rightarrow> failure \<Rightarrow> link \<Rightarrow> link \<times> action list" where
  "link_fail enc reason l =
     (if lk_state l = LsOutOfService then (l, [])
      else run
        [emit (map AcStop link_timer_all),
         (if reason \<noteq> FlAssociation then send_status enc StOutOfService STATUS_STREAM else emit []),
         upd keep_retrievable,
         upd (\<lambda>l. l\<lparr>lk_state := LsOutOfService, lk_remote_busy := False, lk_ack_due := False,
           lk_peer_ready := False\<rparr>),
         emit [AcOutOfService reason]] l)"

definition link_bsnt :: "link \<Rightarrow> u32" where
  "link_bsnt l = (case lk_retrievable l of Some r \<Rightarrow> re_bsnt r | None \<Rightarrow> lk_fsn_in l)"

definition link_retrieve :: "u32 option \<Rightarrow> link \<Rightarrow> link \<times> octets list" where
  "link_retrieve fsnc l =
     (l\<lparr>lk_retrievable := None\<rparr>,
      case lk_retrievable l of Some held \<Rightarrow> rv_resend (re_retrieve fsnc held) | None \<Rightarrow> [])"

definition link_detach :: "link \<Rightarrow> link \<times> retrievable option" where
  "link_detach l = (l\<lparr>lk_retrievable := None\<rparr>, lk_retrievable l)"

text \<open>Number, send and keep one MSU.\<close>

definition transmit :: "m2pa_encode \<Rightarrow> octets \<Rightarrow> instant \<Rightarrow> link \<Rightarrow> link \<times> action list" where
  "transmit enc msu now l =
     (let fsn = (lk_fsn_out l + 1) AND SEQ_MASK;
          si = (case msu of [] \<Rightarrow> None | sio # _ \<Rightarrow> Some (sio AND 0x0F))
      in case enc (UserData (lk_fsn_in l) fsn 0 msu) of
           Some frame \<Rightarrow>
             (l\<lparr>lk_fsn_out := fsn, lk_ack_due := False,
                lk_unacked := lk_unacked l @ [\<lparr>un_fsn = fsn, un_sent_at = now, un_msu = msu\<rparr>]\<rparr>,
              AcSend frame DATA_STREAM si #
                (if lk_unacked l = [] then [AcStart LtT7 (lt_t7 (lk_timers l))] else []))
         | None \<Rightarrow> (l, [AcDiscarded DcEncode 1]))"

lemma transmit_unsent [simp]: "lk_unsent (fst (transmit enc msu now l)) = lk_unsent l"
  by (simp add: transmit_def Let_def split: option.splits)

function flush_unsent :: "m2pa_encode \<Rightarrow> instant \<Rightarrow> link \<Rightarrow> link \<times> action list" where
  "flush_unsent enc now l =
     (case lk_unsent l of
        [] \<Rightarrow> (l, [])
      | msu # rest \<Rightarrow>
          (let sent = transmit enc msu now (l\<lparr>lk_unsent := rest\<rparr>);
               flushed = flush_unsent enc now (fst sent)
           in (fst flushed, snd sent @ snd flushed)))"
  by pat_completeness auto

termination flush_unsent
  by (relation "measure (\<lambda>(enc, now, l). length (lk_unsent l))") auto

declare flush_unsent.simps [simp del]

definition arm_t7 :: "instant \<Rightarrow> link \<Rightarrow> link \<times> action list" where
  "arm_t7 now l =
     (l, [case lk_unacked l of
            oldest # _ \<Rightarrow> AcStart LtT7 ((un_sent_at oldest + lt_t7 (lk_timers l)) - now)
          | [] \<Rightarrow> AcStop LtT7])"

definition restart_t7 :: "instant \<Rightarrow> link \<Rightarrow> link \<times> action list" where
  "restart_t7 now l =
     (l\<lparr>lk_unacked := map (\<lambda>u. u\<lparr>un_sent_at := now\<rparr>) (lk_unacked l)\<rparr>,
      if lk_unacked l \<noteq> [] then [AcStart LtT7 (lt_t7 (lk_timers l))] else [])"

text \<open>The last component is the value returned: whether the message is to be processed further.\<close>

definition acknowledge ::
  "m2pa_encode \<Rightarrow> u32 \<Rightarrow> bool \<Rightarrow> instant \<Rightarrow> link \<Rightarrow> (link \<times> action list) \<times> bool" where
  "acknowledge enc bsn strict now l =
     (let bsn = bsn AND SEQ_MASK;
          outstanding = seq_distance (lk_acked l) (lk_fsn_out l);
          step = seq_distance (lk_acked l) bsn
      in if step > outstanding then
           if \<not> strict then ((l, []), True)
           else (run
             [emit [AcDiscarded DcRxAbnormalBsn 1],
              (if lk_bsn_watch l > 0 then link_fail enc FlAbnormalBsn
               else upd (\<lambda>l. l\<lparr>lk_bsn_watch := 2\<rparr>))] l, False)
         else (run
           [upd (\<lambda>l. if strict then l\<lparr>lk_bsn_watch := (if lk_bsn_watch l = 0 then 0 else lk_bsn_watch l - 1)\<rparr> else l),
            (\<lambda>l. if step > 0 then
               run
                 [upd (\<lambda>l. l\<lparr>lk_acked := bsn,
                    lk_unacked := dropWhile (\<lambda>u. seq_distance (un_fsn u) bsn < SEQ_MASK div 2) (lk_unacked l)\<rparr>),
                  (\<lambda>l. if lk_state l = LsInService \<and> \<not> lk_remote_busy l then arm_t7 now l else (l, []))] l
             else (l, []))] l, True))"

section \<open>Events\<close>

definition link_send :: "m2pa_encode \<Rightarrow> octets \<Rightarrow> instant \<Rightarrow> link \<Rightarrow> link \<times> action list" where
  "link_send enc msu now l =
     (if lk_state l = LsInService \<and> \<not> lk_remote_busy l then transmit enc msu now l
      else if lk_state l = LsInService \<or> lk_state l = LsProcessorOutage then
        if length (lk_unsent l) \<ge> lk_tx_queue l then (l, [AcDiscarded DcTxCongestion 1])
        else (l\<lparr>lk_unsent := lk_unsent l @ [msu]\<rparr>, [])
      else (l, [AcDiscarded DcTxNotInService 1]))"

definition link_timeout :: "m2pa_encode \<Rightarrow> link_timer \<Rightarrow> instant \<Rightarrow> link \<Rightarrow> link \<times> action list" where
  "link_timeout enc timer now l =
     (case (timer, lk_state l) of
        (LtT2, LsNotAligned) \<Rightarrow> link_fail enc FlT2 l
      | (LtT3, LsAligned) \<Rightarrow> link_fail enc FlT3 l
      | (LtT4, LsProving) \<Rightarrow> run
          [emit [AcStop LtProving], send_status enc StReady STATUS_STREAM,
           (\<lambda>l. if lk_peer_ready l then enter_service l
                else run [upd (\<lambda>l. l\<lparr>lk_state := LsAlignedReady\<rparr>),
                          start_timer LtT1 (\<lambda>l. lt_t1 (lk_timers l))] l)] l
      | (LtProving, LsProving) \<Rightarrow> run
          [send_status enc (proving_status l) STATUS_STREAM,
           start_timer LtProving (\<lambda>l. lt_proving_interval (lk_timers l))] l
      | (LtT1, LsAlignedReady) \<Rightarrow> link_fail enc FlT1 l
      | (LtT6, LsInService) \<Rightarrow> if lk_remote_busy l then link_fail enc FlT6 l else (l, [])
      | (LtT6, LsProcessorOutage) \<Rightarrow> if lk_remote_busy l then link_fail enc FlT6 l else (l, [])
      | (LtT7, LsInService) \<Rightarrow>
          (case lk_unacked l of
             oldest # _ \<Rightarrow>
               if now - un_sent_at oldest \<ge> lt_t7 (lk_timers l) then link_fail enc FlT7 l
               else arm_t7 now l
           | [] \<Rightarrow> (l, []))
      | _ \<Rightarrow> (l, []))"

definition to_aligned :: "m2pa_encode \<Rightarrow> link_status \<Rightarrow> link \<Rightarrow> link \<times> action list" where
  "to_aligned enc status l = run
     [upd (\<lambda>l. if status = StProvingEmergency then l\<lparr>lk_use_emergency := True\<rparr> else l),
      emit [AcStop LtT2], upd (\<lambda>l. l\<lparr>lk_state := LsAligned\<rparr>),
      (\<lambda>l. send_status enc (proving_status l) STATUS_STREAM l),
      start_timer LtT3 (\<lambda>l. lt_t3 (lk_timers l))] l"

definition to_proving :: "link_status \<Rightarrow> link \<Rightarrow> link \<times> action list" where
  "to_proving status l = run
     [upd (\<lambda>l. if status = StProvingEmergency then l\<lparr>lk_use_emergency := True\<rparr> else l),
      emit [AcStop LtT3], upd (\<lambda>l. l\<lparr>lk_state := LsProving\<rparr>),
      start_timer LtT4 link_t4,
      start_timer LtProving (\<lambda>l. lt_proving_interval (lk_timers l))] l"

definition to_outage :: "link \<Rightarrow> link \<times> action list" where
  "to_outage l = run
     [emit [AcStop LtT1, AcStop LtT7], upd (\<lambda>l. l\<lparr>lk_state := LsProcessorOutage\<rparr>),
      emit [AcRemoteProcessorOutage True]] l"

definition on_busy :: "link \<Rightarrow> link \<times> action list" where
  "on_busy l =
     (if lk_remote_busy l then (l, [])
      else run
        [upd (\<lambda>l. l\<lparr>lk_remote_busy := True\<rparr>), emit [AcStop LtT7],
         (\<lambda>l. if lk_unacked l \<noteq> [] then start_timer LtT6 (\<lambda>l. lt_t6 (lk_timers l)) l else (l, []))] l)"

definition on_busy_ended :: "m2pa_encode \<Rightarrow> instant \<Rightarrow> link \<Rightarrow> link \<times> action list" where
  "on_busy_ended enc now l =
     (if \<not> lk_remote_busy l then (l, [])
      else run
        [upd (\<lambda>l. l\<lparr>lk_remote_busy := False\<rparr>), emit [AcStop LtT6],
         (\<lambda>l. if lk_state l = LsInService then run [restart_t7 now, flush_unsent enc now] l else (l, []))] l)"

definition on_recovered :: "m2pa_encode \<Rightarrow> u32 \<Rightarrow> instant \<Rightarrow> link \<Rightarrow> link \<times> action list" where
  "on_recovered enc bsn now l = run
     [(\<lambda>l. fst (acknowledge enc bsn False now l)),
      (\<lambda>l. if lk_unacked l \<noteq> []
           then (l\<lparr>lk_unacked := []\<rparr>, [AcDiscarded DcTxFlushedByPeer (length (lk_unacked l))])
           else (l, [])),
      upd (\<lambda>l. l\<lparr>lk_fsn_out := lk_acked l, lk_state := LsInService\<rparr>),
      send_status enc StReady DATA_STREAM,
      emit [AcRemoteProcessorOutage False],
      (\<lambda>l. if \<not> lk_remote_busy l then flush_unsent enc now l else (l, []))] l"

definition on_status :: "m2pa_encode \<Rightarrow> link_status \<Rightarrow> u32 \<Rightarrow> instant \<Rightarrow> link \<Rightarrow> link \<times> action list" where
  "on_status enc status bsn now l =
     (case lk_state l of
        LsOutOfService \<Rightarrow> (l, [])
      | LsNotAligned \<Rightarrow>
          if status \<in> {StAlignment, StProvingNormal, StProvingEmergency}
          then to_aligned enc status l else (l, [])
      | LsAligned \<Rightarrow>
          if status \<in> {StProvingNormal, StProvingEmergency} then to_proving status l
          else if status = StOutOfService then link_fail enc FlPeerStatus l
          else (l, [])
      | LsProving \<Rightarrow>
          (case status of
             StOutOfService \<Rightarrow> link_fail enc FlPeerStatus l
           | StAlignment \<Rightarrow> run
               [emit [AcStop LtT4, AcStop LtProving], upd (\<lambda>l. l\<lparr>lk_state := LsAligned\<rparr>),
                start_timer LtT3 (\<lambda>l. lt_t3 (lk_timers l))] l
           | StProvingEmergency \<Rightarrow>
               if \<not> lk_use_emergency l
               then run [upd (\<lambda>l. l\<lparr>lk_use_emergency := True\<rparr>), start_timer LtT4 link_t4] l
               else (l, [])
           | StReady \<Rightarrow> (l\<lparr>lk_peer_ready := True\<rparr>, [])
           | _ \<Rightarrow> (l, []))
      | LsAlignedReady \<Rightarrow>
          (case status of
             StReady \<Rightarrow> run [send_status enc StReady STATUS_STREAM, enter_service] l
           | StProcessorOutage \<Rightarrow> to_outage l
           | StAlignment \<Rightarrow> link_fail enc FlPeerStatus l
           | StOutOfService \<Rightarrow> link_fail enc FlPeerStatus l
           | _ \<Rightarrow> (l, []))
      | LsInService \<Rightarrow>
          (case status of
             StProcessorOutage \<Rightarrow> to_outage l
           | StBusy \<Rightarrow> on_busy l
           | StBusyEnded \<Rightarrow> on_busy_ended enc now l
           | StReady \<Rightarrow> fst (acknowledge enc bsn False now l)
           | StProcessorRecovered \<Rightarrow> (l, [])
           | _ \<Rightarrow> link_fail enc FlPeerStatus l)
      | LsProcessorOutage \<Rightarrow>
          (case status of
             StBusy \<Rightarrow> on_busy l
           | StBusyEnded \<Rightarrow> on_busy_ended enc now l
           | StProcessorRecovered \<Rightarrow> on_recovered enc bsn now l
           | StReady \<Rightarrow> (l, [])
           | StProcessorOutage \<Rightarrow> (l, [])
           | _ \<Rightarrow> link_fail enc FlPeerStatus l))"

definition accept_data :: "u32 \<Rightarrow> user_data \<Rightarrow> link \<Rightarrow> link \<times> action list" where
  "accept_data fsn message l =
     (if ud_is_empty message then (l, [])
      else if fsn AND SEQ_MASK \<noteq> (lk_fsn_in l + 1) AND SEQ_MASK
      then (l, [AcDiscarded DcRxOutOfSequence 1])
      else (l\<lparr>lk_fsn_in := fsn AND SEQ_MASK, lk_ack_due := True\<rparr>, [AcDeliver (ud_msu message)]))"

definition on_data :: "m2pa_encode \<Rightarrow> u32 \<Rightarrow> u32 \<Rightarrow> user_data \<Rightarrow> instant \<Rightarrow> link \<Rightarrow> link \<times> action list" where
  "on_data enc bsn fsn message now l =
     (if lk_state l = LsAlignedReady \<or> is_aligned l then run
        [(if lk_state l = LsAlignedReady then enter_service else emit []),
         (\<lambda>l. case acknowledge enc bsn True now l of
                ((l, out), proceed) \<Rightarrow>
                  if proceed then run [emit out, accept_data fsn message] l else (l, out))] l
      else (l, if ud_is_empty message then [] else [AcDiscarded DcRxNotInService 1]))"

definition flush_ack :: "m2pa_encode \<Rightarrow> link \<Rightarrow> link \<times> action list" where
  "flush_ack enc l =
     (if lk_ack_due l \<and> is_aligned l
      then (l\<lparr>lk_ack_due := False\<rparr>, [send_frame enc (EmptyUserData (lk_fsn_in l) (lk_fsn_out l)) DATA_STREAM None])
      else (l\<lparr>lk_ack_due := False\<rparr>, []))"

section \<open>The event interface\<close>

text \<open>Everything the runner of an association calls, as one step function.\<close>

datatype link_event =
    EvEstablished
  | EvStart
  | EvFail failure
  | EvSend octets
  | EvTimeout link_timer
  | EvStatus link_status u32
  | EvData u32 u32 user_data
  | EvFlushAck
  | EvRetrieve "u32 option"
  | EvDetach
  | EvAbandon

fun link_apply :: "m2pa_encode \<Rightarrow> instant \<Rightarrow> link_event \<Rightarrow> link \<Rightarrow> link \<times> action list" where
  "link_apply enc now EvEstablished l = link_established enc l"
| "link_apply enc now EvStart l = link_start enc l"
| "link_apply enc now (EvFail reason) l = link_fail enc reason l"
| "link_apply enc now (EvSend msu) l = link_send enc msu now l"
| "link_apply enc now (EvTimeout timer) l = link_timeout enc timer now l"
| "link_apply enc now (EvStatus status bsn) l = on_status enc status bsn now l"
| "link_apply enc now (EvData bsn fsn message) l = on_data enc bsn fsn message now l"
| "link_apply enc now EvFlushAck l = flush_ack enc l"
| "link_apply enc now (EvRetrieve fsnc) l = (fst (link_retrieve fsnc l), [])"
| "link_apply enc now EvDetach l = (fst (link_detach l), [])"
| "link_apply enc now EvAbandon l = (fst (link_abandon l), [])"

lemmas link_op_defs =
  link_established_def link_start_def link_fail_def link_send_def link_timeout_def on_status_def
  on_data_def flush_ack_def link_retrieve_def link_detach_def link_abandon_def
lemmas link_part_defs =
  enter_service_def to_aligned_def to_proving_def to_outage_def on_busy_def on_busy_ended_def
  on_recovered_def accept_data_def send_status_def start_timer_def keep_retrievable_def
  arm_t7_def restart_t7_def

section \<open>The sequence circle\<close>

text \<open>The number \<open>n\<close> places after \<open>a\<close> on the 24-bit circle.\<close>

definition seq_add :: "u32 \<Rightarrow> nat \<Rightarrow> u32" where
  "seq_add a n = take_bit 24 (a + of_nat n)"

definition masked :: "u32 \<Rightarrow> bool" where
  "masked a \<longleftrightarrow> take_bit 24 a = a"

lemma and_SEQ_MASK: "x AND SEQ_MASK = take_bit 24 x"
  by (simp add: SEQ_MASK_def take_bit_eq_mask mask_eq_exp_minus_1)

lemma take24_add: "take_bit 24 (take_bit 24 a + b) = take_bit 24 (a + b :: u32)"
  by transfer (simp add: take_bit_eq_mod mod_mod_cancel mod_simps)

lemma take24_diff_left: "take_bit 24 (take_bit 24 a - b) = take_bit 24 (a - b :: u32)"
  by transfer (simp add: take_bit_eq_mod mod_mod_cancel mod_simps)

lemma take24_diff_right: "take_bit 24 (a - take_bit 24 b) = take_bit 24 (a - b :: u32)"
  by transfer (simp add: take_bit_eq_mod mod_mod_cancel mod_simps)

lemma take24_add_right: "take_bit 24 (b + take_bit 24 a) = take_bit 24 (b + a :: u32)"
  using take24_add [of a b] by (simp add: add.commute)

lemma take24_of_nat: "n < 2 ^ 24 \<Longrightarrow> take_bit 24 (of_nat n :: u32) = of_nat n"
  by transfer (simp add: take_bit_eq_mod mod_mod_cancel mod_simps)

lemma take24_less: "unat (take_bit 24 (a :: u32)) < 2 ^ 24"
  by transfer (simp add: take_bit_eq_mod nat_less_iff)

lemma masked_take [simp]: "masked (take_bit 24 a)" "masked (seq_add a n)" "masked SEQ_MASK"
  by (simp_all add: masked_def seq_add_def SEQ_MASK_def)

lemma seq_distance_take: "seq_distance a b = take_bit 24 (b - a)"
  by (simp add: seq_distance_def and_SEQ_MASK)

lemma seq_distance_less: "unat (seq_distance a b) < 2 ^ 24"
  unfolding seq_distance_take by (rule take24_less)

lemma seq_add_0 [simp]: "masked a \<Longrightarrow> seq_add a 0 = a"
  by (simp add: seq_add_def masked_def)

lemma seq_add_add [simp]: "seq_add (seq_add a m) n = seq_add a (m + n)"
  by (simp add: seq_add_def take24_add add.assoc)

lemma seq_add_Suc: "(seq_add a n + 1) AND SEQ_MASK = seq_add a (Suc n)"
  unfolding seq_add_def and_SEQ_MASK take24_add by (simp add: ac_simps)

lemma seq_add_1: "(a + 1) AND SEQ_MASK = seq_add a 1"
  by (simp add: seq_add_def and_SEQ_MASK)

lemma seq_distance_add:
  assumes "m \<le> n" and "n - m < 2 ^ 24"
  shows "seq_distance (seq_add a m) (seq_add a n) = of_nat (n - m)"
proof -
  have "seq_distance (seq_add a m) (seq_add a n) = take_bit 24 (of_nat n - of_nat m)"
    by (simp add: seq_distance_take seq_add_def take24_diff_left take24_diff_right)
  also have "\<dots> = take_bit 24 (of_nat (n - m))" using assms(1) by (simp add: of_nat_diff)
  finally show ?thesis using take24_of_nat [OF assms(2)] by simp
qed

lemma seq_distance_back:
  assumes "m < n" and "n - m \<le> 2 ^ 24"
  shows "seq_distance (seq_add a n) (seq_add a m) = of_nat (2 ^ 24 - (n - m))"
proof -
  have wrap: "seq_add a m = seq_add a (m + 2 ^ 24)"
  proof -
    have "take_bit 24 (x + 2 ^ 24) = take_bit 24 x" for x :: u32
      by transfer (simp add: take_bit_eq_mod mod_mod_cancel mod_simps)
    from this [of "a + of_nat m"] show ?thesis by (simp add: seq_add_def add.assoc)
  qed
  have "seq_distance (seq_add a n) (seq_add a (m + 2 ^ 24)) = of_nat (m + 2 ^ 24 - n)"
    using assms by (intro seq_distance_add) auto
  also have "m + 2 ^ 24 - n = 2 ^ 24 - (n - m)" using assms by linarith
  finally show ?thesis by (simp only: wrap)
qed

lemma seq_distance_from:
  "n < 2 ^ 24 \<Longrightarrow> seq_distance a (seq_add a n) = of_nat n"
  by (simp add: seq_distance_take seq_add_def take24_diff_left take24_of_nat)

lemma unat_of_nat_24: "n \<le> 2 ^ 24 \<Longrightarrow> unat (of_nat n :: u32) = n"
  by (simp add: unat_of_nat take_bit_nat_eq_self)

lemma seq_add_distance: "masked b \<Longrightarrow> seq_add a (unat (seq_distance a b)) = b"
  by (simp add: seq_add_def seq_distance_take take24_add_right masked_def)

section \<open>The numbering invariant\<close>

text \<open>\<open>fsns\<close> are the consecutive sequence numbers after \<open>a\<close>.\<close>

definition fsns_from :: "u32 \<Rightarrow> u32 list \<Rightarrow> bool" where
  "fsns_from a fsns \<longleftrightarrow> fsns = map (\<lambda>i. seq_add a (Suc i)) [0..<length fsns]"

text \<open>
  The largest number of outstanding messages for which the two halves of the circle tell
  acknowledged messages from unacknowledged ones.
\<close>

definition WINDOW :: nat where
  "WINDOW = 8388607"

definition held_ok :: "retrievable \<Rightarrow> bool" where
  "held_ok r \<longleftrightarrow> masked (re_acked r) \<and> fsns_from (re_acked r) (map fst (re_unacked r))"

text \<open>
  The numbering invariant. While the link is not out of service its unacknowledged messages carry
  the consecutive numbers from the last one acknowledged to the last one sent; before it is
  aligned nothing is held; what a failure left behind is numbered the same way.
\<close>

definition link_core :: "link \<Rightarrow> bool" where
  "link_core l \<longleftrightarrow>
     masked (lk_fsn_in l) \<and> masked (lk_acked l) \<and>
     (lk_state l \<noteq> LsOutOfService \<longrightarrow>
        lk_fsn_out l = seq_add (lk_acked l) (length (lk_unacked l)) \<and>
        fsns_from (lk_acked l) (map un_fsn (lk_unacked l)) \<and>
        lk_retrievable l = None) \<and>
     (\<not> is_aligned l \<longrightarrow> lk_unacked l = [] \<and> lk_unsent l = [] \<and> \<not> lk_remote_busy l) \<and>
     length (lk_unsent l) \<le> lk_tx_queue l \<and>
     (\<forall>r. lk_retrievable l = Some r \<longrightarrow> held_ok r)"

text \<open>Messages wait only while the peer is busy or in processor outage.\<close>

definition link_ok :: "link \<Rightarrow> bool" where
  "link_ok l \<longleftrightarrow> link_core l \<and>
     (lk_unsent l \<noteq> [] \<longrightarrow> lk_state l = LsProcessorOutage \<or> lk_remote_busy l)"

lemma fsns_from_Nil [simp]: "fsns_from a []"
  by (simp add: fsns_from_def)

lemma fsns_from_single [simp]: "fsns_from a [f] \<longleftrightarrow> f = seq_add a (Suc 0)"
  by (simp add: fsns_from_def)

lemma fsns_from_snoc:
  "fsns_from a (fsns @ [f]) \<longleftrightarrow> fsns_from a fsns \<and> f = seq_add a (Suc (length fsns))"
  by (auto simp: fsns_from_def)

lemma fsns_from_nth: "fsns_from a fsns \<Longrightarrow> i < length fsns \<Longrightarrow> fsns ! i = seq_add a (Suc i)"
proof -
  assume f: "fsns_from a fsns" and i: "i < length fsns"
  have "fsns ! i = map (\<lambda>i. seq_add a (Suc i)) [0..<length fsns] ! i"
    using f unfolding fsns_from_def by (rule arg_cong)
  then show ?thesis using i by simp
qed

lemma fsns_from_iff:
  "fsns_from a fsns \<longleftrightarrow> (\<forall>i < length fsns. fsns ! i = seq_add a (Suc i))"
proof
  assume "\<forall>i < length fsns. fsns ! i = seq_add a (Suc i)"
  then show "fsns_from a fsns" unfolding fsns_from_def by (intro nth_equalityI) simp_all
qed (simp add: fsns_from_nth)

lemma fsns_from_drop:
  "fsns_from a fsns \<Longrightarrow> k \<le> length fsns \<Longrightarrow> fsns_from (seq_add a k) (drop k fsns)"
  by (simp add: fsns_from_iff)

lemma dropWhile_is_drop:
  assumes "k \<le> length xs" and "\<forall>i < k. P (xs ! i)" and "k < length xs \<longrightarrow> \<not> P (xs ! k)"
  shows "dropWhile P xs = drop k xs"
proof -
  have "takeWhile P xs = take k xs"
    using assms by (intro takeWhile_eq_take_P_nth) (auto simp: min_def split: if_splits)
  then show ?thesis using assms(1) by (simp add: dropWhile_eq_drop)
qed

lemma SEQ_HALF: "SEQ_MASK div 2 = of_nat WINDOW"
  by (simp add: SEQ_MASK_def WINDOW_def)

lemma of_nat_less_WINDOW: "n \<le> 2 ^ 24 \<Longrightarrow> (of_nat n :: u32) < of_nat WINDOW \<longleftrightarrow> n < WINDOW"
  by (simp add: word_less_nat_alt unat_of_nat take_bit_nat_eq_self WINDOW_def)

text \<open>The acknowledgement loop releases exactly the messages up to the received number.\<close>

lemma release_exact:
  assumes f: "fsns_from a (map un_fsn us)" and w: "length us \<le> WINDOW" and k: "k \<le> length us"
  shows "dropWhile (\<lambda>u. seq_distance (un_fsn u) (seq_add a k) < SEQ_MASK div 2) us = drop k us"
proof (rule dropWhile_is_drop)
  have fsn: "un_fsn (us ! i) = seq_add a (Suc i)" if "i < length us" for i
    using fsns_from_nth [OF f] that by simp
  have w24: "WINDOW + WINDOW < 2 ^ 24" by (simp add: WINDOW_def)
  show "\<forall>i < k. seq_distance (un_fsn (us ! i)) (seq_add a k) < SEQ_MASK div 2"
  proof (intro allI impI)
    fix i assume i: "i < k"
    have "un_fsn (us ! i) = seq_add a (Suc i)" using fsn i k by simp
    then have d: "seq_distance (un_fsn (us ! i)) (seq_add a k) = of_nat (k - Suc i)"
      using seq_distance_add [of "Suc i" k a] i k w w24 by simp
    show "seq_distance (un_fsn (us ! i)) (seq_add a k) < SEQ_MASK div 2"
      unfolding d SEQ_HALF using i k w w24 by (subst of_nat_less_WINDOW) auto
  qed
  show "k < length us \<longrightarrow> \<not> seq_distance (un_fsn (us ! k)) (seq_add a k) < SEQ_MASK div 2"
  proof
    assume k': "k < length us"
    then have "seq_distance (un_fsn (us ! k)) (seq_add a k) = of_nat (2 ^ 24 - 1)"
      using fsn [of k] seq_distance_back [of k "Suc k" a] by simp
    then show "\<not> seq_distance (un_fsn (us ! k)) (seq_add a k) < SEQ_MASK div 2"
      by (simp add: SEQ_HALF WINDOW_def)
  qed
qed (rule k)

text \<open>How far a received number is ahead of the last one acknowledged.\<close>

definition ack_step :: "link \<Rightarrow> u32 \<Rightarrow> nat" where
  "ack_step l bsn = unat (seq_distance (lk_acked l) (bsn AND SEQ_MASK))"

definition watch_down :: "bool \<Rightarrow> u8 \<Rightarrow> u8" where
  "watch_down strict w = (if strict then (if w = 0 then 0 else w - 1) else w)"

definition released :: "nat \<Rightarrow> link \<Rightarrow> link" where
  "released k l = l\<lparr>lk_acked := seq_add (lk_acked l) k, lk_unacked := drop k (lk_unacked l)\<rparr>"

lemma link_okD:
  assumes "link_ok l"
  shows "masked (lk_fsn_in l)" "masked (lk_acked l)"
    "lk_state l \<noteq> LsOutOfService \<Longrightarrow> lk_fsn_out l = seq_add (lk_acked l) (length (lk_unacked l))"
    "lk_state l \<noteq> LsOutOfService \<Longrightarrow> fsns_from (lk_acked l) (map un_fsn (lk_unacked l))"
    "lk_state l \<noteq> LsOutOfService \<Longrightarrow> lk_retrievable l = None"
    "\<not> is_aligned l \<Longrightarrow> lk_unacked l = []" "\<not> is_aligned l \<Longrightarrow> lk_unsent l = []"
    "\<not> is_aligned l \<Longrightarrow> \<not> lk_remote_busy l"
    "length (lk_unsent l) \<le> lk_tx_queue l"
    "lk_unsent l \<noteq> [] \<Longrightarrow> lk_state l = LsProcessorOutage \<or> lk_remote_busy l"
  using assms by (auto simp: link_ok_def link_core_def)

lemma outstanding_count:
  assumes "link_ok l" and "lk_state l \<noteq> LsOutOfService" and "length (lk_unacked l) \<le> WINDOW"
  shows "seq_distance (lk_acked l) (lk_fsn_out l) < seq_distance (lk_acked l) (bsn AND SEQ_MASK)
           \<longleftrightarrow> length (lk_unacked l) < ack_step l bsn"
proof -
  have "length (lk_unacked l) < 2 ^ 24" using assms(3) by (simp add: WINDOW_def)
  then show ?thesis
    using link_okD(3) [OF assms(1,2)] unat_of_nat_24 [of "length (lk_unacked l)"]
    by (simp add: seq_distance_from ack_step_def word_less_nat_alt)
qed

lemma acknowledge_abnormal:
  assumes "link_ok l" and "lk_state l \<noteq> LsOutOfService" and "length (lk_unacked l) \<le> WINDOW"
    and "length (lk_unacked l) < ack_step l bsn"
  shows "acknowledge enc bsn strict now l =
    (if strict then (run
       [emit [AcDiscarded DcRxAbnormalBsn 1],
        (if lk_bsn_watch l > 0 then link_fail enc FlAbnormalBsn
         else upd (\<lambda>l. l\<lparr>lk_bsn_watch := 2\<rparr>))] l, False)
     else ((l, []), True))"
  using outstanding_count [OF assms(1-3), of bsn] assms(4) by (simp add: acknowledge_def Let_def)

lemma acknowledge_normal:
  assumes "link_ok l" and "lk_state l \<noteq> LsOutOfService" and "length (lk_unacked l) \<le> WINDOW"
    and "ack_step l bsn \<le> length (lk_unacked l)"
  shows "acknowledge enc bsn strict now l =
    (let l1 = released (ack_step l bsn) (l\<lparr>lk_bsn_watch := watch_down strict (lk_bsn_watch l)\<rparr>)
     in ((l1, if 0 < ack_step l bsn \<and> lk_state l = LsInService \<and> \<not> lk_remote_busy l
              then snd (arm_t7 now l1) else []), True))"
proof -
  let ?k = "ack_step l bsn" and ?b = "bsn AND SEQ_MASK"
  have b: "?b = seq_add (lk_acked l) ?k"
    using seq_add_distance [of ?b "lk_acked l"] by (simp add: ack_step_def and_SEQ_MASK)
  have drop: "dropWhile (\<lambda>u. seq_distance (un_fsn u) ?b < SEQ_MASK div 2) (lk_unacked l) =
      drop ?k (lk_unacked l)"
    unfolding b using release_exact [OF link_okD(4) [OF assms(1,2)] assms(3,4)] .
  have pos: "0 < seq_distance (lk_acked l) ?b \<longleftrightarrow> 0 < ?k"
    by (simp add: ack_step_def word_less_nat_alt)
  have keep: "l\<lparr>lk_acked := seq_add (lk_acked l) 0, lk_unacked := drop 0 (lk_unacked l)\<rparr> = l"
    using link_okD(2) [OF assms(1)] by simp
  show ?thesis
    using outstanding_count [OF assms(1-3), of bsn] assms(4) drop pos keep b link_okD(2) [OF assms(1)]
    by (cases "?k = 0"; cases strict)
       (simp_all add: acknowledge_def Let_def released_def arm_t7_def watch_down_def)
qed

lemma link_fail_ok [inv_intros]: "link_ok l \<Longrightarrow> link_ok (fst (link_fail enc reason l))"
  by (auto simp: link_fail_def link_ok_def link_core_def held_ok_def keep_retrievable_def is_aligned_def
      send_status_def comp_def)

lemma released_ok:
  assumes "link_ok l" and "is_aligned l" and "k \<le> length (lk_unacked l)"
  shows "link_ok (released k (l\<lparr>lk_bsn_watch := w\<rparr>))"
proof -
  have s: "lk_state l \<noteq> LsOutOfService" using assms(2) by (auto simp: is_aligned_def)
  have f: "fsns_from (seq_add (lk_acked l) k) (map un_fsn (drop k (lk_unacked l)))"
    using fsns_from_drop [OF link_okD(4) [OF assms(1) s], of k] assms(3) by (simp add: drop_map)
  show ?thesis
    using assms s f link_okD(5) [OF assms(1) s] 
    by (simp add: link_ok_def link_core_def released_def is_aligned_def)
qed

lemma acknowledge_ok [inv_intros]:
  assumes "link_ok l" and "is_aligned l" and "length (lk_unacked l) \<le> WINDOW"
  shows "link_ok (fst (fst (acknowledge enc bsn strict now l)))"
proof -
  have s: "lk_state l \<noteq> LsOutOfService" using assms(2) by (auto simp: is_aligned_def)
  have watch: "link_ok (l\<lparr>lk_bsn_watch := w\<rparr>)" for w
    using assms(1) by (simp add: link_ok_def link_core_def is_aligned_def)
  show ?thesis
  proof (cases "ack_step l bsn \<le> length (lk_unacked l)")
    case True
    then show ?thesis
      using acknowledge_normal [OF assms(1) s assms(3)] released_ok [OF assms(1,2)]
      by (simp add: Let_def)
  next
    case False
    then show ?thesis
      using acknowledge_abnormal [OF assms(1) s assms(3)] link_fail_ok [OF assms(1)] watch assms(1)
      by (simp add: case_prod_beta)
  qed
qed

lemma transmit_core:
  assumes "link_core l" and "is_aligned l"
  shows "link_core (fst (transmit enc msu now l))"
proof -
  have s: "lk_state l \<noteq> LsOutOfService" using assms(2) by (auto simp: is_aligned_def)
  then have out: "lk_fsn_out l = seq_add (lk_acked l) (length (lk_unacked l))"
    using assms(1) by (simp add: link_core_def)
  have "(lk_fsn_out l + 1) AND SEQ_MASK = seq_add (lk_acked l) (Suc (length (lk_unacked l)))"
    unfolding out by (rule seq_add_Suc)
  then show ?thesis
    using assms s
    by (cases "enc (UserData (lk_fsn_in l) (seq_add (lk_acked l) (Suc (length (lk_unacked l)))) 0 msu)")
       (simp_all add: transmit_def Let_def link_core_def is_aligned_def fsns_from_snoc)
qed

lemma transmit_frame [simp]:
  "lk_state (fst (transmit enc msu now l)) = lk_state l"
  "lk_remote_busy (fst (transmit enc msu now l)) = lk_remote_busy l"
  "lk_tx_queue (fst (transmit enc msu now l)) = lk_tx_queue l"
  "lk_retrievable (fst (transmit enc msu now l)) = lk_retrievable l"
  "lk_fsn_in (fst (transmit enc msu now l)) = lk_fsn_in l"
  "lk_acked (fst (transmit enc msu now l)) = lk_acked l"
  "lk_timers (fst (transmit enc msu now l)) = lk_timers l"
  "is_aligned (fst (transmit enc msu now l)) = is_aligned l"
  by (simp_all add: transmit_def Let_def is_aligned_def split: option.splits)

lemma transmit_ok: "link_ok l \<Longrightarrow> is_aligned l \<Longrightarrow> link_ok (fst (transmit enc msu now l))"
  by (simp add: link_ok_def transmit_core)

lemma flush_unsent_Nil: "lk_unsent l = [] \<Longrightarrow> flush_unsent enc now l = (l, [])"
  by (simp add: flush_unsent.simps [of enc now l])

lemma flush_unsent_Cons:
  "lk_unsent l = msu # rest \<Longrightarrow>
   flush_unsent enc now l =
     (let sent = transmit enc msu now (l\<lparr>lk_unsent := rest\<rparr>);
          flushed = flush_unsent enc now (fst sent)
      in (fst flushed, snd sent @ snd flushed))"
  by (subst flush_unsent.simps) simp

text \<open>What every step of the loop keeps, the loop keeps.\<close>

lemma flush_unsent_keeps:
  assumes "P l"
    and "\<And>l msu rest. P l \<Longrightarrow> lk_unsent l = msu # rest \<Longrightarrow>
           P (fst (transmit enc msu now (l\<lparr>lk_unsent := rest\<rparr>)))"
  shows "P (fst (flush_unsent enc now l)) \<and> lk_unsent (fst (flush_unsent enc now l)) = []"
  using assms(1)
proof (induction "lk_unsent l" arbitrary: l)
  case Nil
  then show ?case by (simp add: flush_unsent_Nil)
next
  case (Cons msu rest)
  have "P (fst (transmit enc msu now (l\<lparr>lk_unsent := rest\<rparr>)))"
    using assms(2) [OF Cons.prems Cons.hyps(2) [symmetric]] .
  then have "P (fst (flush_unsent enc now (fst (transmit enc msu now (l\<lparr>lk_unsent := rest\<rparr>))))) \<and>
      lk_unsent (fst (flush_unsent enc now (fst (transmit enc msu now (l\<lparr>lk_unsent := rest\<rparr>))))) = []"
    using Cons.hyps(1) by simp
  then show ?case using flush_unsent_Cons [OF Cons.hyps(2) [symmetric]] by (simp add: Let_def)
qed

lemma flush_unsent_frame [simp]:
  "lk_state (fst (flush_unsent enc now l)) = lk_state l"
  "lk_remote_busy (fst (flush_unsent enc now l)) = lk_remote_busy l"
  "lk_unsent (fst (flush_unsent enc now l)) = []"
  "is_aligned (fst (flush_unsent enc now l)) = is_aligned l"
  using flush_unsent_keeps
    [of "\<lambda>l'. lk_state l' = lk_state l \<and> lk_remote_busy l' = lk_remote_busy l \<and> is_aligned l' = is_aligned l"
      l enc now]
  by (auto simp: is_aligned_def)

lemma flush_unsent_ok:
  assumes "link_core l" and "is_aligned l"
  shows "link_ok (fst (flush_unsent enc now l))"
proof -
  have step: "link_core (fst (transmit enc msu now (l\<lparr>lk_unsent := rest\<rparr>))) \<and>
      is_aligned (fst (transmit enc msu now (l\<lparr>lk_unsent := rest\<rparr>)))"
    if "link_core l \<and> is_aligned l" "lk_unsent l = msu # rest" for l msu rest
  proof -
    have "link_core (l\<lparr>lk_unsent := rest\<rparr>)" "is_aligned (l\<lparr>lk_unsent := rest\<rparr>)"
      using that by (auto simp: link_core_def is_aligned_def)
    then show ?thesis by (simp add: transmit_core)
  qed
  show ?thesis
    using flush_unsent_keeps [of "\<lambda>l. link_core l \<and> is_aligned l", OF _ step] assms
    by (simp add: link_ok_def)
qed

lemmas link_inv_defs = link_ok_def link_core_def is_aligned_def

lemma enter_service_ok:
  "link_ok l \<Longrightarrow> lk_state l = LsAlignedReady \<or> lk_state l = LsProving \<Longrightarrow>
   link_ok (fst (enter_service l)) \<and> lk_state (fst (enter_service l)) = LsInService \<and>
   lk_unacked (fst (enter_service l)) = lk_unacked l"
  by (auto simp: enter_service_def link_inv_defs)

lemma link_start_ok: "link_ok l \<Longrightarrow> link_ok (fst (link_start enc l))"
  by (auto simp: link_start_def link_abandon_def send_status_def start_timer_def link_inv_defs)

lemma link_send_ok: "link_ok l \<Longrightarrow> link_ok (fst (link_send enc msu now l))"
  using transmit_ok [of l enc msu now] by (auto simp: link_send_def link_inv_defs)

lemma link_timeout_ok:
  assumes "link_ok l"
  shows "link_ok (fst (link_timeout enc timer now l))"
proof -
  have "link_ok (fst (link_timeout enc timer now l))" if "lk_state l = LsProving"
  proof (cases timer)
    case LtT4
    have "link_ok (l\<lparr>lk_state := LsAlignedReady\<rparr>)" using assms that by (simp add: link_inv_defs)
    then show ?thesis
      using enter_service_ok [OF assms] that LtT4
      by (simp add: link_timeout_def send_status_def start_timer_def case_prod_beta)
  qed (use assms that in \<open>simp_all add: link_timeout_def send_status_def start_timer_def\<close>)
  moreover have "link_ok (fst (link_timeout enc timer now l))" if "lk_state l \<noteq> LsProving"
    using that assms link_fail_ok [OF assms]
    by (auto simp: link_timeout_def arm_t7_def split: link_timer.splits link_state.splits list.splits)
  ultimately show ?thesis by blast
qed

lemma on_busy_ended_ok:
  assumes "link_ok l" and "is_aligned l"
  shows "link_ok (fst (on_busy_ended enc now l))"
proof (cases "lk_remote_busy l")
  case True
  let ?u = "map (\<lambda>u. u\<lparr>un_sent_at := now\<rparr>) (lk_unacked l)"
  have f: "map un_fsn ?u = map un_fsn (lk_unacked l)" by simp
  have c: "link_core (l\<lparr>lk_remote_busy := False, lk_unacked := ?u\<rparr>)"
    using assms f by (simp add: link_inv_defs del: map_map)
  show ?thesis
  proof (cases "lk_state l = LsInService")
    case True
    then show ?thesis
      using flush_unsent_ok [OF c, of enc now] \<open>lk_remote_busy l\<close>
      by (simp add: on_busy_ended_def restart_t7_def is_aligned_def case_prod_beta)
  next
    case False
    then show ?thesis
      using assms by (auto simp: on_busy_ended_def link_inv_defs case_prod_beta)
  qed
qed (use assms in \<open>simp add: on_busy_ended_def\<close>)

lemma acknowledge_frame:
  assumes "acknowledge enc bsn False now l = ((l1, out), ok)"
  shows "lk_state l1 = lk_state l" "lk_remote_busy l1 = lk_remote_busy l" "lk_unsent l1 = lk_unsent l" ok
  using assms by (auto simp: acknowledge_def Let_def arm_t7_def split: if_splits)

lemma on_recovered_ok:
  assumes "link_ok l" and "lk_state l = LsProcessorOutage" and "length (lk_unacked l) \<le> WINDOW"
  shows "link_ok (fst (on_recovered enc bsn now l))"
proof -
  have a: "is_aligned l" using assms(2) by (simp add: is_aligned_def)
  obtain l1 o1 r where ack: "acknowledge enc bsn False now l = ((l1, o1), r)" by (metis prod.exhaust)
  have ok1: "link_ok l1" using acknowledge_ok [OF assms(1) a assms(3), of enc bsn False now] ack by simp
  define l2 where "l2 = l1\<lparr>lk_unacked := [], lk_fsn_out := lk_acked l1, lk_state := LsInService\<rparr>"
  have l2: "link_core l2" "is_aligned l2" "lk_remote_busy l2 \<Longrightarrow> link_ok l2"
    using ok1 assms(2) acknowledge_frame [OF ack] by (auto simp: l2_def link_inv_defs)
  have clear: "l1\<lparr>lk_fsn_out := lk_acked l1, lk_state := LsInService\<rparr> = l2" if "lk_unacked l1 = []"
    using that by (simp add: l2_def)
  then show ?thesis
    using l2 flush_unsent_ok [OF l2(1,2), of enc now] ack
    by (cases "lk_unacked l1 = []"; cases "lk_remote_busy l1")
       (simp_all add: on_recovered_def send_status_def case_prod_beta flip: l2_def,
        simp_all add: l2_def)
qed

lemma on_status_ok:
  assumes "link_ok l" and "length (lk_unacked l) \<le> WINDOW"
  shows "link_ok (fst (on_status enc status bsn now l))"
proof (cases "lk_state l")
  case LsInService
  then have a: "is_aligned l" by (simp add: is_aligned_def)
  show ?thesis
  proof (cases status)
    case StReady
    then show ?thesis
      using acknowledge_ok [OF assms(1) a assms(2), of enc bsn False now] LsInService
      by (simp add: on_status_def)
  qed (use assms(1) a LsInService link_fail_ok [OF assms(1)] on_busy_ended_ok [OF assms(1) a] in
      \<open>auto simp: on_status_def to_outage_def on_busy_def start_timer_def link_inv_defs\<close>)
next
  case LsProcessorOutage
  then have a: "is_aligned l" by (simp add: is_aligned_def)
  show ?thesis
    using assms(1) a LsProcessorOutage link_fail_ok [OF assms(1)] on_busy_ended_ok [OF assms(1) a]
      on_recovered_ok [OF assms(1) LsProcessorOutage assms(2)]
    by (cases status) (auto simp: on_status_def on_busy_def start_timer_def link_inv_defs)
next
  case LsAlignedReady
  then show ?thesis
    using assms(1) link_fail_ok [OF assms(1)] enter_service_ok [OF assms(1)]
    by (cases status) (auto simp: on_status_def send_status_def to_outage_def link_inv_defs case_prod_beta)
qed (use assms(1) link_fail_ok [OF assms(1)] in
    \<open>auto simp: on_status_def to_aligned_def to_proving_def send_status_def start_timer_def link_inv_defs
      split: link_status.splits\<close>)

lemma accept_data_ok: "link_ok l \<Longrightarrow> link_ok (fst (accept_data fsn message l))"
  by (auto simp: accept_data_def link_inv_defs and_SEQ_MASK)

lemma on_data_ok:
  assumes "link_ok l" and "length (lk_unacked l) \<le> WINDOW"
  shows "link_ok (fst (on_data enc bsn fsn message now l))"
proof (cases "lk_state l = LsAlignedReady \<or> is_aligned l")
  case True
  define l1 where "l1 = fst ((if lk_state l = LsAlignedReady then enter_service else emit []) l)"
  have l1: "link_ok l1" "is_aligned l1" "length (lk_unacked l1) \<le> WINDOW"
    using enter_service_ok [OF assms(1)] True assms by (auto simp: l1_def is_aligned_def)
  then have "link_ok (fst (fst (acknowledge enc bsn True now l1)))" by (intro acknowledge_ok)
  then show ?thesis
    using True accept_data_ok
    by (auto simp: on_data_def l1_def [symmetric] case_prod_beta split del: if_split)
       (auto simp: l1_def case_prod_beta accept_data_ok)
qed (use assms in \<open>simp add: on_data_def\<close>)

lemma link_ok_ack_due [simp]: "link_ok (l\<lparr>lk_ack_due := b\<rparr>) = link_ok l"
  by (simp add: link_inv_defs)

lemma link_ok_emptied: "link_ok l \<Longrightarrow> link_ok (l\<lparr>lk_retrievable := None\<rparr>)"
  by (auto simp: link_inv_defs)

lemma link_apply_ok [inv_intros]:
  assumes "link_ok l" and "length (lk_unacked l) \<le> WINDOW"
  shows "link_ok (fst (link_apply enc now ev l))"
proof (cases ev)
  case (EvStatus status bsn)
  then show ?thesis using on_status_ok [OF assms] by simp
next
  case (EvData bsn fsn message)
  then show ?thesis using on_data_ok [OF assms] by simp
qed (use assms(1) in \<open>simp_all add: link_start_ok link_fail_ok link_send_ok link_timeout_ok
      link_established_def send_status_def flush_ack_def link_retrieve_def link_detach_def
      link_abandon_def link_ok_emptied\<close>)

lemma link_new_ok: "link_ok (link_new timers prv tx_queue)"
  by (simp add: link_new_def link_inv_defs)

text \<open>The configuration of a link never changes.\<close>

definition same_config :: "link \<Rightarrow> link \<Rightarrow> bool" where
  "same_config l l' \<longleftrightarrow>
     lk_tx_queue l' = lk_tx_queue l \<and> lk_timers l' = lk_timers l \<and> lk_proving l' = lk_proving l"

lemma same_config_flush: "same_config l (fst (flush_unsent enc now l))"
  using flush_unsent_keeps [of "same_config l" l enc now]
  by (auto simp: same_config_def transmit_def Let_def split: option.splits)

lemma same_config_fail: "same_config l (fst (link_fail enc reason l))"
  by (simp add: same_config_def link_fail_def keep_retrievable_def send_status_def)

lemma same_config_trans: "same_config a b \<Longrightarrow> same_config b c \<Longrightarrow> same_config a c"
  by (simp add: same_config_def)

lemma same_config_ack: "same_config l (fst (fst (acknowledge enc bsn strict now l)))"
  using same_config_fail [of l enc FlAbnormalBsn]
  by (auto simp: same_config_def acknowledge_def Let_def arm_t7_def case_prod_beta)

lemma same_config_recovered: "same_config l (fst (on_recovered enc bsn now l))"
proof -
  let ?l1 = "fst (fst (acknowledge enc bsn False now l))"
  have "same_config ?l1 (fst (on_recovered enc bsn now l))"
    using same_config_flush
    by (auto simp: on_recovered_def send_status_def same_config_def case_prod_beta)
  then show ?thesis using same_config_ack same_config_trans by blast
qed

lemma same_config_busy_ended: "same_config l (fst (on_busy_ended enc now l))"
  using same_config_flush
  by (auto simp: on_busy_ended_def restart_t7_def same_config_def case_prod_beta)

lemma same_config_status: "same_config l (fst (on_status enc status bsn now l))"
proof (cases "lk_state l = LsInService \<or> lk_state l = LsProcessorOutage")
  case True
  then show ?thesis
    using same_config_fail same_config_ack same_config_recovered same_config_busy_ended
    by (cases status) (auto simp: on_status_def to_outage_def on_busy_def start_timer_def,
        auto simp: same_config_def)
next
  case False
  then show ?thesis
    using same_config_fail [of l enc FlPeerStatus]
    by (auto simp: on_status_def link_part_defs same_config_def split: link_status.splits link_state.splits)
qed

lemma same_config_data: "same_config l (fst (on_data enc bsn fsn message now l))"
proof -
  define l1 where "l1 = fst ((if lk_state l = LsAlignedReady then enter_service else emit []) l)"
  have "same_config l l1" by (simp add: l1_def enter_service_def same_config_def)
  then have "same_config l (fst (fst (acknowledge enc bsn True now l1)))"
    using same_config_ack same_config_trans by blast
  then show ?thesis
    by (cases "lk_state l = LsAlignedReady \<or> is_aligned l")
       (auto simp: on_data_def l1_def accept_data_def same_config_def case_prod_beta)
qed

lemma link_apply_config: "same_config l (fst (link_apply enc now ev l))"
proof (cases ev)
  case (EvTimeout timer)
  then show ?thesis
    using same_config_fail [of l enc]
    by (auto simp: link_timeout_def link_part_defs same_config_def
        split: link_timer.splits link_state.splits list.splits)
qed (simp_all add: same_config_status same_config_data same_config_fail,
     simp_all add: same_config_def link_established_def link_start_def link_send_def transmit_def Let_def
       flush_ack_def link_retrieve_def link_detach_def link_abandon_def send_status_def start_timer_def
       split: option.splits)

end
