(* ===== verification/M2pa_Correct.thy ===== *)
theory M2pa_Correct
  imports M2pa_Link
begin

unbundle bit_operations_syntax

text \<open>
  Correctness of the M2PA link (\<^verbatim>\<open>src/src/transport/m2pa/link.rs\<close>): the states a link can reach
  from \<open>link_new\<close> by any sequence of events, the invariants of those states, the timers that guard
  every waiting state, the alignment state machine as an abstract specification the link refines,
  acknowledgement, retrieval, and the conservation of messages.

  The numbering results assume that at most \<open>WINDOW\<close> messages are outstanding: the acknowledgement
  loop of the program compares distances with half the sequence circle, and with more messages
  outstanding the comparison cannot tell an old message from a new one.
\<close>

section \<open>Reachable links\<close>

inductive link_reachable :: "m2pa_encode \<Rightarrow> link_timers \<Rightarrow> proving \<Rightarrow> nat \<Rightarrow> link \<Rightarrow> bool"
  for enc timers prv tx_queue where
  reach_new: "link_reachable enc timers prv tx_queue (link_new timers prv tx_queue)"
| reach_step: "link_reachable enc timers prv tx_queue l \<Longrightarrow> length (lk_unacked l) \<le> WINDOW \<Longrightarrow>
    link_reachable enc timers prv tx_queue (fst (link_apply enc now ev l))"

lemma link_reachable_ok: "link_reachable enc timers prv tx_queue l \<Longrightarrow> link_ok l"
  by (induction rule: link_reachable.induct) (simp_all add: link_new_ok link_apply_ok)

text \<open>
  C4: in every reachable state the messages sent and not acknowledged carry consecutive forward
  sequence numbers, from the one after the last acknowledged to the last one sent; the messages
  waiting to be sent never exceed the configured queue; nothing is held before the link is aligned
  or after it failed; and messages wait only while the peer is busy or in processor outage.
\<close>

theorem link_numbering:
  assumes "link_reachable enc timers prv tx_queue l"
  shows "(lk_state l \<noteq> LsOutOfService \<longrightarrow>
            map un_fsn (lk_unacked l) = map (\<lambda>i. seq_add (lk_acked l) (Suc i)) [0..<length (lk_unacked l)] \<and>
            lk_fsn_out l = seq_add (lk_acked l) (length (lk_unacked l))) \<and>
         length (lk_unsent l) \<le> tx_queue \<and>
         (\<not> is_aligned l \<longrightarrow> lk_unacked l = [] \<and> lk_unsent l = []) \<and>
         (lk_unsent l \<noteq> [] \<longrightarrow> lk_state l = LsProcessorOutage \<or> lk_remote_busy l)"
proof -
  note ok = link_reachable_ok [OF assms]
  have q: "lk_tx_queue (fst (link_apply enc now ev l)) = lk_tx_queue l" for now ev l
    using link_apply_config [of l enc now ev] by (simp add: same_config_def)
  have "lk_tx_queue l = tx_queue"
    using assms by (induction rule: link_reachable.induct) (simp_all add: q link_new_def)
  then show ?thesis using ok by (auto simp: link_inv_defs fsns_from_def)
qed

text \<open>
  A sequence of events, all at instant 0, in which the number of outstanding messages stays
  within the window.
\<close>

fun link_events :: "m2pa_encode \<Rightarrow> link_event list \<Rightarrow> link \<Rightarrow> link" where
  "link_events enc [] l = l"
| "link_events enc (ev # evs) l = link_events enc evs (fst (link_apply enc 0 ev l))"

fun within_window :: "m2pa_encode \<Rightarrow> link_event list \<Rightarrow> link \<Rightarrow> bool" where
  "within_window enc [] l \<longleftrightarrow> True"
| "within_window enc (ev # evs) l \<longleftrightarrow>
     length (lk_unacked l) \<le> WINDOW \<and> within_window enc evs (fst (link_apply enc 0 ev l))"

lemma link_reachable_events:
  "link_reachable enc timers prv q l \<Longrightarrow> within_window enc evs l \<Longrightarrow>
   link_reachable enc timers prv q (link_events enc evs l)"
  by (induction evs arbitrary: l) (simp_all add: link_reachable.reach_step)

text \<open>A link driven into service by a peer that answers at once, then sending two MSUs.\<close>

definition sample_events :: "link_event list" where
  "sample_events = [EvStart, EvStatus StAlignment 0, EvStatus StProvingNormal 0, EvTimeout LtT4,
     EvStatus StReady 0, EvSend [1, 2], EvSend [3]]"

definition sample_enc :: m2pa_encode where
  "sample_enc m = Some []"

definition sample_link :: link where
  "sample_link = link_events sample_enc sample_events (link_new link_timers_default PvNormal 4)"

lemmas link_eval_defs =
  sample_enc_def sample_events_def link_new_def link_op_defs link_part_defs Let_def transmit_def
  SEQ_MASK_def link_timers_default_def is_aligned_def send_frame_def link_t4_def DATA_STREAM_def
  STATUS_STREAM_def WINDOW_def

lemma sample_link_value:
  "sample_link =
     \<lparr>lk_timers = link_timers_default, lk_proving = PvNormal, lk_tx_queue = 4,
      lk_state = LsInService, lk_use_emergency = False, lk_peer_ready = False, lk_fsn_out = 1,
      lk_fsn_in = 0xFFFFFF, lk_acked = 0xFFFFFF, lk_bsn_watch = 0, lk_remote_busy = False,
      lk_ack_due = False,
      lk_unacked = [\<lparr>un_fsn = 0, un_sent_at = 0, un_msu = [1, 2]\<rparr>, \<lparr>un_fsn = 1, un_sent_at = 0, un_msu = [3]\<rparr>],
      lk_unsent = [], lk_retrievable = None\<rparr>"
  by (simp add: sample_link_def link_eval_defs)

lemma sample_link_reachable: "link_reachable sample_enc link_timers_default PvNormal 4 sample_link"
  unfolding sample_link_def
  by (intro link_reachable_events link_reachable.reach_new) (simp add: link_eval_defs)

theorem link_numbering_witness:
  "map un_fsn (lk_unacked sample_link) = [seq_add 0xFFFFFF 1, seq_add 0xFFFFFF 2] \<and>
   lk_fsn_out sample_link = seq_add 0xFFFFFF 2 \<and> length (lk_unsent sample_link) \<le> 4"
  using link_numbering [OF sample_link_reachable]
  by (simp add: sample_link_value numeral_2_eq_2 upt_rec)

section \<open>Acknowledgement\<close>

text \<open>
  A received backward sequence number that is at most as far ahead as the messages
  outstanding releases exactly the messages up to it, oldest first, in order, and the rest stay
  numbered from it; a number further ahead releases nothing, and on User Data the second such
  number in three messages takes the link out of service.
\<close>

theorem acknowledge_exact:
  assumes "link_reachable enc timers prv tx_queue l" and "lk_state l \<noteq> LsOutOfService"
    and "length (lk_unacked l) \<le> WINDOW"
  shows "if ack_step l bsn \<le> length (lk_unacked l)
         then snd (acknowledge enc bsn strict now l) \<and>
              lk_unacked (fst (fst (acknowledge enc bsn strict now l))) =
                drop (ack_step l bsn) (lk_unacked l) \<and>
              lk_acked (fst (fst (acknowledge enc bsn strict now l))) = bsn AND SEQ_MASK
         else if \<not> strict then acknowledge enc bsn strict now l = ((l, []), True)
         else \<not> snd (acknowledge enc bsn strict now l) \<and>
              (if lk_bsn_watch l = 0
               then lk_unacked (fst (fst (acknowledge enc bsn strict now l))) = lk_unacked l \<and>
                    lk_bsn_watch (fst (fst (acknowledge enc bsn strict now l))) = 2
               else lk_state (fst (fst (acknowledge enc bsn strict now l))) = LsOutOfService)"
proof -
  note ok = link_reachable_ok [OF assms(1)]
  show ?thesis
  proof (cases "ack_step l bsn \<le> length (lk_unacked l)")
    case True
    have "seq_add (lk_acked l) (ack_step l bsn) = bsn AND SEQ_MASK"
      using seq_add_distance [of "bsn AND SEQ_MASK" "lk_acked l"] by (simp add: ack_step_def and_SEQ_MASK)
    then show ?thesis
      using True acknowledge_normal [OF ok assms(2,3) True, of enc strict now]
      by (simp add: Let_def released_def)
  next
    case False
    then show ?thesis
      using acknowledge_abnormal [OF ok assms(2,3), of bsn enc strict now] assms(2)
      by (cases strict; cases "lk_bsn_watch l = 0") (simp_all add: link_fail_def word_gt_0 case_prod_beta)
  qed
qed

theorem acknowledge_exact_witness:
  "lk_unacked (fst (fst (acknowledge sample_enc 0 True 0 sample_link))) =
     [\<lparr>un_fsn = 1, un_sent_at = 0, un_msu = [3]\<rparr>]"
proof -
  have s: "lk_state sample_link \<noteq> LsOutOfService" "length (lk_unacked sample_link) \<le> WINDOW"
    by (simp_all add: sample_link_value WINDOW_def)
  have "ack_step sample_link 0 = 1"
    by (simp add: ack_step_def seq_distance_def sample_link_value SEQ_MASK_def)
  then show ?thesis
    using acknowledge_exact [OF sample_link_reachable s, of 0 True 0] by (simp add: sample_link_value)
qed

section \<open>Timers guard every waiting state\<close>

text \<open>The deadlines the runner keeps: started timers are armed, stopped and expired ones are not.\<close>

fun arm :: "action \<Rightarrow> link_timer set \<Rightarrow> link_timer set" where
  "arm (AcStart t d) A = insert t A"
| "arm (AcStop t) A = A - {t}"
| "arm _ A = A"

definition arms :: "action list \<Rightarrow> link_timer set \<Rightarrow> link_timer set" where
  "arms acts A = fold arm acts A"

lemma arms_simps [simp]: "arms [] A = A" "arms (a # acts) A = arms acts (arm a A)"
  "arms (as1 @ as2) A = arms as2 (arms as1 A)"
  by (simp_all add: arms_def)

lemma arm_send_frame [simp]: "arm (send_frame enc m stream si) A = A"
  by (simp add: send_frame_def split: option.splits)

text \<open>An event is what the runner reports and when; a timer that runs out must have been armed.\<close>

fun link_fires :: "link_event \<times> instant \<Rightarrow> link_timer set" where
  "link_fires (EvTimeout t, now) = {t}"
| "link_fires _ = {}"

definition link_enabled :: "link_event \<times> instant \<Rightarrow> link \<Rightarrow> bool" where
  "link_enabled ev l \<longleftrightarrow> length (lk_unacked l) \<le> WINDOW"

definition link_step :: "m2pa_encode \<Rightarrow> link_event \<times> instant \<Rightarrow> link \<Rightarrow> link \<times> action list" where
  "link_step enc = (\<lambda>(ev, now). link_apply enc now ev)"

definition guarded :: "link \<Rightarrow> link_timer set \<Rightarrow> bool" where
  "guarded l A \<longleftrightarrow>
     (case lk_state l of
        LsOutOfService \<Rightarrow> A = {}
      | LsNotAligned \<Rightarrow> LtT2 \<in> A
      | LsAligned \<Rightarrow> LtT3 \<in> A
      | LsProving \<Rightarrow> LtT4 \<in> A \<and> LtProving \<in> A
      | LsAlignedReady \<Rightarrow> LtT1 \<in> A
      | LsInService \<Rightarrow> lk_unacked l \<noteq> [] \<longrightarrow> (if lk_remote_busy l then LtT6 else LtT7) \<in> A
      | LsProcessorOutage \<Rightarrow> lk_unacked l \<noteq> [] \<longrightarrow> lk_remote_busy l \<longrightarrow> LtT6 \<in> A)"

lemma link_fail_guarded:
  "lk_state l \<noteq> LsOutOfService \<Longrightarrow> guarded (fst (link_fail enc reason l)) (arms (snd (link_fail enc reason l)) A)"
proof -
  assume s: "lk_state l \<noteq> LsOutOfService"
  have "A - {LtT1} - {LtT2} - {LtT3} - {LtT4} - {LtT6} - {LtT7} - {LtProving} = {}"
    using link_timer.exhaust by auto
  then show ?thesis using s
    by (simp add: link_fail_def guarded_def link_timer_all_def send_status_def)
qed

lemma transmit_t7:
  assumes "lk_unacked l \<noteq> [] \<longrightarrow> LtT7 \<in> A"
  shows "lk_unacked (fst (transmit enc msu now l)) \<noteq> [] \<longrightarrow> LtT7 \<in> arms (snd (transmit enc msu now l)) A"
  using assms by (simp add: transmit_def Let_def split: option.splits)

lemma flush_unsent_t7:
  assumes "lk_unacked l \<noteq> [] \<longrightarrow> LtT7 \<in> A"
  shows "lk_unacked (fst (flush_unsent enc now l)) \<noteq> [] \<longrightarrow> LtT7 \<in> arms (snd (flush_unsent enc now l)) A"
  using assms
proof (induction "lk_unsent l" arbitrary: l A)
  case Nil
  then show ?case by (simp add: flush_unsent_Nil)
next
  case (Cons msu rest)
  let ?l = "l\<lparr>lk_unsent := rest\<rparr>"
  have "lk_unacked (fst (transmit enc msu now ?l)) \<noteq> [] \<longrightarrow> LtT7 \<in> arms (snd (transmit enc msu now ?l)) A"
    using Cons.prems by (intro transmit_t7) simp
  then show ?case
    using Cons.hyps(1) [of "fst (transmit enc msu now ?l)" "arms (snd (transmit enc msu now ?l)) A"]
      flush_unsent_Cons [OF Cons.hyps(2) [symmetric]]
    by (simp add: Let_def)
qed

lemma guarded_watch [simp]: "guarded (l\<lparr>lk_bsn_watch := w\<rparr>) A = guarded l A"
  by (cases "lk_state l") (simp_all add: guarded_def)

lemma guarded_retrievable [simp]: "guarded (l\<lparr>lk_retrievable := r\<rparr>) A = guarded l A"
  by (cases "lk_state l") (simp_all add: guarded_def)

lemma arm_t7_guards:
  "lk_unacked l \<noteq> [] \<Longrightarrow> LtT7 \<in> arms (snd (arm_t7 now l)) A"
  by (cases "lk_unacked l") (simp_all add: arm_t7_def)

lemma acknowledge_guarded:
  assumes "link_ok l" and "is_aligned l" and "length (lk_unacked l) \<le> WINDOW" and "guarded l A"
  shows "guarded (fst (fst (acknowledge enc bsn strict now l))) (arms (snd (fst (acknowledge enc bsn strict now l))) A)"
proof -
  have s: "lk_state l \<noteq> LsOutOfService" using assms(2) by (auto simp: is_aligned_def)
  show ?thesis
  proof (cases "ack_step l bsn \<le> length (lk_unacked l)")
    case True
    define l1 where "l1 = released (ack_step l bsn) (l\<lparr>lk_bsn_watch := watch_down strict (lk_bsn_watch l)\<rparr>)"
    have l1: "lk_state l1 = lk_state l" "lk_remote_busy l1 = lk_remote_busy l"
      "lk_unacked l1 \<noteq> [] \<Longrightarrow> lk_unacked l \<noteq> []"
      by (auto simp: l1_def released_def)
    have ack: "acknowledge enc bsn strict now l =
        ((l1, if 0 < ack_step l bsn \<and> lk_state l = LsInService \<and> \<not> lk_remote_busy l
              then snd (arm_t7 now l1) else []), True)"
      using acknowledge_normal [OF assms(1) s assms(3) True] by (simp add: l1_def Let_def)
    show ?thesis
    proof (cases "0 < ack_step l bsn \<and> lk_state l = LsInService \<and> \<not> lk_remote_busy l")
      case True
      then show ?thesis using l1 arm_t7_guards [of l1 now A] by (simp add: ack guarded_def)
    next
      case False
      then show ?thesis using l1 assms(2,4) unfolding ack by (auto simp: guarded_def is_aligned_def)
    qed
  next
    case False
    then show ?thesis
      using acknowledge_abnormal [OF assms(1) s assms(3), of bsn enc strict now] assms(4)
        link_fail_guarded [OF s, of enc FlAbnormalBsn A]
      by (cases strict; cases "lk_bsn_watch l = 0") (simp_all add: case_prod_beta)
  qed
qed

lemma busy_ended_guarded:
  assumes "is_aligned l" and "guarded l A"
  shows "guarded (fst (on_busy_ended enc now l)) (arms (snd (on_busy_ended enc now l)) A)"
proof (cases "lk_remote_busy l \<and> lk_state l = LsInService")
  case True
  define l1 where "l1 = fst (restart_t7 now (l\<lparr>lk_remote_busy := False\<rparr>))"
  define A1 where "A1 = arms (snd (restart_t7 now (l\<lparr>lk_remote_busy := False\<rparr>))) (A - {LtT6})"
  have "lk_unacked l1 \<noteq> [] \<longrightarrow> LtT7 \<in> A1" by (simp add: l1_def A1_def restart_t7_def)
  note t7 = flush_unsent_t7 [OF this, of enc now]
  have "lk_state l1 = LsInService" "\<not> lk_remote_busy l1" using True by (simp_all add: l1_def restart_t7_def)
  then show ?thesis
    using True t7 by (simp add: on_busy_ended_def guarded_def case_prod_beta flip: l1_def A1_def)
next
  case False
  then show ?thesis
    using assms by (auto simp: on_busy_ended_def guarded_def is_aligned_def)
qed

lemma recovered_guarded:
  assumes "link_ok l" and "lk_state l = LsProcessorOutage" and "length (lk_unacked l) \<le> WINDOW"
  shows "guarded (fst (on_recovered enc bsn now l)) (arms (snd (on_recovered enc bsn now l)) A)"
proof -
  obtain l1 o1 r where ack: "acknowledge enc bsn False now l = ((l1, o1), r)" by (metis prod.exhaust)
  define l2 where "l2 = l1\<lparr>lk_unacked := [], lk_fsn_out := lk_acked l1, lk_state := LsInService\<rparr>"
  have clear: "l1\<lparr>lk_fsn_out := lk_acked l1, lk_state := LsInService\<rparr> = l2" if "lk_unacked l1 = []"
    using that by (simp add: l2_def)
  have t7: "lk_unacked (fst (flush_unsent enc now l2)) \<noteq> [] \<longrightarrow>
      LtT7 \<in> arms (snd (flush_unsent enc now l2)) A'" for A'
    by (rule flush_unsent_t7) (simp add: l2_def)
  have s: "lk_state l2 = LsInService" "lk_unacked l2 = []" by (simp_all add: l2_def)
  have "lk_remote_busy l2 = lk_remote_busy l1" by (simp add: l2_def)
  then show ?thesis
    using t7 s clear ack
    by (cases "lk_unacked l1 = []"; cases "lk_remote_busy l1")
       (simp_all add: on_recovered_def send_status_def case_prod_beta guarded_def flip: l2_def)
qed

lemma on_status_guarded:
  assumes "link_ok l" and "length (lk_unacked l) \<le> WINDOW" and "guarded l A"
  shows "guarded (fst (on_status enc status bsn now l)) (arms (snd (on_status enc status bsn now l)) A)"
proof (cases "lk_state l")
  case LsOutOfService
  then show ?thesis using assms(3) by (simp add: on_status_def)
next
  case LsInService
  then have a: "is_aligned l" and s: "lk_state l \<noteq> LsOutOfService" by (simp_all add: is_aligned_def)
  show ?thesis
    using LsInService assms(3) link_fail_guarded [OF s, of enc FlPeerStatus A]
      busy_ended_guarded [OF a assms(3), of enc now]
      acknowledge_guarded [OF assms(1) a assms(2,3), of enc bsn False now]
    by (cases status) (auto simp: on_status_def to_outage_def on_busy_def start_timer_def,
        auto simp: guarded_def)
next
  case LsProcessorOutage
  then have a: "is_aligned l" and s: "lk_state l \<noteq> LsOutOfService" by (simp_all add: is_aligned_def)
  show ?thesis
    using LsProcessorOutage assms(3) link_fail_guarded [OF s, of enc FlPeerStatus A]
      busy_ended_guarded [OF a assms(3), of enc now] recovered_guarded [OF assms(1) LsProcessorOutage assms(2)]
    by (cases status) (auto simp: on_status_def on_busy_def start_timer_def, auto simp: guarded_def)
next
  case LsAlignedReady
  then have e: "lk_unacked l = []" "\<not> lk_remote_busy l" and s: "lk_state l \<noteq> LsOutOfService"
    using assms(1) by (auto simp: link_inv_defs)
  then show ?thesis
    using LsAlignedReady assms(3) link_fail_guarded [OF s, of enc FlPeerStatus A]
    by (cases status)
       (auto simp: on_status_def to_outage_def enter_service_def send_status_def, auto simp: guarded_def)
next
  case LsProving
  then have s: "lk_state l \<noteq> LsOutOfService" by simp
  show ?thesis
    using LsProving assms(3) link_fail_guarded [OF s, of enc FlPeerStatus A]
    by (cases status) (auto simp: on_status_def start_timer_def, auto simp: guarded_def)
qed (use assms(3) link_fail_guarded [of l enc FlPeerStatus A] in
    \<open>auto simp: on_status_def to_aligned_def to_proving_def send_status_def start_timer_def,
     auto simp: guarded_def\<close>)

lemma on_data_guarded:
  assumes "link_ok l" and "length (lk_unacked l) \<le> WINDOW" and "guarded l A"
  shows "guarded (fst (on_data enc bsn fsn message now l)) (arms (snd (on_data enc bsn fsn message now l)) A)"
proof (cases "lk_state l = LsAlignedReady \<or> is_aligned l")
  case True
  define r1 where "r1 = (if lk_state l = LsAlignedReady then enter_service else emit []) l"
  have l1: "link_ok (fst r1)" "is_aligned (fst r1)" "length (lk_unacked (fst r1)) \<le> WINDOW"
    using enter_service_ok [OF assms(1)] True assms by (auto simp: r1_def is_aligned_def)
  have g1: "guarded (fst r1) (arms (snd r1) A)"
    using assms
    by (cases "lk_state l = LsAlignedReady") (auto simp: r1_def enter_service_def guarded_def link_inv_defs)
  note ack = acknowledge_guarded [OF l1 g1, of enc bsn True now]
  have accept: "guarded (fst (accept_data fsn message l')) (arms (snd (accept_data fsn message l')) B)"
    if "guarded l' B" for l' B
    using that by (cases "lk_state l'") (simp_all add: accept_data_def guarded_def)
  show ?thesis
    using True ack accept [OF ack] by (simp add: on_data_def case_prod_beta flip: r1_def)
qed (use assms in \<open>simp add: on_data_def\<close>)

lemma link_send_guarded:
  "guarded l A \<Longrightarrow> guarded (fst (link_send enc msu now l)) (arms (snd (link_send enc msu now l)) A)"
  using transmit_t7 [of l A enc msu now] by (cases "lk_state l") (auto simp: link_send_def guarded_def)

lemma link_timeout_guarded:
  assumes "link_ok l" and "guarded l A"
  shows "guarded (fst (link_timeout enc t now l)) (arms (snd (link_timeout enc t now l)) (A - {t}))"
proof (cases "lk_state l")
  case LsInService
  then have s: "lk_state l \<noteq> LsOutOfService" by simp
  show ?thesis
    using LsInService assms(2) link_fail_guarded [OF s, of enc _ "A - {t}"]
    by (cases t; cases "lk_unacked l")
       (auto simp: link_timeout_def arm_t7_def, auto simp: guarded_def split: if_splits)
next
  case LsProving
  then show ?thesis
    using assms
    by (cases t)
       (auto simp: link_timeout_def enter_service_def send_status_def start_timer_def guarded_def link_inv_defs)
next
  case LsProcessorOutage
  then have s: "lk_state l \<noteq> LsOutOfService" by simp
  show ?thesis
    using LsProcessorOutage assms(2) link_fail_guarded [OF s, of enc FlT6 "A - {t}"]
    by (cases t) (auto simp: link_timeout_def, auto simp: guarded_def)
qed (use assms(2) link_fail_guarded [of l enc _ "A - {t}"] in
    \<open>cases t; auto simp: link_timeout_def guarded_def\<close>)+

lemma link_apply_guarded:
  assumes "link_ok l" and "length (lk_unacked l) \<le> WINDOW" and "guarded l A" and "\<And>t. ev \<noteq> EvTimeout t"
  shows "guarded (fst (link_apply enc now ev l)) (arms (snd (link_apply enc now ev l)) A)"
proof (cases ev)
  case EvStart
  show ?thesis
    using assms(1,3) EvStart
    by (auto simp: link_start_def link_abandon_def send_status_def start_timer_def, auto simp: guarded_def)
next
  case (EvFail reason)
  show ?thesis
    using assms(3) EvFail link_fail_guarded [of l enc reason A]
    by (cases "lk_state l = LsOutOfService") (simp_all add: link_fail_def)
next
  case EvFlushAck
  then show ?thesis using assms(3) by (cases "lk_state l") (simp_all add: flush_ack_def guarded_def)
next
  case (EvTimeout t)
  then show ?thesis using assms(4) by simp
qed (use assms(3) on_status_guarded [OF assms(1-3)] on_data_guarded [OF assms(1-3)] link_send_guarded in
    \<open>simp_all add: link_established_def send_status_def link_retrieve_def link_detach_def link_abandon_def\<close>)

interpretation link_clock: clocked_machine "link_step enc" arm link_fires link_enabled
  "\<lambda>l A. link_ok l \<and> guarded l A" for enc
proof
  fix l A e
  assume I: "link_ok l \<and> guarded l A" and w: "link_enabled e l" and "link_fires e \<subseteq> A"
  obtain ev now where e: "e = (ev, now)" by (cases e)
  have w': "length (lk_unacked l) \<le> WINDOW" using w by (simp add: link_enabled_def)
  have ok: "link_ok (fst (link_step enc e l))" using I w' by (simp add: link_step_def e link_apply_ok)
  have "guarded (fst (link_step enc e l)) (arms (snd (link_step enc e l)) (A - link_fires e))"
  proof (cases "\<exists>t. ev = EvTimeout t")
    case True
    then show ?thesis using I link_timeout_guarded by (auto simp: link_step_def e)
  next
    case False
    then have "link_fires e = {}" by (cases ev) (simp_all add: e)
    then show ?thesis using I w' False link_apply_guarded by (simp add: link_step_def e)
  qed
  then show "link_ok (fst (link_step enc e l)) \<and>
      guarded (fst (link_step enc e l)) (fold arm (snd (link_step enc e l)) (A - link_fires e))"
    using ok by (simp add: arms_def)
qed

text \<open>
  No waiting state is left without a clock. However the events arrive, while the link waits
  for its peer in an alignment state the timer of that state is armed; in service, while anything
  is unacknowledged, T7 is armed, or T6 if the peer is busy; and a link out of service has no timer
  running. The peer's silence always ends in a time-out.
\<close>

theorem link_never_unguarded:
  assumes "link_clock.reaches enc (link_new timers prv tx_queue) {} l A"
  shows "guarded l A"
proof -
  have "guarded (link_new timers prv tx_queue) {}" by (simp add: guarded_def link_new_def)
  then show ?thesis using link_clock.reaches_inv [OF assms] link_new_ok by blast
qed

theorem link_never_unguarded_witness:
  "guarded (fst (link_start sample_enc (link_new link_timers_default PvNormal 4))) {LtT2}"
proof -
  let ?l = "link_new link_timers_default PvNormal 4"
  have "link_clock.reaches sample_enc ?l {} (fst (link_step sample_enc (EvStart, 0) ?l))
      (fold arm (snd (link_step sample_enc (EvStart, 0) ?l)) ({} - link_fires (EvStart, 0)))"
    by (rule link_clock.reaches_once) (simp_all add: link_enabled_def link_new_def)
  note G = link_never_unguarded [OF this]
  have "fold arm (snd (link_step sample_enc (EvStart, 0) ?l)) ({} - link_fires (EvStart, 0)) = {LtT2}"
    by (simp add: link_step_def link_eval_defs)
  then show ?thesis using G by (simp add: link_step_def)
qed

text \<open>
  A time-out that finds its state still waiting ends the wait. Each alignment timer takes the
  link out of service with its own reason, except the end of proving, which completes it; T7 takes it
  out of service exactly when the oldest message has been unacknowledged for the whole period, and
  otherwise waits for the rest of it.
\<close>

theorem link_timeout_effect:
  "(lk_state l = LsNotAligned \<longrightarrow> link_timeout enc LtT2 now l = link_fail enc FlT2 l) \<and>
   (lk_state l = LsAligned \<longrightarrow> link_timeout enc LtT3 now l = link_fail enc FlT3 l) \<and>
   (lk_state l = LsProving \<longrightarrow> lk_state (fst (link_timeout enc LtT4 now l)) =
      (if lk_peer_ready l then LsInService else LsAlignedReady)) \<and>
   (lk_state l = LsAlignedReady \<longrightarrow> link_timeout enc LtT1 now l = link_fail enc FlT1 l) \<and>
   (is_aligned l \<and> lk_remote_busy l \<longrightarrow> link_timeout enc LtT6 now l = link_fail enc FlT6 l) \<and>
   (lk_state l = LsInService \<and> lk_unacked l \<noteq> [] \<longrightarrow>
      link_timeout enc LtT7 now l =
        (let due = un_sent_at (hd (lk_unacked l)) + lt_t7 (lk_timers l)
         in if due \<le> now \<or> lt_t7 (lk_timers l) = 0 then link_fail enc FlT7 l
            else (l, [AcStart LtT7 (due - now)]))) \<and>
   (lk_state l \<noteq> LsOutOfService \<longrightarrow>
      lk_state (fst (link_fail enc reason l)) = LsOutOfService \<and>
      last (snd (link_fail enc reason l)) = AcOutOfService reason)"
  by (auto simp: link_timeout_def enter_service_def send_status_def start_timer_def is_aligned_def
      arm_t7_def Let_def link_fail_def neq_Nil_conv)

theorem link_timeout_effect_witness:
  "link_timeout sample_enc LtT7 2500 sample_link = link_fail sample_enc FlT7 sample_link \<and>
   link_timeout sample_enc LtT7 1500 sample_link = (sample_link, [AcStart LtT7 500])"
proof -
  have s: "lk_state sample_link = LsInService \<and> lk_unacked sample_link \<noteq> []" by (simp add: sample_link_value)
  show ?thesis
    using s link_timeout_effect [of sample_link sample_enc 2500 FlT7]
      link_timeout_effect [of sample_link sample_enc 1500 FlT7]
    by (simp add: Let_def sample_link_value link_timers_default_def)
qed

section \<open>Retrieval for changeover\<close>

lemma filter_is_drop:
  assumes "\<And>i. i < length xs \<Longrightarrow> P (xs ! i) \<longleftrightarrow> k \<le> i" and "k \<le> length xs"
  shows "filter P xs = drop k xs" and "filter (\<lambda>x. \<not> P x) xs = take k xs"
proof -
  have t: "\<not> P x" if "x \<in> set (take k xs)" for x
    using that assms by (auto simp: in_set_conv_nth)
  have d: "P x" if "x \<in> set (drop k xs)" for x
    using that assms by (auto simp: in_set_conv_nth)
  have "filter P (take k xs @ drop k xs) = drop k xs" "filter (\<lambda>x. \<not> P x) (take k xs @ drop k xs) = take k xs"
    using t d by (auto simp del: append_take_drop_id simp: filter_empty_conv filter_id_conv)
  then show "filter P xs = drop k xs" "filter (\<lambda>x. \<not> P x) xs = take k xs" by simp_all
qed

lemma re_last_sent_seq:
  assumes "held_ok r"
  shows "re_last_sent r = seq_add (re_acked r) (length (re_unacked r))"
proof (cases "re_unacked r" rule: rev_cases)
  case Nil
  then show ?thesis using assms by (simp add: re_last_sent_def held_ok_def)
next
  case (snoc us u)
  then show ?thesis using assms by (simp add: re_last_sent_def held_ok_def fsns_from_snoc)
qed

text \<open>
  Retrieval splits what a failed link holds exactly at the number the far end last accepted.
  With a number the far end can have accepted, the messages up to it are confirmed and every later
  one is sent again, in order, before the ones never sent; with no number, or one that was not
  sent or is no longer held, only the messages never sent are, and the others are reported as
  unconfirmed. No message is duplicated or left out.
\<close>

theorem retrieve_exact:
  assumes "link_reachable enc timers prv tx_queue l" and "lk_retrievable l = Some r"
    and "length (re_unacked r) \<le> WINDOW"
  shows "re_retrieve (Some f) r =
      (let k = unat (seq_distance (re_acked r) (f AND SEQ_MASK))
       in if k \<le> length (re_unacked r)
          then \<lparr>rv_resend = drop k (map snd (re_unacked r)) @ re_unsent r, rv_confirmed = k,
                rv_unconfirmed = []\<rparr>
          else \<lparr>rv_resend = re_unsent r, rv_confirmed = 0, rv_unconfirmed = map snd (re_unacked r)\<rparr>) \<and>
    re_retrieve None r =
      \<lparr>rv_resend = re_unsent r, rv_confirmed = 0, rv_unconfirmed = map snd (re_unacked r)\<rparr>"
proof -
  let ?k = "unat (seq_distance (re_acked r) (f AND SEQ_MASK))" and ?n = "length (re_unacked r)"
  have ok: "held_ok r" using link_reachable_ok [OF assms(1)] assms(2) by (simp add: link_inv_defs)
  have n24: "?n < 2 ^ 24" using assms(3) by (simp add: WINDOW_def)
  have valid: "fsnc_valid r f \<longleftrightarrow> ?k \<le> ?n"
    using re_last_sent_seq [OF ok] seq_distance_from [OF n24] unat_of_nat_24 [of ?n] n24
    by (simp add: fsnc_valid_def word_le_nat_alt)
  have dist: "seq_distance (re_acked r) (fst (re_unacked r ! i)) = of_nat (Suc i)" if "i < ?n" for i
    using fsns_from_nth [of "re_acked r" "map fst (re_unacked r)" i] ok that n24
      seq_distance_from [of "Suc i" "re_acked r"] by (simp add: held_ok_def)
  have later: "seq_distance (re_acked r) (f AND SEQ_MASK) < seq_distance (re_acked r) (fst (re_unacked r ! i))
      \<longleftrightarrow> ?k \<le> i" if "i < ?n" for i
    unfolding dist [OF that] using unat_of_nat_24 [of "Suc i"] that n24
    by (simp add: word_less_nat_alt less_Suc_eq_le del: of_nat_Suc)
  show ?thesis
  proof (cases "?k \<le> ?n")
    case True
    note split = filter_is_drop [of "re_unacked r"
        "\<lambda>u. seq_distance (re_acked r) (f AND SEQ_MASK) < seq_distance (re_acked r) (fst u)" ?k, OF later True]
    show ?thesis
      using True valid split by (simp add: re_retrieve_def Let_def case_prod_beta' drop_map)
  next
    case False
    then show ?thesis using valid by (simp add: re_retrieve_def)
  qed
qed

theorem retrieve_exact_witness:
  "re_retrieve (Some 0) (the (lk_retrievable (fst (link_apply sample_enc 0 (EvFail FlT7) sample_link)))) =
     \<lparr>rv_resend = [[3]], rv_confirmed = 1, rv_unconfirmed = []\<rparr>"
proof -
  let ?l = "fst (link_apply sample_enc 0 (EvFail FlT7) sample_link)"
  let ?r = "\<lparr>re_bsnt = 0xFFFFFF, re_acked = 0xFFFFFF, re_unacked = [(0, [1, 2]), (1, [3])], re_unsent = []\<rparr>"
  have reach: "link_reachable sample_enc link_timers_default PvNormal 4 ?l"
    by (rule link_reachable.reach_step [OF sample_link_reachable]) (simp add: sample_link_value WINDOW_def)
  have held: "lk_retrievable ?l = Some ?r"
    by (simp add: sample_link_value link_fail_def keep_retrievable_def send_status_def)
  have "unat (seq_distance 0xFFFFFF (0 AND SEQ_MASK)) = 1" by (simp add: seq_distance_def SEQ_MASK_def)
  then show ?thesis
    using retrieve_exact [OF reach held, of 0] unfolding held by (simp add: WINDOW_def)
qed

section \<open>Conservation of messages\<close>

definition held :: "link \<Rightarrow> nat" where
  "held l = length (lk_unacked l) + length (lk_unsent l) +
     (case lk_retrievable l of None \<Rightarrow> 0 | Some r \<Rightarrow> re_len r)"

text \<open>Messages for transmission that an action reports as not carried.\<close>

fun tx_lost :: "action \<Rightarrow> nat" where
  "tx_lost (AcDiscarded DcTxNotInService n) = n"
| "tx_lost (AcDiscarded DcTxCongestion n) = n"
| "tx_lost (AcDiscarded DcTxLostOnFailure n) = n"
| "tx_lost (AcDiscarded DcTxFlushedByPeer n) = n"
| "tx_lost _ = 0"

definition tx_losses :: "action list \<Rightarrow> nat" where
  "tx_losses acts = sum_list (map tx_lost acts)"

text \<open>Messages an event acknowledges: the ones its backward sequence number covers.\<close>

definition covered :: "link \<Rightarrow> u32 \<Rightarrow> nat" where
  "covered l bsn = (if ack_step l bsn \<le> length (lk_unacked l) then ack_step l bsn else 0)"

fun acked_by :: "link_event \<Rightarrow> link \<Rightarrow> nat" where
  "acked_by (EvData bsn fsn message) l = (if is_aligned l then covered l bsn else 0)"
| "acked_by (EvStatus status bsn) l =
     (if status = StReady \<and> lk_state l = LsInService \<or>
         status = StProcessorRecovered \<and> lk_state l = LsProcessorOutage then covered l bsn else 0)"
| "acked_by _ l = 0"

fun offered :: "link_event \<Rightarrow> nat" where
  "offered (EvSend msu) = 1"
| "offered _ = 0"

definition balanced :: "nat \<Rightarrow> link \<Rightarrow> link \<times> action list \<Rightarrow> bool" where
  "balanced gone l r \<longleftrightarrow> held (fst r) + tx_losses (snd r) + gone = held l"

lemma tx_losses_simps [simp]: "tx_losses [] = 0" "tx_losses (a # acts) = tx_lost a + tx_losses acts"
  "tx_losses (as1 @ as2) = tx_losses as1 + tx_losses as2"
  by (simp_all add: tx_losses_def)

lemma tx_lost_send_frame [simp]: "tx_lost (send_frame enc m stream si) = 0"
  by (simp add: send_frame_def split: option.splits)

lemma link_fail_balanced: "link_ok l \<Longrightarrow> balanced 0 l (link_fail enc reason l)"
  by (simp add: balanced_def link_fail_def keep_retrievable_def held_def re_len_def link_inv_defs
      link_timer_all_def send_status_def)

lemma transmit_held:
  assumes "enc (UserData (lk_fsn_in l) ((lk_fsn_out l + 1) AND SEQ_MASK) 0 msu) \<noteq> None"
  shows "held (fst (transmit enc msu now l)) + tx_losses (snd (transmit enc msu now l)) = Suc (held l)"
  using assms by (auto simp: transmit_def Let_def held_def)

lemma flush_unsent_balanced:
  assumes "\<And>m. enc m \<noteq> None"
  shows "balanced 0 l (flush_unsent enc now l)"
proof (induction "lk_unsent l" arbitrary: l)
  case Nil
  then show ?case by (simp add: flush_unsent_Nil balanced_def)
next
  case (Cons msu rest)
  let ?l = "l\<lparr>lk_unsent := rest\<rparr>"
  have "balanced 0 (fst (transmit enc msu now ?l)) (flush_unsent enc now (fst (transmit enc msu now ?l)))"
    using Cons.hyps(1) by simp
  moreover have "Suc (held ?l) = held l" using Cons.hyps(2) [symmetric] by (simp add: held_def)
  ultimately show ?case
    using transmit_held [of enc ?l msu now] assms flush_unsent_Cons [OF Cons.hyps(2) [symmetric]]
    by (simp add: Let_def balanced_def)
qed

lemma acknowledge_balanced:
  assumes "link_ok l" and "is_aligned l" and "length (lk_unacked l) \<le> WINDOW"
  shows "balanced (covered l bsn) l (fst (acknowledge enc bsn strict now l))"
proof -
  have s: "lk_state l \<noteq> LsOutOfService" using assms(2) by (auto simp: is_aligned_def)
  have t7: "tx_losses (snd (arm_t7 now l')) = 0" for l' by (simp add: arm_t7_def split: list.splits)
  show ?thesis
  proof (cases "ack_step l bsn \<le> length (lk_unacked l)")
    case True
    then show ?thesis
      using acknowledge_normal [OF assms(1) s assms(3) True] t7
      by (simp add: balanced_def covered_def held_def released_def Let_def)
  next
    case False
    then show ?thesis
      using acknowledge_abnormal [OF assms(1) s assms(3), of bsn enc strict now] link_fail_balanced [OF assms(1)]
      by (cases strict; cases "lk_bsn_watch l = 0")
         (simp_all add: balanced_def covered_def held_def case_prod_beta)
  qed
qed

lemma recovered_balanced:
  assumes "link_ok l" and "lk_state l = LsProcessorOutage" and "length (lk_unacked l) \<le> WINDOW"
    and "\<And>m. enc m \<noteq> None"
  shows "balanced (covered l bsn) l (on_recovered enc bsn now l)"
proof -
  obtain l1 o1 r where ack: "acknowledge enc bsn False now l = ((l1, o1), r)" by (metis prod.exhaust)
  have b: "balanced (covered l bsn) l (l1, o1)"
    using acknowledge_balanced [OF assms(1) _ assms(3), of bsn enc False now] assms(2) ack by (simp add: is_aligned_def)
  define l2 where "l2 = l1\<lparr>lk_unacked := [], lk_fsn_out := lk_acked l1, lk_state := LsInService\<rparr>"
  have clear: "l1\<lparr>lk_fsn_out := lk_acked l1, lk_state := LsInService\<rparr> = l2" if "lk_unacked l1 = []"
    using that by (simp add: l2_def)
  have h2: "held l2 + length (lk_unacked l1) = held l1" by (simp add: l2_def held_def)
  have f: "balanced 0 l2 (flush_unsent enc now l2)" by (rule flush_unsent_balanced [OF assms(4)])
  have "lk_remote_busy l2 = lk_remote_busy l1" by (simp add: l2_def)
  then show ?thesis
    using b h2 f clear ack
    by (cases "lk_unacked l1 = []"; cases "lk_remote_busy l1")
       (simp_all add: on_recovered_def send_status_def case_prod_beta balanced_def flip: l2_def)
qed

lemma busy_ended_balanced:
  assumes "\<And>m. enc m \<noteq> None"
  shows "balanced 0 l (on_busy_ended enc now l)"
proof (cases "lk_remote_busy l \<and> lk_state l = LsInService")
  case True
  define r1 where "r1 = restart_t7 now (l\<lparr>lk_remote_busy := False\<rparr>)"
  have "balanced 0 (fst r1) (flush_unsent enc now (fst r1))" by (rule flush_unsent_balanced [OF assms])
  moreover have "held (fst r1) = held l" "tx_losses (snd r1) = 0" by (simp_all add: r1_def restart_t7_def held_def)
  ultimately show ?thesis
    using True by (simp add: on_busy_ended_def balanced_def case_prod_beta flip: r1_def)
next
  case False
  then show ?thesis by (auto simp: on_busy_ended_def balanced_def held_def)
qed

lemma on_status_balanced:
  assumes "link_ok l" and "length (lk_unacked l) \<le> WINDOW" and "\<And>m. enc m \<noteq> None"
  shows "balanced (acked_by (EvStatus status bsn) l) l (on_status enc status bsn now l)"
proof (cases "lk_state l = LsInService \<or> lk_state l = LsProcessorOutage")
  case True
  then have a: "is_aligned l" by (simp add: is_aligned_def)
  show ?thesis
    using True link_fail_balanced [OF assms(1), of enc FlPeerStatus] busy_ended_balanced [of enc l now, OF assms(3)]
      acknowledge_balanced [OF assms(1) a assms(2), of bsn enc False now]
      recovered_balanced [of l enc bsn now, OF assms(1) _ assms(2,3)]
    by (cases status) (auto simp: on_status_def to_outage_def on_busy_def start_timer_def,
        auto simp: balanced_def held_def)
next
  case False
  then show ?thesis
    using link_fail_balanced [OF assms(1), of enc FlPeerStatus]
    by (cases "lk_state l"; cases status)
       (simp_all add: on_status_def to_aligned_def to_proving_def enter_service_def to_outage_def
         send_status_def start_timer_def,
        simp_all add: balanced_def held_def)
qed

lemma on_data_balanced:
  assumes "link_ok l" and "length (lk_unacked l) \<le> WINDOW"
  shows "balanced (acked_by (EvData bsn fsn message) l) l (on_data enc bsn fsn message now l)"
proof (cases "lk_state l = LsAlignedReady \<or> is_aligned l")
  case True
  define r1 where "r1 = (if lk_state l = LsAlignedReady then enter_service else emit []) l"
  have l1: "link_ok (fst r1)" "is_aligned (fst r1)" "length (lk_unacked (fst r1)) \<le> WINDOW"
    using enter_service_ok [OF assms(1)] True assms by (auto simp: r1_def is_aligned_def)
  have same: "held (fst r1) = held l" "tx_losses (snd r1) = 0"
    by (simp_all add: r1_def enter_service_def held_def)
  have cov: "covered (fst r1) bsn = acked_by (EvData bsn fsn message) l"
    using True assms(1)
    by (auto simp: r1_def enter_service_def covered_def ack_step_def link_inv_defs)
  have accept: "balanced 0 l' (accept_data fsn message l')" for l'
    by (simp add: balanced_def accept_data_def held_def)
  show ?thesis
    using True acknowledge_balanced [OF l1, of bsn enc True now] same
      accept [of "fst (fst (acknowledge enc bsn True now (fst r1)))"]
    unfolding cov [symmetric] by (auto simp: on_data_def balanced_def case_prod_beta simp flip: r1_def)
next
  case False
  then show ?thesis by (simp add: on_data_def balanced_def)
qed

lemma link_timeout_balanced:
  assumes "link_ok l"
  shows "balanced 0 l (link_timeout enc t now l)"
proof -
  have none: "balanced 0 l (l, [])" by (simp add: balanced_def)
  have t7: "balanced 0 l (arm_t7 now l)" by (simp add: balanced_def arm_t7_def split: list.splits)
  show ?thesis
    using none t7 link_fail_balanced [OF assms, of enc]
    by (cases t; cases "lk_state l")
       (auto simp: link_timeout_def split: list.splits,
        auto simp: balanced_def held_def enter_service_def send_status_def start_timer_def)
qed



section \<open>The alignment state machine\<close>

text \<open>
  Link state control as Q.703 draws it (Figures 8 and 9): the moves between states, each with the
  indications level 3 receives.
\<close>

inductive q703_step :: "link_state \<Rightarrow> action list \<Rightarrow> link_state \<Rightarrow> bool" where
  q703_start: "q703_step LsOutOfService [] LsNotAligned"
| q703_align: "q703_step LsNotAligned [] LsAligned"
| q703_prove: "q703_step LsAligned [] LsProving"
| q703_realign: "q703_step LsProving [] LsAligned"
| q703_proved: "q703_step LsProving [] LsAlignedReady"
| q703_serve: "s \<in> {LsProving, LsAlignedReady} \<Longrightarrow> q703_step s [AcInService] LsInService"
| q703_outage: "s \<in> {LsAlignedReady, LsInService} \<Longrightarrow> q703_step s [] LsProcessorOutage"
| q703_recover: "q703_step LsProcessorOutage [] LsInService"
| q703_fail: "s \<noteq> LsOutOfService \<Longrightarrow> q703_step s [AcOutOfService reason] LsOutOfService"
| q703_serve_fail: "q703_step LsAlignedReady [AcInService, AcOutOfService FlAbnormalBsn] LsOutOfService"
| q703_stay: "q703_step s [] s"

fun is_indication :: "action \<Rightarrow> bool" where
  "is_indication AcInService = True"
| "is_indication (AcOutOfService _) = True"
| "is_indication _ = False"

definition indications :: "action list \<Rightarrow> action list" where
  "indications acts = filter is_indication acts"

definition refines :: "link \<Rightarrow> link \<times> action list \<Rightarrow> bool" where
  "refines l r \<longleftrightarrow> q703_step (lk_state l) (indications (snd r)) (lk_state (fst r))"

lemma indications_simps [simp]: "indications [] = []"
  "indications (a # acts) = (if is_indication a then a # indications acts else indications acts)"
  "indications (as1 @ as2) = indications as1 @ indications as2"
  by (simp_all add: indications_def)

lemma is_indication_send_frame [simp]: "\<not> is_indication (send_frame enc m stream si)"
  by (simp add: send_frame_def split: option.splits)

lemma indications_transmit [simp]: "indications (snd (transmit enc msu now l)) = []"
  by (simp add: transmit_def Let_def split: option.splits)

lemma indications_flush [simp]: "indications (snd (flush_unsent enc now l)) = []"
proof (induction "lk_unsent l" arbitrary: l)
  case (Cons msu rest)
  then show ?case using flush_unsent_Cons [OF Cons.hyps(2) [symmetric]] by (simp add: Let_def)
qed (simp add: flush_unsent_Nil)

lemma indications_arm_t7 [simp]: "indications (snd (arm_t7 now l)) = []"
  by (simp add: arm_t7_def split: list.splits)

lemma link_fail_indicates:
  "lk_state l \<noteq> LsOutOfService \<Longrightarrow>
   indications (snd (link_fail enc reason l)) = [AcOutOfService reason] \<and>
   lk_state (fst (link_fail enc reason l)) = LsOutOfService"
  by (simp add: link_fail_def link_timer_all_def send_status_def)

lemma link_fail_refines: "refines l (link_fail enc reason l)"
  using link_fail_indicates [of l enc reason] q703_fail q703_stay
  by (cases "lk_state l = LsOutOfService") (simp_all add: refines_def link_fail_def)

text \<open>An acknowledgement keeps the state or takes the link out of service.\<close>

lemma acknowledge_indicates:
  "lk_state l \<noteq> LsOutOfService \<Longrightarrow>
   (let r = fst (acknowledge enc bsn strict now l) in
     (lk_state (fst r) = lk_state l \<and> indications (snd r) = []) \<or>
     (lk_state (fst r) = LsOutOfService \<and> indications (snd r) = [AcOutOfService FlAbnormalBsn] \<and>
      \<not> snd (acknowledge enc bsn strict now l)))"
  using link_fail_indicates [of l enc FlAbnormalBsn]
  by (auto simp: acknowledge_def Let_def case_prod_beta arm_t7_def split: list.splits)

lemma acknowledge_refines:
  "lk_state l \<noteq> LsOutOfService \<Longrightarrow> refines l (fst (acknowledge enc bsn strict now l))"
  using acknowledge_indicates [of l enc bsn strict now] q703_fail q703_stay
  by (auto simp: refines_def Let_def)

lemma recovered_refines:
  assumes "lk_state l = LsProcessorOutage"
  shows "refines l (on_recovered enc bsn now l)"
proof -
  obtain l1 o1 r where ack: "acknowledge enc bsn False now l = ((l1, o1), r)" by (metis prod.exhaust)
  have "indications o1 = []"
    using acknowledge_indicates [of l enc bsn False now] acknowledge_frame [OF ack] ack assms by simp
  then show ?thesis
    using ack assms q703_recover
    by (simp add: refines_def on_recovered_def send_status_def case_prod_beta)
qed

lemma on_status_refines: "refines l (on_status enc status bsn now l)"
proof (cases "lk_state l")
  case LsInService
  then have s: "lk_state l \<noteq> LsOutOfService" by simp
  have e: "refines l (on_busy_ended enc now l)"
    by (simp add: refines_def on_busy_ended_def restart_t7_def case_prod_beta q703_stay)
  show ?thesis
    using LsInService e link_fail_refines [of l enc FlPeerStatus] acknowledge_refines [OF s]
    by (cases status) (simp_all add: on_status_def,
        simp_all add: refines_def to_outage_def on_busy_def start_timer_def q703_step.intros)
next
  case LsProcessorOutage
  have e: "refines l (on_busy_ended enc now l)"
    by (simp add: refines_def on_busy_ended_def restart_t7_def case_prod_beta q703_stay)
  show ?thesis
    using LsProcessorOutage e link_fail_refines [of l enc FlPeerStatus] recovered_refines
    by (cases status) (simp_all add: on_status_def,
        simp_all add: refines_def on_busy_def start_timer_def q703_step.intros)
qed (use link_fail_refines [of l enc FlPeerStatus] in
    \<open>cases status; simp add: on_status_def;
     simp add: refines_def to_aligned_def to_proving_def enter_service_def to_outage_def send_status_def
       start_timer_def q703_step.intros\<close>)+

lemma on_data_refines: "refines l (on_data enc bsn fsn message now l)"
proof (cases "lk_state l = LsAlignedReady \<or> is_aligned l")
  case True
  define r1 where "r1 = (if lk_state l = LsAlignedReady then enter_service else emit []) l"
  have r1: "lk_state (fst r1) \<noteq> LsOutOfService"
    "lk_state l = LsAlignedReady \<Longrightarrow> indications (snd r1) = [AcInService] \<and> lk_state (fst r1) = LsInService"
    "lk_state l \<noteq> LsAlignedReady \<Longrightarrow> indications (snd r1) = [] \<and> lk_state (fst r1) = lk_state l"
    using True by (auto simp: r1_def enter_service_def is_aligned_def)
  have acc: "lk_state (fst (accept_data fsn message l')) = lk_state l'"
    "indications (snd (accept_data fsn message l')) = []" for l'
    by (simp_all add: accept_data_def)
  define a where "a = acknowledge enc bsn True now (fst r1)"
  have a: "(lk_state (fst (fst a)) = lk_state (fst r1) \<and> indications (snd (fst a)) = []) \<or>
      (lk_state (fst (fst a)) = LsOutOfService \<and> indications (snd (fst a)) = [AcOutOfService FlAbnormalBsn] \<and> \<not> snd a)"
    using acknowledge_indicates [OF r1(1), of enc bsn True now] by (simp add: Let_def a_def)
  have run: "on_data enc bsn fsn message now l =
      (if snd a then (fst (accept_data fsn message (fst (fst a))),
         snd r1 @ snd (fst a) @ snd (accept_data fsn message (fst (fst a))))
       else (fst (fst a), snd r1 @ snd (fst a)))"
    using True by (simp add: on_data_def case_prod_beta flip: r1_def a_def)
  show ?thesis
    using a r1 acc unfolding refines_def run
    by (cases "lk_state l = LsAlignedReady"; cases "snd a") (auto simp: q703_step.intros)
next
  case False
  then show ?thesis by (simp add: on_data_def refines_def q703_stay)
qed

lemma link_timeout_refines: "refines l (link_timeout enc t now l)"
  using link_fail_refines [of l enc]
  by (cases t; cases "lk_state l")
     (auto simp: link_timeout_def split: list.splits,
      auto simp: refines_def enter_service_def send_status_def start_timer_def arm_t7_def q703_step.intros
        split: list.splits)


text \<open>
  A processor outage reported while the link waits in Aligned Ready hides its entry
  into service: from Aligned Ready, Processor Outage followed by Processor Recovered brings the link
  to In Service without the in-service indication, which is the event that starts the signalling link
  test of level 3.
\<close>

theorem outage_hides_in_service:
  assumes "lk_state l = LsAlignedReady"
  shows "let (l1, out1) = on_status enc StProcessorOutage bsn now l;
             (l2, out2) = on_status enc StProcessorRecovered bsn now l1
         in lk_state l2 = LsInService \<and> AcInService \<notin> set (out1 @ out2)"
proof -
  define l1 where "l1 = fst (on_status enc StProcessorOutage bsn now l)"
  have o1: "AcInService \<notin> set (snd (on_status enc StProcessorOutage bsn now l))"
    and s1: "lk_state l1 = LsProcessorOutage"
    using assms by (simp_all add: l1_def on_status_def to_outage_def)
  have st: "lk_state (fst (on_status enc StProcessorRecovered bsn now l1)) = LsInService"
    using s1 by (simp add: on_status_def on_recovered_def send_status_def case_prod_beta)
  have "q703_step LsProcessorOutage (indications (snd (on_status enc StProcessorRecovered bsn now l1))) LsInService"
    using on_status_refines [of l1 enc StProcessorRecovered bsn now] s1 st by (simp add: refines_def)
  then have "indications (snd (on_status enc StProcessorRecovered bsn now l1)) = []"
    by (cases rule: q703_step.cases) auto
  then have "AcInService \<notin> set (snd (on_status enc StProcessorRecovered bsn now l1))"
    by (auto simp: indications_def filter_empty_conv)
  then show ?thesis using o1 st by (simp add: case_prod_beta l1_def)
qed

theorem outage_hides_in_service_witness:
  "let l = link_events sample_enc [EvStart, EvStatus StAlignment 0, EvStatus StProvingNormal 0, EvTimeout LtT4]
             (link_new link_timers_default PvNormal 4);
       (l1, out1) = on_status sample_enc StProcessorOutage 0xFFFFFF 0 l;
       (l2, out2) = on_status sample_enc StProcessorRecovered 0xFFFFFF 0 l1
   in lk_state l2 = LsInService \<and> AcInService \<notin> set (out1 @ out2)"
proof -
  let ?l = "link_events sample_enc [EvStart, EvStatus StAlignment 0, EvStatus StProvingNormal 0, EvTimeout LtT4]
             (link_new link_timers_default PvNormal 4)"
  have "lk_state ?l = LsAlignedReady" by (simp add: link_eval_defs)
  then show ?thesis unfolding Let_def by (rule outage_hides_in_service [unfolded Let_def])
qed

end
