(* ===== verification/M2pa_Changeover.thy ===== *)
theory M2pa_Changeover
  imports M2pa_Correct
begin

unbundle bit_operations_syntax

text \<open>
  What level 3 has one link do: the signalling link test of Q.707
  (\<^verbatim>\<open>src/src/transport/m2pa/slt.rs\<close>) and the traffic side of a link, with the buffers of changeover and
  changeback (\<^verbatim>\<open>src/src/transport/m2pa/traffic.rs\<close>). The last section joins the traffic side with the
  link: what a changeover sends again after a failure.
\<close>

section \<open>The signalling link test\<close>

datatype test_timer = TtT1 | TtT2

datatype test_action = TaSendTest | TaStart test_timer duration | TaStop test_timer | TaAvailable
  | TaAttemptFailed | TaFailed

datatype test_state = TsIdle | TsFirst | TsSecond | TsPassed

record link_test =
  te_t1 :: duration
  te_t2 :: duration
  te_state :: test_state
  te_available :: bool

definition test_new :: "duration \<Rightarrow> duration \<Rightarrow> link_test" where
  "test_new t1 t2 = \<lparr>te_t1 = t1, te_t2 = t2, te_state = TsIdle, te_available = False\<rparr>"

definition test_is_waiting :: "link_test \<Rightarrow> bool" where
  "test_is_waiting t \<longleftrightarrow> te_state t = TsFirst \<or> te_state t = TsSecond"

definition test_begin :: "link_test \<Rightarrow> link_test \<times> test_action list" where
  "test_begin t =
     (t\<lparr>te_available := False, te_state := TsFirst\<rparr>,
      [TaStop TtT2, TaSendTest, TaStart TtT1 (te_t1 t)])"

definition test_stop :: "link_test \<Rightarrow> link_test \<times> test_action list" where
  "test_stop t =
     (t\<lparr>te_state := TsIdle, te_available := False\<rparr>,
      if te_state t \<noteq> TsIdle then [TaStop TtT1, TaStop TtT2] else [])"

definition test_attempt_failed :: "link_test \<Rightarrow> link_test \<times> test_action list" where
  "test_attempt_failed t =
     (if te_state t = TsFirst
      then (t\<lparr>te_state := TsSecond\<rparr>, [TaAttemptFailed, TaSendTest, TaStart TtT1 (te_t1 t)])
      else (t\<lparr>te_state := TsIdle, te_available := False\<rparr>, [TaAttemptFailed, TaStop TtT1, TaFailed]))"

definition test_acknowledged :: "bool \<Rightarrow> link_test \<Rightarrow> link_test \<times> test_action list" where
  "test_acknowledged correct t =
     (if \<not> test_is_waiting t then (t, [])
      else if \<not> correct then test_attempt_failed t
      else (t\<lparr>te_state := TsPassed, te_available := True\<rparr>,
            [TaStop TtT1] @ (if \<not> te_available t then [TaAvailable] else []) @ [TaStart TtT2 (te_t2 t)]))"

definition test_timeout :: "test_timer \<Rightarrow> link_test \<Rightarrow> link_test \<times> test_action list" where
  "test_timeout timer t =
     (if timer = TtT1 \<and> test_is_waiting t then test_attempt_failed t
      else if timer = TtT2 \<and> te_state t = TsPassed
      then (t\<lparr>te_state := TsFirst\<rparr>, [TaSendTest, TaStart TtT1 (te_t1 t)])
      else (t, []))"

section \<open>The traffic side of a link\<close>

definition SI_LINK_TEST :: u8 where
  "SI_LINK_TEST = 1"

datatype traffic_state = TrClosed | TrHold | TrOpen

datatype offer = OfSend octets | OfHeld | OfDivert octets | OfFull

record diverted =
  dv_messages :: "octets list"
  dv_resent :: nat
  dv_confirmed :: nat
  dv_unconfirmed :: nat
  dv_link_tests :: nat

record link_traffic =
  tf_state :: traffic_state
  tf_held :: "octets list"
  tf_kept :: "retrievable option"
  tf_capacity :: nat

definition is_link_test :: "octets \<Rightarrow> bool" where
  "is_link_test msu = (case msu of [] \<Rightarrow> False | sio # _ \<Rightarrow> sio AND 0x0F = SI_LINK_TEST)"

definition traffic_new :: "nat \<Rightarrow> link_traffic" where
  "traffic_new capacity =
     \<lparr>tf_state = TrClosed, tf_held = [], tf_kept = None, tf_capacity = max capacity 1\<rparr>"

definition traffic_offer :: "octets \<Rightarrow> bool \<Rightarrow> link_traffic \<Rightarrow> link_traffic \<times> offer" where
  "traffic_offer msu in_service t =
     (if tf_state t = TrOpen \<and> in_service then (t, OfSend msu)
      else if tf_state t = TrClosed then (t, OfDivert msu)
      else if length (tf_held t) \<ge> tf_capacity t then (t, OfFull)
      else (t\<lparr>tf_held := tf_held t @ [msu]\<rparr>, OfHeld))"

definition traffic_hold :: "link_traffic \<Rightarrow> link_traffic" where
  "traffic_hold t = t\<lparr>tf_state := TrHold\<rparr>"

text \<open>How many messages of a failed link are lost when nothing retrieves them.\<close>

definition lost_with :: "retrievable \<Rightarrow> nat" where
  "lost_with left =
     (let all = re_retrieve None left
      in length (filter (\<lambda>msu. \<not> is_link_test msu) (rv_unconfirmed all @ rv_resend all)))"

definition traffic_failed :: "retrievable option \<Rightarrow> link_traffic \<Rightarrow> link_traffic \<times> nat" where
  "traffic_failed left t =
     (let carried = (tf_state t \<noteq> TrClosed);
          t1 = (if tf_state t = TrOpen then t\<lparr>tf_state := TrHold\<rparr> else t)
      in case left of
           None \<Rightarrow> (t1, 0)
         | Some left \<Rightarrow>
             if carried \<and> tf_kept t = None then (t1\<lparr>tf_kept := Some left\<rparr>, 0)
             else (t1, lost_with left))"

definition traffic_divert :: "u32 option \<Rightarrow> link_traffic \<Rightarrow> link_traffic \<times> diverted" where
  "traffic_divert fsnc t =
     (t\<lparr>tf_kept := None, tf_held := [], tf_state := TrClosed\<rparr>,
      case tf_kept t of
        None \<Rightarrow> \<lparr>dv_messages = tf_held t, dv_resent = 0, dv_confirmed = 0, dv_unconfirmed = 0, dv_link_tests = 0\<rparr>
      | Some kept \<Rightarrow>
          (let retrieval = re_retrieve fsnc kept;
               resend = filter (\<lambda>msu. \<not> is_link_test msu) (rv_resend retrieval)
           in \<lparr>dv_messages = resend @ tf_held t,
               dv_resent = length resend,
               dv_confirmed = rv_confirmed retrieval,
               dv_unconfirmed = length (filter (\<lambda>msu. \<not> is_link_test msu) (rv_unconfirmed retrieval)),
               dv_link_tests = length (filter is_link_test (rv_unconfirmed retrieval)) +
                 length (filter is_link_test (rv_resend retrieval))\<rparr>))"

definition traffic_open :: "link_traffic \<Rightarrow> link_traffic \<times> octets list \<times> nat" where
  "traffic_open t =
     (t\<lparr>tf_state := TrOpen, tf_kept := None, tf_held := []\<rparr>, tf_held t,
      case tf_kept t of None \<Rightarrow> 0 | Some kept \<Rightarrow> lost_with kept)"

section \<open>The test decides availability\<close>

datatype test_event = TeBegin | TeStop | TeAcknowledged bool | TeTimeout test_timer

fun test_apply :: "test_event \<Rightarrow> link_test \<Rightarrow> link_test \<times> test_action list" where
  "test_apply TeBegin t = test_begin t"
| "test_apply TeStop t = test_stop t"
| "test_apply (TeAcknowledged correct) t = test_acknowledged correct t"
| "test_apply (TeTimeout timer) t = test_timeout timer t"

fun test_arm :: "test_action \<Rightarrow> test_timer set \<Rightarrow> test_timer set" where
  "test_arm (TaStart t d) A = insert t A"
| "test_arm (TaStop t) A = A - {t}"
| "test_arm _ A = A"

text \<open>An event the runner can report: a timer runs out only if it was armed.\<close>

fun expired :: "test_event \<Rightarrow> test_timer set" where
  "expired (TeTimeout t) = {t}"
| "expired _ = {}"

lemmas test_defs = test_new_def test_is_waiting_def test_begin_def test_stop_def
  test_attempt_failed_def test_acknowledged_def test_timeout_def

definition test_clock_ok :: "link_test \<Rightarrow> test_timer set \<Rightarrow> bool" where
  "test_clock_ok t A \<longleftrightarrow>
     A = (case te_state t of TsIdle \<Rightarrow> {} | TsFirst \<Rightarrow> {TtT1} | TsSecond \<Rightarrow> {TtT1} | TsPassed \<Rightarrow> {TtT2}) \<and>
     (te_state t = TsPassed \<longrightarrow> te_available t) \<and> (te_state t = TsIdle \<longrightarrow> \<not> te_available t)"

interpretation test_clock: clocked_machine test_apply test_arm expired "\<lambda>_ _. True" test_clock_ok
proof
  fix t A e
  assume "test_clock_ok t A" and "expired e \<subseteq> A"
  then show "test_clock_ok (fst (test_apply e t)) (fold test_arm (snd (test_apply e t)) (A - expired e))"
    by (cases e; cases "te_state t") (auto simp: test_defs test_clock_ok_def)
qed

text \<open>
  The link test always has exactly the clock it needs and decides availability. While a test
  message is out only T1 runs, between tests only T2, and when the link is not tested neither;
  a passed test means the link is available, an idle one that it is not.
\<close>

theorem test_timers_exact:
  assumes "test_clock.reaches (test_new t1 t2) {} t A"
  shows "A = (case te_state t of TsIdle \<Rightarrow> {} | TsFirst \<Rightarrow> {TtT1} | TsSecond \<Rightarrow> {TtT1} | TsPassed \<Rightarrow> {TtT2}) \<and>
         (te_state t = TsPassed \<longrightarrow> te_available t) \<and> (te_state t = TsIdle \<longrightarrow> \<not> te_available t)"
proof -
  have "test_clock_ok (test_new t1 t2) {}" by (simp add: test_clock_ok_def test_new_def)
  then show ?thesis using test_clock.reaches_inv [OF assms] by (simp add: test_clock_ok_def)
qed

theorem test_timers_exact_witness:
  "fold test_arm (snd (test_apply TeBegin (test_new 5 9))) ({} - expired TeBegin) = {TtT1}"
proof -
  have "test_clock.reaches (test_new 5 9) {} (fst (test_apply TeBegin (test_new 5 9)))
      (fold test_arm (snd (test_apply TeBegin (test_new 5 9))) ({} - expired TeBegin))"
    by (rule test_clock.reaches_once) simp_all
  from test_timers_exact [OF this] show ?thesis by (simp add: test_begin_def)
qed

text \<open>
  Two strikes. Over any sequence of events a test is declared failed exactly when a repeat
  fails, that is when its two attempts failed one after the other; availability is announced
  exactly when a correct acknowledgement arrives on a link not yet available; and in between a
  first failure only repeats the test.
\<close>

theorem test_two_strikes:
  "(let strike = (test_is_waiting t \<and> (ev = TeAcknowledged False \<or> ev = TeTimeout TtT1)) in
     (TaFailed \<in> set (snd (test_apply ev t)) \<longleftrightarrow> strike \<and> te_state t = TsSecond) \<and>
     (TaAvailable \<in> set (snd (test_apply ev t)) \<longleftrightarrow>
        ev = TeAcknowledged True \<and> test_is_waiting t \<and> \<not> te_available t) \<and>
     (te_state (fst (test_apply ev t)) = TsSecond \<longleftrightarrow>
        strike \<and> te_state t = TsFirst \<or>
        te_state t = TsSecond \<and> ev \<noteq> TeBegin \<and> ev \<noteq> TeStop \<and> ev \<noteq> TeAcknowledged True \<and> \<not> strike))"
proof (cases ev)
  case (TeTimeout timer)
  then show ?thesis by (cases timer; cases "te_state t") (auto simp: test_defs Let_def)
qed (cases "te_state t"; auto simp: test_defs Let_def)+

section \<open>Buffers and changeover\<close>

definition traffic_ok :: "link_traffic \<Rightarrow> bool" where
  "traffic_ok t \<longleftrightarrow> 0 < tf_capacity t \<and> length (tf_held t) \<le> tf_capacity t \<and>
     (tf_state t = TrClosed \<longrightarrow> tf_held t = [] \<and> tf_kept t = None)"

datatype traffic_event = TrOffer octets bool | TrHoldNow | TrFailed "retrievable option" | TrDivert "u32 option" | TrOpenNow

fun traffic_apply :: "traffic_event \<Rightarrow> link_traffic \<Rightarrow> link_traffic" where
  "traffic_apply (TrOffer msu in_service) t = fst (traffic_offer msu in_service t)"
| "traffic_apply TrHoldNow t = traffic_hold t"
| "traffic_apply (TrFailed left) t = fst (traffic_failed left t)"
| "traffic_apply (TrDivert fsnc) t = fst (traffic_divert fsnc t)"
| "traffic_apply TrOpenNow t = fst (traffic_open t)"

lemma traffic_apply_ok: "traffic_ok t \<Longrightarrow> traffic_ok (traffic_apply ev t)"
  by (cases ev)
     (auto simp: traffic_ok_def traffic_offer_def traffic_hold_def traffic_failed_def traffic_divert_def
       traffic_open_def Let_def split: option.splits)

text \<open>
  The buffer of a link is bounded and closes clean. Whatever sequence of offers, holds,
  failures, diversions and openings a link sees, it never buffers more than its capacity, and a
  link that carries no traffic holds nothing and keeps nothing of a failure.
\<close>

theorem traffic_bounded:
  "let t = fold traffic_apply evs (traffic_new capacity)
   in length (tf_held t) \<le> max capacity 1 \<and>
      (if tf_state t = TrClosed then tf_held t = [] \<and> tf_kept t = None else True)"
proof -
  have cap: "tf_capacity (traffic_apply ev t) = tf_capacity t" for ev t
    by (cases ev) (auto simp: traffic_offer_def traffic_hold_def traffic_failed_def traffic_divert_def
        traffic_open_def Let_def split: option.splits)
  have "traffic_ok t \<Longrightarrow> traffic_ok (fold traffic_apply evs t) \<and>
      tf_capacity (fold traffic_apply evs t) = tf_capacity t" for t
    by (induction evs arbitrary: t) (simp_all add: traffic_apply_ok cap)
  moreover have "traffic_ok (traffic_new capacity)" by (simp add: traffic_ok_def traffic_new_def)
  ultimately have "traffic_ok (fold traffic_apply evs (traffic_new capacity)) \<and>
      tf_capacity (fold traffic_apply evs (traffic_new capacity)) = max capacity 1"
    by (metis link_traffic.select_convs(4) traffic_new_def)
  then show ?thesis by (simp add: traffic_ok_def Let_def)
qed

lemma offers_held:
  "tf_state t = TrHold \<Longrightarrow> length (tf_held t) + length msus \<le> tf_capacity t \<Longrightarrow>
   fold (\<lambda>msu t. fst (traffic_offer msu in_service t)) msus t = t\<lparr>tf_held := tf_held t @ msus\<rparr>"
  by (induction msus arbitrary: t) (auto simp: traffic_offer_def)

text \<open>
  C7: a changeover neither loses nor duplicates a message. When a link that carries traffic
  fails, and after that \<open>late\<close> messages arrive for it, the diversion that ends the changeover sends, in
  order: the messages sent after the number \<open>f\<close> the far end last accepted, the messages never sent,
  the messages buffered before and those that arrived since. The messages up to \<open>f\<close> are confirmed and
  not sent again; only signalling link tests, which are about the failed link, are left out.
\<close>

theorem changeover_exact:
  assumes "link_reachable enc timers prv tx_queue l" and "lk_state l \<noteq> LsOutOfService"
    and "length (lk_unacked l) \<le> WINDOW" and "ack_step l f \<le> length (lk_unacked l)"
    and "tf_state t = TrOpen" and "tf_kept t = None"
    and "length (tf_held t) + length late \<le> tf_capacity t"
  shows "let (l1, left) = link_detach (fst (link_fail enc reason l));
             (t1, lost) = traffic_failed left t;
             t2 = fold (\<lambda>msu t. fst (traffic_offer msu in_service t)) late t1;
             (t3, out) = traffic_divert (Some f) t2
         in lost = 0 \<and> dv_confirmed out = ack_step l f \<and> dv_unconfirmed out = 0 \<and>
            dv_messages out =
              filter (\<lambda>msu. \<not> is_link_test msu)
                (drop (ack_step l f) (map un_msu (lk_unacked l)) @ lk_unsent l) @ tf_held t @ late"
proof -
  define r where "r = \<lparr>re_bsnt = lk_fsn_in l, re_acked = lk_acked l,
         re_unacked = map (\<lambda>u. (un_fsn u, un_msu u)) (lk_unacked l), re_unsent = lk_unsent l\<rparr>"
  have left: "lk_retrievable (fst (link_fail enc reason l)) = Some r"
    using assms(2) by (simp add: link_fail_def keep_retrievable_def send_status_def r_def)
  have reach: "link_reachable enc timers prv tx_queue (fst (link_fail enc reason l))"
    using link_reachable.reach_step [OF assms(1,3), of 0 "EvFail reason"] by simp
  have "re_retrieve (Some f) r =
      \<lparr>rv_resend = drop (ack_step l f) (map snd (re_unacked r)) @ re_unsent r,
       rv_confirmed = ack_step l f, rv_unconfirmed = []\<rparr>"
    using retrieve_exact [OF reach left, of f] assms(3,4) by (simp add: r_def ack_step_def Let_def)
  then have rv: "re_retrieve (Some f) r =
      \<lparr>rv_resend = drop (ack_step l f) (map un_msu (lk_unacked l)) @ lk_unsent l,
       rv_confirmed = ack_step l f, rv_unconfirmed = []\<rparr>"
    by (simp add: r_def comp_def)
  have "fold (\<lambda>msu t. fst (traffic_offer msu in_service t)) late (t\<lparr>tf_state := TrHold, tf_kept := Some r\<rparr>) =
      t\<lparr>tf_state := TrHold, tf_kept := Some r, tf_held := tf_held t @ late\<rparr>"
    using offers_held [of "t\<lparr>tf_state := TrHold, tf_kept := Some r\<rparr>" late in_service] assms(7) by simp
  then show ?thesis
    using assms(5,6) left rv
    by (simp add: link_detach_def traffic_failed_def traffic_divert_def Let_def)
qed

theorem changeover_exact_witness:
  "dv_messages (snd (traffic_divert (Some 0) (fst (traffic_failed
     (snd (link_detach (fst (link_fail sample_enc FlT7 sample_link))))
     \<lparr>tf_state = TrOpen, tf_held = [[9]], tf_kept = None, tf_capacity = 4\<rparr>)))) = [[3], [9]]"
proof -
  let ?t = "\<lparr>tf_state = TrOpen, tf_held = [[9]], tf_kept = None, tf_capacity = 4\<rparr>"
  have s: "lk_state sample_link \<noteq> LsOutOfService" "length (lk_unacked sample_link) \<le> WINDOW"
    by (simp_all add: sample_link_value WINDOW_def)
  have k: "ack_step sample_link 0 = 1"
    by (simp add: ack_step_def seq_distance_def sample_link_value SEQ_MASK_def)
  have "ack_step sample_link 0 \<le> length (lk_unacked sample_link)"
    unfolding k by (simp add: sample_link_value)
  note C = changeover_exact [OF sample_link_reachable s this, of ?t "[]" FlT7 True]
  show ?thesis
    using C by (simp add: k Let_def case_prod_beta) (simp add: sample_link_value is_link_test_def SI_LINK_TEST_def)
qed

text \<open>
  The \<^verbatim>\<open>resent\<close> count of a diversion counts every message that came from the failed link's
  buffers, the ones that were never sent on it included.
\<close>

theorem diverted_resent_count:
  assumes "tf_kept t = Some kept"
  shows "dv_resent (snd (traffic_divert None t)) = length (filter (\<lambda>msu. \<not> is_link_test msu) (re_unsent kept))"
  using assms by (simp add: traffic_divert_def re_retrieve_def Let_def)

theorem diverted_resent_count_witness:
  "dv_resent (snd (traffic_divert None
     \<lparr>tf_state = TrHold, tf_held = [],
      tf_kept = Some \<lparr>re_bsnt = 0, re_acked = 0, re_unacked = [], re_unsent = [[3, 1]]\<rparr>,
      tf_capacity = 4\<rparr>)) = 1"
proof -
  let ?kept = "\<lparr>re_bsnt = 0, re_acked = 0, re_unacked = [], re_unsent = [[3, 1]]\<rparr> :: retrievable"
  let ?t = "\<lparr>tf_state = TrHold, tf_held = [], tf_kept = Some ?kept, tf_capacity = 4\<rparr>"
  have "filter (\<lambda>msu. \<not> is_link_test msu) (re_unsent ?kept) = [[3, 1]]"
    by (simp add: is_link_test_def SI_LINK_TEST_def)
  then show ?thesis using diverted_resent_count [of ?t ?kept] by simp
qed

end
