(* ===== verification/M2pa_Pair.thy ===== *)
theory M2pa_Pair
  imports M2pa_Correct
begin

unbundle bit_operations_syntax

text \<open>
  Two M2PA links at the ends of one association: the dispatch of a received message
  (\<^verbatim>\<open>src/src/transport/m2pa.rs\<close>, \<^verbatim>\<open>received\<close>) and the end-to-end property of numbering, delivery and
  acknowledgement together. The codec of the \<^verbatim>\<open>m2pa\<close> crate is a pair of parameters: \<open>enc\<close>, and \<open>dec\<close>
  for \<^verbatim>\<open>M2paMessage::decode\<close>; what the program relies on is that decoding undoes encoding
  (\<open>codec_roundtrip\<close>).
\<close>

datatype rx_message =
    RxLinkStatus u32 link_status
  | RxUserData u32 u32 user_data

type_synonym m2pa_decode = "octets \<Rightarrow> rx_message option"

definition PPID_M2PA :: u32 where
  "PPID_M2PA = 5"

definition link_received :: "m2pa_encode \<Rightarrow> m2pa_decode \<Rightarrow> u32 \<Rightarrow> octets \<Rightarrow> instant \<Rightarrow> link \<Rightarrow> link \<times> action list" where
  "link_received enc dec ppid data now l =
     (if ppid \<noteq> PPID_M2PA then (l, [])
      else case dec data of
        Some (RxLinkStatus bsn status) \<Rightarrow> on_status enc status bsn now l
      | Some (RxUserData bsn fsn message) \<Rightarrow> on_data enc bsn fsn message now l
      | None \<Rightarrow> (l, []))"

text \<open>The documented behaviour of the codec: every message encodes, and decodes to itself.\<close>

definition codec_roundtrip :: "m2pa_encode \<Rightarrow> m2pa_decode \<Rightarrow> bool" where
  "codec_roundtrip enc dec \<longleftrightarrow>
     (\<forall>m. enc m \<noteq> None) \<and>
     (\<forall>bsn fsn pri msu frame. masked bsn \<and> masked fsn \<and> msu \<noteq> [] \<and> enc (UserData bsn fsn pri msu) = Some frame \<longrightarrow>
        dec frame = Some (RxUserData bsn fsn \<lparr>ud_is_empty = False, ud_msu = msu\<rparr>)) \<and>
     (\<forall>bsn fsn frame. masked bsn \<and> masked fsn \<and> enc (EmptyUserData bsn fsn) = Some frame \<longrightarrow>
        dec frame = Some (RxUserData bsn fsn \<lparr>ud_is_empty = True, ud_msu = []\<rparr>))"

text \<open>The frames of an action list that go out on the User Data stream; the MSUs it delivers.\<close>

fun data_frame :: "action \<Rightarrow> octets list" where
  "data_frame (AcSend frame stream si) = (if stream = DATA_STREAM then [frame] else [])"
| "data_frame _ = []"

fun delivery :: "action \<Rightarrow> octets list" where
  "delivery (AcDeliver msu) = [msu]"
| "delivery _ = []"

definition data_frames :: "action list \<Rightarrow> octets list" where
  "data_frames acts = concat (map data_frame acts)"

definition deliveries :: "action list \<Rightarrow> octets list" where
  "deliveries acts = concat (map delivery acts)"

definition send_all :: "m2pa_encode \<Rightarrow> instant \<Rightarrow> octets list \<Rightarrow> link \<Rightarrow> link \<times> action list" where
  "send_all enc now msus = run (map (\<lambda>msu. link_send enc msu now) msus)"

definition receive_all :: "m2pa_encode \<Rightarrow> m2pa_decode \<Rightarrow> instant \<Rightarrow> octets list \<Rightarrow> link \<Rightarrow> link \<times> action list" where
  "receive_all enc dec now frames = run (map (\<lambda>data. link_received enc dec PPID_M2PA data now) frames)"

text \<open>The sender \<open>l\<close> may send, and the receiver \<open>p\<close> has accepted everything it sent.\<close>

definition in_step :: "link \<Rightarrow> link \<Rightarrow> bool" where
  "in_step l p \<longleftrightarrow> lk_state l = LsInService \<and> \<not> lk_remote_busy l \<and> is_aligned p \<and>
     lk_fsn_in p = lk_fsn_out l \<and> ack_step p (lk_fsn_in l) \<le> length (lk_unacked p) \<and>
     length (lk_unacked p) \<le> WINDOW"

lemma data_frames_simps [simp]: "data_frames [] = []" "data_frames (a # as) = data_frame a @ data_frames as"
  "data_frames (as1 @ as2) = data_frames as1 @ data_frames as2"
  by (simp_all add: data_frames_def)

lemma deliveries_simps [simp]: "deliveries [] = []" "deliveries (a # as) = delivery a @ deliveries as"
  "deliveries (as1 @ as2) = deliveries as1 @ deliveries as2"
  by (simp_all add: deliveries_def)

lemma deliveries_arm_t7 [simp]: "deliveries (snd (arm_t7 now l)) = []"
  by (simp add: arm_t7_def split: list.splits)

lemma send_step:
  assumes "link_ok l" and "lk_state l = LsInService" and "\<not> lk_remote_busy l"
    and "codec_roundtrip enc dec"
  obtains frame where
    "enc (UserData (lk_fsn_in l) (seq_add (lk_fsn_out l) 1) 0 msu) = Some frame"
    "data_frames (snd (link_send enc msu now l)) = [frame]"
    "lk_fsn_out (fst (link_send enc msu now l)) = seq_add (lk_fsn_out l) 1"
    "length (lk_unacked (fst (link_send enc msu now l))) = Suc (length (lk_unacked l))"
    "lk_state (fst (link_send enc msu now l)) = LsInService"
    "\<not> lk_remote_busy (fst (link_send enc msu now l))"
    "lk_fsn_in (fst (link_send enc msu now l)) = lk_fsn_in l"
proof -
  obtain frame where f: "enc (UserData (lk_fsn_in l) (seq_add (lk_fsn_out l) 1) 0 msu) = Some frame"
    using assms(4) unfolding codec_roundtrip_def by (meson option.exhaust)
  moreover have "link_send enc msu now l = transmit enc msu now l"
    using assms(2,3) by (simp add: link_send_def)
  ultimately show thesis
    using that assms(2,3) by (simp add: transmit_def Let_def seq_add_1 DATA_STREAM_def)
qed

lemma seq_distance_self [simp]: "seq_distance a a = 0"
  by (simp add: seq_distance_def)

lemma receive_step:
  assumes "link_ok p" and "is_aligned p" and "length (lk_unacked p) \<le> WINDOW"
    and "ack_step p bsn \<le> length (lk_unacked p)" and "masked bsn"
    and "fsn = seq_add (lk_fsn_in p) 1"
    and r_def: "r = on_data enc bsn fsn \<lparr>ud_is_empty = False, ud_msu = msu\<rparr> now p"
  shows "deliveries (snd r) = [msu]" and "lk_fsn_in (fst r) = fsn" and "is_aligned (fst r)"
    and "lk_ack_due (fst r)" and "ack_step (fst r) bsn = 0" and "length (lk_unacked (fst r)) \<le> WINDOW"
    and "lk_fsn_out (fst r) = lk_fsn_out p"
proof -
  have s: "lk_state p \<noteq> LsOutOfService" "lk_state p \<noteq> LsAlignedReady"
    using assms(2) by (auto simp: is_aligned_def)
  define p1 where "p1 = released (ack_step p bsn) (p\<lparr>lk_bsn_watch := watch_down True (lk_bsn_watch p)\<rparr>)"
  have ack: "acknowledge enc bsn True now p =
      ((p1, if 0 < ack_step p bsn \<and> lk_state p = LsInService \<and> \<not> lk_remote_busy p
            then snd (arm_t7 now p1) else []), True)"
    using acknowledge_normal [OF assms(1) s(1) assms(3,4), of enc True now] by (simp add: p1_def Let_def)
  have p1: "lk_fsn_in p1 = lk_fsn_in p" "lk_state p1 = lk_state p" "lk_fsn_out p1 = lk_fsn_out p"
    "length (lk_unacked p1) \<le> WINDOW"
    using assms(3) by (auto simp: p1_def released_def)
  have "lk_acked p1 = bsn"
    using seq_add_distance [of bsn "lk_acked p"] assms(5)
    by (simp add: p1_def released_def ack_step_def and_SEQ_MASK masked_def)
  then have step0: "ack_step p1 bsn = 0" using assms(5) by (simp add: ack_step_def and_SEQ_MASK masked_def)
  have f: "fsn AND SEQ_MASK = fsn" "(lk_fsn_in p1 + 1) AND SEQ_MASK = fsn"
    using assms(6) masked_take(2) [of "lk_fsn_in p" 1] seq_add_1 [of "lk_fsn_in p"]
    by (simp_all add: and_SEQ_MASK masked_def p1(1))
  have fst: "fst r = p1\<lparr>lk_fsn_in := fsn, lk_ack_due := True\<rparr>" and dl: "deliveries (snd r) = [msu]"
    using assms(2) s(2) ack f by (simp_all add: r_def on_data_def accept_data_def)
  show "deliveries (snd r) = [msu]" by (rule dl)
  show "lk_fsn_in (fst r) = fsn" "is_aligned (fst r)" "lk_ack_due (fst r)" "ack_step (fst r) bsn = 0"
    "length (lk_unacked (fst r)) \<le> WINDOW" "lk_fsn_out (fst r) = lk_fsn_out p"
    using p1 step0 assms(2) unfolding fst by (simp_all add: is_aligned_def ack_step_def)
qed

text \<open>One MSU crosses the association: it is delivered once and the two ends stay in step.\<close>

lemma transfer_one:
  assumes "link_ok l" and "link_ok p" and "in_step l p" and "codec_roundtrip enc dec" and "msu \<noteq> []"
  shows "deliveries (snd (receive_all enc dec now (data_frames (snd (link_send enc msu now l))) p)) = [msu]"
    and "in_step (fst (link_send enc msu now l))
           (fst (receive_all enc dec now (data_frames (snd (link_send enc msu now l))) p))"
    and "link_ok (fst (receive_all enc dec now (data_frames (snd (link_send enc msu now l))) p))"
    and "lk_ack_due (fst (receive_all enc dec now (data_frames (snd (link_send enc msu now l))) p))"
proof -
  note I = assms(3) [unfolded in_step_def]
  obtain frame where f: "enc (UserData (lk_fsn_in l) (seq_add (lk_fsn_out l) 1) 0 msu) = Some frame"
    "data_frames (snd (link_send enc msu now l)) = [frame]"
    "lk_fsn_out (fst (link_send enc msu now l)) = seq_add (lk_fsn_out l) 1"
    "lk_state (fst (link_send enc msu now l)) = LsInService"
    "\<not> lk_remote_busy (fst (link_send enc msu now l))"
    "lk_fsn_in (fst (link_send enc msu now l)) = lk_fsn_in l"
    using send_step [OF assms(1) _ _ assms(4)] I by metis
  have m: "masked (lk_fsn_in l)" using link_okD(1) [OF assms(1)] .
  define r where "r = on_data enc (lk_fsn_in l) (seq_add (lk_fsn_out l) 1)
      \<lparr>ud_is_empty = False, ud_msu = msu\<rparr> now p"
  have "dec frame = Some (RxUserData (lk_fsn_in l) (seq_add (lk_fsn_out l) 1) \<lparr>ud_is_empty = False, ud_msu = msu\<rparr>)"
    using assms(4,5) f(1) m by (simp add: codec_roundtrip_def)
  then have rx: "receive_all enc dec now [frame] p = r"
    by (simp add: receive_all_def link_received_def r_def)
  have R: "deliveries (snd r) = [msu]" "lk_fsn_in (fst r) = seq_add (lk_fsn_out l) 1" "is_aligned (fst r)"
    "lk_ack_due (fst r)" "ack_step (fst r) (lk_fsn_in l) = 0" "length (lk_unacked (fst r)) \<le> WINDOW"
    using receive_step [OF assms(2) _ _ _ m _ r_def] I by simp_all
  show "deliveries (snd (receive_all enc dec now (data_frames (snd (link_send enc msu now l))) p)) = [msu]"
    "lk_ack_due (fst (receive_all enc dec now (data_frames (snd (link_send enc msu now l))) p))"
    unfolding f(2) rx by (rule R)+
  show "in_step (fst (link_send enc msu now l))
      (fst (receive_all enc dec now (data_frames (snd (link_send enc msu now l))) p))"
    unfolding f(2) rx in_step_def using f R by simp
  show "link_ok (fst (receive_all enc dec now (data_frames (snd (link_send enc msu now l))) p))"
    unfolding f(2) rx r_def using assms(2) I by (intro on_data_ok) simp_all
qed

lemma receive_all_append:
  "receive_all enc dec now (fs @ gs) p =
     (let r1 = receive_all enc dec now fs p; r2 = receive_all enc dec now gs (fst r1)
      in (fst r2, snd r1 @ snd r2))"
  by (simp add: receive_all_def run_append case_prod_beta Let_def)

lemma transfer_many:
  assumes "link_ok l" and "link_ok p" and "in_step l p" and "codec_roundtrip enc dec"
    and "\<forall>msu \<in> set msus. msu \<noteq> []"
  shows "deliveries (snd (receive_all enc dec now (data_frames (snd (send_all enc now msus l))) p)) = msus \<and>
         in_step (fst (send_all enc now msus l))
           (fst (receive_all enc dec now (data_frames (snd (send_all enc now msus l))) p)) \<and>
         link_ok (fst (receive_all enc dec now (data_frames (snd (send_all enc now msus l))) p)) \<and>
         link_ok (fst (send_all enc now msus l)) \<and>
         (msus \<noteq> [] \<or> lk_ack_due p \<longrightarrow>
            lk_ack_due (fst (receive_all enc dec now (data_frames (snd (send_all enc now msus l))) p)))"
  using assms
proof (induction msus arbitrary: l p)
  case Nil
  then show ?case by (simp add: send_all_def receive_all_def)
next
  case (Cons msu msus)
  let ?l = "fst (link_send enc msu now l)"
  let ?p = "fst (receive_all enc dec now (data_frames (snd (link_send enc msu now l))) p)"
  have ne: "msu \<noteq> []" using Cons.prems(5) by simp
  note one = transfer_one [OF Cons.prems(1-4) ne, of now]
  have IH: "deliveries (snd (receive_all enc dec now (data_frames (snd (send_all enc now msus ?l))) ?p)) = msus \<and>
         in_step (fst (send_all enc now msus ?l))
           (fst (receive_all enc dec now (data_frames (snd (send_all enc now msus ?l))) ?p)) \<and>
         link_ok (fst (receive_all enc dec now (data_frames (snd (send_all enc now msus ?l))) ?p)) \<and>
         link_ok (fst (send_all enc now msus ?l)) \<and>
         (msus \<noteq> [] \<or> lk_ack_due ?p \<longrightarrow>
            lk_ack_due (fst (receive_all enc dec now (data_frames (snd (send_all enc now msus ?l))) ?p)))"
    by (rule Cons.IH [OF link_send_ok [OF Cons.prems(1)] one(3,2) Cons.prems(4)]) (use Cons.prems(5) in simp)
  have split: "send_all enc now (msu # msus) l =
      (fst (send_all enc now msus ?l), snd (link_send enc msu now l) @ snd (send_all enc now msus ?l))"
    by (simp add: send_all_def case_prod_beta)
  show ?case using IH one(1,4) by (simp add: split receive_all_append Let_def)
qed

text \<open>
  C3: messages cross a link exactly once, in order, and are acknowledged. With the two ends in
  step, any sequence of MSUs handed to the sender is delivered to level 3 at the receiver as the same
  sequence; the acknowledgement the receiver then sends empties the sender's retransmission buffer.
\<close>

theorem link_pair_transfer:
  assumes "link_reachable enc timers prv q l" and "link_reachable enc timers' prv' q' p"
    and "in_step l p" and "codec_roundtrip enc dec"
    and "\<forall>msu \<in> set msus. msu \<noteq> []" and "msus \<noteq> []"
    and "length (lk_unacked (fst (send_all enc now msus l))) \<le> WINDOW"
  shows "let (l1, sent) = send_all enc now msus l;
             (p1, got) = receive_all enc dec now (data_frames sent) p;
             (p2, ack) = flush_ack enc p1;
             (l2, out) = receive_all enc dec now (data_frames ack) l1
         in deliveries got = msus \<and> lk_unacked l2 = []"
proof -
  define l1 where "l1 = fst (send_all enc now msus l)"
  define p1 where "p1 = fst (receive_all enc dec now (data_frames (snd (send_all enc now msus l))) p)"
  note T = transfer_many [OF link_reachable_ok [OF assms(1)] link_reachable_ok [OF assms(2)] assms(3-5),
      of now, folded l1_def p1_def]
  have I: "in_step l1 p1" and ok: "link_ok l1" "link_ok p1" and due: "lk_ack_due p1" using T assms(6) by blast+
  have s: "lk_state l1 \<noteq> LsOutOfService" "is_aligned l1" "lk_state l1 \<noteq> LsAlignedReady"
    using I by (simp_all add: in_step_def is_aligned_def)
  have w: "length (lk_unacked l1) \<le> WINDOW" using assms(7) by (simp add: l1_def)
  have m: "masked (lk_fsn_in p1)" using link_okD(1) [OF ok(2)] .
  have mo: "masked (lk_fsn_out p1)" using link_okD(3) [OF ok(2)] I by (auto simp: in_step_def is_aligned_def)
  obtain frame where f: "enc (EmptyUserData (lk_fsn_in p1) (lk_fsn_out p1)) = Some frame"
    "dec frame = Some (RxUserData (lk_fsn_in p1) (lk_fsn_out p1) \<lparr>ud_is_empty = True, ud_msu = []\<rparr>)"
    using assms(4) m mo unfolding codec_roundtrip_def by (meson option.exhaust)
  have ack: "data_frames (snd (flush_ack enc p1)) = [frame]"
    using due I f(1) by (simp add: flush_ack_def in_step_def send_frame_def)
  have out: "lk_fsn_in p1 = seq_add (lk_acked l1) (length (lk_unacked l1))"
    using I link_okD(3) [OF ok(1) s(1)] by (simp add: in_step_def)
  have n24: "length (lk_unacked l1) < 2 ^ 24" using w by (simp add: WINDOW_def)
  have step: "ack_step l1 (lk_fsn_in p1) = length (lk_unacked l1)"
    using m seq_distance_from [OF n24, of "lk_acked l1"] unat_of_nat_24 [of "length (lk_unacked l1)"] n24
    by (simp add: ack_step_def out and_SEQ_MASK masked_def)
  have "lk_unacked (fst (on_data enc (lk_fsn_in p1) (lk_fsn_out p1) \<lparr>ud_is_empty = True, ud_msu = []\<rparr> now l1)) = []"
    using acknowledge_normal [OF ok(1) s(1) w, of "lk_fsn_in p1" enc True now] step s
    by (simp add: on_data_def accept_data_def Let_def released_def)
  then have "lk_unacked (fst (receive_all enc dec now [frame] l1)) = []"
    using f(2) by (simp add: receive_all_def link_received_def)
  then show ?thesis using T ack by (simp add: case_prod_beta Let_def flip: l1_def p1_def)
qed

text \<open>A codec with the assumed behaviour: a tag, the two numbers in three octets each, the payload.\<close>

definition u24_octets :: "u32 \<Rightarrow> octets" where
  "u24_octets b = [ucast b, ucast (drop_bit 8 b), ucast (drop_bit 16 b)]"

definition u24_value :: "u8 \<Rightarrow> u8 \<Rightarrow> u8 \<Rightarrow> u32" where
  "u24_value x y z = ucast x OR push_bit 8 (ucast y) OR push_bit 16 (ucast z)"

fun plain_enc :: m2pa_encode where
  "plain_enc (UserData bsn fsn pri msu) = Some (1 # u24_octets bsn @ u24_octets fsn @ msu)"
| "plain_enc (EmptyUserData bsn fsn) = Some (1 # u24_octets bsn @ u24_octets fsn)"
| "plain_enc (LinkStatus bsn fsn status) = Some (2 # u24_octets bsn @ u24_octets fsn)"

fun plain_dec :: m2pa_decode where
  "plain_dec (tag # x1 # y1 # z1 # x2 # y2 # z2 # msu) =
     (if tag = 1
      then Some (RxUserData (u24_value x1 y1 z1) (u24_value x2 y2 z2) \<lparr>ud_is_empty = (msu = []), ud_msu = msu\<rparr>)
      else None)"
| "plain_dec _ = None"

lemma u24_roundtrip:
  assumes "masked b"
  shows "u24_value (ucast b) (ucast (drop_bit 8 b)) (ucast (drop_bit 16 b)) = b"
proof (rule bit_word_eqI)
  fix n assume "n < LENGTH(32)"
  have "bit b n \<longleftrightarrow> n < 24 \<and> bit b n"
    using assms unfolding masked_def by (metis bit_take_bit_iff)
  then show "bit (u24_value (ucast b) (ucast (drop_bit 8 b)) (ucast (drop_bit 16 b))) n = bit b n"
    by (cases "n < 8"; cases "n < 16") (auto simp: u24_value_def bit_simps not_less)
qed

lemma plain_roundtrip: "codec_roundtrip plain_enc plain_dec"
proof -
  have "plain_enc m \<noteq> None" for m by (cases m) simp_all
  then show ?thesis by (auto simp: codec_roundtrip_def u24_octets_def u24_roundtrip)
qed

definition pair_link :: link where
  "pair_link = link_events plain_enc [EvStart, EvStatus StAlignment 0, EvStatus StProvingNormal 0,
     EvTimeout LtT4, EvStatus StReady 0] (link_new link_timers_default PvNormal 4)"

lemma pair_link_value:
  "pair_link =
     \<lparr>lk_timers = link_timers_default, lk_proving = PvNormal, lk_tx_queue = 4,
      lk_state = LsInService, lk_use_emergency = False, lk_peer_ready = False, lk_fsn_out = 0xFFFFFF,
      lk_fsn_in = 0xFFFFFF, lk_acked = 0xFFFFFF, lk_bsn_watch = 0, lk_remote_busy = False,
      lk_ack_due = False, lk_unacked = [], lk_unsent = [], lk_retrievable = None\<rparr>"
  by (simp add: pair_link_def link_eval_defs)

lemma pair_link_reachable: "link_reachable plain_enc link_timers_default PvNormal 4 pair_link"
  unfolding pair_link_def
  by (intro link_reachable_events link_reachable.reach_new) (simp add: link_eval_defs)

theorem link_pair_transfer_witness:
  "deliveries (snd (receive_all plain_enc plain_dec 0
     (data_frames (snd (send_all plain_enc 0 [[3, 1], [5]] pair_link))) pair_link)) = [[3, 1], [5]]"
proof -
  have i: "in_step pair_link pair_link"
    by (simp add: in_step_def pair_link_value is_aligned_def ack_step_def seq_distance_def SEQ_MASK_def)
  have ne: "\<forall>msu \<in> set [[3, 1], [5 :: u8]]. msu \<noteq> []" "[[3, 1], [5 :: u8]] \<noteq> []" by simp_all
  have "length (lk_unacked (fst (send_all plain_enc 0 [[3, 1], [5]] pair_link))) \<le> WINDOW"
    by (simp add: send_all_def pair_link_value link_send_def transmit_def Let_def WINDOW_def)
  note link_pair_transfer [OF pair_link_reachable pair_link_reachable i plain_roundtrip ne this]
  then show ?thesis by (simp add: Let_def case_prod_beta)
qed

end
