(* ===== verification/M3ua_Aspm.thy ===== *)
theory M3ua_Aspm
  imports Config_Model
begin

text \<open>
  ASP and AS state maintenance of a signalling gateway, RFC 4666 4.3
  (\<^verbatim>\<open>src/src/transport/m3ua/aspm.rs\<close>).

  \<open>aspm\<close> is \<^verbatim>\<open>struct Aspm\<close> with its \<^verbatim>\<open>out\<close> buffer; every method is a function on it, and \<open>aspm_handle\<close>
  empties the buffer as \<^verbatim>\<open>handle\<close> does. The numbers of the error codes and of the Traffic Mode Type
  belong to the \<^verbatim>\<open>m3ua\<close> crate: the codes are the constructors of \<open>error_code\<close>, the mode values the
  parameter \<open>mode_value\<close> of \<open>aspm_active\<close>.
\<close>

section \<open>Data\<close>

type_synonym asp_id = nat
type_synonym server_id = nat

record server_spec =
  sv_name :: string
  sv_routing_context :: u32
  sv_mode :: traffic_mode
  sv_asps :: "asp_id list"
  sv_required :: nat
  sv_recovery :: "duration option"

record asp_spec =
  ap_name :: string
  ap_servers :: "server_id list"
  ap_gateway :: bool

record layout =
  ly_asps :: "asp_spec list"
  ly_servers :: "server_spec list"

datatype asp_state = AspDown | AspInactive | AspActive

datatype as_state = AsDown | AsInactive | AsActive | AsPending

datatype notify_status = NsAsInactive | NsAsActive | NsAsPending | NsInsufficientResources
  | NsAlternateAspActive | NsAspFailure

fun status_of :: "as_state \<Rightarrow> notify_status option" where
  "status_of AsDown = None"
| "status_of AsInactive = Some NsAsInactive"
| "status_of AsActive = Some NsAsActive"
| "status_of AsPending = Some NsAsPending"

datatype error_code = UnexpectedMessage | InvalidRoutingContext | NoConfiguredAsForAsp | UnsupportedTrafficModeType

datatype aspm_message =
    MgUpAck
  | MgDownAck
  | MgActiveAck "u32 option" "u32 list"
  | MgInactiveAck "u32 list"
  | MgNotify notify_status "u32 option" u32
  | MgError error_code "u32 list"

datatype aspm_input =
    InUp asp_id "u32 option"
  | InDown asp_id
  | InActive asp_id "u32 option" "u32 list option"
  | InInactive asp_id "u32 list option"
  | InLost asp_id
  | InPeerUp asp_id
  | InPeerActive asp_id "u32 list option"
  | InPeerInactive asp_id "u32 list option"
  | InTimeout server_id

datatype aspm_action =
    AySend asp_id aspm_message
  | AyStart server_id duration
  | AyStop server_id
  | AyAsp asp_id server_id asp_state
  | AyServer server_id as_state
  | AyActivated asp_id server_id

record asp_entry =
  ae_up :: bool
  ae_identifier :: "u32 option"
  ae_active :: "bool list"

record aspm =
  ay_layout :: layout
  ay_asps :: "asp_entry list"
  ay_servers :: "as_state list"
  ay_out :: "aspm_action list"

section \<open>The layout of a tenant\<close>

text \<open>One Application Server of the configuration is added to the layout built so far.\<close>

definition layout_add :: "nat \<times> application_server \<Rightarrow> layout \<Rightarrow> layout" where
  "layout_add = (\<lambda>(index, server) ly.
     let members = List.map_filter (\<lambda>i. position (\<lambda>a. ap_name a = i) (ly_asps ly)) (as_asps server);
         asps = fold (\<lambda>asp asps. asps[asp := (asps ! asp)\<lparr>ap_servers := ap_servers (asps ! asp) @ [index]\<rparr>])
                  members (ly_asps ly);
         gateway = list_ex (\<lambda>asp. ap_gateway (asps ! asp)) members
     in \<lparr>ly_asps = asps,
         ly_servers = ly_servers ly @
           [\<lparr>sv_name = as_name server, sv_routing_context = as_routing_context server,
             sv_mode = as_traffic_mode server, sv_asps = members,
             sv_required = max (as_required_asps server) 1,
             sv_recovery = (if gateway \<and> as_recovery_ms server > 0 then Some (as_recovery_ms server) else None)\<rparr>]\<rparr>)"

definition layout_build :: "tenant \<Rightarrow> association list \<Rightarrow> layout" where
  "layout_build t associations =
     fold layout_add (List.enumerate 0 (tn_application_servers t))
       \<lparr>ly_asps = map (\<lambda>a. \<lparr>ap_name = assoc_id a, ap_servers = [], ap_gateway = (assoc_role a = Server)\<rparr>)
                   (filter (\<lambda>a. assoc_adaptation a = M3ua) associations),
        ly_servers = []\<rparr>"

section \<open>Reading the state\<close>

abbreviation server_at :: "aspm \<Rightarrow> server_id \<Rightarrow> server_spec" where
  "server_at m s \<equiv> ly_servers (ay_layout m) ! s"

abbreviation servers_of :: "aspm \<Rightarrow> asp_id \<Rightarrow> server_id list" where
  "servers_of m a \<equiv> ap_servers (ly_asps (ay_layout m) ! a)"

definition aspm_new :: "layout \<Rightarrow> aspm" where
  "aspm_new ly =
     \<lparr>ay_layout = ly,
      ay_asps = map (\<lambda>a. \<lparr>ae_up = False, ae_identifier = None,
                          ae_active = replicate (length (ap_servers a)) False\<rparr>) (ly_asps ly),
      ay_servers = replicate (length (ly_servers ly)) AsDown, ay_out = []\<rparr>"

definition server_state :: "aspm \<Rightarrow> server_id \<Rightarrow> as_state" where
  "server_state m s = (if s < length (ay_servers m) then ay_servers m ! s else AsDown)"

definition aspm_known :: "aspm \<Rightarrow> asp_id \<Rightarrow> bool" where
  "aspm_known m a \<longleftrightarrow> a < length (ay_asps m)"

definition asp_position :: "aspm \<Rightarrow> asp_id \<Rightarrow> server_id \<Rightarrow> nat option" where
  "asp_position m a s = position (\<lambda>s'. s' = s) (servers_of m a)"

definition asp_state_of :: "aspm \<Rightarrow> asp_id \<Rightarrow> server_id \<Rightarrow> asp_state" where
  "asp_state_of m a s =
     (if \<not> a < length (ay_asps m) then AspDown
      else if \<not> ae_up (ay_asps m ! a) then AspDown
      else case asp_position m a s of
             Some p \<Rightarrow> if ae_active (ay_asps m ! a) ! p then AspActive else AspInactive
           | None \<Rightarrow> AspInactive)"

definition asp_is_active :: "aspm \<Rightarrow> asp_id \<Rightarrow> server_id \<Rightarrow> bool" where
  "asp_is_active m a s \<longleftrightarrow> asp_state_of m a s = AspActive"

definition anywhere_active :: "aspm \<Rightarrow> asp_id \<Rightarrow> bool" where
  "anywhere_active m a \<longleftrightarrow> ae_up (ay_asps m ! a) \<and> list_ex (\<lambda>x. x) (ae_active (ay_asps m ! a))"

definition as_counts :: "aspm \<Rightarrow> server_id \<Rightarrow> nat \<times> nat" where
  "as_counts m s =
     (let members = sv_asps (server_at m s);
          active = length (filter (\<lambda>a. asp_is_active m a s) members);
          up = length (filter (\<lambda>a. ae_up (ay_asps m ! a)) members)
      in (active, up - active))"

definition concerned :: "aspm \<Rightarrow> asp_id \<Rightarrow> u32 list option \<Rightarrow> server_id list" where
  "concerned m a contexts =
     (case contexts of
        None \<Rightarrow> servers_of m a
      | Some wanted \<Rightarrow> filter (\<lambda>s. sv_routing_context (server_at m s) \<in> set wanted) (servers_of m a))"

definition unconfigured :: "aspm \<Rightarrow> asp_id \<Rightarrow> u32 list option \<Rightarrow> u32 list" where
  "unconfigured m a contexts =
     filter (\<lambda>rc. \<not> list_ex (\<lambda>s. sv_routing_context (server_at m s) = rc) (servers_of m a))
       (case contexts of None \<Rightarrow> [] | Some c \<Rightarrow> c)"

section \<open>Sending\<close>

definition ay_push :: "aspm_action \<Rightarrow> aspm \<Rightarrow> aspm" where
  "ay_push act m = m\<lparr>ay_out := ay_out m @ [act]\<rparr>"

definition aspm_send :: "asp_id \<Rightarrow> aspm_message \<Rightarrow> aspm \<Rightarrow> aspm" where
  "aspm_send a message m = (if ap_gateway (ly_asps (ay_layout m) ! a) then ay_push (AySend a message) m else m)"

definition aspm_error :: "asp_id \<Rightarrow> error_code \<Rightarrow> u32 list \<Rightarrow> aspm \<Rightarrow> aspm" where
  "aspm_error a code contexts m = aspm_send a (MgError code contexts) m"

definition aspm_notify ::
  "server_id \<Rightarrow> notify_status \<Rightarrow> asp_id option \<Rightarrow> (aspm \<Rightarrow> asp_id \<Rightarrow> bool) \<Rightarrow> aspm \<Rightarrow> aspm" where
  "aspm_notify s status about to m =
     (let context = sv_routing_context (server_at m s);
          asp_identifier = (case about of None \<Rightarrow> None | Some a \<Rightarrow> ae_identifier (ay_asps m ! a))
      in fold (\<lambda>a m. if ae_up (ay_asps m ! a) \<and> to m a
                     then aspm_send a (MgNotify status asp_identifier context) m else m)
           (sv_asps (server_at m s)) m)"

section \<open>The state of a server\<close>

definition as_next :: "server_spec \<Rightarrow> as_state \<Rightarrow> nat \<Rightarrow> nat \<Rightarrow> as_state" where
  "as_next spec old active inactive =
     (case old of
        AsDown \<Rightarrow> if active \<ge> sv_required spec then AsActive
                  else if active + inactive > 0 then AsInactive else AsDown
      | AsInactive \<Rightarrow> if active \<ge> sv_required spec then AsActive
                  else if active + inactive > 0 then AsInactive else AsDown
      | AsActive \<Rightarrow> if active > 0 then AsActive
                  else if sv_recovery spec \<noteq> None then AsPending
                  else if inactive > 0 then AsInactive else AsDown
      | AsPending \<Rightarrow> if active > 0 then AsActive else AsPending)"

definition aspm_tell :: "server_id \<Rightarrow> as_state \<Rightarrow> aspm \<Rightarrow> aspm" where
  "aspm_tell s new m =
     (case status_of new of
        Some status \<Rightarrow> aspm_notify s status None (\<lambda>_ _. True) m
      | None \<Rightarrow> m)"

definition aspm_evaluate :: "server_id \<Rightarrow> aspm \<Rightarrow> aspm \<times> bool" where
  "aspm_evaluate s m =
     (let spec = server_at m s;
          (active, inactive) = as_counts m s;
          old = ay_servers m ! s;
          new = as_next spec old active inactive
      in if new = old then (m, False)
         else
           let m1 = m\<lparr>ay_servers := (ay_servers m)[s := new]\<rparr>;
               m2 = (if old = AsPending then ay_push (AyStop s) m1 else m1);
               m3 = (case (new, sv_recovery spec) of
                       (AsPending, Some after) \<Rightarrow> ay_push (AyStart s after) m2
                     | _ \<Rightarrow> m2);
               m4 = ay_push (AyServer s new) m3
           in (aspm_tell s new m4, True))"

definition aspm_resources :: "server_id \<Rightarrow> aspm \<Rightarrow> aspm" where
  "aspm_resources s m =
     (if sv_mode (server_at m s) \<noteq> Override \<and> ay_servers m ! s = AsActive \<and>
         fst (as_counts m s) < sv_required (server_at m s)
      then aspm_notify s NsInsufficientResources None (\<lambda>this a. \<not> asp_is_active this a s) m
      else m)"

definition recovery_expired :: "server_id \<Rightarrow> aspm \<Rightarrow> aspm" where
  "recovery_expired s m =
     (if ay_servers m ! s \<noteq> AsPending then m
      else
        let new = (if snd (as_counts m s) > 0 then AsInactive else AsDown);
            m1 = ay_push (AyServer s new) (m\<lparr>ay_servers := (ay_servers m)[s := new]\<rparr>)
        in aspm_tell s new m1)"

section \<open>The state of an ASP\<close>

definition set_asp :: "asp_id \<Rightarrow> (asp_entry \<Rightarrow> asp_entry) \<Rightarrow> aspm \<Rightarrow> aspm" where
  "set_asp a f m = m\<lparr>ay_asps := (ay_asps m)[a := f (ay_asps m ! a)]\<rparr>"

definition set_active :: "asp_id \<Rightarrow> server_id \<Rightarrow> bool \<Rightarrow> aspm \<Rightarrow> aspm" where
  "set_active a s on m =
     (case asp_position m a s of
        Some p \<Rightarrow> set_asp a (\<lambda>e. e\<lparr>ae_active := (ae_active e)[p := on]\<rparr>) m
      | None \<Rightarrow> m)"

definition bring_up_in :: "asp_id \<Rightarrow> server_id \<Rightarrow> aspm \<Rightarrow> aspm" where
  "bring_up_in a s m =
     (case aspm_evaluate s (ay_push (AyAsp a s AspInactive) m) of
        (m1, changed) \<Rightarrow>
          if changed then m1
          else case status_of (ay_servers m1 ! s) of
                 Some status \<Rightarrow> aspm_notify s status None (\<lambda>_ other. other = a) m1
               | None \<Rightarrow> m1)"

definition bring_up :: "asp_id \<Rightarrow> u32 option \<Rightarrow> aspm \<Rightarrow> aspm" where
  "bring_up a identifier m =
     fold (bring_up_in a) (servers_of m a) (set_asp a (\<lambda>e. e\<lparr>ae_up := True, ae_identifier := identifier\<rparr>) m)"

definition take_down_in :: "asp_id \<Rightarrow> bool \<Rightarrow> server_id \<Rightarrow> aspm \<Rightarrow> aspm" where
  "take_down_in a failed s m =
     (let m1 = ay_push (AyAsp a s AspDown) m;
          m2 = (if failed then aspm_notify s NsAspFailure (Some a) (\<lambda>_ _. True) m1 else m1)
      in aspm_resources s (fst (aspm_evaluate s m2)))"

definition take_down :: "asp_id \<Rightarrow> bool \<Rightarrow> aspm \<Rightarrow> aspm" where
  "take_down a failed m =
     (if \<not> ae_up (ay_asps m ! a) then m
      else
        let m1 = fold (\<lambda>s. set_active a s False) (servers_of m a) m;
            m2 = set_asp a (\<lambda>e. e\<lparr>ae_up := False\<rparr>) m1;
            m3 = fold (take_down_in a failed) (servers_of m a) m2
        in set_asp a (\<lambda>e. e\<lparr>ae_identifier := None\<rparr>) m3)"

definition displace :: "asp_id \<Rightarrow> server_id \<Rightarrow> asp_id \<Rightarrow> aspm \<Rightarrow> aspm" where
  "displace a s other m =
     aspm_notify s NsAlternateAspActive (Some a) (\<lambda>_ to. to = other)
       (ay_push (AyAsp other s AspInactive) (set_active other s False m))"

definition activate :: "asp_id \<Rightarrow> server_id \<Rightarrow> aspm \<Rightarrow> aspm" where
  "activate a s m =
     (case asp_position m a s of
        None \<Rightarrow> m
      | Some p \<Rightarrow>
          if ae_active (ay_asps m ! a) ! p then m
          else
            let displaced = (if sv_mode (server_at m s) = Override
                             then filter (\<lambda>other. other \<noteq> a \<and> asp_is_active m other s) (sv_asps (server_at m s))
                             else []);
                m1 = ay_push (AyAsp a s AspActive) (set_active a s True m);
                m2 = fold (displace a s) displaced m1
            in ay_push (AyActivated a s) (fst (aspm_evaluate s m2)))"

definition deactivate :: "asp_id \<Rightarrow> server_id \<Rightarrow> aspm \<Rightarrow> aspm" where
  "deactivate a s m =
     (case asp_position m a s of
        None \<Rightarrow> m
      | Some p \<Rightarrow>
          if \<not> ae_up (ay_asps m ! a) \<or> \<not> ae_active (ay_asps m ! a) ! p then m
          else aspm_resources s (fst (aspm_evaluate s
                 (ay_push (AyAsp a s AspInactive) (set_active a s False m)))))"

section \<open>Requests of an ASP\<close>

definition aspm_up :: "asp_id \<Rightarrow> u32 option \<Rightarrow> aspm \<Rightarrow> aspm" where
  "aspm_up a identifier m =
     (let m1 = aspm_send a MgUpAck m
      in if \<not> ae_up (ay_asps m1 ! a) then bring_up a identifier m1
         else
           let m2 = (if anywhere_active m1 a
                     then fold (deactivate a) (servers_of m1 a) (aspm_error a UnexpectedMessage [] m1)
                     else m1)
           in if identifier \<noteq> None then set_asp a (\<lambda>e. e\<lparr>ae_identifier := identifier\<rparr>) m2 else m2)"

definition aspm_down :: "asp_id \<Rightarrow> aspm \<Rightarrow> aspm" where
  "aspm_down a m = take_down a False (aspm_send a MgDownAck m)"

definition aspm_lost :: "asp_id \<Rightarrow> aspm \<Rightarrow> aspm" where
  "aspm_lost a m = take_down a True m"

definition admitted :: "asp_id \<Rightarrow> u32 list option \<Rightarrow> aspm \<Rightarrow> aspm \<times> server_id list option" where
  "admitted a contexts m =
     (if \<not> ae_up (ay_asps m ! a)
      then (aspm_error a UnexpectedMessage (case contexts of None \<Rightarrow> [] | Some c \<Rightarrow> c) m, None)
      else
        let bad = unconfigured m a contexts;
            m1 = (if bad \<noteq> [] then aspm_error a InvalidRoutingContext bad m else m);
            servers = concerned m1 a contexts;
            m2 = (if servers = [] \<and> contexts = None then aspm_error a NoConfiguredAsForAsp [] m1 else m1)
        in (m2, if servers = [] then None else Some servers))"

definition aspm_active ::
  "(traffic_mode \<Rightarrow> u32) \<Rightarrow> asp_id \<Rightarrow> u32 option \<Rightarrow> u32 list option \<Rightarrow> aspm \<Rightarrow> aspm" where
  "aspm_active mode_value a mode contexts m =
     (case admitted a contexts m of
        (m1, None) \<Rightarrow> m1
      | (m1, Some servers) \<Rightarrow>
          let fits = (\<lambda>s. mode = None \<or> mode = Some (mode_value (sv_mode (server_at m1 s))));
              accepted = filter fits servers;
              refused = filter (\<lambda>s. \<not> fits s) servers;
              rcs = map (\<lambda>s. sv_routing_context (server_at m1 s));
              m2 = (if refused \<noteq> [] then aspm_error a UnsupportedTrafficModeType (rcs refused) m1 else m1)
          in if accepted = [] then m2
             else fold (activate a) accepted
                    (aspm_send a (MgActiveAck mode (if contexts \<noteq> None then rcs accepted else [])) m2))"

definition aspm_inactive :: "asp_id \<Rightarrow> u32 list option \<Rightarrow> aspm \<Rightarrow> aspm" where
  "aspm_inactive a contexts m =
     (case admitted a contexts m of
        (m1, None) \<Rightarrow> m1
      | (m1, Some servers) \<Rightarrow>
          fold (deactivate a) servers
            (aspm_send a (MgInactiveAck (if contexts \<noteq> None
               then map (\<lambda>s. sv_routing_context (server_at m1 s)) servers else [])) m1))"

definition aspm_dispatch :: "(traffic_mode \<Rightarrow> u32) \<Rightarrow> aspm_input \<Rightarrow> aspm \<Rightarrow> aspm" where
  "aspm_dispatch mode_value input m =
     (case input of
        InUp a identifier \<Rightarrow> if aspm_known m a then aspm_up a identifier m else m
      | InDown a \<Rightarrow> if aspm_known m a then aspm_down a m else m
      | InActive a mode contexts \<Rightarrow> if aspm_known m a then aspm_active mode_value a mode contexts m else m
      | InInactive a contexts \<Rightarrow> if aspm_known m a then aspm_inactive a contexts m else m
      | InLost a \<Rightarrow> if aspm_known m a then aspm_lost a m else m
      | InPeerUp a \<Rightarrow> if aspm_known m a \<and> \<not> ae_up (ay_asps m ! a) then bring_up a None m else m
      | InPeerActive a contexts \<Rightarrow>
          if aspm_known m a \<and> ae_up (ay_asps m ! a) then fold (activate a) (concerned m a contexts) m else m
      | InPeerInactive a contexts \<Rightarrow>
          if aspm_known m a then fold (deactivate a) (concerned m a contexts) m else m
      | InTimeout s \<Rightarrow> if s < length (ay_servers m) then recovery_expired s m else m)"

definition aspm_handle :: "(traffic_mode \<Rightarrow> u32) \<Rightarrow> aspm_input \<Rightarrow> aspm \<Rightarrow> aspm \<times> aspm_action list" where
  "aspm_handle mode_value input m =
     (let m1 = aspm_dispatch mode_value input m in (m1\<lparr>ay_out := []\<rparr>, ay_out m1))"

end
