(* ===== verification/M3ua_Correct.thy ===== *)
theory M3ua_Correct
  imports M3ua_Aspm
begin

text \<open>
  Correctness of ASP and AS state maintenance (\<^verbatim>\<open>src/src/transport/m3ua/aspm.rs\<close>): the layouts built
  from a configuration are consistent; in every reachable state the state of each Application
  Server is one its ASPs justify (RFC 4666 Figure 4), an Override server has at most one active ASP,
  and T(r) runs exactly for the pending servers; the actions handed to the transfer path
  describe the state exactly; every request is answered.
\<close>

section \<open>Layouts\<close>

definition wf_layout :: "layout \<Rightarrow> bool" where
  "wf_layout ly \<longleftrightarrow>
     (\<forall>a < length (ly_asps ly). \<forall>s \<in> set (ap_servers (ly_asps ly ! a)).
        s < length (ly_servers ly) \<and> a \<in> set (sv_asps (ly_servers ly ! s))) \<and>
     (\<forall>s < length (ly_servers ly). \<forall>a \<in> set (sv_asps (ly_servers ly ! s)).
        a < length (ly_asps ly) \<and> s \<in> set (ap_servers (ly_asps ly ! a))) \<and>
     (\<forall>s < length (ly_servers ly). 0 < sv_required (ly_servers ly ! s))"

lemma push_servers_length [simp]:
  "length (fold (\<lambda>asp asps. asps[asp := (asps ! asp)\<lparr>ap_servers := ap_servers (asps ! asp) @ [index]\<rparr>]) members asps)
     = length asps"
  by (induction members arbitrary: asps) simp_all

lemma push_servers_nth:
  assumes "a < length asps"
  shows "set (ap_servers (fold (\<lambda>asp asps. asps[asp := (asps ! asp)\<lparr>ap_servers := ap_servers (asps ! asp) @ [index]\<rparr>])
           members asps ! a)) =
         set (ap_servers (asps ! a)) \<union> (if a \<in> set members then {index} else {})"
  using assms
proof (induction members arbitrary: asps)
  case (Cons b members)
  then show ?case by (cases "a = b") (auto simp: nth_list_update)
qed simp

lemma member_positions:
  assumes "a \<in> set (List.map_filter (\<lambda>i. position (\<lambda>x. ap_name x = i) asps) ids)"
  shows "a < length asps"
proof -
  obtain i where "position (\<lambda>x. ap_name x = i) asps = Some a"
    using assms by (auto simp: List.map_filter_def)
  then show ?thesis using position_Some by fastforce
qed

lemma wf_layoutD:
  assumes "wf_layout ly"
  shows "a < length (ly_asps ly) \<Longrightarrow> s \<in> set (ap_servers (ly_asps ly ! a)) \<Longrightarrow>
      s < length (ly_servers ly) \<and> a \<in> set (sv_asps (ly_servers ly ! s))"
    and "s < length (ly_servers ly) \<Longrightarrow> a \<in> set (sv_asps (ly_servers ly ! s)) \<Longrightarrow>
      a < length (ly_asps ly) \<and> s \<in> set (ap_servers (ly_asps ly ! a))"
    and "s < length (ly_servers ly) \<Longrightarrow> 0 < sv_required (ly_servers ly ! s)"
  using assms unfolding wf_layout_def by blast+

lemma layout_add_wf:
  assumes "wf_layout ly" and "length (ly_servers ly) = index"
  shows "wf_layout (layout_add (index, server) ly)" and "length (ly_servers (layout_add (index, server) ly)) = Suc index"
proof -
  define ly' where "ly' = layout_add (index, server) ly"
  define ms where "ms = List.map_filter (\<lambda>i. position (\<lambda>x. ap_name x = i) (ly_asps ly)) (as_asps server)"
  obtain sp where sp: "ly_servers ly' = ly_servers ly @ [sp]" "sv_asps sp = ms" "0 < sv_required sp"
    by (simp add: ly'_def layout_add_def Let_def ms_def)
  have len: "length (ly_asps ly') = length (ly_asps ly)" by (simp add: ly'_def layout_add_def Let_def)
  have asp: "set (ap_servers (ly_asps ly' ! a)) = set (ap_servers (ly_asps ly ! a)) \<union> (if a \<in> set ms then {index} else {})"
    if "a < length (ly_asps ly)" for a
    using push_servers_nth [OF that, of index ms] by (simp add: ly'_def layout_add_def Let_def ms_def)
  have ms: "a < length (ly_asps ly)" if "a \<in> set ms" for a using member_positions that unfolding ms_def .
  show "length (ly_servers (layout_add (index, server) ly)) = Suc index"
    using assms(2) sp(1) by (simp add: ly'_def)
  have 1: "s < length (ly_servers ly') \<and> a \<in> set (sv_asps (ly_servers ly' ! s))"
    if "a < length (ly_asps ly')" "s \<in> set (ap_servers (ly_asps ly' ! a))" for a s
  proof (cases "s \<in> set (ap_servers (ly_asps ly ! a))")
    case True
    then show ?thesis using wf_layoutD(1) [OF assms(1), of a s] that(1) len by (simp add: sp(1) nth_append)
  next
    case False
    then have "s = index" "a \<in> set ms" using asp [of a] that len by (auto split: if_splits)
    then show ?thesis using assms(2) sp by (simp add: nth_append)
  qed
  have 2: "a < length (ly_asps ly') \<and> s \<in> set (ap_servers (ly_asps ly' ! a))"
    if "s < length (ly_servers ly')" "a \<in> set (sv_asps (ly_servers ly' ! s))" for a s
  proof (cases "s < index")
    case True
    then have "a < length (ly_asps ly) \<and> s \<in> set (ap_servers (ly_asps ly ! a))"
      using wf_layoutD(2) [OF assms(1), of s a] that assms(2) sp(1) by (simp add: nth_append)
    then show ?thesis using asp [of a] len by simp
  next
    case False
    then have "s = index" "a \<in> set ms" using that assms(2) sp by (auto simp: nth_append less_Suc_eq)
    then show ?thesis using asp [of a] ms [of a] len by simp
  qed
  have 3: "0 < sv_required (ly_servers ly' ! s)" if "s < length (ly_servers ly')" for s
    using that wf_layoutD(3) [OF assms(1), of s] sp by (cases "s < index") (auto simp: nth_append less_Suc_eq assms(2))
  show "wf_layout (layout_add (index, server) ly)"
    unfolding ly'_def [symmetric] wf_layout_def using 1 2 3 by blast
qed

text \<open>
  The layout built from any tenant and any list of associations is consistent: the servers an
  ASP lists are exactly the servers that list it, every index is in range, and every server
  needs at least one active ASP.
\<close>

theorem layout_build_wf: "wf_layout (layout_build t associations)"
proof -
  have "wf_layout ly \<Longrightarrow> length (ly_servers ly) = n \<Longrightarrow>
      wf_layout (fold layout_add (List.enumerate n servers) ly)" for ly n servers
  proof (induction servers arbitrary: ly n)
    case (Cons server servers)
    then show ?case using layout_add_wf [OF Cons.prems] by simp
  qed simp
  moreover have "wf_layout \<lparr>ly_asps = map (\<lambda>a. \<lparr>ap_name = assoc_id a, ap_servers = [], ap_gateway = (assoc_role a = Server)\<rparr>)
      (filter (\<lambda>a. assoc_adaptation a = M3ua) associations), ly_servers = []\<rparr>"
    by (simp add: wf_layout_def)
  ultimately show ?thesis by (simp add: layout_build_def)
qed

section \<open>Operations that only send\<close>

text \<open>What the transfer path makes of the actions: the states of the servers, and the timers.\<close>

fun as_view :: "aspm_action \<Rightarrow> as_state list \<Rightarrow> as_state list" where
  "as_view (AyServer s state) v = v[s := state]"
| "as_view _ v = v"

fun as_arm :: "aspm_action \<Rightarrow> server_id set \<Rightarrow> server_id set" where
  "as_arm (AyStart s d) A = insert s A"
| "as_arm (AyStop s) A = A - {s}"
| "as_arm _ A = A"

definition traced :: "as_state list \<Rightarrow> server_id set \<Rightarrow> aspm \<Rightarrow> bool" where
  "traced v A m \<longleftrightarrow> fold as_view (ay_out m) v = ay_servers m \<and>
     fold as_arm (ay_out m) A = {s. s < length (ay_servers m) \<and> ay_servers m ! s = AsPending}"

lemma ay_push_fields [simp]:
  "ay_layout (ay_push act m) = ay_layout m" "ay_asps (ay_push act m) = ay_asps m"
  "ay_servers (ay_push act m) = ay_servers m" "ay_out (ay_push act m) = ay_out m @ [act]"
  by (simp_all add: ay_push_def)

text \<open>\<open>quiet m m'\<close>: \<open>m'\<close> is \<open>m\<close> with messages sent and nothing else changed.\<close>

definition quiet :: "aspm \<Rightarrow> aspm \<Rightarrow> bool" where
  "quiet m m' \<longleftrightarrow> ay_layout m' = ay_layout m \<and> ay_asps m' = ay_asps m \<and> ay_servers m' = ay_servers m \<and>
     (\<exists>acts. ay_out m' = ay_out m @ acts \<and> (\<forall>x \<in> set acts. \<exists>a g. x = AySend a g))"

lemma quiet_refl [simp]: "quiet m m"
  by (simp add: quiet_def)

lemma quiet_trans: "quiet m1 m2 \<Longrightarrow> quiet m2 m3 \<Longrightarrow> quiet m1 m3"
  by (fastforce simp: quiet_def)

lemma quiet_send [simp]: "quiet m (aspm_send a g m)"
  by (auto simp: quiet_def aspm_send_def)

lemma quiet_error [simp]: "quiet m (aspm_error a c rcs m)"
  by (simp add: aspm_error_def)

lemma quiet_fold:
  assumes "\<And>x m. quiet m (f x m)"
  shows "quiet m (fold f xs m)"
proof (induction xs arbitrary: m)
  case (Cons x xs)
  then show ?case using assms quiet_trans by fastforce
qed simp

lemma quiet_notify [simp]: "quiet m (aspm_notify s status about to m)"
  unfolding aspm_notify_def Let_def by (rule quiet_fold) simp

lemma quiet_tell [simp]: "quiet m (aspm_tell s new m)"
  by (simp add: aspm_tell_def split: option.splits)

lemma quiet_resources [simp]: "quiet m (aspm_resources s m)"
  by (simp add: aspm_resources_def)

lemma quiet_traced:
  assumes "quiet m m'"
  shows "traced v A m' \<longleftrightarrow> traced v A m"
proof -
  obtain acts where o: "ay_out m' = ay_out m @ acts" and s: "\<forall>x \<in> set acts. \<exists>a g. x = AySend a g"
    using assms by (auto simp: quiet_def)
  have "fold as_view acts w = w" for w using s by (induction acts arbitrary: w) auto
  moreover have "fold as_arm acts B = B" for B using s by (induction acts arbitrary: B) auto
  ultimately show ?thesis using assms o by (simp add: traced_def quiet_def)
qed

lemma quietD:
  assumes "quiet m m'"
  shows "ay_layout m' = ay_layout m" "ay_asps m' = ay_asps m" "ay_servers m' = ay_servers m"
  using assms by (simp_all add: quiet_def)

section \<open>The invariant\<close>

definition shape :: "aspm \<Rightarrow> bool" where
  "shape m \<longleftrightarrow> wf_layout (ay_layout m) \<and> length (ay_asps m) = length (ly_asps (ay_layout m)) \<and>
     length (ay_servers m) = length (ly_servers (ay_layout m)) \<and>
     (\<forall>a < length (ay_asps m). length (ae_active (ay_asps m ! a)) = length (servers_of m a))"

text \<open>The state of a server is one that its ASPs justify.\<close>

definition fits :: "aspm \<Rightarrow> server_id \<Rightarrow> bool" where
  "fits m s \<longleftrightarrow>
     (case as_counts m s of (active, inactive) \<Rightarrow>
        (case ay_servers m ! s of
           AsDown \<Rightarrow> active = 0 \<and> inactive = 0
         | AsInactive \<Rightarrow> active < sv_required (server_at m s) \<and> 0 < active + inactive
         | AsActive \<Rightarrow> 0 < active
         | AsPending \<Rightarrow> active = 0 \<and> sv_recovery (server_at m s) \<noteq> None))"

definition exclusive :: "aspm \<Rightarrow> server_id \<Rightarrow> bool" where
  "exclusive m s \<longleftrightarrow>
     (\<forall>a \<in> set (sv_asps (server_at m s)). \<forall>b \<in> set (sv_asps (server_at m s)).
        asp_is_active m a s \<and> asp_is_active m b s \<longrightarrow> a = b)"

text \<open>The activity flag of an ASP for a server, and that an ASP that is down has none set.\<close>

definition marked :: "aspm \<Rightarrow> asp_id \<Rightarrow> server_id \<Rightarrow> bool" where
  "marked m a s = (case asp_position m a s of Some p \<Rightarrow> ae_active (ay_asps m ! a) ! p | None \<Rightarrow> False)"

definition downs :: "aspm \<Rightarrow> bool" where
  "downs m \<longleftrightarrow> (\<forall>a < length (ay_asps m). \<not> ae_up (ay_asps m ! a) \<longrightarrow> (\<forall>s. \<not> marked m a s))"

lemma asp_is_active_marked:
  "asp_is_active m a s \<longleftrightarrow> a < length (ay_asps m) \<and> ae_up (ay_asps m ! a) \<and> marked m a s"
  by (auto simp: asp_is_active_def asp_state_of_def marked_def split: option.splits)

definition aspm_ok :: "aspm \<Rightarrow> bool" where
  "aspm_ok m \<longleftrightarrow> shape m \<and> downs m \<and> (\<forall>s < length (ay_servers m). fits m s) \<and>
     (\<forall>s < length (ay_servers m). sv_mode (server_at m s) = Override \<longrightarrow> exclusive m s)"

lemma marked_cong:
  assumes "ay_layout m' = ay_layout m" and "ay_asps m' = ay_asps m"
  shows "marked m' a s = marked m a s"
  by (simp only: marked_def asp_position_def assms)

lemma state_cong:
  assumes "ay_layout m' = ay_layout m" and "ay_asps m' = ay_asps m"
  shows "asp_is_active m' a s = asp_is_active m a s" "as_counts m' s = as_counts m s"
    "exclusive m' s = exclusive m s" "downs m' = downs m"
    "length (ay_servers m') = length (ay_servers m) \<Longrightarrow> shape m' = shape m"
    "ay_servers m' ! s = ay_servers m ! s \<Longrightarrow> fits m' s = fits m s"
proof -
  have act: "asp_is_active m' a s = asp_is_active m a s" for a s
    by (simp only: asp_is_active_def asp_state_of_def asp_position_def assms)
  have cnt: "as_counts m' s = as_counts m s"
    by (simp only: as_counts_def act assms)
  have mk: "marked m' a s = marked m a s" for a s
    by (simp only: marked_def asp_position_def assms)
  show "asp_is_active m' a s = asp_is_active m a s" "as_counts m' s = as_counts m s"
    "exclusive m' s = exclusive m s" "downs m' = downs m"
    "length (ay_servers m') = length (ay_servers m) \<Longrightarrow> shape m' = shape m"
    "ay_servers m' ! s = ay_servers m ! s \<Longrightarrow> fits m' s = fits m s"
    by (simp_all only: act cnt mk exclusive_def downs_def shape_def fits_def assms)
qed

lemma quiet_ok:
  assumes "quiet m m'"
  shows "aspm_ok m' \<longleftrightarrow> aspm_ok m"
  using state_cong [OF quietD(1,2) [OF assms]] quietD [OF assms] by (simp add: aspm_ok_def)

section \<open>Evaluation of a server\<close>

text \<open>\<open>settles s m m'\<close>: \<open>m'\<close> is \<open>m\<close> with server \<open>s\<close> moved to the state its ASPs put it in.\<close>

definition settles :: "server_id \<Rightarrow> aspm \<Rightarrow> aspm \<Rightarrow> bool" where
  "settles s m m' \<longleftrightarrow> ay_layout m' = ay_layout m \<and> ay_asps m' = ay_asps m \<and>
     ay_servers m' = (ay_servers m)[s := as_next (server_at m s) (ay_servers m ! s)
                                           (fst (as_counts m s)) (snd (as_counts m s))] \<and>
     (s < length (ay_servers m) \<longrightarrow> (\<forall>v A. traced v A m \<longrightarrow> traced v A m'))"

lemma settles_quiet: "settles s m m1 \<Longrightarrow> quiet m1 m2 \<Longrightarrow> settles s m m2"
  using quiet_traced [of m1 m2] quietD [of m1 m2] by (simp add: settles_def)

lemma quiet_settles:
  assumes "quiet m m1" and "settles s m1 m2"
  shows "settles s m m2"
  using assms(2) quiet_traced [OF assms(1)] quietD [OF assms(1)] state_cong [OF quietD(1,2) [OF assms(1)]]
  by (simp add: settles_def)

lemma as_next_Pending: "as_next spec old active inactive = AsPending \<Longrightarrow> old \<noteq> AsPending \<Longrightarrow> sv_recovery spec \<noteq> None"
  by (auto simp: as_next_def split: as_state.splits if_splits)

text \<open>Traces follow a change of one server: its new state, and its timer started or stopped.\<close>

lemma traced_move:
  assumes "traced v A m" and "s < length (ay_servers m)" and "new \<noteq> ay_servers m ! s"
    and "ay_servers m' = (ay_servers m)[s := new]"
    and "ay_out m' = ay_out m @ (if ay_servers m ! s = AsPending then [AyStop s] else []) @
           (if new = AsPending then [AyStart s d] else []) @ [AyServer s new]"
  shows "traced v A m'"
proof -
  have "fold as_view (ay_out m') v = (ay_servers m)[s := new]"
    using assms(1,5) by (simp add: traced_def)
  moreover have "fold as_arm (ay_out m') A =
      {t. t < length (ay_servers m) \<and> (ay_servers m)[s := new] ! t = AsPending}"
    using assms(1,2,3,5) by (auto simp: traced_def nth_list_update split: if_splits)
  ultimately show ?thesis using assms(4) by (simp add: traced_def)
qed

lemma evaluate_settles: "settles s m (fst (aspm_evaluate s m))"
proof -
  let ?old = "ay_servers m ! s"
  define new where "new = as_next (server_at m s) ?old (fst (as_counts m s)) (snd (as_counts m s))"
  show ?thesis
  proof (cases "new = ?old")
    case True
    then show ?thesis by (simp add: settles_def aspm_evaluate_def Let_def case_prod_beta new_def)
  next
    case False
    define m1 where "m1 = m\<lparr>ay_servers := (ay_servers m)[s := new],
        ay_out := ay_out m @ (if ?old = AsPending then [AyStop s] else []) @
           (if new = AsPending then [AyStart s (the (sv_recovery (server_at m s)))] else []) @ [AyServer s new]\<rparr>"
    have rec: "sv_recovery (server_at m s) \<noteq> None" if "new = AsPending"
      using as_next_Pending that False by (metis new_def)
    have e: "fst (aspm_evaluate s m) = aspm_tell s new m1"
      using False rec
      by (cases new; cases "sv_recovery (server_at m s)")
         (simp_all add: aspm_evaluate_def Let_def case_prod_beta new_def [symmetric] m1_def ay_push_def)
    have "traced v A m1" if "traced v A m" "s < length (ay_servers m)" for v A
      using traced_move [OF that False, of m1 "the (sv_recovery (server_at m s))"] by (simp add: m1_def)
    then have "settles s m m1" by (simp add: settles_def m1_def new_def)
    then show ?thesis unfolding e by (rule settles_quiet) simp
  qed
qed

lemma push_asp_settles:
  assumes "settles s (ay_push (AyAsp a s st) m) m'"
  shows "settles s m m'"
proof -
  let ?m = "ay_push (AyAsp a s st) m"
  have "traced v A ?m \<longleftrightarrow> traced v A m" for v A by (simp add: traced_def)
  moreover have "as_counts ?m s = as_counts m s" by (rule state_cong) simp_all
  ultimately show ?thesis using assms by (simp add: settles_def)
qed

lemma bring_up_in_settles: "settles s m (bring_up_in a s m)"
proof -
  let ?m = "ay_push (AyAsp a s AspInactive) m"
  have "settles s ?m (bring_up_in a s m)"
    using evaluate_settles [of s ?m]
    by (auto simp: bring_up_in_def case_prod_beta split: option.splits elim!: settles_quiet)
  then show ?thesis by (rule push_asp_settles)
qed

lemma take_down_in_settles: "settles s m (take_down_in a failed s m)"
proof -
  let ?m = "ay_push (AyAsp a s AspDown) m"
  let ?m2 = "if failed then aspm_notify s NsAspFailure (Some a) (\<lambda>_ _. True) ?m else ?m"
  have "settles s ?m2 (take_down_in a failed s m)"
    unfolding take_down_in_def Let_def by (rule settles_quiet [OF evaluate_settles]) simp
  then have "settles s ?m (take_down_in a failed s m)" by (rule quiet_settles [rotated]) simp
  then show ?thesis by (rule push_asp_settles)
qed

lemma settles_shape:
  assumes "settles s m m'"
  shows "shape m' = shape m" "length (ay_servers m') = length (ay_servers m)"
  using assms state_cong(5) [of m' m] by (simp_all add: settles_def)

text \<open>A server whose pending state has a recovery timer fits after it was evaluated.\<close>

lemma settles_fits:
  assumes "settles s m m'" and "shape m" and "s < length (ay_servers m)"
    and "ay_servers m ! s = AsPending \<longrightarrow> sv_recovery (server_at m s) \<noteq> None"
  shows "fits m' s"
proof -
  have c: "as_counts m' s = as_counts m s" and L: "ay_layout m' = ay_layout m"
    using assms(1) state_cong(2) [of m' m] by (simp_all add: settles_def)
  have req: "0 < sv_required (server_at m s)"
    using assms(2,3) wf_layoutD(3) by (simp add: shape_def)
  have "ay_servers m' ! s = as_next (server_at m s) (ay_servers m ! s) (fst (as_counts m s)) (snd (as_counts m s))"
    using assms(1,3) by (simp add: settles_def)
  then show ?thesis
    using assms(4) req unfolding fits_def c L
    by (auto simp: as_next_def case_prod_beta split: as_state.splits if_splits)
qed

definition pending_ok :: "aspm \<Rightarrow> bool" where
  "pending_ok m \<longleftrightarrow> (\<forall>s < length (ay_servers m). ay_servers m ! s = AsPending \<longrightarrow> sv_recovery (server_at m s) \<noteq> None)"

lemma fits_pending: "\<forall>s < length (ay_servers m). fits m s \<Longrightarrow> pending_ok m"
  by (auto simp: pending_ok_def fits_def split: as_state.splits)

lemma settles_pending:
  assumes "settles s m m'" and "pending_ok m" and "shape m" and "s < length (ay_servers m)"
  shows "pending_ok m'"
proof -
  have f: "fits m' s" using settles_fits [OF assms(1,3,4)] assms(2,4) by (simp add: pending_ok_def)
  then have "ay_servers m' ! s = AsPending \<longrightarrow> sv_recovery (server_at m' s) \<noteq> None"
    by (auto simp: fits_def case_prod_beta)
  moreover have "ay_servers m' ! t = ay_servers m ! t" if "t \<noteq> s" for t
    using assms(1) that by (simp add: settles_def)
  ultimately show ?thesis
    using assms(1,2) by (metis length_list_update pending_ok_def settles_def)
qed

text \<open>Evaluating a list of servers one after the other makes each of them fit and leaves the others.\<close>

lemma settle_list:
  assumes "\<And>s m. settles s m (f s m)" and "shape m" and "pending_ok m"
    and "\<forall>s \<in> set ss. s < length (ay_servers m)"
  shows "shape (fold f ss m) \<and> pending_ok (fold f ss m) \<and> ay_layout (fold f ss m) = ay_layout m \<and>
         ay_asps (fold f ss m) = ay_asps m \<and> length (ay_servers (fold f ss m)) = length (ay_servers m) \<and>
         (\<forall>s. s \<in> set ss \<or> fits m s \<longrightarrow> fits (fold f ss m) s) \<and>
         (\<forall>v A. traced v A m \<longrightarrow> traced v A (fold f ss m))"
  using assms(2-)
proof (induction ss arbitrary: m)
  case (Cons s ss)
  let ?m = "f s m"
  note S = assms(1) [of s m]
  have s: "s < length (ay_servers m)" using Cons.prems(3) by simp
  have F: "ay_layout ?m = ay_layout m" "ay_asps ?m = ay_asps m" "traced v A m \<Longrightarrow> traced v A ?m" for v A
    using S s by (simp_all add: settles_def)
  note sh = settles_shape [OF S]
  have fs: "fits ?m s"
    using settles_fits [OF S Cons.prems(1) s] Cons.prems(2) s by (simp add: pending_ok_def)
  have ft: "fits ?m t" if "fits m t" for t
  proof (cases "t = s")
    case False
    then have "ay_servers ?m ! t = ay_servers m ! t" using S by (simp add: settles_def)
    then show ?thesis using state_cong(6) [OF F(1,2)] that by simp
  qed (use fs in simp)
  have IH: "shape (fold f ss ?m) \<and> pending_ok (fold f ss ?m) \<and> ay_layout (fold f ss ?m) = ay_layout ?m \<and>
         ay_asps (fold f ss ?m) = ay_asps ?m \<and> length (ay_servers (fold f ss ?m)) = length (ay_servers ?m) \<and>
         (\<forall>s. s \<in> set ss \<or> fits ?m s \<longrightarrow> fits (fold f ss ?m) s) \<and>
         (\<forall>v A. traced v A ?m \<longrightarrow> traced v A (fold f ss ?m))"
    by (rule Cons.IH) (use Cons.prems sh s settles_pending [OF S Cons.prems(2,1)] in auto)
  then show ?case using fs ft F sh by simp
qed simp

section \<open>Changes of one ASP\<close>

definition maintains :: "aspm \<Rightarrow> aspm \<Rightarrow> bool" where
  "maintains m m' \<longleftrightarrow> aspm_ok m' \<and> ay_layout m' = ay_layout m \<and> length (ay_servers m') = length (ay_servers m) \<and>
     length (ay_asps m') = length (ay_asps m) \<and> (\<forall>v A. traced v A m \<longrightarrow> traced v A m')"

lemma maintains_trans: "maintains m1 m2 \<Longrightarrow> maintains m2 m3 \<Longrightarrow> maintains m1 m3"
  by (simp add: maintains_def)

lemma maintains_refl: "aspm_ok m \<Longrightarrow> maintains m m"
  by (simp add: maintains_def)

lemma quiet_maintains: "quiet m m' \<Longrightarrow> aspm_ok m \<Longrightarrow> maintains m m'"
  using quiet_ok [of m m'] quiet_traced [of m m'] quietD [of m m'] by (simp add: maintains_def)

lemma maintains_fold:
  assumes "\<And>x m. x \<in> set xs \<Longrightarrow> aspm_ok m \<Longrightarrow> Q m \<Longrightarrow> maintains m (f x m) \<and> Q (f x m)" and "aspm_ok m" and "Q m"
  shows "maintains m (fold f xs m) \<and> Q (fold f xs m)"
  using assms
proof (induction xs arbitrary: m)
  case (Cons x xs)
  have 1: "maintains m (f x m)" "Q (f x m)" using Cons.prems by simp_all
  then have "maintains (f x m) (fold f xs (f x m)) \<and> Q (fold f xs (f x m))"
    using Cons.IH [of "f x m"] Cons.prems(1) by (simp add: maintains_def)
  then show ?case using 1 maintains_trans by simp
qed (simp add: maintains_refl)

lemma set_active_fields [simp]:
  "ay_layout (set_active a s on m) = ay_layout m" "ay_servers (set_active a s on m) = ay_servers m"
  "ay_out (set_active a s on m) = ay_out m" "length (ay_asps (set_active a s on m)) = length (ay_asps m)"
  by (simp_all add: set_active_def set_asp_def split: option.splits)

lemma set_active_up [simp]: "ae_up (ay_asps (set_active a s on m) ! b) = ae_up (ay_asps m ! b)"
  by (cases "a < length (ay_asps m)"; cases "b = a")
     (simp_all add: set_active_def set_asp_def list_update_beyond split: option.splits)

lemma asp_position_Some:
  "asp_position m a s = Some p \<Longrightarrow> p < length (servers_of m a) \<and> servers_of m a ! p = s"
  unfolding asp_position_def using position_Some by fastforce

lemma asp_position_ex: "s \<in> set (servers_of m a) \<Longrightarrow> \<exists>p. asp_position m a s = Some p"
  unfolding asp_position_def using position_None [of "\<lambda>s'. s' = s" "servers_of m a"] by auto

lemma set_active_marked:
  assumes "shape m" and "a < length (ay_asps m)" and "asp_position m a s = Some p"
  shows "marked (set_active a s on m) b t = (if b = a \<and> t = s then on else marked m b t)"
proof -
  have len: "p < length (ae_active (ay_asps m ! a))"
    using assms asp_position_Some [OF assms(3)] by (simp add: shape_def)
  have pos: "asp_position (set_active a s on m) b t = asp_position m b t"
    by (simp add: asp_position_def)
  have other: "q \<noteq> p" if "asp_position m a t = Some q" "t \<noteq> s" for q
    using asp_position_Some [OF assms(3)] asp_position_Some [OF that(1)] that(2) by auto
  show ?thesis
  proof (cases "b = a")
    case False
    then have "ay_asps (set_active a s on m) ! b = ay_asps m ! b"
      by (simp add: set_active_def set_asp_def assms(3))
    then show ?thesis using False pos by (simp add: marked_def split: option.splits)
  next
    case True
    have e: "ae_active (ay_asps (set_active a s on m) ! a) = (ae_active (ay_asps m ! a))[p := on]"
      using assms(2) by (simp add: set_active_def set_asp_def assms(3))
    show ?thesis
      using True pos e len assms(2,3) other
      by (cases "asp_position m a t"; cases "t = s") (simp_all add: marked_def)
  qed
qed

lemma set_active_is_active:
  assumes "shape m" and "a < length (ay_asps m)" and "asp_position m a s = Some p"
  shows "asp_is_active (set_active a s on m) b t =
    (if b = a \<and> t = s then ae_up (ay_asps m ! a) \<and> on else asp_is_active m b t)"
  using set_active_marked [OF assms] assms(2) by (simp add: asp_is_active_marked)

lemma set_active_counts:
  assumes "shape m" and "a < length (ay_asps m)" and "asp_position m a s = Some p" and "t \<noteq> s"
  shows "as_counts (set_active a s on m) t = as_counts m t" "exclusive (set_active a s on m) t = exclusive m t"
  using set_active_is_active [OF assms(1-3), of on _ t] assms(4)
  by (simp_all add: as_counts_def exclusive_def)

lemma set_active_shape: "shape m \<Longrightarrow> shape (set_active a s on m)"
  by (cases "a < length (ay_asps m)")
     (auto simp: shape_def set_active_def set_asp_def nth_list_update split: option.splits)

lemma set_active_downs:
  assumes "downs m" and "shape m" and "a < length (ay_asps m)" and "asp_position m a s = Some p"
    and "\<not> on \<or> ae_up (ay_asps m ! a)"
  shows "downs (set_active a s on m)"
  using assms(1,5) set_active_marked [OF assms(2-4)] by (auto simp: downs_def)

text \<open>One server changed its ASPs and was evaluated: the invariant holds again.\<close>

lemma settle_one:
  assumes "aspm_ok m" and "shape m1" and "downs m1" and "ay_layout m1 = ay_layout m"
    and "ay_servers m1 = ay_servers m" and "s < length (ay_servers m)"
    and "\<And>t. t \<noteq> s \<Longrightarrow> as_counts m1 t = as_counts m t" and "\<And>t. t \<noteq> s \<Longrightarrow> exclusive m1 t = exclusive m t"
    and "sv_mode (server_at m s) = Override \<longrightarrow> exclusive m1 s"
    and "settles s m1 m2"
  shows "aspm_ok m2"
proof -
  have F: "ay_layout m2 = ay_layout m1" "ay_asps m2 = ay_asps m1" "length (ay_servers m2) = length (ay_servers m)"
    using assms(5,10) by (simp_all add: settles_def)
  have rec: "ay_servers m1 ! s = AsPending \<longrightarrow> sv_recovery (server_at m1 s) \<noteq> None"
    using assms(1,4,5,6) fits_pending [of m] by (simp add: aspm_ok_def pending_ok_def)
  have fs: "fits m2 s" using settles_fits [OF assms(10,2) _ rec] assms(5,6) by simp
  have ft: "fits m2 t" if "t < length (ay_servers m)" "t \<noteq> s" for t
  proof -
    have c: "as_counts m2 t = as_counts m t"
      using state_cong(2) [OF F(1,2)] assms(7) that by simp
    have st: "ay_servers m2 ! t = ay_servers m ! t" using assms(5,10) that by (simp add: settles_def)
    have "fits m2 t = fits m t" unfolding fits_def c st F(1) assms(4) ..
    then show ?thesis using assms(1) that by (simp add: aspm_ok_def)
  qed
  have ex: "exclusive m2 t" if "t < length (ay_servers m)" "sv_mode (server_at m t) = Override" for t
    using state_cong(3) [OF F(1,2), of t] assms(1,8,9) that by (cases "t = s") (simp_all add: aspm_ok_def)
  have "shape m2" "downs m2"
    using settles_shape(1) [OF assms(10)] state_cong(4) [OF F(1,2)] assms(2,3) by simp_all
  then show ?thesis using fs ft ex F assms(4) by (fastforce simp: aspm_ok_def)
qed

lemma traced_set_active [simp]: "traced v A (set_active a s on m) = traced v A m"
  by (simp add: traced_def)

lemma traced_push_asp [simp]: "traced v A (ay_push (AyAsp a s st) m) = traced v A m"
  "traced v A (ay_push (AyActivated a s) m) = traced v A m"
  by (simp_all add: traced_def)

lemma deactivate_maintains:
  assumes "aspm_ok m" and "a < length (ay_asps m)"
  shows "maintains m (deactivate a s m)"
proof (cases "asp_position m a s")
  case None
  then show ?thesis using assms(1) by (simp add: deactivate_def maintains_refl)
next
  case (Some p)
  have sh: "shape m" and dn: "downs m" using assms(1) by (simp_all add: aspm_ok_def)
  have sm: "s \<in> set (servers_of m a)" using asp_position_Some [OF Some] nth_mem by blast
  then have s: "s < length (ay_servers m)"
    using sh assms(2) wf_layoutD(1) by (metis shape_def)
  show ?thesis
  proof (cases "\<not> ae_up (ay_asps m ! a) \<or> \<not> ae_active (ay_asps m ! a) ! p")
    case True
    then show ?thesis using assms(1) Some by (simp add: deactivate_def maintains_refl)
  next
    case False
    let ?m1 = "set_active a s False m"
    let ?m2 = "deactivate a s m"
    have set: "settles s ?m1 ?m2"
      using False Some settles_quiet [OF evaluate_settles quiet_resources]
        push_asp_settles [of s a AspInactive ?m1]
      by (simp add: deactivate_def)
    have ex: "exclusive ?m1 s" if "exclusive m s"
      using that set_active_is_active [OF sh assms(2) Some, of False _ s] by (simp add: exclusive_def)
    have "aspm_ok ?m2"
      by (rule settle_one [OF assms(1) set_active_shape [OF sh] set_active_downs [OF dn sh assms(2) Some]])
         (use s set ex set_active_counts [OF sh assms(2) Some] assms(1) in \<open>auto simp: aspm_ok_def\<close>)
    then show ?thesis using set s by (simp add: maintains_def settles_def)
  qed
qed

lemma displace_fields [simp]:
  "ay_layout (displace a s d m) = ay_layout m" "ay_servers (displace a s d m) = ay_servers m"
  "length (ay_asps (displace a s d m)) = length (ay_asps m)"
  "ay_asps (displace a s d m) = ay_asps (set_active d s False m)"
  using quietD [OF quiet_notify [of "ay_push (AyAsp d s AspInactive) (set_active d s False m)" s
      NsAlternateAspActive "Some a" "\<lambda>_ to. to = d"]]
  by (simp_all add: displace_def)

lemma displace_traced [simp]: "traced v A (displace a s d m) = traced v A m"
  unfolding displace_def by (simp add: quiet_traced [OF quiet_notify])

text \<open>Displacing a list of ASPs from one server clears exactly their flags there.\<close>

lemma displace_fold:
  assumes "shape m" and "\<forall>d \<in> set ds. d < length (ay_asps m) \<and> s \<in> set (servers_of m d)"
  shows "shape (fold (displace a s) ds m) \<and> ay_layout (fold (displace a s) ds m) = ay_layout m \<and>
    ay_servers (fold (displace a s) ds m) = ay_servers m \<and>
    length (ay_asps (fold (displace a s) ds m)) = length (ay_asps m) \<and>
    (\<forall>b. ae_up (ay_asps (fold (displace a s) ds m) ! b) = ae_up (ay_asps m ! b)) \<and>
    (\<forall>b t. marked (fold (displace a s) ds m) b t \<longleftrightarrow> marked m b t \<and> \<not> (t = s \<and> b \<in> set ds)) \<and>
    (\<forall>v A. traced v A (fold (displace a s) ds m) = traced v A m)"
  using assms
proof (induction ds arbitrary: m)
  case (Cons d ds)
  let ?m = "displace a s d m"
  obtain p where p: "asp_position m d s = Some p" using asp_position_ex Cons.prems(2) by fastforce
  have mk: "marked ?m b t \<longleftrightarrow> marked m b t \<and> \<not> (t = s \<and> b = d)" for b t
    using set_active_marked [OF Cons.prems(1) _ p, of False b t] Cons.prems(2)
      marked_cong [of ?m "set_active d s False m" b t] by auto
  have sh: "shape ?m"
    using state_cong(5) [of ?m "set_active d s False m"] set_active_shape [OF Cons.prems(1)] by simp
  have "\<forall>d \<in> set ds. d < length (ay_asps ?m) \<and> s \<in> set (servers_of ?m d)" using Cons.prems(2) by simp
  from Cons.IH [OF sh this] show ?case using mk by auto
qed simp

lemma activate_maintains:
  assumes "aspm_ok m" and "a < length (ay_asps m)" and "ae_up (ay_asps m ! a)"
  shows "maintains m (activate a s m) \<and> ae_up (ay_asps (activate a s m) ! a)"
proof (cases "asp_position m a s")
  case None
  then show ?thesis using assms by (simp add: activate_def maintains_refl)
next
  case (Some p)
  have sh: "shape m" and dn: "downs m" using assms(1) by (simp_all add: aspm_ok_def)
  have sm: "s \<in> set (servers_of m a)" using asp_position_Some [OF Some] nth_mem by blast
  then have s: "s < length (ay_servers m)" using sh assms(2) wf_layoutD(1) by (metis shape_def)
  show ?thesis
  proof (cases "ae_active (ay_asps m ! a) ! p")
    case True
    then show ?thesis using assms Some by (simp add: activate_def maintains_refl)
  next
    case False
    define ds where "ds = (if sv_mode (server_at m s) = Override
        then filter (\<lambda>other. other \<noteq> a \<and> asp_is_active m other s) (sv_asps (server_at m s)) else [])"
    define m1 where "m1 = ay_push (AyAsp a s AspActive) (set_active a s True m)"
    define m2 where "m2 = fold (displace a s) ds m1"
    have F1: "ay_layout m1 = ay_layout m" "ay_servers m1 = ay_servers m" "length (ay_asps m1) = length (ay_asps m)"
      "ay_asps m1 = ay_asps (set_active a s True m)" "\<And>v A. traced v A m1 = traced v A m"
      by (simp_all add: m1_def)
    have sh1: "shape m1"
      using state_cong(5) [of m1 "set_active a s True m"] set_active_shape [OF sh] by (simp add: m1_def)
    have mk1: "marked m1 b t \<longleftrightarrow> b = a \<and> t = s \<or> marked m b t" for b t
      using set_active_marked [OF sh assms(2) Some, of True b t] marked_cong [of m1 "set_active a s True m" b t] F1
      by auto
    have "d < length (ay_asps m1) \<and> s \<in> set (servers_of m1 d)" if "d \<in> set ds" for d
      using that sh s wf_layoutD(2) [of "ay_layout m" s d] F1 by (auto simp: ds_def shape_def split: if_splits)
    note D = displace_fold [OF sh1, of ds s a, folded m2_def]
    then have D: "shape m2" "ay_layout m2 = ay_layout m" "ay_servers m2 = ay_servers m"
      "length (ay_asps m2) = length (ay_asps m)" "\<And>b. ae_up (ay_asps m2 ! b) = ae_up (ay_asps m ! b)"
      "\<And>b t. marked m2 b t \<longleftrightarrow> (b = a \<and> t = s \<or> marked m b t) \<and> \<not> (t = s \<and> b \<in> set ds)"
      "\<And>v A. traced v A m2 = traced v A m"
      using \<open>\<And>d. d \<in> set ds \<Longrightarrow> d < length (ay_asps m1) \<and> s \<in> set (servers_of m1 d)\<close> F1 mk1 by simp_all
    have act: "asp_is_active m2 b t = asp_is_active m b t" if "t \<noteq> s" for b t
      using that D by (simp add: asp_is_active_marked)
    have cnt: "as_counts m2 t = as_counts m t" "exclusive m2 t = exclusive m t" if "t \<noteq> s" for t
      using act [OF that] D(2,5) by (simp_all add: as_counts_def exclusive_def)
    have dn2: "downs m2" using dn D(4,5,6) assms(3) by (auto simp: downs_def)
    have ex: "exclusive m2 s" if "sv_mode (server_at m s) = Override"
    proof -
      have "b = a" if "b \<in> set (sv_asps (server_at m s))" "asp_is_active m2 b s" for b
        using that D(4,5,6) \<open>sv_mode (server_at m s) = Override\<close>
        by (auto simp: asp_is_active_marked ds_def)
      then show ?thesis using D(2) unfolding exclusive_def by metis
    qed
    have set: "settles s m2 (fst (aspm_evaluate s m2))" by (rule evaluate_settles)
    have ok: "aspm_ok (fst (aspm_evaluate s m2))"
      by (rule settle_one [OF assms(1) D(1) dn2 D(2,3) s cnt _ set]) (use ex in simp_all)
    have res: "activate a s m = ay_push (AyActivated a s) (fst (aspm_evaluate s m2))"
      using Some False by (simp add: activate_def ds_def m1_def m2_def Let_def)
    let ?m3 = "fst (aspm_evaluate s m2)"
    have "aspm_ok (ay_push (AyActivated a s) ?m3)"
      using ok state_cong [of "ay_push (AyActivated a s) ?m3" ?m3] by (simp add: aspm_ok_def)
    then show ?thesis
      using set s D assms(3) unfolding res by (simp add: maintains_def settles_def)
  qed
qed

text \<open>An ASP changed in some servers, each of which was evaluated: the invariant holds again.\<close>

lemma settle_many:
  assumes "aspm_ok m" and "shape m1" and "downs m1" and "ay_layout m1 = ay_layout m"
    and "ay_servers m1 = ay_servers m" and "\<And>s m. settles s m (f s m)"
    and "\<forall>s \<in> set ss. s < length (ay_servers m)"
    and "\<And>t. t < length (ay_servers m) \<Longrightarrow> t \<notin> set ss \<Longrightarrow> as_counts m1 t = as_counts m t"
    and "\<And>t. t < length (ay_servers m) \<Longrightarrow> exclusive m t \<Longrightarrow> exclusive m1 t"
    and "\<And>v A. traced v A m1 = traced v A m" and "length (ay_asps m1) = length (ay_asps m)"
  shows "maintains m (fold f ss m1)" and "ay_asps (fold f ss m1) = ay_asps m1"
proof -
  have p1: "pending_ok m1"
    using assms(1,4,5) fits_pending [of m] by (simp add: aspm_ok_def pending_ok_def)
  have r: "\<forall>s \<in> set ss. s < length (ay_servers m1)" using assms(5,7) by simp
  define m2 where "m2 = fold f ss m1"
  have L: "shape m2" "ay_layout m2 = ay_layout m1" "ay_asps m2 = ay_asps m1"
    "length (ay_servers m2) = length (ay_servers m1)" "\<And>s. s \<in> set ss \<or> fits m1 s \<Longrightarrow> fits m2 s"
    "\<And>v A. traced v A m1 \<Longrightarrow> traced v A m2"
    using settle_list [of f m1 ss, OF assms(6,2) p1 r] unfolding m2_def by blast+
  have "fits m2 t" if "t < length (ay_servers m)" for t
  proof (cases "t \<in> set ss")
    case False
    have c: "as_counts m1 t = as_counts m t" using assms(8) that False by simp
    have "fits m1 t = fits m t" unfolding fits_def c assms(4,5) ..
    then show ?thesis using L(5) assms(1) that by (simp add: aspm_ok_def)
  qed (use L(5) in simp)
  moreover have "exclusive m2 t" if "t < length (ay_servers m)" "sv_mode (server_at m t) = Override" for t
    using state_cong(3) [OF L(2,3)] assms(1,9) that by (simp add: aspm_ok_def)
  moreover have "downs m2" using state_cong(4) [OF L(2,3)] assms(3) by simp
  ultimately show "maintains m (fold f ss m1)" "ay_asps (fold f ss m1) = ay_asps m1"
    using L assms(4,5,10,11) by (simp_all add: maintains_def aspm_ok_def m2_def)
qed

lemma set_asp_fields [simp]:
  "ay_layout (set_asp a f m) = ay_layout m" "ay_servers (set_asp a f m) = ay_servers m"
  "ay_out (set_asp a f m) = ay_out m" "length (ay_asps (set_asp a f m)) = length (ay_asps m)"
  by (simp_all add: set_asp_def)

lemma set_asp_traced [simp]: "traced v A (set_asp a f m) = traced v A m"
  by (simp add: traced_def)

lemma set_asp_marked:
  assumes "\<And>e. ae_active (f e) = ae_active e"
  shows "marked (set_asp a f m) b s = marked m b s"
  using assms by (cases "a < length (ay_asps m)"; cases "b = a")
    (auto simp: marked_def asp_position_def set_asp_def list_update_beyond split: option.splits)

lemma set_asp_shape:
  assumes "\<And>e. ae_active (f e) = ae_active e" and "shape m"
  shows "shape (set_asp a f m)"
  using assms by (cases "a < length (ay_asps m)") (auto simp: shape_def set_asp_def nth_list_update list_update_beyond)

lemma set_asp_identifier:
  assumes "maintains m0 m"
  shows "maintains m0 (set_asp a (\<lambda>e. e\<lparr>ae_identifier := identifier\<rparr>) m)"
proof -
  let ?m = "set_asp a (\<lambda>e. e\<lparr>ae_identifier := identifier\<rparr>) m"
  have mk: "marked ?m b t = marked m b t" for b t by (rule set_asp_marked) simp
  have up: "ae_up (ay_asps ?m ! b) = ae_up (ay_asps m ! b)" for b
    by (cases "a < length (ay_asps m)"; cases "b = a") (simp_all add: set_asp_def list_update_beyond)
  have act: "asp_is_active ?m b t = asp_is_active m b t" for b t by (simp add: asp_is_active_marked mk up)
  have cnt: "as_counts ?m t = as_counts m t" for t by (simp add: as_counts_def act up)
  have "fits ?m t = fits m t" for t unfolding fits_def cnt set_asp_fields ..
  moreover have "shape ?m" if "shape m" by (rule set_asp_shape) (use that in simp_all)
  ultimately show ?thesis
    using assms by (simp add: maintains_def aspm_ok_def downs_def mk up exclusive_def act)
qed

lemma servers_in_range:
  "shape m \<Longrightarrow> a < length (ay_asps m) \<Longrightarrow> s \<in> set (servers_of m a) \<Longrightarrow> s < length (ay_servers m)"
  using wf_layoutD(1) by (metis shape_def)

lemma not_member:
  "shape m \<Longrightarrow> t < length (ay_servers m) \<Longrightarrow> t \<notin> set (servers_of m a) \<Longrightarrow> a \<notin> set (sv_asps (server_at m t))"
  using wf_layoutD(2) by (metis shape_def)

lemma bring_up_maintains:
  assumes "aspm_ok m" and "a < length (ay_asps m)" and "\<not> ae_up (ay_asps m ! a)"
  shows "maintains m (bring_up a identifier m)"
proof -
  let ?f = "\<lambda>e. e\<lparr>ae_up := True, ae_identifier := identifier\<rparr>"
  let ?m = "set_asp a ?f m"
  have sh: "shape m" and dn: "downs m" using assms(1) by (simp_all add: aspm_ok_def)
  have mk: "marked ?m b t = marked m b t" for b t by (rule set_asp_marked) simp
  have up: "ae_up (ay_asps ?m ! b) = (b = a \<or> ae_up (ay_asps m ! b))" for b
    using assms(2) by (simp add: set_asp_def nth_list_update)
  have act: "asp_is_active ?m b t = asp_is_active m b t" for b t
    using dn assms(2,3) by (auto simp: asp_is_active_marked up mk downs_def)
  have cnt: "as_counts ?m t = as_counts m t" if "t < length (ay_servers m)" "t \<notin> set (servers_of m a)" for t
  proof -
    have "filter (\<lambda>b. ae_up (ay_asps ?m ! b)) (sv_asps (server_at m t)) =
        filter (\<lambda>b. ae_up (ay_asps m ! b)) (sv_asps (server_at m t))"
      using not_member [OF sh that] by (intro filter_cong) (auto simp: up)
    then show ?thesis by (simp add: as_counts_def act)
  qed
  show ?thesis
    unfolding bring_up_def
    by (rule settle_many [OF assms(1) set_asp_shape [OF _ sh] _ _ _ bring_up_in_settles])
       (use dn servers_in_range [OF sh assms(2)] cnt in \<open>auto simp: downs_def mk up exclusive_def act\<close>)
qed

lemma clear_fold:
  assumes "shape m" and "a < length (ay_asps m)" and "set ss \<subseteq> set (servers_of m a)"
  shows "shape (fold (\<lambda>s. set_active a s False) ss m) \<and>
    ay_layout (fold (\<lambda>s. set_active a s False) ss m) = ay_layout m \<and>
    ay_servers (fold (\<lambda>s. set_active a s False) ss m) = ay_servers m \<and>
    length (ay_asps (fold (\<lambda>s. set_active a s False) ss m)) = length (ay_asps m) \<and>
    (\<forall>b. ae_up (ay_asps (fold (\<lambda>s. set_active a s False) ss m) ! b) = ae_up (ay_asps m ! b)) \<and>
    (\<forall>b t. marked (fold (\<lambda>s. set_active a s False) ss m) b t \<longleftrightarrow> marked m b t \<and> \<not> (b = a \<and> t \<in> set ss)) \<and>
    (\<forall>v A. traced v A (fold (\<lambda>s. set_active a s False) ss m) = traced v A m)"
  using assms
proof (induction ss arbitrary: m)
  case (Cons s ss)
  obtain p where p: "asp_position m a s = Some p" using asp_position_ex Cons.prems(3) by fastforce
  note mk = set_active_marked [OF Cons.prems(1,2) p, of False]
  have "shape (set_active a s False m)" using set_active_shape Cons.prems(1) by blast
  from Cons.IH [OF this] show ?case using Cons.prems(2,3) mk by auto
qed simp

lemma marked_server: "marked m a t \<Longrightarrow> t \<in> set (servers_of m a)"
  using asp_position_Some [of m a t] nth_mem by (fastforce simp: marked_def split: option.splits)

lemma take_down_maintains:
  assumes "aspm_ok m" and "a < length (ay_asps m)"
  shows "maintains m (take_down a failed m)"
proof (cases "ae_up (ay_asps m ! a)")
  case False
  then show ?thesis using assms(1) by (simp add: take_down_def maintains_refl)
next
  case True
  have sh: "shape m" and dn: "downs m" using assms(1) by (simp_all add: aspm_ok_def)
  define m1 where "m1 = fold (\<lambda>s. set_active a s False) (servers_of m a) m"
  define m2 where "m2 = set_asp a (\<lambda>e. e\<lparr>ae_up := False\<rparr>) m1"
  define m3 where "m3 = fold (take_down_in a failed) (servers_of m a) m2"
  note C = clear_fold [OF sh assms(2) order_refl, folded m1_def]
  have F: "ay_layout m2 = ay_layout m" "ay_servers m2 = ay_servers m" "length (ay_asps m2) = length (ay_asps m)"
    "\<And>v A. traced v A m2 = traced v A m"
    using C by (simp_all add: m2_def)
  have sh2: "shape m2" unfolding m2_def by (rule set_asp_shape) (use C in simp_all)
  have up: "ae_up (ay_asps m2 ! b) = (b \<noteq> a \<and> ae_up (ay_asps m ! b))" for b
    using C assms(2) by (simp add: m2_def set_asp_def nth_list_update)
  have mk: "marked m2 b t \<longleftrightarrow> marked m b t \<and> b \<noteq> a" for b t
  proof -
    have "marked m2 b t = marked m1 b t" unfolding m2_def by (rule set_asp_marked) simp
    then show ?thesis using C marked_server [of m a t] by auto
  qed
  have act: "asp_is_active m2 b t = (b \<noteq> a \<and> asp_is_active m b t)" for b t
    using F(3) by (auto simp: asp_is_active_marked up mk)
  have cnt: "as_counts m2 t = as_counts m t" if "t < length (ay_servers m)" "t \<notin> set (servers_of m a)" for t
  proof -
    note nm = not_member [OF sh that]
    have "filter (\<lambda>b. ae_up (ay_asps m2 ! b)) (sv_asps (server_at m t)) =
        filter (\<lambda>b. ae_up (ay_asps m ! b)) (sv_asps (server_at m t))"
      "filter (\<lambda>b. asp_is_active m2 b t) (sv_asps (server_at m t)) =
        filter (\<lambda>b. asp_is_active m b t) (sv_asps (server_at m t))"
      using nm by (auto intro!: filter_cong simp: up act)
    then show ?thesis by (simp add: as_counts_def F(1))
  qed
  have dn2: "downs m2" using dn by (auto simp: downs_def mk up F(3))
  have M: "maintains m m3"
    unfolding m3_def
    by (rule settle_many [OF assms(1) sh2 dn2 F(1,2) take_down_in_settles])
       (use servers_in_range [OF sh assms(2)] cnt F in \<open>auto simp: exclusive_def act\<close>)
  have res: "take_down a failed m = set_asp a (\<lambda>e. e\<lparr>ae_identifier := None\<rparr>) m3"
    using True by (simp add: take_down_def Let_def m1_def m2_def m3_def)
  show ?thesis
    unfolding res using M by (rule set_asp_identifier)
qed

section \<open>Requests, and the machine as a whole\<close>

lemma up_flag_quiet: "quiet m m' \<Longrightarrow> ae_up (ay_asps m' ! a) = ae_up (ay_asps m ! a)"
  by (simp add: quiet_def)

lemma deactivate_fold:
  assumes "aspm_ok m" and "a < length (ay_asps m)"
  shows "maintains m (fold (deactivate a) ss m)"
proof -
  have "maintains m (fold (deactivate a) ss m) \<and> a < length (ay_asps (fold (deactivate a) ss m))"
    by (rule maintains_fold)
       (use assms deactivate_maintains in \<open>fastforce simp: maintains_def\<close>)+
  then show ?thesis ..
qed

lemma activate_fold:
  assumes "aspm_ok m" and "a < length (ay_asps m)" and "ae_up (ay_asps m ! a)"
  shows "maintains m (fold (activate a) ss m)"
proof -
  have "maintains m (fold (activate a) ss m) \<and>
      (a < length (ay_asps (fold (activate a) ss m)) \<and> ae_up (ay_asps (fold (activate a) ss m) ! a))"
    by (rule maintains_fold)
       (use assms activate_maintains in \<open>fastforce simp: maintains_def\<close>)+
  then show ?thesis ..
qed

lemma admitted_quiet: "quiet m (fst (admitted a contexts m))"
proof (cases "ae_up (ay_asps m ! a)")
  case True
  define m1 where "m1 = (if unconfigured m a contexts \<noteq> []
      then aspm_error a InvalidRoutingContext (unconfigured m a contexts) m else m)"
  define m2 where "m2 = (if concerned m1 a contexts = [] \<and> contexts = None
      then aspm_error a NoConfiguredAsForAsp [] m1 else m1)"
  have "quiet m m1" "quiet m1 m2" by (simp_all add: m1_def m2_def)
  moreover have "fst (admitted a contexts m) = m2"
    unfolding admitted_def m1_def m2_def Let_def using True by (simp only: not_True_eq_False if_False fst_conv)
  ultimately show ?thesis using quiet_trans by simp
next
  case False
  then show ?thesis by (simp add: admitted_def)
qed

lemma admitted_up: "snd (admitted a contexts m) \<noteq> None \<Longrightarrow> ae_up (ay_asps m ! a)"
  by (auto simp: admitted_def split: if_splits)

lemma aspm_up_maintains:
  assumes "aspm_ok m" and "a < length (ay_asps m)"
  shows "maintains m (aspm_up a identifier m)"
proof -
  let ?m1 = "aspm_send a MgUpAck m"
  have q: "quiet m ?m1" by simp
  note M1 = quiet_maintains [OF q assms(1)]
  have ok1: "aspm_ok ?m1" "a < length (ay_asps ?m1)" using M1 assms(2) by (simp_all add: maintains_def)
  show ?thesis
  proof (cases "ae_up (ay_asps ?m1 ! a)")
    case False
    then show ?thesis
      using maintains_trans [OF M1 bring_up_maintains [OF ok1]] by (simp add: aspm_up_def Let_def)
  next
    case True
    let ?m2 = "if anywhere_active ?m1 a
      then fold (deactivate a) (servers_of ?m1 a) (aspm_error a UnexpectedMessage [] ?m1) else ?m1"
    let ?e = "aspm_error a UnexpectedMessage [] ?m1"
    have E: "maintains ?m1 ?e" by (rule quiet_maintains [OF quiet_error ok1(1)])
    then have "maintains ?e (fold (deactivate a) (servers_of ?m1 a) ?e)"
      using ok1(2) by (intro deactivate_fold) (simp_all add: maintains_def)
    then have "maintains m ?m2" using M1 maintains_trans [OF M1 maintains_trans [OF E]] by simp
    moreover from this have "maintains m (set_asp a (\<lambda>e. e\<lparr>ae_identifier := identifier\<rparr>) ?m2)"
      by (rule set_asp_identifier)
    ultimately show ?thesis using True by (simp add: aspm_up_def Let_def)
  qed
qed

lemma aspm_active_maintains:
  assumes "aspm_ok m" and "a < length (ay_asps m)"
  shows "maintains m (aspm_active mode_value a mode contexts m)"
proof -
  obtain m1 r where ad: "admitted a contexts m = (m1, r)" by (cases "admitted a contexts m")
  have q1: "quiet m m1" using admitted_quiet [of m a contexts] ad by simp
  show ?thesis
  proof (cases r)
    case None
    then show ?thesis using quiet_maintains [OF q1 assms(1)] ad by (simp add: aspm_active_def)
  next
    case (Some servers)
    have up: "ae_up (ay_asps m ! a)" using admitted_up [of a contexts m] ad Some by simp
    define ms where "ms = aspm_active mode_value a mode contexts m"
    obtain m2 acc where m2: "quiet m1 m2" "ms = fold (activate a) acc m2"
    proof -
      let ?ok = "\<lambda>s. mode = None \<or> mode = Some (mode_value (sv_mode (server_at m1 s)))"
      let ?rcs = "map (\<lambda>s. sv_routing_context (server_at m1 s))"
      let ?e = "if filter (\<lambda>s. \<not> ?ok s) servers \<noteq> []
        then aspm_error a UnsupportedTrafficModeType (?rcs (filter (\<lambda>s. \<not> ?ok s) servers)) m1 else m1"
      let ?k = "aspm_send a (MgActiveAck mode (if contexts \<noteq> None then ?rcs (filter ?ok servers) else [])) ?e"
      have e: "quiet m1 ?e" by simp
      have k: "quiet m1 ?k" by (rule quiet_trans [OF e quiet_send])
      have "ms = (if filter ?ok servers = [] then ?e else fold (activate a) (filter ?ok servers) ?k)"
        by (simp add: ms_def aspm_active_def ad Some Let_def)
      then show thesis
        using that [of ?e "[]"] that [of ?k "filter ?ok servers"] e k by (cases "filter ?ok servers = []") simp_all
    qed
    have q: "quiet m m2" by (rule quiet_trans [OF q1 m2(1)])
    have M: "maintains m m2" by (rule quiet_maintains [OF q assms(1)])
    have "maintains m2 ms"
      unfolding m2(2) using M assms(2) up up_flag_quiet [OF q] by (intro activate_fold) (simp_all add: maintains_def)
    then show ?thesis using M maintains_trans ms_def by blast
  qed
qed

lemma aspm_inactive_maintains:
  assumes "aspm_ok m" and "a < length (ay_asps m)"
  shows "maintains m (aspm_inactive a contexts m)"
proof -
  obtain m1 r where ad: "admitted a contexts m = (m1, r)" by (cases "admitted a contexts m")
  have q1: "quiet m m1" using admitted_quiet [of m a contexts] ad by simp
  have M1: "maintains m m1" by (rule quiet_maintains [OF q1 assms(1)])
  show ?thesis
  proof (cases r)
    case None
    then show ?thesis using M1 ad by (simp add: aspm_inactive_def)
  next
    case (Some servers)
    let ?k = "aspm_send a (MgInactiveAck (if contexts \<noteq> None
               then map (\<lambda>s. sv_routing_context (server_at m1 s)) servers else [])) m1"
    have "aspm_ok m1" using M1 by (simp add: maintains_def)
    then have K: "maintains m ?k" by (rule maintains_trans [OF M1 quiet_maintains [OF quiet_send]])
    then have "maintains ?k (fold (deactivate a) servers ?k)"
      using assms(2) by (intro deactivate_fold) (simp_all add: maintains_def)
    from maintains_trans [OF K this] show ?thesis unfolding aspm_inactive_def ad Some by simp
  qed
qed

fun as_fires :: "aspm_input \<Rightarrow> server_id set" where
  "as_fires (InTimeout s) = {s}"
| "as_fires _ = {}"

lemma dispatch_maintains:
  assumes "aspm_ok m" and "as_fires input = {}"
  shows "maintains m (aspm_dispatch mode_value input m)"
proof -
  have down: "maintains m (aspm_down a m)" if "a < length (ay_asps m)" for a
  proof -
    have K: "maintains m (aspm_send a MgDownAck m)" by (rule quiet_maintains [OF quiet_send assms(1)])
    then have "aspm_ok (aspm_send a MgDownAck m)" "a < length (ay_asps (aspm_send a MgDownAck m))"
      using that by (simp_all add: maintains_def)
    then show ?thesis
      unfolding aspm_down_def by (intro maintains_trans [OF K take_down_maintains])
  qed
  show ?thesis
    using assms maintains_refl [OF assms(1)] down take_down_maintains [OF assms(1)] aspm_up_maintains [OF assms(1)]
      aspm_active_maintains [OF assms(1)] aspm_inactive_maintains [OF assms(1)] bring_up_maintains [OF assms(1)]
      activate_fold [OF assms(1)] deactivate_fold [OF assms(1)]
    by (cases input) (simp_all add: aspm_dispatch_def aspm_known_def aspm_lost_def)
qed

text \<open>The invariant of the machine between two events, with the timers the caller has armed.\<close>

definition aspm_inv :: "aspm \<Rightarrow> server_id set \<Rightarrow> bool" where
  "aspm_inv m A \<longleftrightarrow> aspm_ok m \<and> ay_out m = [] \<and>
     A = {s. s < length (ay_servers m) \<and> ay_servers m ! s = AsPending}"

lemma recovery_expired_effect:
  assumes "aspm_inv m A" and "s \<in> A"
  shows "aspm_ok (recovery_expired s m) \<and> traced (ay_servers m) (A - {s}) (recovery_expired s m)"
proof -
  let ?new = "if snd (as_counts m s) > 0 then AsInactive else AsDown"
  define m1 where "m1 = ay_push (AyServer s ?new) (m\<lparr>ay_servers := (ay_servers m)[s := ?new]\<rparr>)"
  have s: "s < length (ay_servers m)" "ay_servers m ! s = AsPending" and ok: "aspm_ok m" and out: "ay_out m = []"
    using assms by (auto simp: aspm_inv_def)
  have res: "recovery_expired s m = aspm_tell s ?new m1"
    using s(2) by (simp add: recovery_expired_def Let_def m1_def)
  have F: "ay_layout m1 = ay_layout m" "ay_asps m1 = ay_asps m" "ay_servers m1 = (ay_servers m)[s := ?new]"
    by (simp_all add: m1_def)
  have "fits m s" using ok s by (simp add: aspm_ok_def)
  then have act: "fst (as_counts m s) = 0" using s(2) by (simp add: fits_def case_prod_beta)
  have req: "0 < sv_required (server_at m s)"
    using ok s wf_layoutD(3) by (simp add: aspm_ok_def shape_def)
  have "fits m1 s"
    using act req s(1) unfolding fits_def state_cong(2) [OF F(1,2)] F by (simp add: case_prod_beta)
  moreover have "fits m1 t" if "t < length (ay_servers m)" "t \<noteq> s" for t
    using ok that state_cong(6) [OF F(1,2), of t] F(3) by (simp add: aspm_ok_def)
  moreover have "shape m1" "downs m1" "exclusive m1 t = exclusive m t" for t
    using ok state_cong [OF F(1,2)] F(3) by (simp_all add: aspm_ok_def)
  ultimately have "aspm_ok m1" using ok F by (metis aspm_ok_def length_list_update)
  moreover have "traced (ay_servers m) (A - {s}) m1"
    using assms s by (auto simp: traced_def m1_def out aspm_inv_def nth_list_update split: if_splits)
  ultimately show ?thesis
    unfolding res using quiet_ok [OF quiet_tell] quiet_traced [OF quiet_tell] by blast
qed

lemma handle_traced:
  assumes I: "aspm_inv m A" and f: "as_fires input \<subseteq> A"
  shows "aspm_ok (aspm_dispatch mode_value input m) \<and>
    traced (ay_servers m) (A - as_fires input) (aspm_dispatch mode_value input m)"
proof (cases "\<exists>s. input = InTimeout s")
  case True
  then obtain s where s: "input = InTimeout s" ..
  then have "s \<in> A" using f by simp
  then show ?thesis
    using recovery_expired_effect [OF I] I s by (auto simp: aspm_dispatch_def aspm_inv_def)
next
  case False
  have ok: "aspm_ok m" and t0: "traced (ay_servers m) A m" using I by (auto simp: aspm_inv_def traced_def)
  have "as_fires input = {}" using False by (cases input) auto
  then show ?thesis using dispatch_maintains [OF ok] t0 by (simp add: maintains_def)
qed

interpretation as_clock: clocked_machine "aspm_handle mode_value" as_arm as_fires "\<lambda>_ _. True" aspm_inv for mode_value
proof
  fix m A input
  assume "aspm_inv m A" and "as_fires input \<subseteq> A"
  let ?m1 = "aspm_dispatch mode_value input m"
  have "aspm_ok ?m1 \<and> traced (ay_servers m) (A - as_fires input) ?m1" by (rule handle_traced) fact+
  then show "aspm_inv (fst (aspm_handle mode_value input m))
      (fold as_arm (snd (aspm_handle mode_value input m)) (A - as_fires input))"
    using state_cong [of "?m1\<lparr>ay_out := []\<rparr>" ?m1]
    by (simp add: aspm_handle_def Let_def aspm_inv_def traced_def aspm_ok_def)
qed

lemma aspm_new_inv:
  assumes "wf_layout ly"
  shows "aspm_inv (aspm_new ly) {}"
proof -
  let ?m = "aspm_new ly"
  have up: "\<not> ae_up (ay_asps ?m ! a)" if "a < length (ly_asps ly)" for a using that by (simp add: aspm_new_def)
  have act: "\<not> asp_is_active ?m a s" for a s
    using up [of a] by (auto simp: asp_is_active_marked aspm_new_def)
  have mk: "\<not> marked ?m a s" if "a < length (ly_asps ly)" for a s
    using that asp_position_Some [of ?m a s] by (auto simp: marked_def aspm_new_def split: option.splits)
  have "as_counts ?m s = (0, 0)" if "s < length (ly_servers ly)" for s
  proof -
    have "filter (\<lambda>a. ae_up (ay_asps ?m ! a)) (sv_asps (ly_servers ly ! s)) = []"
      using wf_layoutD(2) [OF assms that] up by (auto simp: filter_empty_conv)
    then show ?thesis using act by (simp add: as_counts_def aspm_new_def)
  qed
  then have "fits ?m s" if "s < length (ly_servers ly)" for s
    using that by (simp add: fits_def) (simp add: aspm_new_def)
  moreover have "shape ?m" using assms by (simp add: shape_def aspm_new_def)
  moreover have "downs ?m" using mk by (simp add: downs_def) (simp add: aspm_new_def)
  moreover have "exclusive ?m s" for s by (simp add: exclusive_def act)
  moreover have "length (ay_servers ?m) = length (ly_servers ly)" "ay_out ?m = []"
    "{s. s < length (ay_servers ?m) \<and> ay_servers ?m ! s = AsPending} = {}"
    by (auto simp: aspm_new_def)
  ultimately show ?thesis by (simp add: aspm_inv_def aspm_ok_def)
qed

lemma aspm_reaches_inv:
  assumes "as_clock.reaches mode_value (aspm_new (layout_build t associations)) {} m A"
  shows "aspm_inv m A"
  using as_clock.reaches_inv [OF assms] aspm_new_inv [OF layout_build_wf] by blast

section \<open>Properties\<close>

text \<open>
  C33: the state of every Application Server is always one its ASPs justify, whatever messages,
  losses and time-outs the gateway sees. A server that is down has no ASP up; an inactive one has
  an ASP up and fewer active ones than it needs; an active one has an active ASP; a pending one
  has none and a recovery timer configured, and T(r) runs exactly for the pending servers.
\<close>

theorem aspm_server_states:
  assumes "as_clock.reaches mode_value (aspm_new (layout_build t associations)) {} m A"
    and "s < length (ay_servers m)"
  shows "(case as_counts m s of (active, inactive) \<Rightarrow>
            (case server_state m s of
               AsDown \<Rightarrow> active = 0 \<and> inactive = 0
             | AsInactive \<Rightarrow> active < sv_required (server_at m s) \<and> 0 < active + inactive
             | AsActive \<Rightarrow> 0 < active
             | AsPending \<Rightarrow> active = 0 \<and> sv_recovery (server_at m s) \<noteq> None)) \<and>
         (s \<in> A \<longleftrightarrow> server_state m s = AsPending)"
proof -
  have I: "aspm_inv m A" by (rule aspm_reaches_inv [OF assms(1)])
  then have "fits m s" using assms(2) by (simp add: aspm_inv_def aspm_ok_def)
  moreover have "server_state m s = ay_servers m ! s" using assms(2) by (simp add: server_state_def)
  ultimately show ?thesis using I assms(2) by (auto simp: fits_def aspm_inv_def)
qed

text \<open>A gateway with one Application Server and one ASP.\<close>

definition sample_tenant :: "traffic_mode \<Rightarrow> tenant" where
  "sample_tenant mode = \<lparr>tn_point_code = 1, tn_variant = Itu, tn_network_indicator = National,
     tn_application_servers = [\<lparr>as_name = ''as1'', as_traffic_mode = mode, as_routing_context = 7,
       as_asps = [''a1''], as_recovery_ms = 2000, as_pending_queue = 16, as_required_asps = 1\<rparr>],
     tn_linksets = [], tn_mtp3_routes = [], tn_mtp3 = mtp3_default,
     tn_sccp = \<lparr>sccp_local_ssns = [], sccp_gtt_groups = [], sccp_gtt = [], sccp_gt_conversion = \<lparr>gc_plmn_map = []\<rparr>\<rparr>,
     tn_content_routing = None, tn_isup_screening = None\<rparr>"

definition sample_assocs :: "association list" where
  "sample_assocs = [\<lparr>assoc_id = ''a1'', assoc_adaptation = M3ua, assoc_role = Server,
     assoc_adjacent_pc = None, assoc_m2pa = None\<rparr>]"

definition sample_aspm :: "traffic_mode \<Rightarrow> aspm" where
  "sample_aspm mode =
     fst (aspm_handle (\<lambda>_. 1) (InUp 0 (Some 9)) (aspm_new (layout_build (sample_tenant mode) sample_assocs)))"

lemma sample_aspm_reached:
  "as_clock.reaches (\<lambda>_. 1) (aspm_new (layout_build (sample_tenant mode) sample_assocs)) {} (sample_aspm mode)
     (fold as_arm (snd (aspm_handle (\<lambda>_. 1) (InUp 0 (Some 9))
        (aspm_new (layout_build (sample_tenant mode) sample_assocs)))) ({} - as_fires (InUp 0 (Some 9))))"
  unfolding sample_aspm_def by (rule as_clock.reaches_once) simp_all

lemmas aspm_eval_defs = sample_aspm_def sample_tenant_def sample_assocs_def layout_build_def layout_add_def
  aspm_new_def aspm_handle_def aspm_dispatch_def aspm_known_def aspm_up_def bring_up_def bring_up_in_def
  set_asp_def aspm_evaluate_def as_counts_def asp_is_active_def asp_state_of_def asp_position_def
  position_def as_next_def aspm_tell_def aspm_notify_def aspm_send_def ay_push_def List.map_filter_def
  server_state_def

lemma sample_aspm_value:
  "length (ay_servers (sample_aspm mode)) = 1" "server_state (sample_aspm mode) 0 = AsInactive"
  "sv_mode (server_at (sample_aspm mode) 0) = mode"
  by (simp_all add: aspm_eval_defs Let_def)

theorem aspm_server_states_witness:
  "server_state (sample_aspm Loadshare) 0 = AsInactive \<and>
   (case as_counts (sample_aspm Loadshare) 0 of (active, inactive) \<Rightarrow>
      active < sv_required (server_at (sample_aspm Loadshare) 0) \<and> 0 < active + inactive)"
  using aspm_server_states [OF sample_aspm_reached, of 0] sample_aspm_value by simp

text \<open>
  C34: traffic of an Override server goes one way. In every reachable state at most one ASP is
  active in a server of that mode.
\<close>

theorem aspm_override_exclusive:
  assumes "as_clock.reaches mode_value (aspm_new (layout_build t associations)) {} m A"
    and "s < length (ay_servers m)" and "sv_mode (server_at m s) = Override"
  shows "card {a \<in> set (sv_asps (server_at m s)). asp_state_of m a s = AspActive} \<le> 1"
proof -
  have "exclusive m s"
    using aspm_reaches_inv [OF assms(1)] assms(2,3) by (simp add: aspm_inv_def aspm_ok_def)
  then have "\<forall>a \<in> {a \<in> set (sv_asps (server_at m s)). asp_state_of m a s = AspActive}.
      \<forall>b \<in> {a \<in> set (sv_asps (server_at m s)). asp_state_of m a s = AspActive}. a = b"
    unfolding exclusive_def asp_is_active_def by blast
  then show ?thesis
    by (simp add: card_le_Suc0_iff_eq)
qed

theorem aspm_override_exclusive_witness:
  "card {a \<in> set (sv_asps (server_at (sample_aspm Override) 0)). asp_state_of (sample_aspm Override) a 0 = AspActive} \<le> 1"
  by (rule aspm_override_exclusive [OF sample_aspm_reached]) (simp_all add: sample_aspm_value)

text \<open>
  The actions say all there is to say. Applying the server-state actions of an event to the
  states known before it gives exactly the states after it, so a transfer path that follows the
  actions never disagrees with the machine.
\<close>

theorem aspm_actions_exact:
  assumes "as_clock.reaches mode_value (aspm_new (layout_build t associations)) {} m A"
    and "as_fires input \<subseteq> A"
  shows "fold as_view (snd (aspm_handle mode_value input m)) (ay_servers m) =
           ay_servers (fst (aspm_handle mode_value input m))"
  using handle_traced [OF aspm_reaches_inv [OF assms(1)] assms(2), of mode_value]
  by (simp add: traced_def aspm_handle_def Let_def)

theorem aspm_actions_exact_witness:
  "fold as_view (snd (aspm_handle (\<lambda>_. 1) (InActive 0 None None) (sample_aspm Loadshare))) (ay_servers (sample_aspm Loadshare)) =
     ay_servers (fst (aspm_handle (\<lambda>_. 1) (InActive 0 None None) (sample_aspm Loadshare)))"
  by (rule aspm_actions_exact [OF sample_aspm_reached]) simp

section \<open>Requests are answered\<close>

definition grows :: "aspm \<Rightarrow> aspm \<Rightarrow> bool" where
  "grows m m' \<longleftrightarrow> prefix (ay_out m) (ay_out m')"

lemma grows_refl [simp]: "grows m m"
  by (simp add: grows_def)

lemma grows_trans: "grows m1 m2 \<Longrightarrow> grows m2 m3 \<Longrightarrow> grows m1 m3"
  unfolding grows_def by (rule prefix_order.trans)

lemma grows_same_out: "ay_out m1 = ay_out m2 \<Longrightarrow> grows m1 m = grows m2 m" "ay_out m1 = ay_out m2 \<Longrightarrow> grows m m1 = grows m m2"
  by (simp_all add: grows_def)

lemma quiet_grows: "quiet m m' \<Longrightarrow> grows m m'"
  by (auto simp: quiet_def grows_def)

lemma push_grows [simp]: "grows m (ay_push act m)"
  by (simp add: grows_def)

lemma grows_fold: "(\<And>x m. grows m (f x m)) \<Longrightarrow> grows m (fold f xs m)"
  by (induction xs arbitrary: m) (auto intro: grows_trans)

lemma set_grows [simp]: "grows m (set_asp a f m)" "grows m (set_active a s on m)"
  by (simp_all add: grows_def)

lemma evaluate_grows: "grows m (fst (aspm_evaluate s m))"
proof -
  let ?new = "as_next (server_at m s) (ay_servers m ! s) (fst (as_counts m s)) (snd (as_counts m s))"
  let ?m1 = "m\<lparr>ay_servers := (ay_servers m)[s := ?new]\<rparr>"
  let ?m2 = "if ay_servers m ! s = AsPending then ay_push (AyStop s) ?m1 else ?m1"
  let ?m3 = "case (?new, sv_recovery (server_at m s)) of (AsPending, Some after) \<Rightarrow> ay_push (AyStart s after) ?m2 | _ \<Rightarrow> ?m2"
  have "grows m ?m2" by (simp add: grows_def)
  moreover have "grows ?m2 ?m3" by (simp split: as_state.splits option.splits)
  moreover have "grows ?m3 (ay_push (AyServer s ?new) ?m3)" by simp
  moreover have "grows (ay_push (AyServer s ?new) ?m3) (aspm_tell s ?new (ay_push (AyServer s ?new) ?m3))"
    by (rule quiet_grows) simp
  ultimately have "grows m (aspm_tell s ?new (ay_push (AyServer s ?new) ?m3))" using grows_trans by blast
  then show ?thesis by (simp add: aspm_evaluate_def Let_def case_prod_beta)
qed

lemma settled_grows: "grows m (aspm_resources s (fst (aspm_evaluate s m)))"
  by (rule grows_trans [OF evaluate_grows quiet_grows [OF quiet_resources]])

lemma deactivate_grows: "grows m (deactivate a s m)"
proof -
  let ?m1 = "ay_push (AyAsp a s AspInactive) (set_active a s False m)"
  have "grows m ?m1" by (rule grows_trans [OF set_grows(2) push_grows])
  from grows_trans [OF this settled_grows] show ?thesis by (simp add: deactivate_def split: option.splits)
qed

lemma displace_grows: "grows m (displace a s d m)"
  unfolding displace_def
  by (rule grows_trans [OF grows_trans [OF set_grows(2) push_grows] quiet_grows [OF quiet_notify]])

lemma activate_grows: "grows m (activate a s m)"
proof (cases "asp_position m a s")
  case (Some p)
  have "grows m (ay_push (AyActivated a s) (fst (aspm_evaluate s
      (fold (displace a s) ds (ay_push (AyAsp a s AspActive) (set_active a s True m))))))" for ds
    by (intro grows_trans [OF _ push_grows] grows_trans [OF _ evaluate_grows]
        grows_trans [OF _ grows_fold [OF displace_grows]] set_grows)
  then show ?thesis using Some by (simp add: activate_def Let_def)
qed (simp add: activate_def)

lemma fold_grows: "grows m (fold (activate a) ss m)" "grows m (fold (deactivate a) ss m)"
  by (rule grows_fold, rule activate_grows) (rule grows_fold, rule deactivate_grows)

lemma bring_up_grows: "grows m (bring_up a identifier m)"
proof -
  have "grows m (bring_up_in a s m)" for s m
  proof -
    let ?e = "aspm_evaluate s (ay_push (AyAsp a s AspInactive) m)"
    have e: "grows m (fst ?e)" by (rule grows_trans [OF push_grows evaluate_grows])
    have "grows m (aspm_notify s st None (\<lambda>_ other. other = a) (fst ?e))" for st
      by (rule grows_trans [OF e quiet_grows]) simp
    then show ?thesis using e by (simp add: bring_up_in_def case_prod_beta split: option.splits)
  qed
  then show ?thesis
    unfolding bring_up_def by (intro grows_trans [OF set_grows(1) grows_fold])
qed

lemma take_down_grows: "grows m (take_down a failed m)"
proof -
  have inn: "grows m (take_down_in a failed s m)" for s m
  proof -
    have "grows m (if failed then aspm_notify s NsAspFailure (Some a) (\<lambda>_ _. True) (ay_push (AyAsp a s AspDown) m)
        else ay_push (AyAsp a s AspDown) m)"
      using grows_trans [OF push_grows quiet_grows [OF quiet_notify]] by simp
    then show ?thesis unfolding take_down_in_def Let_def by (rule grows_trans [OF _ settled_grows])
  qed
  have "grows m (set_asp a g (fold (take_down_in a failed) ss (set_asp a f (fold (\<lambda>s. set_active a s False) ss m))))" for f g ss
    by (intro grows_trans [OF _ set_grows(1)] grows_trans [OF _ grows_fold [OF inn]] grows_fold set_grows)
  then show ?thesis by (simp add: take_down_def Let_def)
qed

text \<open>The answer an ASP is owed: an acknowledgement of its request or an error.\<close>

fun answers :: "aspm_input \<Rightarrow> aspm_message \<Rightarrow> bool" where
  "answers (InUp a identifier) g \<longleftrightarrow> g = MgUpAck"
| "answers (InDown a) g \<longleftrightarrow> g = MgDownAck"
| "answers (InActive a mode contexts) g \<longleftrightarrow>
     (\<exists>rcs. g = MgActiveAck mode rcs) \<or> (\<exists>code rcs. g = MgError code rcs)"
| "answers (InInactive a contexts) g \<longleftrightarrow>
     (\<exists>rcs. g = MgInactiveAck rcs) \<or> (\<exists>code rcs. g = MgError code rcs)"
| "answers _ g \<longleftrightarrow> False"

fun request_of :: "aspm_input \<Rightarrow> (asp_id \<times> u32 list option) option" where
  "request_of (InUp a identifier) = Some (a, None)"
| "request_of (InDown a) = Some (a, None)"
| "request_of (InActive a mode contexts) = Some (a, contexts)"
| "request_of (InInactive a contexts) = Some (a, contexts)"
| "request_of _ = None"

lemma grows_sent: "grows (aspm_send a g m) m' \<Longrightarrow> ap_gateway (ly_asps (ay_layout m) ! a) \<Longrightarrow> AySend a g \<in> set (ay_out m')"
  by (auto simp: grows_def aspm_send_def prefix_def)

lemma admitted_refuses:
  assumes "snd (admitted a contexts m) = None" and "ap_gateway (ly_asps (ay_layout m) ! a)" and "contexts \<noteq> Some []"
  shows "\<exists>code rcs. AySend a (MgError code rcs) \<in> set (ay_out (fst (admitted a contexts m)))"
proof (cases "ae_up (ay_asps m ! a)")
  case False
  then show ?thesis using assms(2) by (auto simp: admitted_def aspm_error_def aspm_send_def)
next
  case True
  have con: "concerned (aspm_error a c rcs m) a contexts = concerned m a contexts" for c rcs
    by (simp add: concerned_def aspm_error_def aspm_send_def split: option.splits)
  have empty: "concerned m a contexts = []"
    using assms(1) True con by (simp add: admitted_def Let_def split: if_splits)
  show ?thesis
  proof (cases contexts)
    case None
    then show ?thesis
      using True empty con assms(2) by (auto simp: admitted_def Let_def unconfigured_def aspm_error_def aspm_send_def)
  next
    case (Some wanted)
    then obtain rc where rc: "rc \<in> set wanted" using assms(3) by (cases wanted) auto
    have "rc \<in> set (unconfigured m a contexts)"
      using empty rc Some by (auto simp: concerned_def unconfigured_def filter_empty_conv list_ex_iff)
    then have "unconfigured m a contexts \<noteq> []" by auto
    then show ?thesis
      using True Some assms(2) by (auto simp: admitted_def Let_def aspm_error_def aspm_send_def)
  qed
qed

lemma active_answered:
  assumes "contexts \<noteq> Some []" and "ap_gateway (ly_asps (ay_layout m) ! a)"
  shows "\<exists>g. answers (InActive a mode contexts) g \<and> AySend a g \<in> set (ay_out (aspm_active mode_value a mode contexts m))"
proof -
  obtain m1 r where ad: "admitted a contexts m = (m1, r)" by (cases "admitted a contexts m")
  have L: "ap_gateway (ly_asps (ay_layout m1) ! a)"
    using admitted_quiet [of m a contexts] ad assms(2) by (simp add: quiet_def)
  show ?thesis
  proof (cases r)
    case None
    then show ?thesis
      using admitted_refuses [OF _ assms(2,1)] ad by (auto simp: aspm_active_def)
  next
    case (Some servers)
    let ?ok = "\<lambda>s. mode = None \<or> mode = Some (mode_value (sv_mode (server_at m1 s)))"
    let ?rcs = "map (\<lambda>s. sv_routing_context (server_at m1 s))"
    let ?e = "if filter (\<lambda>s. \<not> ?ok s) servers \<noteq> []
        then aspm_error a UnsupportedTrafficModeType (?rcs (filter (\<lambda>s. \<not> ?ok s) servers)) m1 else m1"
    let ?ack = "MgActiveAck mode (if contexts \<noteq> None then ?rcs (filter ?ok servers) else [])"
    have res: "aspm_active mode_value a mode contexts m =
        (if filter ?ok servers = [] then ?e else fold (activate a) (filter ?ok servers) (aspm_send a ?ack ?e))"
      by (simp add: aspm_active_def ad Some Let_def)
    show ?thesis
    proof (cases "filter ?ok servers = []")
      case False
      have Le: "ap_gateway (ly_asps (ay_layout ?e) ! a)"
        using L quietD(1) [of m1 ?e] by simp
      have "grows (aspm_send a ?ack ?e) (aspm_active mode_value a mode contexts m)"
        unfolding res using False fold_grows(1) by simp
      from grows_sent [OF this Le] show ?thesis by auto
    next
      case True
      have "servers \<noteq> []" using ad Some by (auto simp: admitted_def Let_def split: if_splits)
      then obtain s where "s \<in> set servers" by (cases servers) auto
      moreover from this have "\<not> ?ok s" using True by (auto simp: filter_empty_conv)
      ultimately have "s \<in> set (filter (\<lambda>s. \<not> ?ok s) servers)" by simp
      then have "filter (\<lambda>s. \<not> ?ok s) servers \<noteq> []" by (metis empty_iff empty_set)
      then show ?thesis using True res L by (auto simp: aspm_error_def aspm_send_def)
    qed
  qed
qed

lemma inactive_answered:
  assumes "contexts \<noteq> Some []" and "ap_gateway (ly_asps (ay_layout m) ! a)"
  shows "\<exists>g. answers (InInactive a contexts) g \<and> AySend a g \<in> set (ay_out (aspm_inactive a contexts m))"
proof -
  obtain m1 r where ad: "admitted a contexts m = (m1, r)" by (cases "admitted a contexts m")
  have L: "ap_gateway (ly_asps (ay_layout m1) ! a)"
    using admitted_quiet [of m a contexts] ad assms(2) by (simp add: quiet_def)
  show ?thesis
  proof (cases r)
    case None
    then show ?thesis
      using admitted_refuses [OF _ assms(2,1)] ad by (auto simp: aspm_inactive_def)
  next
    case (Some servers)
    let ?ack = "MgInactiveAck (if contexts \<noteq> None then map (\<lambda>s. sv_routing_context (server_at m1 s)) servers else [])"
    have "grows (aspm_send a ?ack m1) (aspm_inactive a contexts m)"
      unfolding aspm_inactive_def ad Some using fold_grows(2) by simp
    from grows_sent [OF this L] show ?thesis by auto
  qed
qed

text \<open>
  An ASP is never left without an answer. Every ASP Up and ASP Down from an ASP this node is
  the gateway of is acknowledged in whatever state; every ASP Active and ASP Inactive is
  acknowledged or answered with an error, as long as its Routing Context parameter, if it has one,
  names at least one context.
\<close>

theorem aspm_requests_answered:
  assumes "request_of input = Some (a, contexts)" and "contexts \<noteq> Some []"
    and "aspm_known m a" and "ap_gateway (ly_asps (ay_layout m) ! a)"
  shows "\<exists>g. answers input g \<and> AySend a g \<in> set (snd (aspm_handle mode_value input m))"
proof (cases input)
  case (InUp a' i)
  let ?m1 = "aspm_send a MgUpAck m"
  have e: "grows ?m1 (fold (deactivate a) ss (aspm_error a UnexpectedMessage [] ?m1))" for ss
    by (rule grows_trans [OF quiet_grows [OF quiet_error] fold_grows(2)])
  have "grows ?m1 (set_asp a f (fold (deactivate a) ss (aspm_error a UnexpectedMessage [] ?m1)))" for f ss
    by (rule grows_trans [OF e set_grows(1)])
  then have "grows ?m1 (aspm_up a i m)"
    using e bring_up_grows by (simp add: aspm_up_def Let_def)
  from grows_sent [OF this assms(4)] show ?thesis
    using InUp assms(1,3) by (auto simp: aspm_handle_def aspm_dispatch_def Let_def)
next
  case (InDown a')
  have "grows (aspm_send a MgDownAck m) (aspm_down a m)" unfolding aspm_down_def by (rule take_down_grows)
  from grows_sent [OF this assms(4)] show ?thesis
    using InDown assms(1,3) by (auto simp: aspm_handle_def aspm_dispatch_def Let_def)
next
  case (InActive a' mode rcs)
  then have a: "a' = a" "rcs = contexts" using assms(1) by simp_all
  have "\<exists>g. answers input g \<and> AySend a g \<in> set (ay_out (aspm_active mode_value a mode contexts m))"
    using active_answered [OF assms(2,4)] InActive by simp
  then show ?thesis using InActive a assms(3) by (simp add: aspm_handle_def aspm_dispatch_def Let_def)
next
  case (InInactive a' rcs)
  then have a: "a' = a" "rcs = contexts" using assms(1) by simp_all
  have "\<exists>g. answers input g \<and> AySend a g \<in> set (ay_out (aspm_inactive a contexts m))"
    using inactive_answered [OF assms(2,4)] InInactive by simp
  then show ?thesis using InInactive a assms(3) by (simp add: aspm_handle_def aspm_dispatch_def Let_def)
qed (use assms(1) in simp_all)

theorem aspm_requests_answered_witness:
  "\<exists>g. answers (InActive 0 None (Some [8])) g \<and>
       AySend 0 g \<in> set (snd (aspm_handle (\<lambda>_. 1) (InActive 0 None (Some [8])) (sample_aspm Loadshare)))"
  by (rule aspm_requests_answered [of _ 0 "Some [8]"]) (simp_all add: aspm_eval_defs Let_def)

end
