(* ===== verification/Mtp3_Route.thy ===== *)
theory Mtp3_Route
  imports Config_Model
begin

text \<open>
  The MTP3 route resolver (\<^verbatim>\<open>src/src/mtp3/route.rs\<close>): which egress carries a message for a
  point code. The route table maps a point code to candidate routes in priority order; the
  availability state says which application servers and linksets are in service, which
  destinations are prohibited and what the adjacent points said about single routes.

  The loops of \<^verbatim>\<open>tier_in_use\<close> are the functions \<open>tier_scan\<close> (one priority level) and
  \<open>tier_from\<close> (level after level); \<open>choose_route\<close> is the load-sharing rule both the resolver and
  signalling network management use. The lemmas state what the rule promises independently of
  its loops: the chosen route is usable, of the best priority, unrestricted where one is, and a
  selection code stays on its normal route while that route is in use.
\<close>

section \<open>Data\<close>

datatype destination = ApplicationServer string | Linkset string

fun dest_name :: "destination \<Rightarrow> string" where
  "dest_name (ApplicationServer n) = n"
| "dest_name (Linkset n) = n"

fun is_application_server :: "destination \<Rightarrow> bool" where
  "is_application_server (ApplicationServer _) = True"
| "is_application_server (Linkset _) = False"

definition ADJACENT_PRIORITY :: u8 where
  "ADJACENT_PRIORITY = 0"

record candidate =
  cand_dest :: destination
  cand_priority :: u8

datatype route_status = Allowed | Restricted | Prohibited

datatype usable = UNo | URestricted | UYes

section \<open>Choosing a route\<close>

text \<open>The inner loop of \<^verbatim>\<open>tier_in_use\<close>: to the end of one priority level, with its best class.\<close>

function tier_scan ::
  "'a list \<Rightarrow> ('a \<Rightarrow> u8) \<Rightarrow> ('a \<Rightarrow> usable) \<Rightarrow> u8 \<Rightarrow> nat \<Rightarrow> usable \<Rightarrow> nat \<times> usable" where
  "tier_scan cands prio usab level e cls =
     (if e < length cands \<and> prio (cands ! e) = level
      then tier_scan cands prio usab level (Suc e)
             (case usab (cands ! e) of
                UYes \<Rightarrow> UYes
              | URestricted \<Rightarrow> (if cls = UNo then URestricted else cls)
              | UNo \<Rightarrow> cls)
      else (e, cls))"
  by pat_completeness auto
termination
  by (relation "measure (\<lambda>(cands, prio, usab, level, e, cls). length cands - e)") auto

declare tier_scan.simps [simp del]

lemma tier_scan_mono: "e \<le> fst (tier_scan xs p u l e c)"
proof (induction xs p u l e c rule: tier_scan.induct)
  case (1 xs p u l e c)
  then show ?case by (subst tier_scan.simps) (auto split: usable.split)
qed

lemma tier_scan_progress:
  "s < length xs \<Longrightarrow> s < fst (tier_scan xs p u (p (xs ! s)) s c)"
  using tier_scan_mono [of "Suc s" xs p u "p (xs ! s)"]
  by (subst tier_scan.simps) (auto simp: Suc_le_eq)

text \<open>The outer loop: level after level until one has a usable route.\<close>

function tier_from ::
  "'a list \<Rightarrow> ('a \<Rightarrow> u8) \<Rightarrow> ('a \<Rightarrow> usable) \<Rightarrow> nat \<Rightarrow> ((nat \<times> nat) \<times> usable) option" where
  "tier_from cands prio usab start =
     (if start < length cands then
        (let r = tier_scan cands prio usab (prio (cands ! start)) start UNo in
         if snd r \<noteq> UNo then Some ((start, fst r), snd r)
         else tier_from cands prio usab (fst r))
      else None)"
  by pat_completeness auto
termination
proof (relation "measure (\<lambda>(cands, prio, usab, start). length cands - start)", goal_cases)
  case 1
  show ?case by simp
next
  case (2 xs p u s r)
  then show ?case using tier_scan_progress [of s xs p u UNo] by auto
qed

declare tier_from.simps [simp del]

definition tier_in_use ::
  "'a list \<Rightarrow> ('a \<Rightarrow> u8) \<Rightarrow> ('a \<Rightarrow> usable) \<Rightarrow> ((nat \<times> nat) \<times> usable) option" where
  "tier_in_use cands prio usab = tier_from cands prio usab 0"

definition choose_route :: "'a list \<Rightarrow> ('a \<Rightarrow> u8) \<Rightarrow> ('a \<Rightarrow> usable) \<Rightarrow> u8 \<Rightarrow> nat option" where
  "choose_route cands prio usab sls =
     (case tier_in_use cands prio usab of
        None \<Rightarrow> None
      | Some ((s, e), cls) \<Rightarrow>
          (let normal = s + unat sls mod (e - s) in
           if usab (cands ! normal) = cls then Some normal
           else
             (let same = filter (\<lambda>i. usab (cands ! i) = cls) [s..<e];
                  k = unat sls mod max (length same) 1
              in if k < length same then Some (same ! k) else None)))"

definition routes_in_use :: "'a list \<Rightarrow> ('a \<Rightarrow> u8) \<Rightarrow> ('a \<Rightarrow> usable) \<Rightarrow> nat list" where
  "routes_in_use cands prio usab =
     (case tier_in_use cands prio usab of
        Some ((s, e), cls) \<Rightarrow> filter (\<lambda>i. usab (cands ! i) = cls) [s..<e]
      | None \<Rightarrow> [])"

section \<open>Availability state\<close>

record route_state =
  as_up :: "string set"
  linksets_up :: "string set"
  prohibited :: "u32 set"
  congestion_levels :: "u32 \<rightharpoonup> u8"
  route_marks :: "u32 \<rightharpoonup> (destination \<times> route_status) list"

definition route_state_default :: route_state where
  "route_state_default = \<lparr>as_up = {}, linksets_up = {}, prohibited = {},
     congestion_levels = Map.empty, route_marks = Map.empty\<rparr>"

definition with_linksets_up :: "string list \<Rightarrow> route_state" where
  "with_linksets_up linksets =
     fold (\<lambda>ls s. s\<lparr>linksets_up := insert ls (linksets_up s)\<rparr>) linksets route_state_default"

definition set_as_up :: "string \<Rightarrow> route_state \<Rightarrow> route_state" where
  "set_as_up name s = s\<lparr>as_up := insert name (as_up s)\<rparr>"

definition set_as_down :: "string \<Rightarrow> route_state \<Rightarrow> route_state" where
  "set_as_down name s = s\<lparr>as_up := as_up s - {name}\<rparr>"

definition is_as_up :: "route_state \<Rightarrow> string \<Rightarrow> bool" where
  "is_as_up s name \<longleftrightarrow> name \<in> as_up s"

definition set_linkset_up :: "string \<Rightarrow> route_state \<Rightarrow> route_state" where
  "set_linkset_up name s = s\<lparr>linksets_up := insert name (linksets_up s)\<rparr>"

definition set_linkset_down :: "string \<Rightarrow> route_state \<Rightarrow> route_state" where
  "set_linkset_down name s = s\<lparr>linksets_up := linksets_up s - {name}\<rparr>"

definition is_linkset_up :: "route_state \<Rightarrow> string \<Rightarrow> bool" where
  "is_linkset_up s name \<longleftrightarrow> name \<in> linksets_up s"

definition set_all_down :: "route_state \<Rightarrow> route_state" where
  "set_all_down s = s\<lparr>as_up := {}, linksets_up := {}\<rparr>"

fun is_available :: "route_state \<Rightarrow> destination \<Rightarrow> bool" where
  "is_available s (ApplicationServer n) = is_as_up s n"
| "is_available s (Linkset n) = is_linkset_up s n"

definition is_prohibited :: "route_state \<Rightarrow> point_code \<Rightarrow> bool" where
  "is_prohibited s dpc \<longleftrightarrow> pc_value dpc \<in> prohibited s"

definition set_route_status :: "u32 \<Rightarrow> destination \<Rightarrow> route_status \<Rightarrow> route_state \<Rightarrow> route_state" where
  "set_route_status dpc via status s =
     (let marks = (case route_marks s dpc of None \<Rightarrow> [] | Some m \<Rightarrow> m);
          kept = filter (\<lambda>(dest, _). dest \<noteq> via) marks;
          new = (if status \<noteq> Allowed then kept @ [(via, status)] else kept)
      in s\<lparr>route_marks := (if new = [] then (route_marks s)(dpc := None)
                           else (route_marks s)(dpc \<mapsto> new))\<rparr>)"

definition status_of_marks :: "(destination \<times> route_status) list option \<Rightarrow> destination \<Rightarrow> route_status" where
  "status_of_marks marks via =
     (case Option.bind marks (find (\<lambda>(dest, _). dest = via)) of
        None \<Rightarrow> Allowed
      | Some (_, status) \<Rightarrow> status)"

definition route_status_of :: "route_state \<Rightarrow> u32 \<Rightarrow> destination \<Rightarrow> route_status" where
  "route_status_of s dpc via = status_of_marks (route_marks s dpc) via"

definition congestion :: "route_state \<Rightarrow> point_code \<Rightarrow> u8" where
  "congestion s dpc = (case congestion_levels s (pc_value dpc) of None \<Rightarrow> 0 | Some l \<Rightarrow> l)"

text \<open>The events of the \<^verbatim>\<open>mtp3\<close> crate, as far as the state reads them.\<close>

datatype mtp3_status = Congested u8 | UserPartUnavailable

datatype mtp3_event = Pause point_code | Resume point_code | Status point_code mtp3_status | Transfer

fun apply_event :: "mtp3_event \<Rightarrow> route_state \<Rightarrow> route_state" where
  "apply_event (Pause affected) s = s\<lparr>prohibited := insert (pc_value affected) (prohibited s)\<rparr>"
| "apply_event (Resume affected) s =
     s\<lparr>prohibited := prohibited s - {pc_value affected},
       congestion_levels := (congestion_levels s)(pc_value affected := None)\<rparr>"
| "apply_event (Status affected (Congested level)) s =
     s\<lparr>congestion_levels := (congestion_levels s)(pc_value affected \<mapsto> level)\<rparr>"
| "apply_event (Status affected UserPartUnavailable) s = s"
| "apply_event Transfer s = s"

section \<open>The route table\<close>

record route_resolver =
  rr_variant :: variant
  rr_routes :: "(u32, candidate list) btree"

definition sort_candidates :: "candidate list \<Rightarrow> candidate list" where
  "sort_candidates = sort_key cand_priority"

definition push_route :: "u32 \<Rightarrow> candidate \<Rightarrow> (u32, candidate list) btree \<Rightarrow> (u32, candidate list) btree" where
  "push_route pc c = bt_entry pc [] (\<lambda>cs. cs @ [c])"

definition push_route_once :: "u32 \<Rightarrow> candidate \<Rightarrow> (u32, candidate list) btree \<Rightarrow> (u32, candidate list) btree" where
  "push_route_once pc c = bt_entry pc [] (\<lambda>cs. if c \<in> set cs then cs else cs @ [c])"

definition adjacent_pcs :: "association list \<Rightarrow> string \<rightharpoonup> u32" where
  "adjacent_pcs associations =
     fold (\<lambda>a m. if assoc_adaptation a = M2pa then
                   (case assoc_adjacent_pc a of Some pc \<Rightarrow> m(assoc_id a \<mapsto> pc) | None \<Rightarrow> m)
                 else m)
       associations Map.empty"

definition adjacent_routes ::
  "(string \<rightharpoonup> u32) \<Rightarrow> linkset list \<Rightarrow> (u32, candidate list) btree \<Rightarrow> (u32, candidate list) btree" where
  "adjacent_routes adj linksets routes =
     fold (\<lambda>ls. fold (\<lambda>lk routes.
         (case adj (link_assoc lk) of
            Some pc \<Rightarrow> push_route_once pc
                         \<lparr>cand_dest = Linkset (ls_name ls), cand_priority = ADJACENT_PRIORITY\<rparr> routes
          | None \<Rightarrow> routes)) (ls_links ls))
       linksets routes"

definition explicit_routes ::
  "mtp3_route list \<Rightarrow> (u32, candidate list) btree \<Rightarrow> (u32, candidate list) btree" where
  "explicit_routes rs routes =
     fold (\<lambda>r routes.
         (case (rt_as r, rt_linkset r) of
            (Some a, _) \<Rightarrow> push_route (rt_dpc r)
                             \<lparr>cand_dest = ApplicationServer a, cand_priority = rt_priority r\<rparr> routes
          | (None, Some l) \<Rightarrow> push_route (rt_dpc r)
                             \<lparr>cand_dest = Linkset l, cand_priority = rt_priority r\<rparr> routes
          | (None, None) \<Rightarrow> routes)) rs routes"

definition resolver_build :: "tenant \<Rightarrow> association list \<Rightarrow> route_resolver" where
  "resolver_build t associations =
     (let adj = adjacent_pcs associations;
          routes = explicit_routes (tn_mtp3_routes t) (adjacent_routes adj (tn_linksets t) [])
      in \<lparr>rr_variant = tn_variant t, rr_routes = bt_map (\<lambda>_. sort_candidates) routes\<rparr>)"

definition resolver_routes :: "route_resolver \<Rightarrow> (u32 \<times> destination \<times> u8) list" where
  "resolver_routes r =
     concat (map (\<lambda>(dpc, cs). map (\<lambda>c. (dpc, cand_dest c, cand_priority c)) cs) (rr_routes r))"

definition resolver_dpcs :: "route_resolver \<Rightarrow> u32 list" where
  "resolver_dpcs r = map fst (rr_routes r)"

text \<open>The class of one candidate, the closure \<^verbatim>\<open>usable\<close> of \<^verbatim>\<open>resolve_avoiding\<close>.\<close>

definition candidate_usable ::
  "route_state \<Rightarrow> u32 \<Rightarrow> destination option \<Rightarrow> candidate \<Rightarrow> usable" where
  "candidate_usable s dpc avoid c =
     (if \<not> is_available s (cand_dest c) \<or> avoid = Some (cand_dest c) then UNo
      else (case status_of_marks (route_marks s dpc) (cand_dest c) of
              Allowed \<Rightarrow> UYes | Restricted \<Rightarrow> URestricted | Prohibited \<Rightarrow> UNo))"

definition resolve_avoiding ::
  "route_resolver \<Rightarrow> point_code \<Rightarrow> u8 \<Rightarrow> route_state \<Rightarrow> destination option \<Rightarrow> destination option" where
  "resolve_avoiding r dpc sls s avoid =
     (if is_prohibited s dpc then None
      else (case bt_get (pc_value dpc) (rr_routes r) of
              None \<Rightarrow> None
            | Some cs \<Rightarrow> map_option (\<lambda>i. cand_dest (cs ! i))
                  (choose_route cs cand_priority (candidate_usable s (pc_value dpc) avoid) sls)))"

definition resolve_for :: "route_resolver \<Rightarrow> point_code \<Rightarrow> u8 \<Rightarrow> route_state \<Rightarrow> destination option" where
  "resolve_for r dpc sls s = resolve_avoiding r dpc sls s None"

definition resolve :: "route_resolver \<Rightarrow> point_code \<Rightarrow> route_state \<Rightarrow> destination option" where
  "resolve r dpc s = resolve_for r dpc 0 s"

definition share_width :: "route_resolver \<Rightarrow> destination \<Rightarrow> nat" where
  "share_width r via =
     fold (\<lambda>(_, cs) width.
         (case find (\<lambda>c. cand_dest c = via) cs of
            None \<Rightarrow> width
          | Some own \<Rightarrow> max width (length (filter (\<lambda>c. cand_priority c = cand_priority own) cs))))
       (rr_routes r) 1"

definition has_route :: "route_resolver \<Rightarrow> point_code \<Rightarrow> bool" where
  "has_route r dpc \<longleftrightarrow> bt_get (pc_value dpc) (rr_routes r) \<noteq> None"

definition resolver_add :: "u32 \<Rightarrow> destination \<Rightarrow> u8 \<Rightarrow> route_resolver \<Rightarrow> route_resolver" where
  "resolver_add dpc dest priority r =
     r\<lparr>rr_routes := bt_entry dpc []
         (\<lambda>cs. let c = \<lparr>cand_dest = dest, cand_priority = priority\<rparr>
               in if c \<in> set cs then cs else sort_candidates (cs @ [c])) (rr_routes r)\<rparr>"


section \<open>What the choice of a route promises\<close>

text \<open>The classes of a route are ordered: the loop keeps the best one of a level.\<close>

instantiation usable :: linorder
begin

fun rank_usable :: "usable \<Rightarrow> nat" where
  "rank_usable UNo = 0"
| "rank_usable URestricted = 1"
| "rank_usable UYes = 2"

definition less_eq_usable :: "usable \<Rightarrow> usable \<Rightarrow> bool" where
  "less_eq_usable a b \<longleftrightarrow> rank_usable a \<le> rank_usable b"

definition less_usable :: "usable \<Rightarrow> usable \<Rightarrow> bool" where
  "less_usable a b \<longleftrightarrow> rank_usable a < rank_usable b"

instance
proof
  fix a b :: usable
  show "a \<le> b \<Longrightarrow> b \<le> a \<Longrightarrow> a = b"
    by (cases a; cases b) (simp_all add: less_eq_usable_def)
qed (auto simp: less_eq_usable_def less_usable_def)

end

lemma usable_le_simps [simp]:
  "UNo \<le> u" "u \<le> UYes" "u \<le> UNo \<longleftrightarrow> u = UNo" "UYes \<le> u \<longleftrightarrow> u = UYes"
  by (cases u; simp add: less_eq_usable_def)+

lemma class_step_max:
  "(case u of UYes \<Rightarrow> UYes | URestricted \<Rightarrow> (if c = UNo then URestricted else c) | UNo \<Rightarrow> c) = max c u"
  by (cases u; cases c) (simp_all add: max_def less_eq_usable_def)

definition level_spec :: "'a list \<Rightarrow> ('a \<Rightarrow> u8) \<Rightarrow> u8 \<Rightarrow> nat \<Rightarrow> nat \<Rightarrow> bool" where
  "level_spec xs p l s e \<longleftrightarrow>
     s \<le> e \<and> (\<forall>i. s \<le> i \<and> i < e \<longrightarrow> i < length xs \<and> p (xs ! i) = l) \<and>
     (e < length xs \<longrightarrow> p (xs ! e) \<noteq> l)"

definition best_class :: "'a list \<Rightarrow> ('a \<Rightarrow> usable) \<Rightarrow> nat \<Rightarrow> nat \<Rightarrow> usable \<Rightarrow> bool" where
  "best_class xs u s e c \<longleftrightarrow>
     (\<forall>i. s \<le> i \<and> i < e \<longrightarrow> u (xs ! i) \<le> c) \<and> (c = UNo \<or> (\<exists>i. s \<le> i \<and> i < e \<and> u (xs ! i) = c))"

lemma tier_scan_unfold:
  "e < length xs \<Longrightarrow> p (xs ! e) = l \<Longrightarrow>
     tier_scan xs p u l e c = tier_scan xs p u l (Suc e) (max c (u (xs ! e)))"
  by (subst tier_scan.simps) (simp add: class_step_max)

lemma tier_scan_stop: "\<not> (e < length xs \<and> p (xs ! e) = l) \<Longrightarrow> tier_scan xs p u l e c = (e, c)"
  by (subst tier_scan.simps) auto

lemma tier_scan_level: "level_spec xs p l e (fst (tier_scan xs p u l e c))"
proof (induction xs p u l e c rule: tier_scan.induct)
  case (1 xs p u l e c)
  show ?case
  proof (cases "e < length xs \<and> p (xs ! e) = l")
    case True
    let ?r = "tier_scan xs p u l (Suc e) (max c (u (xs ! e)))"
    have eq: "tier_scan xs p u l e c = ?r"
      using True by (simp add: tier_scan_unfold)
    have "level_spec xs p l (Suc e) (fst ?r)"
      using "1.IH" [OF True] by (simp add: class_step_max)
    then show ?thesis
      unfolding eq level_spec_def range_all_Suc [of e] using True by auto
  next
    case False
    then show ?thesis by (auto simp: tier_scan_stop level_spec_def)
  qed
qed

lemma tier_scan_class:
  "c \<le> snd (tier_scan xs p u l e c) \<and>
   (\<forall>i. e \<le> i \<and> i < fst (tier_scan xs p u l e c) \<longrightarrow> u (xs ! i) \<le> snd (tier_scan xs p u l e c)) \<and>
   (snd (tier_scan xs p u l e c) = c \<or>
    (\<exists>i. e \<le> i \<and> i < fst (tier_scan xs p u l e c) \<and> u (xs ! i) = snd (tier_scan xs p u l e c)))"
proof (induction xs p u l e c rule: tier_scan.induct)
  case (1 xs p u l e c)
  show ?case
  proof (cases "e < length xs \<and> p (xs ! e) = l")
    case True
    let ?r = "tier_scan xs p u l (Suc e) (max c (u (xs ! e)))"
    have eq: "tier_scan xs p u l e c = ?r"
      using True by (simp add: tier_scan_unfold)
    have IH: "max c (u (xs ! e)) \<le> snd ?r \<and> (\<forall>i. Suc e \<le> i \<and> i < fst ?r \<longrightarrow> u (xs ! i) \<le> snd ?r) \<and>
      (snd ?r = max c (u (xs ! e)) \<or> (\<exists>i. Suc e \<le> i \<and> i < fst ?r \<and> u (xs ! i) = snd ?r))"
      using "1.IH" [OF True] by (simp add: class_step_max)
    have lt: "e < fst ?r" using tier_scan_mono [of "Suc e" xs p u l] by (simp add: Suc_le_eq)
    show ?thesis
      unfolding eq range_all_Suc [of e] range_ex_Suc [of e] using IH lt
      by (auto simp: max_def split: if_splits)
  next
    case False
    then show ?thesis by (auto simp: tier_scan_stop)
  qed
qed

lemma level_spec_le:
  assumes "level_spec xs p l s e" and "s < e"
  shows "e \<le> length xs"
proof -
  have "e - 1 < length xs" using assms by (auto simp: level_spec_def)
  then show ?thesis using assms(2) by simp
qed

lemma level_spec_boundary:
  assumes "level_spec xs p l s e" and "s < e" and "e < length xs"
  shows "p (xs ! (e - 1)) \<noteq> p (xs ! e)"
proof -
  have "s \<le> e - 1 \<and> e - 1 < e" using assms(2) by auto
  then have "p (xs ! (e - 1)) = l" using assms(1) by (simp add: level_spec_def)
  moreover have "p (xs ! e) \<noteq> l" using assms(1,3) by (simp add: level_spec_def)
  ultimately show ?thesis by simp
qed

text \<open>One level of the table: its extent, and the best class of its routes.\<close>

lemma tier_scan_best:
  assumes "r = tier_scan xs p u (p (xs ! s)) s UNo"
  shows "level_spec xs p (p (xs ! s)) s (fst r)" and "best_class xs u s (fst r) (snd r)"
  using tier_scan_level [of xs p "p (xs ! s)" s u UNo]
    tier_scan_class [of UNo xs p u "p (xs ! s)" s]
  by (auto simp: assms best_class_def)

definition tier_spec ::
  "'a list \<Rightarrow> ('a \<Rightarrow> u8) \<Rightarrow> ('a \<Rightarrow> usable) \<Rightarrow> nat \<Rightarrow> nat \<Rightarrow> nat \<Rightarrow> usable \<Rightarrow> bool" where
  "tier_spec xs p u start s e cls \<longleftrightarrow>
     start \<le> s \<and> s < e \<and> e \<le> length xs \<and> cls \<noteq> UNo \<and>
     (\<forall>i. start \<le> i \<and> i < s \<longrightarrow> u (xs ! i) = UNo) \<and>
     (s = start \<or> p (xs ! (s - 1)) \<noteq> p (xs ! s)) \<and>
     level_spec xs p (p (xs ! s)) s e \<and> best_class xs u s e cls"

lemma tier_from_unfold:
  assumes "start < length xs" and "r = tier_scan xs p u (p (xs ! start)) start UNo"
  shows "tier_from xs p u start =
    (if snd r = UNo then tier_from xs p u (fst r) else Some ((start, fst r), snd r))"
  using assms(1) unfolding assms(2) by (subst tier_from.simps) (simp add: Let_def)

lemma tier_from_end: "\<not> start < length xs \<Longrightarrow> tier_from xs p u start = None"
  by (subst tier_from.simps) simp

lemma tier_from_Some:
  "tier_from xs p u start = Some ((s, e), cls) \<Longrightarrow> tier_spec xs p u start s e cls"
proof (induction xs p u start rule: tier_from.induct)
  case (1 xs p u start)
  define r where "r = tier_scan xs p u (p (xs ! start)) start UNo"
  have lt: "start < length xs"
    using "1.prems" tier_from_end [of start xs p u] by fastforce
  note best = tier_scan_best [OF r_def]
  have prog: "start < fst r" unfolding r_def using tier_scan_progress [OF lt] .
  have le: "fst r \<le> length xs"
    using level_spec_le [OF best(1) prog] .
  show ?case
  proof (cases "snd r = UNo")
    case True
    then have rec: "tier_from xs p u (fst r) = Some ((s, e), cls)"
      using "1.prems" tier_from_unfold [OF lt r_def] by simp
    have "tier_spec xs p u (fst r) s e cls" using "1.IH" [OF lt r_def] True rec by simp
    moreover have "\<forall>i. start \<le> i \<and> i < fst r \<longrightarrow> u (xs ! i) = UNo"
      using best(2) True unfolding best_class_def by simp
    moreover have "fst r < length xs \<Longrightarrow> p (xs ! (fst r - 1)) \<noteq> p (xs ! fst r)"
      using level_spec_boundary [OF best(1) prog] .
    ultimately show ?thesis
      using prog unfolding tier_spec_def by (auto simp: not_le [symmetric])
  next
    case False
    then have "s = start" "e = fst r" "cls = snd r"
      using "1.prems" tier_from_unfold [OF lt r_def] by simp_all
    then show ?thesis using best False prog le unfolding tier_spec_def by auto
  qed
qed

lemma tier_from_None:
  "tier_from xs p u start = None \<longleftrightarrow> (\<forall>i. start \<le> i \<and> i < length xs \<longrightarrow> u (xs ! i) = UNo)"
proof (induction xs p u start rule: tier_from.induct)
  case (1 xs p u start)
  define r where "r = tier_scan xs p u (p (xs ! start)) start UNo"
  note best = tier_scan_best [OF r_def]
  show ?case
  proof (cases "start < length xs")
    case lt: True
    have prog: "start < fst r" unfolding r_def using tier_scan_progress [OF lt] .
    have le: "fst r \<le> length xs"
      using level_spec_le [OF best(1) prog] .
    show ?thesis
    proof (cases "snd r = UNo")
      case True
      have eq: "tier_from xs p u start = tier_from xs p u (fst r)"
        using True tier_from_unfold [OF lt r_def] by simp
      have "\<forall>i. start \<le> i \<and> i < fst r \<longrightarrow> u (xs ! i) = UNo"
        using best(2) True unfolding best_class_def by simp
      then show ?thesis
        unfolding eq using "1.IH" [OF lt r_def] True prog by (auto simp: not_le [symmetric])
    next
      case False
      then have "tier_from xs p u start \<noteq> None"
        using tier_from_unfold [OF lt r_def] by simp
      moreover have "\<exists>i. start \<le> i \<and> i < fst r \<and> u (xs ! i) = snd r"
        using best(2) False unfolding best_class_def by simp
      ultimately show ?thesis using False le by (metis order_less_le_trans)
    qed
  next
    case False
    then show ?thesis by (auto simp: tier_from_end)
  qed
qed

lemma tier_in_use_Some:
  "tier_in_use xs p u = Some ((s, e), cls) \<Longrightarrow> tier_spec xs p u 0 s e cls"
  unfolding tier_in_use_def by (rule tier_from_Some)

lemma tier_in_use_None: "tier_in_use xs p u = None \<longleftrightarrow> (\<forall>x \<in> set xs. u x = UNo)"
  unfolding tier_in_use_def tier_from_None by (simp add: all_set_conv_all_nth)

lemma tier_cases:
  obtains (none) "tier_in_use xs p u = None" "\<forall>x \<in> set xs. u x = UNo"
  | (tier) s e cls where "tier_in_use xs p u = Some ((s, e), cls)" "tier_spec xs p u 0 s e cls"
proof (cases "tier_in_use xs p u")
  case None
  then show ?thesis using none tier_in_use_None [THEN iffD1, OF None] by simp
next
  case (Some r)
  obtain s e cls where "r = ((s, e), cls)" by (metis prod.exhaust)
  then show ?thesis using Some tier tier_in_use_Some by blast
qed

lemma tier_specD:
  assumes "tier_spec xs p u 0 s e cls"
  shows "s < e" and "e \<le> length xs" and "cls \<noteq> UNo"
    and "i < s \<Longrightarrow> u (xs ! i) = UNo"
    and "s \<noteq> 0 \<Longrightarrow> p (xs ! (s - 1)) \<noteq> p (xs ! s)"
    and "s \<le> i \<Longrightarrow> i < e \<Longrightarrow> p (xs ! i) = p (xs ! s)"
    and "e < length xs \<Longrightarrow> p (xs ! e) \<noteq> p (xs ! s)"
    and "s \<le> i \<Longrightarrow> i < e \<Longrightarrow> u (xs ! i) \<le> cls"
    and "\<exists>i. s \<le> i \<and> i < e \<and> u (xs ! i) = cls"
  using assms unfolding tier_spec_def level_spec_def best_class_def by blast+

text \<open>In a table in priority order the level in use is exactly the routes of its priority.\<close>

lemma tier_best_priority:
  assumes "sorted (map p xs)" and "tier_spec xs p u 0 s e cls" and "j < length xs" and "u (xs ! j) \<noteq> UNo"
  shows "s \<le> j" and "p (xs ! s) \<le> p (xs ! j)"
proof -
  show "s \<le> j" using tier_specD(4) [OF assms(2)] assms(4) not_le by blast
  then show "p (xs ! s) \<le> p (xs ! j)" using sorted_wrt_nth_le [OF assms(1)] assms(3) by blast
qed

lemma tier_level:
  assumes "sorted (map p xs)" and "tier_spec xs p u 0 s e cls" and "j < length xs"
  shows "p (xs ! j) = p (xs ! s) \<longleftrightarrow> s \<le> j \<and> j < e"
proof
  note D = tier_specD [OF assms(2)]
  assume eq: "p (xs ! j) = p (xs ! s)"
  have "\<not> j < s"
  proof
    assume "j < s"
    then have ne: "p (xs ! (s - 1)) \<noteq> p (xs ! s)" and le: "j \<le> s - 1" "s < length xs"
      using D(1,2,5) by auto
    have "p (xs ! j) \<le> p (xs ! (s - 1))"
      using sorted_wrt_nth_le [OF assms(1) le(1)] le(2) by simp
    moreover have "p (xs ! (s - 1)) \<le> p (xs ! s)"
      using sorted_wrt_nth_le [OF assms(1), of "s - 1" s] le(2) by simp
    ultimately show False using eq ne by simp
  qed
  moreover have "\<not> e \<le> j"
  proof
    assume ej: "e \<le> j"
    then have ne: "p (xs ! e) \<noteq> p (xs ! s)" and el: "e < length xs"
      using D(7) assms(3) by auto
    have "p (xs ! s) \<le> p (xs ! e)"
      using sorted_wrt_nth_le [OF assms(1) _ el, of s] D(1) by simp
    moreover have "p (xs ! e) \<le> p (xs ! j)"
      using sorted_wrt_nth_le [OF assms(1) ej assms(3)] .
    ultimately show False using eq ne by simp
  qed
  ultimately show "s \<le> j \<and> j < e" by simp
next
  assume "s \<le> j \<and> j < e"
  then show "p (xs ! j) = p (xs ! s)" using tier_specD(6) [OF assms(2)] by blast
qed

lemma tier_index:
  assumes "tier_spec xs p u 0 s e cls"
  shows "s + k mod (e - s) < e"
proof -
  have "k mod (e - s) < e - s" using tier_specD(1) [OF assms] by simp
  then show ?thesis by linarith
qed

text \<open>The choice stays in the level in use, in the class in use.\<close>

lemma choose_route_in_tier:
  assumes "tier_in_use xs p u = Some ((s, e), cls)"
  obtains i where "choose_route xs p u sls = Some i" "s \<le> i" "i < e" "u (xs ! i) = cls"
proof -
  note spec = tier_in_use_Some [OF assms]
  define same where "same = filter (\<lambda>i. u (xs ! i) = cls) [s..<e]"
  obtain i where "s \<le> i" "i < e" "u (xs ! i) = cls"
    using tier_specD(9) [OF spec] by blast
  then have "i \<in> set same" by (simp add: same_def)
  then have pos: "0 < length same" by (cases same) auto
  define k where "k = unat sls mod max (length same) 1"
  have k: "k < length same" using pos by (simp add: k_def max_def)
  have mem: "same ! k \<in> set same" using k by simp
  show ?thesis
  proof (cases "u (xs ! (s + unat sls mod (e - s))) = cls")
    case True
    then have "choose_route xs p u sls = Some (s + unat sls mod (e - s))"
      by (simp add: choose_route_def assms)
    then show ?thesis using that True tier_index [OF spec] by simp
  next
    case False
    then have "choose_route xs p u sls = (if k < length same then Some (same ! k) else None)"
      unfolding choose_route_def assms Let_def k_def same_def by simp
    then have "choose_route xs p u sls = Some (same ! k)" using k by simp
    then show ?thesis using that mem by (auto simp: same_def)
  qed
qed

lemma choose_route_None: "choose_route xs p u sls = None \<longleftrightarrow> (\<forall>x \<in> set xs. u x = UNo)"
proof (cases rule: tier_cases [of xs p u])
  case none
  then show ?thesis by (simp add: choose_route_def)
next
  case (tier s e cls)
  obtain i where "choose_route xs p u sls = Some i" using choose_route_in_tier [OF tier(1)] .
  moreover have "\<not> (\<forall>x \<in> set xs. u x = UNo)" using tier(1) tier_in_use_None [of xs p u] by auto
  ultimately show ?thesis by simp
qed

lemma choose_route_correct_aux:
  assumes "sorted (map p xs)" and "choose_route xs p u sls = Some i"
  shows "i < length xs" and "u (xs ! i) \<noteq> UNo"
    and "j < length xs \<Longrightarrow> u (xs ! j) \<noteq> UNo \<Longrightarrow> p (xs ! i) \<le> p (xs ! j)"
    and "j < length xs \<Longrightarrow> p (xs ! j) = p (xs ! i) \<Longrightarrow> u (xs ! j) \<le> u (xs ! i)"
proof -
  have "tier_in_use xs p u \<noteq> None"
  proof
    assume "tier_in_use xs p u = None"
    with assms(2) show False by (simp add: choose_route_def)
  qed
  then obtain s e cls where t: "tier_in_use xs p u = Some ((s, e), cls)" by (metis option.exhaust prod.exhaust)
  note spec = tier_in_use_Some [OF t]
  have i: "s \<le> i" "i < e" "u (xs ! i) = cls" using choose_route_in_tier [OF t, of sls] assms(2) by auto
  have lev: "p (xs ! i) = p (xs ! s)" using tier_specD(6) [OF spec i(1,2)] .
  show "i < length xs" "u (xs ! i) \<noteq> UNo" using tier_specD(2,3) [OF spec] i(2,3) by simp_all
  show "p (xs ! i) \<le> p (xs ! j)" if "j < length xs" "u (xs ! j) \<noteq> UNo"
    using tier_best_priority(2) [OF assms(1) spec that] unfolding lev .
  show "u (xs ! j) \<le> u (xs ! i)" if "j < length xs" "p (xs ! j) = p (xs ! i)"
    using tier_level [OF assms(1) spec that(1)] that(2) lev tier_specD(8) [OF spec] i(3) by simp
qed

text \<open>
  \<open>choose_route\<close> on candidates in priority order names no route exactly when none is usable;
  otherwise the route it names is usable, no usable route has a better priority, and no route
  of the same priority is of a better class (an unrestricted route goes before a restricted
  one of its priority).
\<close>

theorem choose_route_correct:
  assumes "sorted (map prio cands)"
  shows "case choose_route cands prio usab sls of
      None \<Rightarrow> \<forall>c \<in> set cands. usab c = UNo
    | Some i \<Rightarrow> i < length cands \<and> usab (cands ! i) \<noteq> UNo \<and>
        (\<forall>j < length cands. usab (cands ! j) \<noteq> UNo \<longrightarrow>
           prio (cands ! i) \<le> prio (cands ! j) \<and>
           (prio (cands ! j) = prio (cands ! i) \<longrightarrow> usab (cands ! j) \<le> usab (cands ! i)))"
proof (cases "choose_route cands prio usab sls")
  case None
  then show ?thesis using choose_route_None [of cands prio usab sls] by simp
next
  case (Some i)
  then show ?thesis using choose_route_correct_aux [OF assms Some] by simp
qed

theorem choose_route_correct_witness:
  "case choose_route [1, 1, 2 :: u8] (\<lambda>c. c) (\<lambda>c. if c = 1 then URestricted else UYes) 3 of
      None \<Rightarrow> \<forall>c \<in> set [1, 1, 2 :: u8]. (if c = 1 then URestricted else UYes) = UNo
    | Some i \<Rightarrow> i < length [1, 1, 2 :: u8] \<and>
        (if [1, 1, 2 :: u8] ! i = 1 then URestricted else UYes) \<noteq> UNo \<and>
        (\<forall>j < length [1, 1, 2 :: u8]. (if [1, 1, 2 :: u8] ! j = 1 then URestricted else UYes) \<noteq> UNo \<longrightarrow>
           [1, 1, 2 :: u8] ! i \<le> [1, 1, 2 :: u8] ! j \<and>
           ([1, 1, 2 :: u8] ! j = [1, 1, 2 :: u8] ! i \<longrightarrow>
             (if [1, 1, 2 :: u8] ! j = 1 then URestricted else UYes) \<le>
             (if [1, 1, 2 :: u8] ! i = 1 then URestricted else UYes)))"
proof -
  have h: "sorted (map (\<lambda>c. c) [1, 1, 2 :: u8])" by simp
  show ?thesis
    using choose_route_correct [OF h, of "\<lambda>c. if c = 1 then URestricted else UYes" 3] .
qed

text \<open>The normal route of a selection code among the routes of one priority.\<close>

definition normal_route :: "'a list \<Rightarrow> ('a \<Rightarrow> u8) \<Rightarrow> u8 \<Rightarrow> nat \<Rightarrow> bool" where
  "normal_route xs p sls n \<longleftrightarrow>
     (let same = filter (\<lambda>i. p (xs ! i) = p (xs ! n)) [0..<length xs]
      in n < length xs \<and> same ! (unat sls mod length same) = n)"

lemma filter_upt_interval:
  "e \<le> n \<Longrightarrow> (\<And>i. i < n \<Longrightarrow> P i \<longleftrightarrow> s \<le> i \<and> i < e) \<Longrightarrow> filter P [0..<n] = [s..<e]"
  by (rule sorted_distinct_set_unique) (auto simp: sorted_wrt_filter)

text \<open>
  Load sharing is stable. While the normal route of a selection code is available and
  unrestricted and no route of a better priority is usable, the code is carried on its normal
  route, whatever becomes of the other routes: a route that fails moves only its own codes.
\<close>

theorem choose_route_normal:
  assumes "sorted (map prio cands)"
    and "normal_route cands prio sls n"
    and "usab (cands ! n) = UYes"
    and "\<forall>j < length cands. prio (cands ! j) < prio (cands ! n) \<longrightarrow> usab (cands ! j) = UNo"
  shows "choose_route cands prio usab sls = Some n"
proof -
  have n: "n < length cands" using assms(2) by (simp add: normal_route_def Let_def)
  show ?thesis
  proof (cases rule: tier_cases [of cands prio usab])
    case none
    then show ?thesis using assms(3) n by force
  next
    case (tier s e cls)
    have s: "s < length cands" "s < e" "e \<le> length cands" using tier_specD(1,2) [OF tier(2)] by simp_all
    obtain i where i: "s \<le> i" "i < e" "usab (cands ! i) = cls" "cls \<noteq> UNo"
      using tier_specD(9) [OF tier(2)] tier_specD(3) [OF tier(2)] by blast
    have "prio (cands ! s) \<le> prio (cands ! n)"
      using tier_best_priority [OF assms(1) tier(2) n] assms(3) by simp
    moreover have "\<not> prio (cands ! i) < prio (cands ! n)" using assms(4) i s by auto
    moreover have "prio (cands ! i) = prio (cands ! s)"
      using tier_level [OF assms(1) tier(2), of i] i s by simp
    ultimately have lev: "prio (cands ! n) = prio (cands ! s)" by simp
    have "filter (\<lambda>i. prio (cands ! i) = prio (cands ! n)) [0..<length cands] = [s..<e]"
      using tier_level [OF assms(1) tier(2)] s lev by (intro filter_upt_interval) auto
    then have norm: "s + unat sls mod (e - s) = n"
      using assms(2) s tier_index [OF tier(2), of "unat sls"] by (simp add: normal_route_def)
    have "cls = UYes"
      using tier_specD(8) [OF tier(2), of n] assms(3) tier_index [OF tier(2), of "unat sls"] norm
      by fastforce
    then show ?thesis by (simp add: choose_route_def tier(1) norm assms(3))
  qed
qed

theorem choose_route_normal_witness:
  "choose_route [1, 1, 2 :: u8] (\<lambda>c. c) (\<lambda>c. UYes) 5 = Some 1"
proof (rule choose_route_normal)
  show "sorted (map (\<lambda>c. c) [1, 1, 2 :: u8])" by simp
  show "normal_route [1, 1, 2 :: u8] (\<lambda>c. c) 5 1" by (simp add: normal_route_def upt_rec numeral_2_eq_2 [symmetric])
qed (auto simp: less_Suc_eq)

text \<open>
  C1: the routes in use are exactly the routes that carry some selection code, as long as a
  level has at most 256 routes: the per-message resolver and signalling network management
  agree on where traffic for a destination goes.
\<close>

theorem routes_in_use_exact:
  assumes "length cands \<le> 256"
  shows "set (routes_in_use cands prio usab) = {i. \<exists>sls. choose_route cands prio usab sls = Some i}"
proof (cases rule: tier_cases [of cands prio usab])
  case none
  then show ?thesis by (simp add: routes_in_use_def choose_route_def)
next
  case (tier s e cls)
  note D = tier_specD(1,2) [OF tier(2)]
  show ?thesis
  proof (intro equalityI subsetI)
    fix i assume "i \<in> set (routes_in_use cands prio usab)"
    then have i: "s \<le> i" "i < e" "usab (cands ! i) = cls"
      by (auto simp: routes_in_use_def tier(1))
    then have "i - s < 256" "(i - s) mod (e - s) = i - s" using D assms by auto
    then have "unat (word_of_nat (i - s) :: u8) mod (e - s) = i - s"
      by (simp add: unat_of_nat)
    then have "choose_route cands prio usab (word_of_nat (i - s)) = Some i"
      using i by (simp add: choose_route_def tier(1))
    then show "i \<in> {i. \<exists>sls. choose_route cands prio usab sls = Some i}" by blast
  next
    fix i assume "i \<in> {i. \<exists>sls. choose_route cands prio usab sls = Some i}"
    then obtain sls where sls: "choose_route cands prio usab sls = Some i" by blast
    obtain j where "choose_route cands prio usab sls = Some j" "s \<le> j" "j < e" "usab (cands ! j) = cls"
      using choose_route_in_tier [OF tier(1)] .
    then show "i \<in> set (routes_in_use cands prio usab)"
      using sls by (simp add: routes_in_use_def tier(1))
  qed
qed

theorem routes_in_use_exact_witness:
  "set (routes_in_use [1, 1, 2 :: u8] (\<lambda>c. c) (\<lambda>c. UYes)) =
     {i. \<exists>sls. choose_route [1, 1, 2 :: u8] (\<lambda>c. c) (\<lambda>c. UYes) sls = Some i}"
  by (rule routes_in_use_exact) simp

section \<open>The availability state\<close>

text \<open>
  What an adjacent point said about one route is what is read back for that route, and
  nothing else changes: \<open>set_route_status\<close> and \<open>route_status_of\<close> are a store and its lookup, with
  a transfer-allowed erasing the mark.
\<close>

theorem route_status_set:
  "route_status_of (set_route_status dpc via status s) dpc' via' =
     (if dpc' = dpc \<and> via' = via then status else route_status_of s dpc' via')"
proof -
  have keep: "find (\<lambda>(dest, _). dest = via') (filter (\<lambda>(dest, _). dest \<noteq> via) marks @ new) =
      (if via' = via then find (\<lambda>(dest, _). dest = via) new
       else case find (\<lambda>(dest, _). dest = via') marks of None \<Rightarrow> find (\<lambda>(dest, _). dest = via') new | Some m \<Rightarrow> Some m)"
    for marks new :: "(destination \<times> route_status) list"
    by (induction marks) (auto split: option.splits)
  show ?thesis
    using keep [of "case route_marks s dpc of None \<Rightarrow> [] | Some m \<Rightarrow> m" "[(via, status)]"]
      keep [of "case route_marks s dpc of None \<Rightarrow> [] | Some m \<Rightarrow> m" "[]"]
    by (cases "route_marks s dpc")
       (auto simp: route_status_of_def set_route_status_def status_of_marks_def Let_def
             split: option.splits)
qed

section \<open>The route table\<close>

definition resolver_ok :: "route_resolver \<Rightarrow> bool" where
  "resolver_ok r \<longleftrightarrow>
     bt_ok (rr_routes r) \<and> (\<forall>dpc cs. bt_get dpc (rr_routes r) = Some cs \<longrightarrow> sorted (map cand_priority cs))"

lemma push_route_ok [simp]: "bt_ok m \<Longrightarrow> bt_ok (push_route pc c m)"
  by (simp add: push_route_def)

lemma push_route_once_ok [simp]: "bt_ok m \<Longrightarrow> bt_ok (push_route_once pc c m)"
  by (simp add: push_route_once_def)

lemma adjacent_routes_ok: "bt_ok m \<Longrightarrow> bt_ok (adjacent_routes adj linksets m)"
proof -
  have links: "bt_ok m \<Longrightarrow> bt_ok (fold (\<lambda>lk routes. (case adj (link_assoc lk) of
      Some pc \<Rightarrow> push_route_once pc \<lparr>cand_dest = Linkset (ls_name ls), cand_priority = ADJACENT_PRIORITY\<rparr> routes
    | None \<Rightarrow> routes)) lks m)" for ls lks m
    by (induction lks arbitrary: m) (auto split: option.splits)
  show "bt_ok m \<Longrightarrow> bt_ok (adjacent_routes adj linksets m)"
    unfolding adjacent_routes_def by (induction linksets arbitrary: m) (auto simp: links)
qed

lemma explicit_routes_ok: "bt_ok m \<Longrightarrow> bt_ok (explicit_routes rs m)"
  unfolding explicit_routes_def by (induction rs arbitrary: m) (auto split: option.splits)

lemma sorted_sort_candidates: "sorted (map cand_priority (sort_candidates cs))"
  by (simp add: sort_candidates_def)

lemma resolver_build_ok: "resolver_ok (resolver_build t associations)"
  by (auto simp: resolver_ok_def resolver_build_def Let_def explicit_routes_ok adjacent_routes_ok
      sorted_sort_candidates)

lemma resolver_add_ok: "resolver_ok r \<Longrightarrow> resolver_ok (resolver_add dpc dest priority r)"
  by (auto simp: resolver_ok_def resolver_add_def Let_def sorted_sort_candidates split: option.splits)

text \<open>
  The route table is in priority order after it was built from any tenant and after any
  sequence of live additions.
\<close>

theorem resolver_always_ok:
  "resolver_ok (fold (\<lambda>(dpc, dest, priority). resolver_add dpc dest priority) adds
                 (resolver_build t associations))"
proof -
  have "resolver_ok r \<Longrightarrow>
    resolver_ok (fold (\<lambda>(dpc, dest, priority). resolver_add dpc dest priority) adds r)" for r
    by (induction adds arbitrary: r) (auto simp: resolver_add_ok)
  then show ?thesis by (simp add: resolver_build_ok)
qed

text \<open>A route that may carry a message: in service, not avoided, not prohibited.\<close>

definition route_eligible :: "route_state \<Rightarrow> u32 \<Rightarrow> destination option \<Rightarrow> destination \<Rightarrow> bool" where
  "route_eligible s dpc avoid d \<longleftrightarrow>
     is_available s d \<and> avoid \<noteq> Some d \<and> route_status_of s dpc d \<noteq> Prohibited"

lemma candidate_usable_eligible:
  "candidate_usable s dpc avoid c \<noteq> UNo \<longleftrightarrow> route_eligible s dpc avoid (cand_dest c)"
  by (auto simp: candidate_usable_def route_eligible_def route_status_of_def split: route_status.splits)

lemma resolve_avoiding_eligible:
  assumes "resolver_ok r" and "resolve_avoiding r dpc sls s avoid = Some d"
  shows "\<not> is_prohibited s dpc \<and> route_eligible s (pc_value dpc) avoid d"
proof -
  obtain cs i where cs: "bt_get (pc_value dpc) (rr_routes r) = Some cs" "\<not> is_prohibited s dpc" "d = cand_dest (cs ! i)"
    "choose_route cs cand_priority (candidate_usable s (pc_value dpc) avoid) sls = Some i"
    using assms(2) by (auto simp: resolve_avoiding_def split: if_splits option.splits)
  have "sorted (map cand_priority cs)" using assms(1) cs(1) by (simp add: resolver_ok_def)
  from choose_route_correct_aux [OF this cs(4)] show ?thesis
    using cs(2,3) candidate_usable_eligible by metis
qed

text \<open>
  C2: resolving a point code is sound and complete. No egress is named exactly when the
  destination is prohibited or no route to it is eligible; the egress named is an eligible
  route of the table and no eligible route has a better priority.
\<close>

theorem resolve_avoiding_correct:
  assumes "resolver_ok r"
  shows "case resolve_avoiding r dpc sls s avoid of
      None \<Rightarrow> is_prohibited s dpc \<or>
        (\<forall>cs. bt_get (pc_value dpc) (rr_routes r) = Some cs \<longrightarrow>
           (\<forall>c \<in> set cs. \<not> route_eligible s (pc_value dpc) avoid (cand_dest c)))
    | Some d \<Rightarrow> \<not> is_prohibited s dpc \<and> route_eligible s (pc_value dpc) avoid d \<and>
        (\<exists>cs. bt_get (pc_value dpc) (rr_routes r) = Some cs \<and>
          (\<exists>c \<in> set cs. cand_dest c = d \<and>
             (\<forall>c' \<in> set cs. route_eligible s (pc_value dpc) avoid (cand_dest c') \<longrightarrow>
                cand_priority c \<le> cand_priority c')))"
proof (cases "is_prohibited s dpc \<or> bt_get (pc_value dpc) (rr_routes r) = None")
  case True
  then show ?thesis by (auto simp: resolve_avoiding_def)
next
  case False
  then obtain cs where cs: "bt_get (pc_value dpc) (rr_routes r) = Some cs" and np: "\<not> is_prohibited s dpc"
    by auto
  have sorted: "sorted (map cand_priority cs)" using assms cs by (simp add: resolver_ok_def)
  let ?u = "candidate_usable s (pc_value dpc) avoid"
  show ?thesis
  proof (cases "choose_route cs cand_priority ?u sls")
    case None
    then have "\<forall>c \<in> set cs. ?u c = UNo" by (simp add: choose_route_None)
    then have "\<forall>c \<in> set cs. \<not> route_eligible s (pc_value dpc) avoid (cand_dest c)"
      using candidate_usable_eligible by blast
    then show ?thesis using None cs np by (simp add: resolve_avoiding_def)
  next
    case (Some i)
    note C = choose_route_correct_aux [OF sorted, of ?u sls i, OF Some]
    have "resolve_avoiding r dpc sls s avoid = Some (cand_dest (cs ! i))"
      using np cs Some by (simp add: resolve_avoiding_def)
    moreover have "cs ! i \<in> set cs" using C(1) by simp
    moreover have "cand_priority (cs ! i) \<le> cand_priority c'"
      if "c' \<in> set cs" "route_eligible s (pc_value dpc) avoid (cand_dest c')" for c'
      using that C(3) candidate_usable_eligible by (metis in_set_conv_nth)
    ultimately show ?thesis using np cs C(2) candidate_usable_eligible by auto
  qed
qed

theorem resolve_avoiding_correct_witness:
  "resolve_avoiding (resolver_add 7 (Linkset ''a'') 1 \<lparr>rr_variant = Itu, rr_routes = []\<rparr>)
     \<lparr>pc_value = 7, pc_variant = Itu\<rparr> 0 (with_linksets_up [''a'']) None = Some (Linkset ''a'') \<and>
   route_eligible (with_linksets_up [''a'']) 7 None (Linkset ''a'')"
proof -
  let ?r = "resolver_add 7 (Linkset ''a'') 1 \<lparr>rr_variant = Itu, rr_routes = []\<rparr>"
  let ?pc = "\<lparr>pc_value = 7, pc_variant = Itu\<rparr>"
  have ok: "resolver_ok ?r" by (intro resolver_add_ok) (simp add: resolver_ok_def)
  have "resolve_avoiding ?r ?pc 0 (with_linksets_up [''a'']) None = Some (Linkset ''a'')"
    by code_simp
  then show ?thesis
    using resolve_avoiding_correct [OF ok, of "with_linksets_up [''a'']" ?pc None 0] by simp
qed

end
