(* ===== verification/Sccp_Gtt.thy ===== *)
theory Sccp_Gtt
  imports Config_Model "HOL-Library.Char_ord" "HOL-Library.List_Lexorder" "HOL-Library.Multiset"
begin

text \<open>
  Global title translation and the conversion between E.214 and E.164 global titles
  (\<^verbatim>\<open>src/src/sccp/gtt.rs\<close>). The round-robin cursor of a share group is an atomic the program
  increments with \<^verbatim>\<open>fetch_add\<close>; here it is a 64-bit word in the state that a selection returns
  updated, one selection after another.
\<close>

section \<open>Data\<close>

record gtt_selector =
  sel_digits :: string
  sel_gti :: "u8 option"
  sel_tt :: "u8 option"
  sel_np :: "u8 option"
  sel_nai :: "u8 option"

definition selector_from_digits :: "string \<Rightarrow> gtt_selector" where
  "selector_from_digits digits =
     \<lparr>sel_digits = digits, sel_gti = None, sel_tt = None, sel_np = None, sel_nai = None\<rparr>"

datatype gtt_result = GttDpc u32 u8 | GttLocal | GttTenant string u32 u8

record group_state =
  gs_mode :: group_mode
  gs_members :: "(u32 \<times> u8) list"
  gs_cursor :: u64

record gtt_resolver =
  gr_rules :: "gtt_rule list"
  gr_groups :: "(string, group_state) btree"
  gr_local_ssns :: "u8 list"

record gt_converter =
  gv_e214_to_e164 :: "(string, string) btree"
  gv_e164_to_e214 :: "(string \<times> string) list"

section \<open>Groups\<close>

definition member_cost :: "group_member \<Rightarrow> u8" where
  "member_cost x = (case gm_cost x of Some c \<Rightarrow> c | None \<Rightarrow> 255)"

definition member_weight :: "group_member \<Rightarrow> nat" where
  "member_weight x = unat (max (case gm_weight x of Some w \<Rightarrow> w | None \<Rightarrow> 1) 1)"

definition member_pair :: "group_member \<Rightarrow> u32 \<times> u8" where
  "member_pair x = (gm_dpc x, gm_ssn x)"

definition group_from :: "gtt_group \<Rightarrow> group_state" where
  "group_from g =
     \<lparr>gs_mode = gg_mode g,
      gs_members =
        (case gg_mode g of
           Cost \<Rightarrow> map (\<lambda>(_, dpc, ssn). (dpc, ssn))
                     (sort_key fst (map (\<lambda>x. (member_cost x, gm_dpc x, gm_ssn x)) (gg_members g)))
         | Share \<Rightarrow> concat (map (\<lambda>x. replicate (member_weight x) (gm_dpc x, gm_ssn x)) (gg_members g))),
      gs_cursor = 0\<rparr>"

definition group_select :: "group_state \<Rightarrow> group_state \<times> (u32 \<times> u8) option" where
  "group_select g =
     (if gs_members g = [] then (g, None)
      else case gs_mode g of
        Cost \<Rightarrow> (g, Some (gs_members g ! 0))
      | Share \<Rightarrow> (g\<lparr>gs_cursor := gs_cursor g + 1\<rparr>,
                  Some (gs_members g ! (unat (gs_cursor g) mod length (gs_members g)))))"

section \<open>The resolver\<close>

definition gtt_compile :: "sccp \<Rightarrow> gtt_resolver" where
  "gtt_compile s =
     \<lparr>gr_rules = sccp_gtt s,
      gr_groups = bt_collect (map (\<lambda>g. (gg_name g, group_from g)) (sccp_gtt_groups s)),
      gr_local_ssns = sccp_local_ssns s\<rparr>"

definition owns_ssn :: "gtt_resolver \<Rightarrow> u8 \<Rightarrow> bool" where
  "owns_ssn r ssn \<longleftrightarrow> ssn \<in> set (gr_local_ssns r)"

definition field_matches :: "u8 option \<Rightarrow> u8 option \<Rightarrow> bool" where
  "field_matches rule_field sel_field =
     (case rule_field of None \<Rightarrow> True | Some want \<Rightarrow> sel_field = Some want)"

definition rule_matches :: "gtt_rule \<Rightarrow> gtt_selector \<Rightarrow> bool" where
  "rule_matches rule sel =
     (let m = rule_match rule
      in (case gt_prefix m of None \<Rightarrow> True | Some p \<Rightarrow> prefix p (sel_digits sel)) \<and>
         field_matches (match_gti m) (sel_gti sel) \<and> field_matches (match_tt m) (sel_tt sel) \<and>
         field_matches (match_np m) (sel_np sel) \<and> field_matches (match_nai m) (sel_nai sel))"

definition select_group :: "string \<Rightarrow> gtt_resolver \<Rightarrow> gtt_resolver \<times> (u32 \<times> u8) option" where
  "select_group grp r =
     (case bt_get grp (gr_groups r) of
        None \<Rightarrow> (r, None)
      | Some g \<Rightarrow>
          (case group_select g of (g', picked) \<Rightarrow>
             (r\<lparr>gr_groups := bt_insert grp g' (gr_groups r)\<rparr>, picked)))"

definition group_cost_order :: "string \<Rightarrow> gtt_resolver \<Rightarrow> (u32 \<times> u8) list option" where
  "group_cost_order grp r =
     (case bt_get grp (gr_groups r) of
        Some g \<Rightarrow> if gs_mode g = Cost then Some (gs_members g) else None
      | None \<Rightarrow> None)"

definition result_of :: "route_target \<Rightarrow> gtt_resolver \<Rightarrow> gtt_resolver \<times> gtt_result option" where
  "result_of target r =
     (let dpc0 = (case target_dpc target of Some p \<Rightarrow> p | None \<Rightarrow> 0);
          ssn0 = (case target_ssn target of Some s \<Rightarrow> s | None \<Rightarrow> 0)
      in case target_tenant target of
           Some tenant \<Rightarrow> (r, Some (GttTenant tenant dpc0 ssn0))
         | None \<Rightarrow>
             if target_local target = Some True then (r, Some GttLocal)
             else case target_group target of
                    Some grp \<Rightarrow>
                      (case select_group grp r of
                         (r', Some (dpc, ssn)) \<Rightarrow> (r', Some (GttDpc dpc ssn))
                       | (r', None) \<Rightarrow> (r', None))
                  | None \<Rightarrow>
                      (case target_dpc target of
                         Some dpc \<Rightarrow> (r, Some (GttDpc dpc ssn0))
                       | None \<Rightarrow> (r, None)))"

definition resolve_target :: "route_target \<Rightarrow> gtt_resolver \<Rightarrow> gtt_resolver \<times> gtt_result option" where
  "resolve_target target r = result_of target r"

fun translate_rules :: "gtt_rule list \<Rightarrow> gtt_selector \<Rightarrow> gtt_resolver \<Rightarrow> gtt_resolver \<times> gtt_result option" where
  "translate_rules [] sel r = (r, None)"
| "translate_rules (rule # rules) sel r =
     (if rule_matches rule sel then result_of (rule_to rule) r else translate_rules rules sel r)"

definition translate :: "gtt_selector \<Rightarrow> gtt_resolver \<Rightarrow> gtt_resolver \<times> gtt_result option" where
  "translate sel r = translate_rules (gr_rules r) sel r"

definition add_rule :: "gtt_rule \<Rightarrow> gtt_resolver \<Rightarrow> gtt_resolver" where
  "add_rule rule r = r\<lparr>gr_rules := rule # gr_rules r\<rparr>"

section \<open>E.214 and E.164\<close>

definition mccmnc :: "plmn_map_entry \<Rightarrow> string" where
  "mccmnc e = plmn_mcc e @ plmn_mnc e"

definition longest_first :: "('a \<Rightarrow> string) \<Rightarrow> 'a list \<Rightarrow> 'a list" where
  "longest_first key xs = sort_key (\<lambda>x. - int (length (key x))) xs"

definition converter_from :: "gt_conversion \<Rightarrow> gt_converter" where
  "converter_from conv =
     \<lparr>gv_e214_to_e164 = bt_collect (map (\<lambda>e. (mccmnc e, plmn_e164_prefix e)) (gc_plmn_map conv)),
      gv_e164_to_e214 = longest_first fst (map (\<lambda>e. (plmn_e164_prefix e, mccmnc e)) (gc_plmn_map conv))\<rparr>"

fun first_rewrite :: "(string \<times> string) list \<Rightarrow> string \<Rightarrow> string option" where
  "first_rewrite [] digits = None"
| "first_rewrite ((p, new) # rest) digits =
     (case strip_prefix p digits of Some msin \<Rightarrow> Some (new @ msin) | None \<Rightarrow> first_rewrite rest digits)"

definition e214_to_e164 :: "gt_converter \<Rightarrow> string \<Rightarrow> string option" where
  "e214_to_e164 c digits = first_rewrite (longest_first fst (gv_e214_to_e164 c)) digits"

definition e164_to_e214 :: "gt_converter \<Rightarrow> string \<Rightarrow> string option" where
  "e164_to_e214 c digits = first_rewrite (gv_e164_to_e214 c) digits"

section \<open>Translation takes the first matching rule\<close>

lemma translate_find:
  "translate_rules rules sel r =
     (case find (\<lambda>rule. rule_matches rule sel) rules of
        Some rule \<Rightarrow> result_of (rule_to rule) r | None \<Rightarrow> (r, None))"
  by (induction rules) simp_all

text \<open>
  Translation is first match. A global title is translated by the first rule of the table
  whose criteria all hold, whatever the later rules say, and by none exactly when no rule matches;
  a rule added live goes before every other.
\<close>

theorem translate_first_match:
  "(\<forall>rule \<in> set (gr_rules r). \<not> rule_matches rule sel) \<and> translate sel r = (r, None) \<or>
   (\<exists>before rule after. gr_rules r = before @ rule # after \<and> rule_matches rule sel \<and>
      (\<forall>earlier \<in> set before. \<not> rule_matches earlier sel) \<and> translate sel r = result_of (rule_to rule) r)"
proof (cases "find (\<lambda>rule. rule_matches rule sel) (gr_rules r)")
  case None
  then have "translate sel r = (r, None)" by (simp add: translate_def translate_find)
  then show ?thesis using None unfolding find_None_iff by blast
next
  case (Some rule)
  then have "\<exists>before after. gr_rules r = before @ rule # after \<and> rule_matches rule sel \<and>
      (\<forall>earlier \<in> set before. \<not> rule_matches earlier sel)"
    using find_first [of "\<lambda>rule. rule_matches rule sel" "gr_rules r" rule] by blast
  then show ?thesis using Some by (auto simp: translate_def translate_find)
qed

section \<open>Group selection\<close>

theorem translate_first_match_witness:
  "\<exists>before rule after. [\<lparr>rule_match = \<lparr>gt_prefix = Some ''49'', match_gti = None, match_tt = None,
        match_np = None, match_nai = None\<rparr>, rule_to = route_target_default\<rparr>] = before @ rule # after \<and>
     rule_matches rule (selector_from_digits ''4917'')"
proof -
  let ?rule = "\<lparr>rule_match = \<lparr>gt_prefix = Some ''49'', match_gti = None, match_tt = None,
        match_np = None, match_nai = None\<rparr>, rule_to = route_target_default\<rparr>"
  have "rule_matches ?rule (selector_from_digits ''4917'')"
    by (simp add: rule_matches_def Let_def selector_from_digits_def field_matches_def)
  then show ?thesis
    using translate_first_match [of "\<lparr>gr_rules = [?rule], gr_groups = [], gr_local_ssns = []\<rparr>" "selector_from_digits ''4917''"]
    by auto
qed

text \<open>
  A cost group always sends to its cheapest member, the first of the cheapest in the order of
  the configuration, and to none only if it has no member.
\<close>

theorem cost_group_cheapest:
  assumes "gg_mode g = Cost"
  shows "case snd (group_select (group_from g)) of
      None \<Rightarrow> gg_members g = []
    | Some picked \<Rightarrow> \<exists>before x after. gg_members g = before @ x # after \<and> picked = member_pair x \<and>
        (\<forall>y \<in> set before. member_cost x < member_cost y) \<and> (\<forall>y \<in> set after. member_cost x \<le> member_cost y)"
proof -
  have members: "gs_members (group_from g) = map member_pair (sort_key member_cost (gg_members g))"
    using assms by (simp add: group_from_def sort_key_map member_pair_def comp_def)
  have mode: "gs_mode (group_from g) = Cost" using assms by (simp add: group_from_def)
  show ?thesis
  proof (cases "sort_key member_cost (gg_members g)")
    case Nil
    then have "gg_members g = []" by (metis set_sort set_empty)
    then show ?thesis using assms by (simp add: group_select_def members)
  next
    case (Cons x xs)
    have "snd (group_select (group_from g)) = Some (member_pair x)"
      using mode Cons by (simp add: group_select_def members)
    then show ?thesis using sort_key_head [OF Cons] by auto
  qed
qed

theorem cost_group_cheapest_witness:
  "snd (group_select (group_from \<lparr>gg_name = ''g'', gg_mode = Cost, gg_members =
     [\<lparr>gm_dpc = 1, gm_ssn = 6, gm_cost = None, gm_weight = None\<rparr>,
      \<lparr>gm_dpc = 2, gm_ssn = 6, gm_cost = Some 3, gm_weight = None\<rparr>]\<rparr>)) \<noteq> None"
proof -
  let ?g = "\<lparr>gg_name = ''g'', gg_mode = Cost, gg_members =
     [\<lparr>gm_dpc = 1, gm_ssn = 6, gm_cost = None, gm_weight = None\<rparr>,
      \<lparr>gm_dpc = 2, gm_ssn = 6, gm_cost = Some 3, gm_weight = None\<rparr>]\<rparr>"
  have "gg_mode ?g = Cost" by simp
  from cost_group_cheapest [OF this] show ?thesis by (auto split: option.splits)
qed

primrec select_n :: "nat \<Rightarrow> group_state \<Rightarrow> (u32 \<times> u8) option list" where
  "select_n 0 g = []"
| "select_n (Suc n) g = snd (group_select g) # select_n n (fst (group_select g))"

lemma select_n_share:
  assumes "gs_mode g = Share" and "gs_members g \<noteq> []" and "unat (gs_cursor g) + n \<le> 2 ^ 64"
  shows "select_n n g = map (\<lambda>i. Some (gs_members g ! ((unat (gs_cursor g) + i) mod length (gs_members g)))) [0..<n]"
  using assms
proof (induction n arbitrary: g)
  case (Suc n)
  let ?g = "g\<lparr>gs_cursor := gs_cursor g + 1\<rparr>"
  have sel: "group_select g = (?g, Some (gs_members g ! (unat (gs_cursor g) mod length (gs_members g))))"
    using Suc.prems by (simp add: group_select_def)
  show ?case
  proof (cases n)
    case 0
    then show ?thesis using sel by simp
  next
    case (Suc m)
    have c: "unat (gs_cursor g + 1) = Suc (unat (gs_cursor g))"
      using Suc Suc.prems(3) unat_add_lem [of "gs_cursor g" 1] by simp
    have "select_n n ?g = map (\<lambda>i. Some (gs_members g ! ((Suc (unat (gs_cursor g)) + i) mod length (gs_members g)))) [0..<n]"
      using Suc.IH [of ?g] Suc.prems c by simp
    also have "\<dots> = map (\<lambda>i. Some (gs_members g ! ((unat (gs_cursor g) + i) mod length (gs_members g)))) (map Suc [0..<n])"
      by simp
    finally show ?thesis using sel by (simp add: map_Suc_upt upt_conv_Cons del: upt_Suc map_map)
  qed
qed simp

lemma share_members:
  assumes "gg_mode g = Share"
  shows "count (mset (gs_members (group_from g))) p =
    (\<Sum>x \<leftarrow> gg_members g. if member_pair x = p then member_weight x else 0)"
proof -
  have "count (mset (concat (map (\<lambda>x. replicate (member_weight x) (gm_dpc x, gm_ssn x)) xs))) p =
      (\<Sum>x \<leftarrow> xs. if member_pair x = p then member_weight x else 0)" for xs
    by (induction xs) (auto simp: member_pair_def)
  then show ?thesis using assms by (simp add: group_from_def)
qed

lemma count_image_Some: "count (image_mset Some A) (Some p) = count A p"
  by (induction A) auto

text \<open>
  A share group is fair. Starting anywhere in the round, as many selections as the weights
  add up to give every destination exactly its weight, as long as the cursor does not pass the end
  of its 64-bit range.
\<close>

theorem share_group_fair:
  assumes "gg_mode g = Share" and "gg_members g \<noteq> []"
    and "unat c + length (gs_members (group_from g)) \<le> 2 ^ 64"
  shows "count (mset (select_n (length (gs_members (group_from g))) ((group_from g)\<lparr>gs_cursor := c\<rparr>))) (Some p) =
    (\<Sum>x \<leftarrow> gg_members g. if member_pair x = p then member_weight x else 0)"
proof -
  let ?m = "gs_members (group_from g)"
  have w: "0 < member_weight x" for x
  proof -
    have "max v 1 \<noteq> 0" for v :: u8 by (cases "v = 0") (auto simp: max_def)
    then show ?thesis by (simp add: member_weight_def unat_gt_0)
  qed
  obtain x xs where "gg_members g = x # xs" using assms(2) by (cases "gg_members g") auto
  then have ne: "?m \<noteq> []" using assms(1) w [of x] by (auto simp: group_from_def)
  have "select_n (length ?m) ((group_from g)\<lparr>gs_cursor := c\<rparr>) =
      map (\<lambda>i. Some (?m ! ((unat c + i) mod length ?m))) [0..<length ?m]"
    using select_n_share [of "(group_from g)\<lparr>gs_cursor := c\<rparr>" "length ?m"] assms(1,3) ne
    by (simp add: group_from_def)
  also have "\<dots> = map Some (rotate (unat c) ?m)"
    by (rule nth_equalityI) (simp_all add: nth_rotate)
  finally have "mset (select_n (length ?m) ((group_from g)\<lparr>gs_cursor := c\<rparr>)) = image_mset Some (mset ?m)"
    by (metis (no_types, lifting) append_take_drop_id mset_append mset_map rotate_drop_take union_commute)
  then have "count (mset (select_n (length ?m) ((group_from g)\<lparr>gs_cursor := c\<rparr>))) (Some p) = count (mset ?m) p"
    by (simp add: count_image_Some)
  then show ?thesis using share_members [OF assms(1)] by simp
qed

theorem share_group_fair_witness:
  "count (mset (select_n 3 ((group_from \<lparr>gg_name = ''g'', gg_mode = Share, gg_members =
     [\<lparr>gm_dpc = 1, gm_ssn = 6, gm_cost = None, gm_weight = Some 2\<rparr>,
      \<lparr>gm_dpc = 2, gm_ssn = 6, gm_cost = None, gm_weight = None\<rparr>]\<rparr>)\<lparr>gs_cursor := 7\<rparr>))) (Some (1, 6)) = 2"
proof -
  let ?g = "\<lparr>gg_name = ''g'', gg_mode = Share, gg_members =
     [\<lparr>gm_dpc = 1, gm_ssn = 6, gm_cost = None, gm_weight = Some 2\<rparr>,
      \<lparr>gm_dpc = 2, gm_ssn = 6, gm_cost = None, gm_weight = None\<rparr>]\<rparr>"
  have len: "length (gs_members (group_from ?g)) = 3"
    by (simp add: group_from_def member_weight_def)
  have "gg_mode ?g = Share" "gg_members ?g \<noteq> []" "unat (7 :: u64) + length (gs_members (group_from ?g)) \<le> 2 ^ 64"
    by (simp_all add: len)
  from share_group_fair [OF this, of "(1, 6)"] show ?thesis
    unfolding len by (simp add: member_pair_def member_weight_def)
qed

section \<open>Conversion of mobile global titles\<close>

lemma first_rewrite_Some:
  "first_rewrite ps digits = Some out \<Longrightarrow>
   \<exists>before p new after. ps = before @ (p, new) # after \<and> prefix p digits \<and>
     out = new @ drop (length p) digits \<and> (\<forall>q \<in> set before. \<not> prefix (fst q) digits)"
proof (induction ps digits rule: first_rewrite.induct)
  case (2 p new rest digits)
  show ?case
  proof (cases "prefix p digits")
    case True
    then have "(p, new) # rest = [] @ (p, new) # rest \<and> prefix p digits \<and> out = new @ drop (length p) digits"
      using 2(2) by (simp add: strip_prefix_def)
    then show ?thesis by fastforce
  next
    case False
    then have none: "strip_prefix p digits = None" by (simp add: strip_prefix_None)
    then obtain before q new' after where "rest = before @ (q, new') # after" "prefix q digits"
      "out = new' @ drop (length q) digits" "\<forall>q \<in> set before. \<not> prefix (fst q) digits"
      using 2 by auto
    then have "(p, new) # rest = ((p, new) # before) @ (q, new') # after \<and> prefix q digits \<and>
        out = new' @ drop (length q) digits \<and> (\<forall>q \<in> set ((p, new) # before). \<not> prefix (fst q) digits)"
      using False by simp
    then show ?thesis by blast
  qed
qed simp

lemma first_rewrite_None: "first_rewrite ps digits = None \<longleftrightarrow> (\<forall>q \<in> set ps. \<not> prefix (fst q) digits)"
  by (induction ps digits rule: first_rewrite.induct) (auto simp: strip_prefix_def)

lemma longest_first_set [simp]: "set (longest_first key xs) = set xs"
  by (simp add: longest_first_def)

lemma longest_first_order:
  assumes "longest_first key xs = before @ x # after" and "y \<in> set after"
  shows "length (key y) \<le> length (key x)"
proof -
  have "sorted (map (\<lambda>x. - int (length (key x))) (before @ x # after))"
    using assms(1) sorted_sort_key [of "\<lambda>x. - int (length (key x))" xs] by (simp add: longest_first_def)
  then show ?thesis using assms(2) by (auto simp: sorted_append)
qed

text \<open>Rewriting with the longest matching key of a table.\<close>

lemma longest_rewrite:
  assumes "first_rewrite (longest_first fst ps) digits = Some out"
  shows "\<exists>p new. (p, new) \<in> set ps \<and> prefix p digits \<and> out = new @ drop (length p) digits \<and>
    (\<forall>q \<in> set ps. prefix (fst q) digits \<longrightarrow> length (fst q) \<le> length p)"
proof -
  obtain before p new after where *: "longest_first fst ps = before @ (p, new) # after" "prefix p digits"
    "out = new @ drop (length p) digits" "\<forall>q \<in> set before. \<not> prefix (fst q) digits"
    using first_rewrite_Some [OF assms] by blast
  have "length (fst q) \<le> length p" if "q \<in> set ps" "prefix (fst q) digits" for q
  proof -
    have "q \<in> set (before @ (p, new) # after)" using that(1) *(1) longest_first_set [of fst ps] by metis
    then consider "q \<in> set before" | "q = (p, new)" | "q \<in> set after" by auto
    then show ?thesis
    proof cases
      case 1
      then show ?thesis using *(4) that(2) by blast
    next
      case 3
      then show ?thesis using longest_first_order [OF *(1) 3] by simp
    qed simp
  qed
  moreover have "(p, new) \<in> set ps" using *(1) longest_first_set [of fst ps] by (metis in_set_conv_decomp)
  ultimately show ?thesis using *(2,3) by blast
qed

lemma collect_mem: "(k, v) \<in> set (bt_collect kvs) \<Longrightarrow> (k, v) \<in> set kvs"
  using bt_get_in [OF bt_collect_ok [of kvs], of k v] by (auto simp: bt_get_collect dest: map_of_SomeD)

lemma collect_keys: "fst ` set (bt_collect kvs) = fst ` set kvs"
proof -
  have "k \<in> fst ` set (bt_collect kvs) \<longleftrightarrow> k \<in> fst ` set kvs" for k
    using bt_get_dom [of k "bt_collect kvs"] map_of_eq_None_iff [of "rev kvs" k] by (simp add: bt_get_collect)
  then show ?thesis by blast
qed

lemma e214_entry:
  assumes "e214_to_e164 (converter_from conv) digits = Some out"
  shows "\<exists>e \<in> set (gc_plmn_map conv). prefix (mccmnc e) digits \<and>
    out = plmn_e164_prefix e @ drop (length (mccmnc e)) digits \<and>
    (\<forall>f \<in> set (gc_plmn_map conv). prefix (mccmnc f) digits \<longrightarrow> length (mccmnc f) \<le> length (mccmnc e))"
proof -
  let ?kvs = "map (\<lambda>e. (mccmnc e, plmn_e164_prefix e)) (gc_plmn_map conv)"
  have "first_rewrite (longest_first fst (bt_collect ?kvs)) digits = Some out"
    using assms by (simp add: e214_to_e164_def converter_from_def)
  from longest_rewrite [OF this] obtain p new where
    pn: "(p, new) \<in> set (bt_collect ?kvs)" "prefix p digits" "out = new @ drop (length p) digits"
    "\<forall>q \<in> set (bt_collect ?kvs). prefix (fst q) digits \<longrightarrow> length (fst q) \<le> length p" by blast
  obtain e where e: "e \<in> set (gc_plmn_map conv)" "p = mccmnc e" "new = plmn_e164_prefix e"
    using collect_mem [OF pn(1)] by auto
  have "length (mccmnc f) \<le> length p" if "f \<in> set (gc_plmn_map conv)" "prefix (mccmnc f) digits" for f
  proof -
    have "mccmnc f \<in> fst ` set (bt_collect ?kvs)" using that(1) by (force simp: collect_keys)
    then show ?thesis using pn(4) that(2) by auto
  qed
  then show ?thesis using e pn(2,3) by blast
qed

lemma e164_entry:
  assumes "e164_to_e214 (converter_from conv) digits = Some out"
  shows "\<exists>e \<in> set (gc_plmn_map conv). prefix (plmn_e164_prefix e) digits \<and>
    out = mccmnc e @ drop (length (plmn_e164_prefix e)) digits \<and>
    (\<forall>f \<in> set (gc_plmn_map conv). prefix (plmn_e164_prefix f) digits \<longrightarrow>
       length (plmn_e164_prefix f) \<le> length (plmn_e164_prefix e))"
proof -
  have "first_rewrite (longest_first fst (map (\<lambda>e. (plmn_e164_prefix e, mccmnc e)) (gc_plmn_map conv))) digits = Some out"
    using assms by (simp add: e164_to_e214_def converter_from_def)
  from longest_rewrite [OF this] show ?thesis by auto
qed

lemma e214_none:
  "e214_to_e164 (converter_from conv) digits = None \<longleftrightarrow> (\<forall>e \<in> set (gc_plmn_map conv). \<not> prefix (mccmnc e) digits)"
proof -
  let ?kvs = "map (\<lambda>e. (mccmnc e, plmn_e164_prefix e)) (gc_plmn_map conv)"
  have "(\<forall>q \<in> set (bt_collect ?kvs). \<not> prefix (fst q) digits) \<longleftrightarrow> (\<forall>k \<in> fst ` set (bt_collect ?kvs). \<not> prefix k digits)"
    by blast
  also have "\<dots> \<longleftrightarrow> (\<forall>e \<in> set (gc_plmn_map conv). \<not> prefix (mccmnc e) digits)"
    by (simp add: collect_keys)
  finally show ?thesis by (simp add: e214_to_e164_def converter_from_def first_rewrite_None)
qed

lemma e164_none:
  "e164_to_e214 (converter_from conv) digits = None \<longleftrightarrow>
     (\<forall>e \<in> set (gc_plmn_map conv). \<not> prefix (plmn_e164_prefix e) digits)"
  by (simp add: e164_to_e214_def converter_from_def first_rewrite_None)

text \<open>
  A mobile global title keeps its subscriber part and takes the network of the longest
  MCC and MNC that begins it, so that no shorter code of the table can capture it; it is left
  alone exactly when no code of the table begins it.
\<close>

theorem e214_longest_match:
  "case e214_to_e164 (converter_from conv) digits of
     None \<Rightarrow> \<forall>e \<in> set (gc_plmn_map conv). \<not> prefix (mccmnc e) digits
   | Some out \<Rightarrow> \<exists>e \<in> set (gc_plmn_map conv).
       digits = mccmnc e @ drop (length (mccmnc e)) digits \<and>
       out = plmn_e164_prefix e @ drop (length (mccmnc e)) digits \<and>
       (\<forall>f \<in> set (gc_plmn_map conv). prefix (mccmnc f) digits \<longrightarrow> length (mccmnc f) \<le> length (mccmnc e))"
proof (cases "e214_to_e164 (converter_from conv) digits")
  case None
  then show ?thesis using e214_none [of conv digits] by simp
next
  case (Some out)
  have "prefix p digits \<Longrightarrow> digits = p @ drop (length p) digits" for p by (auto simp: prefix_def)
  then show ?thesis using e214_entry [OF Some] unfolding Some option.case by blast
qed

definition sample_plmn :: gt_conversion where
  "sample_plmn = \<lparr>gc_plmn_map =
     [\<lparr>plmn_mcc = ''262'', plmn_mnc = ''01'', plmn_e164_prefix = ''49171''\<rparr>,
      \<lparr>plmn_mcc = ''262'', plmn_mnc = ''013'', plmn_e164_prefix = ''49176''\<rparr>]\<rparr>"

theorem e214_longest_match_witness:
  "\<exists>out. e214_to_e164 (converter_from sample_plmn) ''2620135'' = Some out \<and>
     (\<exists>e \<in> set (gc_plmn_map sample_plmn). prefix (mccmnc e) ''2620135'' \<and> length (mccmnc e) = 6)"
proof -
  have "e214_to_e164 (converter_from sample_plmn) ''2620135'' \<noteq> None"
    by (simp add: e214_none sample_plmn_def mccmnc_def)
  then obtain out where out: "e214_to_e164 (converter_from sample_plmn) ''2620135'' = Some out" by blast
  have "\<exists>e \<in> set (gc_plmn_map sample_plmn). ''2620135'' = mccmnc e @ drop (length (mccmnc e)) ''2620135'' \<and>
      (\<forall>f \<in> set (gc_plmn_map sample_plmn). prefix (mccmnc f) ''2620135'' \<longrightarrow> length (mccmnc f) \<le> length (mccmnc e))"
    using e214_longest_match [of sample_plmn "''2620135''"] out by auto
  then show ?thesis using out by (auto simp: sample_plmn_def mccmnc_def)
qed

text \<open>
  The conversion can be undone. When no E.164 prefix of the table begins another, the E.164
  number made of a mobile global title converts back to exactly that title.
\<close>

theorem e214_roundtrip:
  assumes "\<And>e f. e \<in> set (gc_plmn_map conv) \<Longrightarrow> f \<in> set (gc_plmn_map conv) \<Longrightarrow>
      prefix (plmn_e164_prefix e) (plmn_e164_prefix f) \<Longrightarrow> e = f"
    and "e214_to_e164 (converter_from conv) digits = Some number"
  shows "e164_to_e214 (converter_from conv) number = Some digits"
proof -
  obtain e where e: "e \<in> set (gc_plmn_map conv)" "prefix (mccmnc e) digits"
    "number = plmn_e164_prefix e @ drop (length (mccmnc e)) digits"
    using e214_entry [OF assms(2)] by blast
  then have pre: "prefix (plmn_e164_prefix e) number" by simp
  then obtain out where out: "e164_to_e214 (converter_from conv) number = Some out"
    using e(1) e164_none [of conv number] by (cases "e164_to_e214 (converter_from conv) number") auto
  obtain f where f: "f \<in> set (gc_plmn_map conv)" "prefix (plmn_e164_prefix f) number"
    "out = mccmnc f @ drop (length (plmn_e164_prefix f)) number"
    using e164_entry [OF out] by blast
  have "prefix (plmn_e164_prefix e) (plmn_e164_prefix f) \<or> prefix (plmn_e164_prefix f) (plmn_e164_prefix e)"
    using prefix_same_cases [OF pre f(2)] .
  then have "e = f" using assms(1) e(1) f(1) by blast
  then show ?thesis using out f(3) e(2,3) by (auto simp: prefix_def)
qed

theorem e214_roundtrip_witness:
  "\<exists>number. e214_to_e164 (converter_from sample_plmn) ''2620135'' = Some number \<and>
     e164_to_e214 (converter_from sample_plmn) number = Some ''2620135''"
proof -
  have "e214_to_e164 (converter_from sample_plmn) ''2620135'' \<noteq> None"
    by (simp add: e214_none sample_plmn_def mccmnc_def)
  then obtain number where n: "e214_to_e164 (converter_from sample_plmn) ''2620135'' = Some number" by blast
  have "e = f" if "e \<in> set (gc_plmn_map sample_plmn)" "f \<in> set (gc_plmn_map sample_plmn)"
    "prefix (plmn_e164_prefix e) (plmn_e164_prefix f)" for e f
    using that by (auto simp: sample_plmn_def)
  from e214_roundtrip [OF this n] show ?thesis using n by blast
qed

end
