(* ===== verification/Content.thy ===== *)
theory Content
  imports Config_Model
begin

text \<open>
  The content-routing engine (\<^verbatim>\<open>src/src/content.rs\<close>): what can be read of a connectionless SCCP
  message, and the ordered rules evaluated on it.

  The codecs are third-party crates. Their results are modelled by the observations the program
  makes of them (\<open>sccp_message\<close>, \<open>tcap_decoded\<close>), and the codecs themselves are parameters:
  \<open>decode_detailed\<close> for \<^verbatim>\<open>tcap::decode_detailed\<close>, \<open>map_args\<close> for the argument decoders of
  \<^verbatim>\<open>gsm_map\<close>, \<open>op_codes\<close> for the operation codes \<^verbatim>\<open>gsm_map\<close> and \<^verbatim>\<open>gsm_cap\<close> publish.
\<close>

section \<open>What the codecs give\<close>

type_synonym bytes = "u8 list"

datatype sccp_kind = Udt | Xudt | Ludt | Udts | Xudts | Ludts

record sccp_address =
  sa_digits :: "string option"
  sa_ssn :: "u8 option"
  sa_point_code :: "u32 option"

record sccp_message =
  sm_kind :: sccp_kind
  sm_data :: bytes
  sm_calling :: sccp_address
  sm_called :: sccp_address
  sm_optional_part :: bytes

datatype operation_code = OpLocal int | OpGlobal

datatype tcap_component = Invoke operation_code "bytes option" | OtherComponent

datatype dialogue_pdu = Aarq "u32 list" | Audt "u32 list" | OtherPdu

record tcap_body =
  tb_otid :: bytes
  tb_dialogue_pdu :: "dialogue_pdu option"
  tb_components :: "tcap_component list option"

datatype tcap_message = TcBegin tcap_body | TcContinue tcap_body | TcUnidirectional tcap_body | TcEnd | TcAbort

datatype message_type = MtUnidirectional | MtBegin | MtContinue | MtEnd | MtAbort

record tcap_problem =
  tp_message_type :: "message_type option"
  tp_otid :: "bytes option"

datatype tcap_decoded = Complete tcap_message | Problem tcap_problem

type_synonym decode_detailed = "bytes \<Rightarrow> tcap_decoded"

record op_codes =
  oc_sri_sm :: int
  oc_mo_forward_sm :: int
  oc_mt_forward_sm :: int
  oc_update_location :: int
  oc_cancel_location :: int
  oc_send_authentication_info :: int
  oc_insert_subscriber_data :: int
  oc_initial_dp :: int
  oc_connect :: int
  oc_purge_ms :: int
  oc_ready_for_sm :: int
  oc_provide_subscriber_info :: int
  oc_report_sm_delivery_status :: int

datatype map_identity = IdImsi bytes | IdImsiWithLmsi bytes

text \<open>The fields the program reads of a decoded argument; \<open>None\<close> when it does not decode.\<close>

record map_args =
  ma_update_location :: "bytes \<Rightarrow> bytes option"
  ma_cancel_location :: "bytes \<Rightarrow> map_identity option"
  ma_purge_ms :: "bytes \<Rightarrow> bytes option"
  ma_send_authentication_info :: "bytes \<Rightarrow> bytes option"
  ma_ready_for_sm :: "bytes \<Rightarrow> bytes option"
  ma_provide_subscriber_info :: "bytes \<Rightarrow> bytes option"
  ma_mo_forward_sm :: "bytes \<Rightarrow> bytes option option"
  ma_sri_sm :: "bytes \<Rightarrow> bytes option"
  ma_report_sm_delivery_status :: "bytes \<Rightarrow> bytes option"

section \<open>Operations\<close>

datatype operation = SriSm | MoForwardSm | MtForwardSm | UpdateLocation | CancelLocation | SendAuthInfo
  | InsertSubscriberData | ProvideSubscriberInfo | InitialDp | Connect

definition from_kebab :: "string \<Rightarrow> operation option" where
  "from_kebab s =
     (if s = ''sri-sm'' then Some SriSm
      else if s = ''mo-forward-sm'' then Some MoForwardSm
      else if s = ''mt-forward-sm'' then Some MtForwardSm
      else if s = ''update-location'' then Some UpdateLocation
      else if s = ''cancel-location'' then Some CancelLocation
      else if s = ''send-auth-info'' then Some SendAuthInfo
      else if s = ''insert-subscriber-data'' then Some InsertSubscriberData
      else if s = ''provide-subscriber-info'' then Some ProvideSubscriberInfo
      else if s = ''initial-dp'' then Some InitialDp
      else if s = ''connect'' then Some Connect
      else None)"

fun op_code :: "op_codes \<Rightarrow> operation \<Rightarrow> int" where
  "op_code oc SriSm = oc_sri_sm oc"
| "op_code oc MoForwardSm = oc_mo_forward_sm oc"
| "op_code oc MtForwardSm = oc_mt_forward_sm oc"
| "op_code oc UpdateLocation = oc_update_location oc"
| "op_code oc CancelLocation = oc_cancel_location oc"
| "op_code oc SendAuthInfo = oc_send_authentication_info oc"
| "op_code oc InsertSubscriberData = oc_insert_subscriber_data oc"
| "op_code oc ProvideSubscriberInfo = 70"
| "op_code oc InitialDp = oc_initial_dp oc"
| "op_code oc Connect = oc_connect oc"

definition from_op_code :: "op_codes \<Rightarrow> int \<Rightarrow> operation option" where
  "from_op_code oc c =
     (if c = oc_sri_sm oc then Some SriSm
      else if c = oc_mo_forward_sm oc then Some MoForwardSm
      else if c = oc_mt_forward_sm oc then Some MtForwardSm
      else if c = oc_update_location oc then Some UpdateLocation
      else if c = oc_cancel_location oc then Some CancelLocation
      else if c = oc_send_authentication_info oc then Some SendAuthInfo
      else if c = oc_insert_subscriber_data oc then Some InsertSubscriberData
      else if c = 70 then Some ProvideSubscriberInfo
      else if c = oc_initial_dp oc then Some InitialDp
      else if c = oc_connect oc then Some Connect
      else None)"

definition is_cap :: "operation \<Rightarrow> bool" where
  "is_cap o' \<longleftrightarrow> o' = InitialDp \<or> o' = Connect"

section \<open>Reading a message\<close>

record map_view =
  mv_operation :: "operation option"
  mv_cgpa_gt :: "string option"
  mv_cdpa_gt :: "string option"
  mv_imsi :: "string option"
  mv_msisdn :: "string option"
  mv_imsi_unreadable :: bool

datatype screening = ScreenView map_view | NotApplicable | Undecodable | Segmented

datatype unreadable = UnreadableImsi | UnreadableMsisdn

text \<open>\<open>segment_scan\<close> is the loop of \<^verbatim>\<open>is_segment\<close> over the optional parameters.\<close>

fun segment_scan :: "bytes \<Rightarrow> bool" where
  "segment_scan (name # len # tail) =
     (if name = 0 \<or> length tail < unat len then False
      else if name = 0x10 then
        (case tail of
           first # _ \<Rightarrow> \<not> (and first 0x80 \<noteq> 0 \<and> and first 0x0F = 0)
         | [] \<Rightarrow> True)
      else segment_scan (drop (unat len) tail))"
| "segment_scan _ = False"

definition is_segment :: "sccp_message \<Rightarrow> bool" where
  "is_segment m = (if sm_kind m = Xudt \<or> sm_kind m = Ludt then segment_scan (sm_optional_part m) else False)"

text \<open>The ASCII digit of a nibble, \<^verbatim>\<open>(b'0' + n) as char\<close>.\<close>

definition digit_char :: "u8 \<Rightarrow> char" where
  "digit_char n = char_of (unat (48 + n))"

fun tbcd_slice :: "bytes \<Rightarrow> string" where
  "tbcd_slice [] = []"
| "tbcd_slice (b # bs) =
     (let lo = and b 0x0F; hi = drop_bit 4 b
      in if lo > 9 then []
         else if hi > 9 then [digit_char lo]
         else digit_char lo # digit_char hi # tbcd_slice bs)"

definition tbcd_digits :: "bytes \<Rightarrow> string" where
  "tbcd_digits bs = tbcd_slice bs"

fun addr_digits :: "bytes \<Rightarrow> string" where
  "addr_digits (toa # rest) = tbcd_slice rest"
| "addr_digits [] = []"

text \<open>The first \<^verbatim>\<open>Invoke\<close> of a local operation.\<close>

fun find_invoke :: "tcap_component list \<Rightarrow> (int \<times> bytes option) option" where
  "find_invoke (Invoke (OpLocal c) arg # cs) = Some (c, arg)"
| "find_invoke (_ # cs) = find_invoke cs"
| "find_invoke [] = None"

definition first_invoke :: "decode_detailed \<Rightarrow> bytes \<Rightarrow> unit + (int \<times> bytes option) option" where
  "first_invoke decode bs =
     (case decode bs of
        Complete m \<Rightarrow>
          (let components = (case m of TcBegin b \<Rightarrow> tb_components b | TcContinue b \<Rightarrow> tb_components b | _ \<Rightarrow> None)
           in Inr (find_invoke (case components of None \<Rightarrow> [] | Some cs \<Rightarrow> cs)))
      | Problem p \<Rightarrow>
          (if tp_message_type p = Some MtBegin \<or> tp_message_type p = Some MtContinue then Inl () else Inr None))"

definition read_arg :: "(bytes \<Rightarrow> 'a option) \<Rightarrow> bytes option \<Rightarrow> unreadable \<Rightarrow> unreadable + 'a" where
  "read_arg decode arg what =
     (case arg of
        None \<Rightarrow> Inl what
      | Some bs \<Rightarrow> (case decode bs of None \<Rightarrow> Inl what | Some v \<Rightarrow> Inr v))"

definition with_imsi :: "(bytes \<Rightarrow> bytes option) \<Rightarrow> bytes option \<Rightarrow> unreadable + (string option \<times> string option)" where
  "with_imsi decode arg =
     (case read_arg decode arg UnreadableImsi of Inl e \<Rightarrow> Inl e | Inr i \<Rightarrow> Inr (Some (tbcd_digits i), None))"

definition with_msisdn :: "(bytes \<Rightarrow> bytes option) \<Rightarrow> bytes option \<Rightarrow> unreadable + (string option \<times> string option)" where
  "with_msisdn decode arg =
     (case read_arg decode arg UnreadableMsisdn of Inl e \<Rightarrow> Inl e | Inr a \<Rightarrow> Inr (None, Some (addr_digits a)))"

definition subscriber_identity ::
  "op_codes \<Rightarrow> map_args \<Rightarrow> int \<Rightarrow> bytes option \<Rightarrow> unreadable + (string option \<times> string option)" where
  "subscriber_identity oc ma c arg =
     (if c = oc_update_location oc then with_imsi (ma_update_location ma) arg
      else if c = oc_cancel_location oc then
        (case read_arg (ma_cancel_location ma) arg UnreadableImsi of
           Inl e \<Rightarrow> Inl e
         | Inr (IdImsi i) \<Rightarrow> Inr (Some (tbcd_digits i), None)
         | Inr (IdImsiWithLmsi i) \<Rightarrow> Inr (Some (tbcd_digits i), None))
      else if c = oc_purge_ms oc then with_imsi (ma_purge_ms ma) arg
      else if c = oc_send_authentication_info oc then with_imsi (ma_send_authentication_info ma) arg
      else if c = oc_ready_for_sm oc then with_imsi (ma_ready_for_sm ma) arg
      else if c = oc_provide_subscriber_info oc then with_imsi (ma_provide_subscriber_info ma) arg
      else if c = oc_mo_forward_sm oc then
        (case read_arg (ma_mo_forward_sm ma) arg UnreadableImsi of
           Inl e \<Rightarrow> Inl e
         | Inr i \<Rightarrow> Inr (map_option tbcd_digits i, None))
      else if c = oc_sri_sm oc then with_msisdn (ma_sri_sm ma) arg
      else if c = oc_report_sm_delivery_status oc then with_msisdn (ma_report_sm_delivery_status ma) arg
      else Inr (None, None))"

definition screen :: "decode_detailed \<Rightarrow> op_codes \<Rightarrow> map_args \<Rightarrow> sccp_message \<Rightarrow> screening" where
  "screen decode oc ma m =
     (if is_segment m then Segmented
      else case first_invoke decode (sm_data m) of
        Inr None \<Rightarrow> NotApplicable
      | Inl _ \<Rightarrow> Undecodable
      | Inr (Some (c, arg)) \<Rightarrow>
          (case (case subscriber_identity oc ma c arg of
                   Inr (imsi, msisdn) \<Rightarrow> (imsi, msisdn, False)
                 | Inl e \<Rightarrow> (None, None, e = UnreadableImsi)) of
             (imsi, msisdn, bad) \<Rightarrow>
               ScreenView \<lparr>mv_operation = from_op_code oc c,
                 mv_cgpa_gt = sa_digits (sm_calling m), mv_cdpa_gt = sa_digits (sm_called m),
                 mv_imsi = imsi, mv_msisdn = msisdn, mv_imsi_unreadable = bad\<rparr>))"

definition decode_map_view :: "decode_detailed \<Rightarrow> op_codes \<Rightarrow> map_args \<Rightarrow> sccp_message \<Rightarrow> map_view option" where
  "decode_map_view decode oc ma m = (case screen decode oc ma m of ScreenView v \<Rightarrow> Some v | _ \<Rightarrow> None)"

section \<open>The engine\<close>

datatype content_decision = ContentRoute route_target "string option" | ContentScreen | Unevaluable

record compiled_rule =
  cc_name :: string
  cc_operations :: "operation list"
  cc_imsi_in :: "string option"
  cc_imsi_prefix :: "string option"
  cc_cdpa_gt_in :: "string option"
  cc_cgpa_gt_in :: "string option"
  cc_action :: content_action

record content_engine =
  ce_rules :: "compiled_rule list"
  ce_address_tables :: "string \<rightharpoonup> string list"
  ce_imsi_tables :: "string \<rightharpoonup> string list"

record hit =
  hit_rule :: string
  hit_action :: content_decision

definition compiled_rule_from :: "content_rule \<Rightarrow> compiled_rule" where
  "compiled_rule_from r =
     \<lparr>cc_name = cr_name r,
      cc_operations = (case cm_operation (cr_match r) of
                         None \<Rightarrow> []
                       | Some ops \<Rightarrow> List.map_filter from_kebab (oom_as_slice ops)),
      cc_imsi_in = cm_imsi_in (cr_match r), cc_imsi_prefix = cm_imsi_prefix (cr_match r),
      cc_cdpa_gt_in = cm_cdpa_gt_in (cr_match r), cc_cgpa_gt_in = cm_cgpa_gt_in (cr_match r),
      cc_action = cr_action r\<rparr>"

definition content_compile :: "content_routing \<Rightarrow> content_engine" where
  "content_compile cr =
     \<lparr>ce_rules = map compiled_rule_from (ct_rules cr),
      ce_address_tables = map_of (rev (map (\<lambda>t. (at_name t, at_addrs t)) (ct_address_tables cr))),
      ce_imsi_tables = map_of (rev (map (\<lambda>t. (it_name t, it_prefixes t)) (ct_imsi_tables cr)))\<rparr>"

definition content_empty :: content_engine where
  "content_empty = \<lparr>ce_rules = [], ce_address_tables = Map.empty, ce_imsi_tables = Map.empty\<rparr>"

definition content_add_rule :: "content_rule \<Rightarrow> content_engine \<Rightarrow> content_engine" where
  "content_add_rule rule e = e\<lparr>ce_rules := compiled_rule_from rule # ce_rules e\<rparr>"

text \<open>The table of a name with one entry more, made when it is absent.\<close>

definition table_add :: "string \<Rightarrow> string \<Rightarrow> (string \<rightharpoonup> string list) \<Rightarrow> (string \<rightharpoonup> string list)" where
  "table_add table entry m =
     (let entries = (case m table of None \<Rightarrow> [] | Some es \<Rightarrow> es)
      in m(table \<mapsto> if entry \<in> set entries then entries else entries @ [entry]))"

definition address_table_add :: "string \<Rightarrow> string \<Rightarrow> content_engine \<Rightarrow> content_engine" where
  "address_table_add table addr e = e\<lparr>ce_address_tables := table_add table addr (ce_address_tables e)\<rparr>"

definition imsi_table_add :: "string \<Rightarrow> string \<Rightarrow> content_engine \<Rightarrow> content_engine" where
  "imsi_table_add table p e = e\<lparr>ce_imsi_tables := table_add table p (ce_imsi_tables e)\<rparr>"

definition has_rules :: "content_engine \<Rightarrow> bool" where
  "has_rules e \<longleftrightarrow> ce_rules e \<noteq> []"

definition imsi_in_table :: "content_engine \<Rightarrow> string \<Rightarrow> string \<Rightarrow> bool" where
  "imsi_in_table e table imsi =
     (case ce_imsi_tables e table of None \<Rightarrow> False | Some ps \<Rightarrow> \<exists>p \<in> set ps. prefix p imsi)"

definition gt_in_table :: "content_engine \<Rightarrow> string \<Rightarrow> string \<Rightarrow> bool" where
  "gt_in_table e table gt =
     (case ce_address_tables e table of None \<Rightarrow> False | Some addrs \<Rightarrow> gt \<in> set addrs)"

text \<open>A test of a table that a rule may leave out, on a field the message may lack.\<close>

definition optional_test :: "string option \<Rightarrow> string option \<Rightarrow> (string \<Rightarrow> string \<Rightarrow> bool) \<Rightarrow> bool" where
  "optional_test want field test =
     (case want of
        None \<Rightarrow> True
      | Some table \<Rightarrow> (case field of None \<Rightarrow> False | Some v \<Rightarrow> test table v))"

definition matches_besides_identity :: "content_engine \<Rightarrow> compiled_rule \<Rightarrow> map_view \<Rightarrow> bool" where
  "matches_besides_identity e rule v \<longleftrightarrow>
     (cc_operations rule = [] \<or>
      (case mv_operation v of Some o' \<Rightarrow> o' \<in> set (cc_operations rule) | None \<Rightarrow> False)) \<and>
     optional_test (cc_cdpa_gt_in rule) (mv_cdpa_gt v) (gt_in_table e) \<and>
     optional_test (cc_cgpa_gt_in rule) (mv_cgpa_gt v) (gt_in_table e)"

definition matches_identity :: "content_engine \<Rightarrow> compiled_rule \<Rightarrow> map_view \<Rightarrow> bool" where
  "matches_identity e rule v \<longleftrightarrow>
     optional_test (cc_imsi_in rule) (mv_imsi v) (imsi_in_table e) \<and>
     optional_test (cc_imsi_prefix rule) (mv_imsi v) prefix"

definition action_of :: "content_action \<Rightarrow> content_decision" where
  "action_of a =
     (if ca_screen a = Some True then ContentScreen
      else ContentRoute (case ca_route a of Some t \<Rightarrow> t | None \<Rightarrow> route_target_default) (ca_rewrite_cdpa_gt a))"

definition tests_identity :: "compiled_rule \<Rightarrow> bool" where
  "tests_identity rule \<longleftrightarrow> cc_imsi_in rule \<noteq> None \<or> cc_imsi_prefix rule \<noteq> None"

fun evaluate_rules :: "content_engine \<Rightarrow> map_view \<Rightarrow> compiled_rule list \<Rightarrow> hit option" where
  "evaluate_rules e v [] = None"
| "evaluate_rules e v (rule # rules) =
     (if \<not> matches_besides_identity e rule v then evaluate_rules e v rules
      else if tests_identity rule \<and> mv_imsi_unreadable v then
        Some \<lparr>hit_rule = cc_name rule, hit_action = Unevaluable\<rparr>
      else if matches_identity e rule v then
        Some \<lparr>hit_rule = cc_name rule, hit_action = action_of (cc_action rule)\<rparr>
      else evaluate_rules e v rules)"

definition content_evaluate :: "content_engine \<Rightarrow> map_view \<Rightarrow> hit option" where
  "content_evaluate e v = evaluate_rules e v (ce_rules e)"

section \<open>Operation codes\<close>

definition matchable_codes :: "op_codes \<Rightarrow> int list" where
  "matchable_codes oc = [oc_sri_sm oc, oc_mo_forward_sm oc, oc_mt_forward_sm oc, oc_update_location oc,
     oc_cancel_location oc, oc_send_authentication_info oc, oc_insert_subscriber_data oc, 70,
     oc_initial_dp oc, oc_connect oc]"

definition published_codes :: op_codes where
  "published_codes = \<lparr>oc_sri_sm = 45, oc_mo_forward_sm = 46, oc_mt_forward_sm = 44,
     oc_update_location = 2, oc_cancel_location = 3, oc_send_authentication_info = 56,
     oc_insert_subscriber_data = 7, oc_initial_dp = 0, oc_connect = 20, oc_purge_ms = 67,
     oc_ready_for_sm = 66, oc_provide_subscriber_info = 70, oc_report_sm_delivery_status = 47\<rparr>"

definition code_pairs :: "op_codes \<Rightarrow> (int \<times> operation) list" where
  "code_pairs oc = map (\<lambda>o'. (op_code oc o', o')) [SriSm, MoForwardSm, MtForwardSm, UpdateLocation,
     CancelLocation, SendAuthInfo, InsertSubscriberData, ProvideSubscriberInfo, InitialDp, Connect]"

text \<open>
  Reading an operation code is the inverse of writing it. As the ten codes are distinct, an
  operation is recognised by its code and no other operation is.
\<close>

theorem op_code_roundtrip:
  assumes "distinct (matchable_codes oc)"
  shows "from_op_code oc c = Some o' \<longleftrightarrow> op_code oc o' = c"
proof -
  have "distinct (map fst (code_pairs oc))" using assms by (simp add: code_pairs_def matchable_codes_def)
  then have "map_of (code_pairs oc) c = Some o' \<longleftrightarrow> (c, o') \<in> set (code_pairs oc)"
    using map_of_eq_Some_iff by metis
  moreover have "from_op_code oc c = map_of (code_pairs oc) c"
    by (simp add: code_pairs_def from_op_code_def)
  moreover have "(c, o') \<in> set (code_pairs oc) \<longleftrightarrow> op_code oc o' = c"
    by (cases o') (auto simp: code_pairs_def)
  ultimately show ?thesis by metis
qed

theorem op_code_roundtrip_witness:
  "from_op_code published_codes 45 = Some SriSm"
proof -
  have "distinct (matchable_codes published_codes)" by (simp add: matchable_codes_def published_codes_def)
  from op_code_roundtrip [OF this] show ?thesis by (simp add: published_codes_def)
qed

section \<open>Digits\<close>

text \<open>The reference encoding: two digits an octet, low nibble first, a filler after an odd one.\<close>

fun tbcd_encode :: "nat list \<Rightarrow> bytes" where
  "tbcd_encode [] = []"
| "tbcd_encode [d] = [word_of_nat (0xF0 + d)]"
| "tbcd_encode (d # d' # ds) = word_of_nat (16 * d' + d) # tbcd_encode ds"

definition digit_text :: "nat list \<Rightarrow> string" where
  "digit_text ds = map (\<lambda>d. char_of (48 + d)) ds"

lemma nibbles:
  assumes "lo < 16" and "hi < 16"
  shows "and (word_of_nat (16 * hi + lo) :: u8) 0x0F = word_of_nat lo"
    and "drop_bit 4 (word_of_nat (16 * hi + lo) :: u8) = word_of_nat hi"
proof -
  define w :: u8 where "w = word_of_nat (16 * hi + lo)"
  have "16 * hi + lo < 256" using assms by simp
  then have w: "unat w = 16 * hi + lo" unfolding w_def by (simp only: unat_of_nat) simp
  have "unat (take_bit 4 w) = lo" using w assms unfolding unsigned_take_bit_eq by (simp add: take_bit_eq_mod)
  then have "take_bit 4 w = word_of_nat lo" by (metis of_nat_unat ucast_id)
  then show "and (word_of_nat (16 * hi + lo) :: u8) 0x0F = word_of_nat lo"
    unfolding w_def [symmetric] by (simp add: take_bit_eq_mask mask_numeral)
  have "unat (drop_bit 4 w) = hi" using w assms unfolding unsigned_drop_bit_eq by (simp add: drop_bit_eq_div take_bit_eq_mod)
  then have "drop_bit 4 w = word_of_nat hi" by (metis of_nat_unat ucast_id)
  then show "drop_bit 4 (word_of_nat (16 * hi + lo) :: u8) = word_of_nat hi" unfolding w_def .
qed

lemma digit_word:
  assumes "d < 10"
  shows "\<not> 9 < (word_of_nat d :: u8)" and "digit_char (word_of_nat d) = char_of (48 + d)"
proof -
  have d: "unat (word_of_nat d :: u8) = d" using assms by (simp add: unat_of_nat)
  then show "\<not> 9 < (word_of_nat d :: u8)" using assms by (simp add: word_less_nat_alt)
  have "unat (48 + word_of_nat d :: u8) = 48 + d"
    using d assms unat_add_lem [of "48 :: u8" "word_of_nat d"] by simp
  then show "digit_char (word_of_nat d) = char_of (48 + d)" by (simp add: digit_char_def)
qed

text \<open>
  Subscriber digits survive the wire. A digit string of any length packed two digits an octet,
  with a filler after an odd last digit, is read back as exactly those digits.
\<close>

theorem tbcd_roundtrip:
  assumes "\<And>d. d \<in> set ds \<Longrightarrow> d < 10"
  shows "tbcd_digits (tbcd_encode ds) = digit_text ds"
proof -
  have "tbcd_slice (tbcd_encode ds) = digit_text ds" using assms
  proof (induction ds rule: tbcd_encode.induct)
    case (2 d)
    then have "d < 10" by simp
    moreover have "9 < (word_of_nat 15 :: u8)" by simp
    ultimately show ?case using nibbles [of d 15] digit_word [of d] by (simp add: Let_def digit_text_def)
  next
    case (3 d d' ds)
    then have "d < 10" "d' < 10" by simp_all
    moreover from this have "d < 16" "d' < 16" by simp_all
    ultimately show ?case using 3 nibbles [of d d'] digit_word [of d] digit_word [of d']
      by (simp add: Let_def digit_text_def)
  qed (simp add: digit_text_def)
  then show ?thesis by (simp add: tbcd_digits_def)
qed

theorem tbcd_roundtrip_witness: "tbcd_digits (tbcd_encode [2, 6, 2]) = ''262''"
proof -
  have "d < 10" if "d \<in> set [2, 6, 2 :: nat]" for d using that by auto
  from tbcd_roundtrip [of "[2, 6, 2]", OF this] show ?thesis by (simp add: digit_text_def char_of_def bit_Suc_0_iff)
qed

section \<open>Segmentation\<close>

text \<open>The reference encoding of an optional part: name, length, value, and the end marker.\<close>

definition optional_encode :: "(u8 \<times> bytes) list \<Rightarrow> bytes" where
  "optional_encode ps = concat (map (\<lambda>(name, v). name # word_of_nat (length v) # v) ps) @ [0]"

definition segment_value :: "bytes \<Rightarrow> bool" where
  "segment_value v \<longleftrightarrow> \<not> (\<exists>first rest. v = first # rest \<and> and first 0x80 \<noteq> 0 \<and> and first 0x0F = 0)"

text \<open>
  A segment is recognised wherever its Segmentation parameter stands in the optional part,
  and by that parameter alone: the message is whole exactly when it has no such parameter or the
  first one says first segment and none remaining.
\<close>

theorem segment_scan_exact:
  assumes "\<And>name v. (name, v) \<in> set ps \<Longrightarrow> name \<noteq> 0 \<and> length v < 256 \<and> (name = 0x10 \<longrightarrow> v \<noteq> [])"
  shows "segment_scan (optional_encode ps) \<longleftrightarrow>
    (case find (\<lambda>(name, _). name = 0x10) ps of None \<Rightarrow> False | Some (_, v) \<Rightarrow> segment_value v)"
  using assms
proof (induction ps)
  case (Cons p ps)
  obtain name v where p: "p = (name, v)" by force
  have v: "name \<noteq> 0" "unat (word_of_nat (length v) :: u8) = length v" "name = 0x10 \<longrightarrow> v \<noteq> []"
    using Cons.prems [of name v] by (auto simp: p unat_of_nat)
  have unfold: "optional_encode (p # ps) = name # word_of_nat (length v) # v @ optional_encode ps"
    by (simp add: optional_encode_def p)
  have IH: "segment_scan (optional_encode ps) \<longleftrightarrow>
      (case find (\<lambda>(name, _). name = 0x10) ps of None \<Rightarrow> False | Some (_, v) \<Rightarrow> segment_value v)"
    by (rule Cons.IH) (rule Cons.prems, simp)
  show ?case
  proof (cases "name = 0x10")
    case True
    then obtain x xs where "v = x # xs" using v(3) by (cases v) auto
    then show ?thesis using v True unfolding unfold by (simp add: p segment_value_def)
  next
    case False
    then show ?thesis using v IH unfolding unfold by (simp add: p)
  qed
qed (simp add: optional_encode_def)

theorem segment_scan_exact_witness:
  "segment_scan (optional_encode [(18, [5]), (16, [0x81, 0, 0, 7])])"
proof -
  have "name \<noteq> 0 \<and> length v < 256 \<and> (name = 0x10 \<longrightarrow> v \<noteq> [])"
    if "(name, v) \<in> set [(18 :: u8, [5 :: u8]), (16, [0x81, 0, 0, 7])]" for name v
    using that by auto
  from segment_scan_exact [of "[(18, [5]), (16, [0x81, 0, 0, 7])]", OF this] show ?thesis by (simp add: segment_value_def)
qed

section \<open>What is screened\<close>

definition starts_or_continues :: "tcap_decoded \<Rightarrow> bool" where
  "starts_or_continues d =
     (case d of
        Complete (TcBegin _) \<Rightarrow> True
      | Complete (TcContinue _) \<Rightarrow> True
      | Complete _ \<Rightarrow> False
      | Problem p \<Rightarrow> tp_message_type p = Some MtBegin \<or> tp_message_type p = Some MtContinue)"

definition complete :: "tcap_decoded \<Rightarrow> bool" where
  "complete d = (case d of Complete _ \<Rightarrow> True | Problem _ \<Rightarrow> False)"

text \<open>
  The content layer never looks at half a message. A view is given only of a whole Begin or
  Continue that decoded completely; a Begin or Continue that did not is undecodable, never
  inapplicable; and a view whose subscriber is unknown because the argument cannot be read says so.
\<close>

theorem screen_strict:
  "case screen decode oc ma m of
     Segmented \<Rightarrow> is_segment m
   | Undecodable \<Rightarrow> \<not> is_segment m \<and> starts_or_continues (decode (sm_data m)) \<and> \<not> complete (decode (sm_data m))
   | NotApplicable \<Rightarrow> \<not> is_segment m \<and>
       (if starts_or_continues (decode (sm_data m)) then complete (decode (sm_data m)) else True)
   | ScreenView v \<Rightarrow> \<not> is_segment m \<and> starts_or_continues (decode (sm_data m)) \<and> complete (decode (sm_data m)) \<and>
       (\<exists>c arg. first_invoke decode (sm_data m) = Inr (Some (c, arg)) \<and> mv_operation v = from_op_code oc c \<and>
          mv_imsi_unreadable v = (subscriber_identity oc ma c arg = Inl UnreadableImsi))"
  unfolding screen_def
  by (auto simp: first_invoke_def starts_or_continues_def complete_def Let_def
           split: tcap_decoded.splits tcap_message.splits option.splits sum.splits prod.splits)

section \<open>Evaluation\<close>

text \<open>A rule that ends the evaluation of a view: it matches, or it cannot be told whether it does.\<close>

definition decides :: "content_engine \<Rightarrow> map_view \<Rightarrow> compiled_rule \<Rightarrow> bool" where
  "decides e v rule \<longleftrightarrow> matches_besides_identity e rule v \<and>
     (tests_identity rule \<and> mv_imsi_unreadable v \<or> matches_identity e rule v)"

definition verdict :: "map_view \<Rightarrow> compiled_rule \<Rightarrow> hit" where
  "verdict v rule = \<lparr>hit_rule = cc_name rule, hit_action =
     (if tests_identity rule \<and> mv_imsi_unreadable v then Unevaluable else action_of (cc_action rule))\<rparr>"

lemma evaluate_find:
  "evaluate_rules e v rules = map_option (verdict v) (find (decides e v) rules)"
  by (induction rules) (auto simp: decides_def verdict_def)

text \<open>
  Content rules are first match. The decision is that of the first rule that matches the
  view, or of which it cannot be told; there is none exactly when no rule of the table matches;
  and a rule added live is asked before all others.
\<close>

theorem content_first_match:
  "content_evaluate e v = None \<and> (\<forall>rule \<in> set (ce_rules e). \<not> decides e v rule) \<or>
   (\<exists>before rule after. ce_rules e = before @ rule # after \<and> decides e v rule \<and>
      (\<forall>earlier \<in> set before. \<not> decides e v earlier) \<and> content_evaluate e v = Some (verdict v rule))"
proof (cases "find (decides e v) (ce_rules e)")
  case None
  then show ?thesis by (simp add: content_evaluate_def evaluate_find find_None_iff)
next
  case (Some rule)
  then show ?thesis using find_first [of "decides e v" "ce_rules e" rule]
    by (simp add: content_evaluate_def evaluate_find) blast
qed

definition sample_engine :: content_engine where
  "sample_engine = content_compile \<lparr>ct_protocol = GsmMap, ct_address_tables = [],
     ct_imsi_tables = [\<lparr>it_name = ''own'', it_prefixes = [''26201'']\<rparr>],
     ct_rules = [\<lparr>cr_name = ''r'', cr_match = \<lparr>cm_operation = Some (One ''update-location''), cm_imsi_in = Some ''own'',
                   cm_imsi_prefix = None, cm_cdpa_gt_in = None, cm_cgpa_gt_in = None\<rparr>,
                 cr_action = \<lparr>ca_route = None, ca_rewrite_cdpa_gt = None, ca_screen = Some True\<rparr>\<rparr>]\<rparr>"

definition sample_view :: map_view where
  "sample_view = \<lparr>mv_operation = Some UpdateLocation, mv_cgpa_gt = None, mv_cdpa_gt = None,
     mv_imsi = Some ''2620199'', mv_msisdn = None, mv_imsi_unreadable = False\<rparr>"

lemmas engine_defs = sample_engine_def content_compile_def compiled_rule_from_def from_kebab_def
  map_filter_simps decides_def matches_besides_identity_def matches_identity_def optional_test_def
  imsi_in_table_def sample_view_def tests_identity_def

theorem content_first_match_witness:
  "\<exists>rule \<in> set (ce_rules sample_engine). content_evaluate sample_engine sample_view = Some (verdict sample_view rule)"
proof -
  have "\<exists>rule \<in> set (ce_rules sample_engine). decides sample_engine sample_view rule"
    by (simp add: engine_defs)
  then show ?thesis using content_first_match [of sample_engine sample_view] by (auto simp: in_set_conv_decomp)
qed

lemma hidden_rules:
  assumes "mv_imsi_unreadable v' \<or> mv_imsi v' = mv_imsi v" and "\<not> mv_imsi_unreadable v"
    and "mv_operation v' = mv_operation v" "mv_cdpa_gt v' = mv_cdpa_gt v" "mv_cgpa_gt v' = mv_cgpa_gt v"
  shows "evaluate_rules e v' rules = evaluate_rules e v rules \<or>
    (\<exists>rule \<in> set rules. evaluate_rules e v' rules = Some \<lparr>hit_rule = cc_name rule, hit_action = Unevaluable\<rparr>)"
proof (induction rules)
  case (Cons rule rules)
  have "matches_besides_identity e rule v' = matches_besides_identity e rule v"
    using assms by (simp add: matches_besides_identity_def)
  moreover have "matches_identity e rule v' = matches_identity e rule v"
    if "\<not> (tests_identity rule \<and> mv_imsi_unreadable v')"
  proof (cases "mv_imsi_unreadable v'")
    case True
    then have "cc_imsi_in rule = None" "cc_imsi_prefix rule = None" using that by (auto simp: tests_identity_def)
    then show ?thesis by (simp add: matches_identity_def optional_test_def)
  next
    case False
    then show ?thesis using assms(1) by (simp add: matches_identity_def)
  qed
  ultimately show ?case using Cons assms(2) by auto
qed simp

text \<open>
  Damaging the operation argument is no way past the rules. If the subscriber of a message is
  made unreadable, the decision is the one the intact message gets, or the message is unevaluable,
  which the router drops; it never becomes another route.
\<close>

theorem content_fails_closed:
  "let damaged = v\<lparr>mv_imsi := None, mv_msisdn := None, mv_imsi_unreadable := True\<rparr>;
       intact = v\<lparr>mv_imsi_unreadable := False\<rparr>
   in content_evaluate e damaged = content_evaluate e intact \<or>
      (\<exists>rule \<in> set (ce_rules e).
         content_evaluate e damaged = Some \<lparr>hit_rule = cc_name rule, hit_action = Unevaluable\<rparr>)"
  unfolding Let_def content_evaluate_def by (rule hidden_rules) simp_all

section \<open>Tables and rules changed live\<close>

text \<open>
  A table entry added live is in force at once and no other entry is touched: a global title is
  in a table after the addition exactly when it was before, or it is the one added to that table;
  adding it again changes nothing.
\<close>

theorem address_table_add_exact:
  "(gt_in_table (address_table_add table addr e) t gt \<longleftrightarrow> t = table \<and> gt = addr \<or> gt_in_table e t gt) \<and>
   address_table_add table addr (address_table_add table addr e) = address_table_add table addr e"
  by (auto simp: gt_in_table_def address_table_add_def table_add_def Let_def split: option.splits)

end
