(* ===== verification/Isup_Screen.thy ===== *)
theory Isup_Screen
  imports Content
begin

text \<open>
  Screening of transiting ISUP messages (\<^verbatim>\<open>src/src/isup.rs\<close>). The codec of the \<^verbatim>\<open>itu_isup\<close> crate is
  a parameter, an \<open>isup_codec\<close>: its 256 message types by code, their acronyms, and the decoder.
  A decoded message is modelled by what the rules read of it; the text of a decode error is a
  string.
\<close>

record 'mt isup_message =
  im_message_type :: 'mt
  im_called_number :: "string option"
  im_calling_number :: "string option"

record 'mt isup_codec =
  ic_from_u8 :: "u8 \<Rightarrow> 'mt"
  ic_is_other :: "'mt \<Rightarrow> bool"
  ic_acronym :: "'mt \<Rightarrow> string"
  ic_decode :: "bytes \<Rightarrow> string + 'mt isup_message"

text \<open>\<^verbatim>\<open>eq_ignore_ascii_case\<close>: equal after the capital letters are made small.\<close>

definition ascii_lower :: "char \<Rightarrow> char" where
  "ascii_lower c = (let n = of_char c :: nat in if 65 \<le> n \<and> n \<le> 90 then char_of (n + 32) else c)"

definition eq_ignore_ascii_case :: "string \<Rightarrow> string \<Rightarrow> bool" where
  "eq_ignore_ascii_case s t \<longleftrightarrow> map ascii_lower s = map ascii_lower t"

definition message_type_from_name :: "'mt isup_codec \<Rightarrow> string \<Rightarrow> 'mt option" where
  "message_type_from_name ic name =
     find (\<lambda>mt. \<not> ic_is_other ic mt \<and> eq_ignore_ascii_case (ic_acronym ic mt) name)
       (map (\<lambda>n. ic_from_u8 ic (word_of_nat n)) [0..<256])"

record 'mt isup_rule =
  ir_name :: string
  ir_message_type :: "'mt option"
  ir_called_prefix :: "string option"
  ir_calling_prefix :: "string option"
  ir_action :: screen_action

definition isup_rule_compile :: "'mt isup_codec \<Rightarrow> string \<Rightarrow> screen_match \<Rightarrow> screen_action \<Rightarrow> 'mt isup_rule" where
  "isup_rule_compile ic name m a =
     \<lparr>ir_name = name, ir_message_type = Option.bind (sm_message_type m) (message_type_from_name ic),
      ir_called_prefix = sm_called_prefix m, ir_calling_prefix = sm_calling_prefix m, ir_action = a\<rparr>"

definition number_matches :: "string option \<Rightarrow> string option \<Rightarrow> bool" where
  "number_matches want digits =
     (case want of
        None \<Rightarrow> True
      | Some p \<Rightarrow> (case digits of Some d \<Rightarrow> prefix p d | None \<Rightarrow> False))"

definition isup_rule_matches :: "'mt isup_rule \<Rightarrow> 'mt isup_message \<Rightarrow> bool" where
  "isup_rule_matches r m \<longleftrightarrow>
     (case ir_message_type r of None \<Rightarrow> True | Some mt \<Rightarrow> im_message_type m = mt) \<and>
     number_matches (ir_called_prefix r) (im_called_number m) \<and>
     number_matches (ir_calling_prefix r) (im_calling_number m)"

datatype screened = ScreenedPass | PassUndecoded string | BlockRule string | BlockDefault | BlockUndecoded string

datatype screen_reason = ReasonRule | ReasonDefault | ReasonDecodeError

fun screened_reason :: "screened \<Rightarrow> screen_reason option" where
  "screened_reason ScreenedPass = None"
| "screened_reason (PassUndecoded _) = None"
| "screened_reason (BlockRule _) = Some ReasonRule"
| "screened_reason BlockDefault = Some ReasonDefault"
| "screened_reason (BlockUndecoded _) = Some ReasonDecodeError"

record 'mt isup_screen =
  isc_default :: screen_action
  isc_rules :: "'mt isup_rule list"

definition isup_compile :: "'mt isup_codec \<Rightarrow> isup_screening \<Rightarrow> 'mt isup_screen" where
  "isup_compile ic cfg =
     \<lparr>isc_default = is_default cfg,
      isc_rules = map (\<lambda>r. isup_rule_compile ic (sr_name r) (sr_match r) (sr_action r)) (is_rules cfg)\<rparr>"

fun isup_evaluate_rules :: "screen_action \<Rightarrow> 'mt isup_rule list \<Rightarrow> 'mt isup_message \<Rightarrow> screened" where
  "isup_evaluate_rules d [] m = (case d of Block \<Rightarrow> BlockDefault | Allow \<Rightarrow> ScreenedPass)"
| "isup_evaluate_rules d (r # rs) m =
     (if isup_rule_matches r m then
        (case ir_action r of Block \<Rightarrow> BlockRule (ir_name r) | Allow \<Rightarrow> ScreenedPass)
      else isup_evaluate_rules d rs m)"

definition isup_evaluate :: "'mt isup_screen \<Rightarrow> 'mt isup_message \<Rightarrow> screened" where
  "isup_evaluate s m = isup_evaluate_rules (isc_default s) (isc_rules s) m"

definition isup_screen_msu :: "'mt isup_codec \<Rightarrow> 'mt isup_screen \<Rightarrow> bytes \<Rightarrow> screened" where
  "isup_screen_msu ic s payload =
     (case ic_decode ic payload of
        Inr m \<Rightarrow> isup_evaluate s m
      | Inl e \<Rightarrow> (case isc_default s of Block \<Rightarrow> BlockUndecoded e | Allow \<Rightarrow> PassUndecoded e))"

section \<open>The verdict\<close>

lemma isup_evaluate_find:
  "isup_evaluate_rules d rs m =
     (case find (\<lambda>r. isup_rule_matches r m) rs of
        Some r \<Rightarrow> (case ir_action r of Block \<Rightarrow> BlockRule (ir_name r) | Allow \<Rightarrow> ScreenedPass)
      | None \<Rightarrow> (case d of Block \<Rightarrow> BlockDefault | Allow \<Rightarrow> ScreenedPass))"
  by (induction rs) simp_all

text \<open>The specification: the action that governs a message.\<close>

definition governing_action :: "'mt isup_codec \<Rightarrow> 'mt isup_screen \<Rightarrow> bytes \<Rightarrow> screen_action" where
  "governing_action ic s payload =
     (case ic_decode ic payload of
        Inl _ \<Rightarrow> isc_default s
      | Inr m \<Rightarrow> (case filter (\<lambda>r. isup_rule_matches r m) (isc_rules s) of
                   [] \<Rightarrow> isc_default s | r # _ \<Rightarrow> ir_action r))"

text \<open>
  A transiting ISUP message is dropped exactly when the first rule that matches it blocks, or no
  rule matches (the message does not decode, or none applies) and the default is to block. A
  message that does not decode never passes a blocking default, and the verdict names the cause.
\<close>

theorem isup_verdict_exact:
  "(screened_reason (isup_screen_msu ic s payload) \<noteq> None \<longleftrightarrow> governing_action ic s payload = Block) \<and>
   (case isup_screen_msu ic s payload of
      BlockRule name \<Rightarrow> \<exists>m before r after. ic_decode ic payload = Inr m \<and> isc_rules s = before @ r # after \<and>
        ir_name r = name \<and> ir_action r = Block \<and> isup_rule_matches r m \<and>
        filter (\<lambda>r. isup_rule_matches r m) before = []
    | BlockDefault \<Rightarrow> \<exists>m. ic_decode ic payload = Inr m \<and> isc_default s = Block
    | BlockUndecoded e \<Rightarrow> ic_decode ic payload = Inl e \<and> isc_default s = Block
    | PassUndecoded e \<Rightarrow> ic_decode ic payload = Inl e \<and> isc_default s = Allow
    | ScreenedPass \<Rightarrow> \<exists>m. ic_decode ic payload = Inr m)"
proof (cases "ic_decode ic payload")
  case (Inl e)
  then show ?thesis by (cases "isc_default s") (simp_all add: isup_screen_msu_def governing_action_def)
next
  case (Inr m)
  let ?P = "\<lambda>r. isup_rule_matches r m"
  show ?thesis
  proof (cases "find ?P (isc_rules s)")
    case None
    then have "filter ?P (isc_rules s) = []" by (simp add: find_None_iff filter_empty_conv)
    then show ?thesis using None Inr
      by (cases "isc_default s") (simp_all add: isup_screen_msu_def isup_evaluate_def isup_evaluate_find governing_action_def)
  next
    case (Some r)
    then obtain before after where split: "isc_rules s = before @ r # after" "?P r" "\<forall>x \<in> set before. \<not> ?P x"
      using find_first [of ?P "isc_rules s" r] by blast
    then have nil: "filter ?P before = []" by (simp add: filter_empty_conv)
    have "isup_screen_msu ic s payload = (case ir_action r of Block \<Rightarrow> BlockRule (ir_name r) | Allow \<Rightarrow> ScreenedPass)"
      using Some Inr by (simp add: isup_screen_msu_def isup_evaluate_def isup_evaluate_find)
    moreover have "governing_action ic s payload = ir_action r"
      using split nil Inr by (simp add: governing_action_def)
    moreover have "\<exists>before r' after. isc_rules s = before @ r' # after \<and> ir_name r' = ir_name r \<and>
        ir_action r' = ir_action r \<and> ?P r' \<and> filter ?P before = []"
      using split(1,2) nil by blast
    ultimately show ?thesis using Inr by (cases "ir_action r") simp_all
  qed
qed

section \<open>Message type names\<close>

text \<open>
  A rule names a message type whatever the case of the letters: each acronym of a named type
  finds a named type with that acronym, and a name that is no acronym finds none.
\<close>

theorem message_type_named:
  "case message_type_from_name ic name of
     Some mt \<Rightarrow> (\<exists>code. mt = ic_from_u8 ic code) \<and> \<not> ic_is_other ic mt \<and>
       eq_ignore_ascii_case (ic_acronym ic mt) name
   | None \<Rightarrow> \<nexists>code. \<not> ic_is_other ic (ic_from_u8 ic code) \<and>
       eq_ignore_ascii_case (ic_acronym ic (ic_from_u8 ic code)) name"
proof (cases "message_type_from_name ic name")
  case None
  have "ic_from_u8 ic code \<in> set (map (\<lambda>n. ic_from_u8 ic (word_of_nat n)) [0..<256])" for code
    unfolding set_map
  proof (rule image_eqI)
    show "ic_from_u8 ic code = ic_from_u8 ic (word_of_nat (unat code))" by simp
    show "unat code \<in> set [0..<256]" using unsigned_less [of code] by simp
  qed
  then have "\<not> (\<not> ic_is_other ic (ic_from_u8 ic code) \<and> eq_ignore_ascii_case (ic_acronym ic (ic_from_u8 ic code)) name)" for code
    using None unfolding message_type_from_name_def find_None_iff by blast
  then show ?thesis unfolding None option.case by blast
next
  case (Some mt)
  then obtain i where "i < 256" "mt = ic_from_u8 ic (word_of_nat i)" "\<not> ic_is_other ic mt"
      "eq_ignore_ascii_case (ic_acronym ic mt) name"
    unfolding message_type_from_name_def find_Some_iff length_map length_upt by (metis diff_zero nth_map nth_upt add_0 length_upt)
  then show ?thesis using Some by auto
qed

end
