(* ===== verification/Router.thy ===== *)
theory Router
  imports Mtp3_Route Sccp_Gtt Isup_Screen
begin

text \<open>
  Routing domains and the router (\<^verbatim>\<open>src/src/tenant.rs\<close>, \<^verbatim>\<open>src/src/routing.rs\<close>): the compiled tables of
  each tenant and the decision for one inbound message. The route state and the group cursors,
  which the program changes behind a lock or an atomic, are fields of the tenant's runtime; every
  operation returns the tenancy it leaves. \<^verbatim>\<open>PointCode::from_value\<close> is the parameter \<open>from_value\<close>.
  The text of a drop is a symbolic reason; metrics are not modelled.
\<close>

section \<open>Tenants\<close>

record 'mt tenant_runtime =
  tr_id :: string
  tr_variant :: variant
  tr_point_code :: u32
  tr_network_indicator :: u8
  tr_routes :: route_resolver
  tr_route_state :: route_state
  tr_gtt :: gtt_resolver
  tr_converter :: gt_converter
  tr_content :: "content_engine option"
  tr_isup_screen :: "'mt isup_screen option"

type_synonym 'mt tenancy = "(string, 'mt tenant_runtime) btree"

definition needs_conversion_to :: "'mt tenant_runtime \<Rightarrow> 'mt tenant_runtime \<Rightarrow> bool" where
  "needs_conversion_to a b \<longleftrightarrow> tr_variant a \<noteq> tr_variant b"

record cross_tenant =
  ct_from :: string
  ct_to :: string
  ct_conversion :: bool

definition DEFAULT_TENANT :: string where "DEFAULT_TENANT = ''default''"

definition runtime_build :: "from_value \<Rightarrow> 'mt isup_codec \<Rightarrow> association list \<Rightarrow> string \<Rightarrow> tenant \<Rightarrow> 'mt tenant_runtime" where
  "runtime_build from_value ic associations tid t =
     \<lparr>tr_id = tid, tr_variant = tn_variant t,
      tr_point_code = (case resolved_point_code from_value t of Some pc \<Rightarrow> pc_value pc | None \<Rightarrow> tn_point_code t),
      tr_network_indicator = ni_bits (tn_network_indicator t),
      tr_routes = resolver_build t associations,
      tr_route_state =
        fold (\<lambda>ls. set_linkset_up (ls_name ls)) (tn_linksets t)
          (fold (\<lambda>a. set_as_up (as_name a)) (tn_application_servers t) route_state_default),
      tr_gtt = gtt_compile (tn_sccp t),
      tr_converter = converter_from (sccp_gt_conversion (tn_sccp t)),
      tr_content = map_option content_compile (tn_content_routing t),
      tr_isup_screen = map_option (isup_compile ic) (tn_isup_screening t)\<rparr>"

definition tenancy_build :: "from_value \<Rightarrow> 'mt isup_codec \<Rightarrow> config \<Rightarrow> 'mt tenancy" where
  "tenancy_build from_value ic cfg =
     fold (\<lambda>(tid, t). bt_insert tid (runtime_build from_value ic (cfg_associations cfg) tid t)) (cfg_tenants cfg) []"

definition cross_tenant_of :: "string \<Rightarrow> string \<Rightarrow> 'mt tenancy \<Rightarrow> cross_tenant option" where
  "cross_tenant_of from to ten =
     (case bt_get from ten of
        None \<Rightarrow> None
      | Some a \<Rightarrow>
          (case bt_get to ten of
             None \<Rightarrow> None
           | Some b \<Rightarrow> Some \<lparr>ct_from = from, ct_to = to, ct_conversion = needs_conversion_to a b\<rparr>))"

section \<open>Live availability\<close>

definition update_state :: "string \<Rightarrow> (route_state \<Rightarrow> route_state) \<Rightarrow> 'mt tenancy \<Rightarrow> 'mt tenancy" where
  "update_state tenant f ten =
     (case bt_get tenant ten of
        None \<Rightarrow> ten
      | Some rt \<Rightarrow> bt_insert tenant (rt\<lparr>tr_route_state := f (tr_route_state rt)\<rparr>) ten)"

definition note_as_up :: "string \<Rightarrow> string \<Rightarrow> 'mt tenancy \<Rightarrow> 'mt tenancy" where
  "note_as_up tenant name = update_state tenant (set_as_up name)"

definition note_as_down :: "string \<Rightarrow> string \<Rightarrow> 'mt tenancy \<Rightarrow> 'mt tenancy" where
  "note_as_down tenant name = update_state tenant (set_as_down name)"

definition note_linkset_up :: "string \<Rightarrow> string \<Rightarrow> 'mt tenancy \<Rightarrow> 'mt tenancy" where
  "note_linkset_up tenant name = update_state tenant (set_linkset_up name)"

definition note_linkset_down :: "string \<Rightarrow> string \<Rightarrow> 'mt tenancy \<Rightarrow> 'mt tenancy" where
  "note_linkset_down tenant name = update_state tenant (set_linkset_down name)"

definition apply_mtp3_event :: "string \<Rightarrow> mtp3_event \<Rightarrow> 'mt tenancy \<Rightarrow> 'mt tenancy" where
  "apply_mtp3_event tenant event = update_state tenant (apply_event event)"

definition reset_availability_down :: "string \<Rightarrow> 'mt tenancy \<Rightarrow> 'mt tenancy" where
  "reset_availability_down tenant = update_state tenant set_all_down"

definition note_route_status :: "string \<Rightarrow> u32 \<Rightarrow> destination \<Rightarrow> route_status \<Rightarrow> 'mt tenancy \<Rightarrow> 'mt tenancy" where
  "note_route_status tenant dpc via status = update_state tenant (set_route_status dpc via status)"

definition node_point_code :: "string \<Rightarrow> 'mt tenancy \<Rightarrow> u32 option" where
  "node_point_code tenant ten = map_option tr_point_code (bt_get tenant ten)"

definition node_network_indicator :: "string \<Rightarrow> 'mt tenancy \<Rightarrow> u8" where
  "node_network_indicator tenant ten =
     (case bt_get tenant ten of Some rt \<Rightarrow> tr_network_indicator rt | None \<Rightarrow> 0)"

definition router_isup_screen :: "string \<Rightarrow> 'mt tenancy \<Rightarrow> 'mt isup_screen option" where
  "router_isup_screen tenant ten = Option.bind (bt_get tenant ten) tr_isup_screen"

definition tenant_has_content_rules :: "string \<Rightarrow> 'mt tenancy \<Rightarrow> bool" where
  "tenant_has_content_rules tenant ten =
     (case Option.bind (bt_get tenant ten) tr_content of Some c \<Rightarrow> has_rules c | None \<Rightarrow> False)"

definition resolve_destination :: "from_value \<Rightarrow> 'mt tenant_runtime \<Rightarrow> u32 \<Rightarrow> u8 \<Rightarrow> destination option" where
  "resolve_destination from_value rt dpc sls =
     (case from_value dpc (tr_variant rt) of
        None \<Rightarrow> None
      | Some pc \<Rightarrow> resolve_for (tr_routes rt) pc sls (tr_route_state rt))"

definition is_reachable :: "from_value \<Rightarrow> string \<Rightarrow> u32 \<Rightarrow> 'mt tenancy \<Rightarrow> bool" where
  "is_reachable from_value tenant dpc ten =
     (case bt_get tenant ten of Some rt \<Rightarrow> resolve_destination from_value rt dpc 0 \<noteq> None | None \<Rightarrow> False)"

definition is_restricted :: "from_value \<Rightarrow> string \<Rightarrow> u32 \<Rightarrow> 'mt tenancy \<Rightarrow> bool" where
  "is_restricted from_value tenant dpc ten =
     (case bt_get tenant ten of
        None \<Rightarrow> False
      | Some rt \<Rightarrow>
          (case from_value dpc (tr_variant rt) of
             None \<Rightarrow> False
           | Some pc \<Rightarrow>
               (case resolve_avoiding (tr_routes rt) pc 0 (tr_route_state rt) None of
                  None \<Rightarrow> False
                | Some via \<Rightarrow> route_status_of (tr_route_state rt) dpc via = Restricted)))"

definition egress_for :: "from_value \<Rightarrow> string \<Rightarrow> u32 \<Rightarrow> u8 \<Rightarrow> destination option \<Rightarrow> 'mt tenancy \<Rightarrow> destination option" where
  "egress_for from_value tenant dpc sls avoid ten =
     (case bt_get tenant ten of
        None \<Rightarrow> None
      | Some rt \<Rightarrow>
          (case from_value dpc (tr_variant rt) of
             None \<Rightarrow> None
           | Some pc \<Rightarrow> resolve_avoiding (tr_routes rt) pc sls (tr_route_state rt) avoid))"

section \<open>The decision\<close>

datatype drop_reason = UnknownTenant string | NoMtp3Route u32 | ContentUndecodable | ScreenedByRule
  | RuleUnevaluable | NoTranslation | NoGtNoSsn

datatype route_decision =
    RdRoute destination
  | RdRouteTo u32 u8 "destination option" "string option"
  | RdLocal
  | RdCrossTenant string u32 u8 bool
  | RdDrop drop_reason

record inbound =
  in_dpc :: u32
  in_cdpa :: "gtt_selector option"
  in_called_ssn :: "u8 option"
  in_view :: "map_view option"
  in_content_undecodable :: bool

definition pre_convert :: "'mt tenant_runtime \<Rightarrow> gtt_selector \<Rightarrow> gtt_selector" where
  "pre_convert rt sel =
     (if sel_np sel = Some 3 then
        (case e214_to_e164 (tr_converter rt) (sel_digits sel) of
           Some e164 \<Rightarrow> sel\<lparr>sel_digits := e164, sel_np := Some 1\<rparr>
         | None \<Rightarrow> sel)
      else sel)"

fun decision_from_gtt :: "from_value \<Rightarrow> 'mt tenancy \<Rightarrow> 'mt tenant_runtime \<Rightarrow> gtt_result \<Rightarrow> u8 \<Rightarrow> route_decision" where
  "decision_from_gtt from_value ten rt GttLocal sls = RdLocal"
| "decision_from_gtt from_value ten rt (GttDpc dpc ssn) sls =
     RdRouteTo dpc ssn (resolve_destination from_value rt dpc sls) None"
| "decision_from_gtt from_value ten rt (GttTenant tenant dpc ssn) sls =
     RdCrossTenant tenant dpc ssn
       (case cross_tenant_of (tr_id rt) tenant ten of Some x \<Rightarrow> ct_conversion x | None \<Rightarrow> False)"

text \<open>\<open>stamp\<close> is the rewrite put on a concrete relay at the end of \<^verbatim>\<open>decision_from_action\<close>.\<close>

fun stamp :: "string option \<Rightarrow> route_decision \<Rightarrow> route_decision" where
  "stamp (Some gt) (RdRouteTo dpc ssn via slot) = RdRouteTo dpc ssn via (Some gt)"
| "stamp _ d = d"

fun decision_from_action ::
  "from_value \<Rightarrow> 'mt tenancy \<Rightarrow> 'mt tenant_runtime \<Rightarrow> content_decision \<Rightarrow> u8 \<Rightarrow> 'mt tenant_runtime \<times> route_decision option" where
  "decision_from_action from_value ten rt ContentScreen sls = (rt, Some (RdDrop ScreenedByRule))"
| "decision_from_action from_value ten rt Unevaluable sls = (rt, Some (RdDrop RuleUnevaluable))"
| "decision_from_action from_value ten rt (ContentRoute target rewrite) sls =
     (case resolve_target target (tr_gtt rt) of
        (g, None) \<Rightarrow> (rt\<lparr>tr_gtt := g\<rparr>, None)
      | (g, Some result) \<Rightarrow>
          (rt\<lparr>tr_gtt := g\<rparr>, Some (stamp rewrite (decision_from_gtt from_value ten rt result sls))))"

definition owned :: "'mt tenant_runtime \<Rightarrow> inbound \<Rightarrow> bool" where
  "owned rt m = (case in_called_ssn m of Some ssn \<Rightarrow> owns_ssn (tr_gtt rt) ssn | None \<Rightarrow> False)"

definition content_decision_for ::
  "from_value \<Rightarrow> 'mt tenancy \<Rightarrow> 'mt tenant_runtime \<Rightarrow> inbound \<Rightarrow> u8 \<Rightarrow> 'mt tenant_runtime \<times> route_decision option" where
  "content_decision_for from_value ten rt m sls =
     (case (tr_content rt, in_view m) of
        (Some engine, Some view) \<Rightarrow>
          (case content_evaluate engine view of
             Some hit \<Rightarrow> decision_from_action from_value ten rt (hit_action hit) sls
           | None \<Rightarrow> (rt, None))
      | _ \<Rightarrow> (rt, None))"

definition gtt_decision_for ::
  "from_value \<Rightarrow> 'mt tenancy \<Rightarrow> 'mt tenant_runtime \<Rightarrow> inbound \<Rightarrow> u8 \<Rightarrow> 'mt tenant_runtime \<times> route_decision" where
  "gtt_decision_for from_value ten rt m sls =
     (case in_cdpa m of
        Some sel \<Rightarrow>
          (case translate (pre_convert rt sel) (tr_gtt rt) of
             (g, Some result) \<Rightarrow> (rt\<lparr>tr_gtt := g\<rparr>, decision_from_gtt from_value ten rt result sls)
           | (g, None) \<Rightarrow> (rt\<lparr>tr_gtt := g\<rparr>, RdDrop NoTranslation))
      | None \<Rightarrow> (rt, if owned rt m then RdLocal else RdDrop NoGtNoSsn))"

definition decide ::
  "from_value \<Rightarrow> 'mt tenancy \<Rightarrow> 'mt tenant_runtime \<Rightarrow> inbound \<Rightarrow> u8 \<Rightarrow> 'mt tenant_runtime \<times> route_decision" where
  "decide from_value ten rt m sls =
     (if in_dpc m \<noteq> tr_point_code rt then
        (rt, case resolve_destination from_value rt (in_dpc m) sls of
               Some via \<Rightarrow> RdRoute via | None \<Rightarrow> RdDrop (NoMtp3Route (in_dpc m)))
      else if owned rt m \<and> in_cdpa m = None then (rt, RdLocal)
      else if in_content_undecodable m \<and> (case tr_content rt of Some c \<Rightarrow> has_rules c | None \<Rightarrow> False) then
        (rt, RdDrop ContentUndecodable)
      else
        (case content_decision_for from_value ten rt m sls of
           (rt', Some d) \<Rightarrow> (rt', d)
         | (rt', None) \<Rightarrow> gtt_decision_for from_value ten rt' m sls))"

definition route_for :: "from_value \<Rightarrow> string \<Rightarrow> inbound \<Rightarrow> u8 \<Rightarrow> 'mt tenancy \<Rightarrow> 'mt tenancy \<times> route_decision" where
  "route_for from_value tenant m sls ten =
     (case bt_get tenant ten of
        None \<Rightarrow> (ten, RdDrop (UnknownTenant tenant))
      | Some rt \<Rightarrow> (case decide from_value ten rt m sls of (rt', d) \<Rightarrow> (bt_insert tenant rt' ten, d)))"

definition route_in :: "from_value \<Rightarrow> string \<Rightarrow> inbound \<Rightarrow> 'mt tenancy \<Rightarrow> 'mt tenancy \<times> route_decision" where
  "route_in from_value tenant m ten = route_for from_value tenant m 0 ten"

definition route :: "from_value \<Rightarrow> inbound \<Rightarrow> 'mt tenancy \<Rightarrow> 'mt tenancy \<times> route_decision" where
  "route from_value m ten = route_in from_value DEFAULT_TENANT m ten"

section \<open>What routing keeps\<close>

text \<open>Routing changes nothing of a tenant but the cursors of its groups.\<close>

definition same_but_cursors :: "'mt tenant_runtime \<Rightarrow> 'mt tenant_runtime \<Rightarrow> bool" where
  "same_but_cursors rt rt' \<longleftrightarrow> (\<exists>g. rt' = rt\<lparr>tr_gtt := g\<rparr> \<and> gr_rules g = gr_rules (tr_gtt rt) \<and>
     gr_local_ssns g = gr_local_ssns (tr_gtt rt))"

lemma same_but_cursors_refl: "same_but_cursors rt rt"
  unfolding same_but_cursors_def by (rule exI [of _ "tr_gtt rt"]) simp

lemma same_but_cursors_trans: "same_but_cursors a b \<Longrightarrow> same_but_cursors b c \<Longrightarrow> same_but_cursors a c"
  by (auto simp: same_but_cursors_def)

definition same_rules :: "gtt_resolver \<Rightarrow> gtt_resolver \<Rightarrow> bool" where
  "same_rules r r' \<longleftrightarrow> gr_rules r' = gr_rules r \<and> gr_local_ssns r' = gr_local_ssns r"

lemma same_rules_keeps: "same_rules (tr_gtt rt) g \<Longrightarrow> same_but_cursors rt (rt\<lparr>tr_gtt := g\<rparr>)"
  by (auto simp: same_rules_def same_but_cursors_def)

lemma select_group_keeps: "select_group grp r = (r', picked) \<Longrightarrow> same_rules r r'"
  by (auto simp: select_group_def same_rules_def split: option.splits prod.splits)

lemma result_of_keeps: "result_of target r = (r', res) \<Longrightarrow> same_rules r r'"
  by (auto simp: result_of_def Let_def same_rules_def split: option.splits prod.splits if_splits
           dest!: select_group_keeps)

lemma translate_keeps: "translate sel r = (r', res) \<Longrightarrow> same_rules r r'"
  by (auto simp: translate_def translate_find same_rules_def split: option.splits dest!: result_of_keeps)

lemma decision_from_action_keeps:
  "decision_from_action fv ten rt a sls = (rt', d) \<Longrightarrow> same_but_cursors rt rt'"
  by (cases a) (auto simp: resolve_target_def same_but_cursors_refl
      split: prod.splits option.splits intro: same_rules_keeps dest!: result_of_keeps)

lemma content_decision_keeps:
  "content_decision_for fv ten rt m sls = (rt', d) \<Longrightarrow> same_but_cursors rt rt'"
  by (auto simp: content_decision_for_def same_but_cursors_refl split: option.splits
      dest!: decision_from_action_keeps)

lemma gtt_decision_keeps:
  "gtt_decision_for fv ten rt m sls = (rt', d) \<Longrightarrow> same_but_cursors rt rt'"
  by (auto simp: gtt_decision_for_def same_but_cursors_refl split: option.splits prod.splits
      intro: same_rules_keeps dest!: translate_keeps)

lemma decide_keeps: "decide fv ten rt m sls = (rt', d) \<Longrightarrow> same_but_cursors rt rt'"
  unfolding decide_def
  by (auto simp: same_but_cursors_refl split: if_split_asm prod.split_asm option.split_asm
      dest!: content_decision_keeps gtt_decision_keeps intro: same_but_cursors_trans)

section \<open>Reachable tenancies\<close>

inductive router_step :: "from_value \<Rightarrow> string \<Rightarrow> 'mt tenancy \<Rightarrow> 'mt tenancy \<Rightarrow> bool" for from_value tenant where
  as_up: "router_step from_value tenant ten (note_as_up tenant name ten)"
| as_down: "router_step from_value tenant ten (note_as_down tenant name ten)"
| linkset_up: "router_step from_value tenant ten (note_linkset_up tenant name ten)"
| linkset_down: "router_step from_value tenant ten (note_linkset_down tenant name ten)"
| event: "router_step from_value tenant ten (apply_mtp3_event tenant ev ten)"
| reset: "router_step from_value tenant ten (reset_availability_down tenant ten)"
| status: "router_step from_value tenant ten (note_route_status tenant dpc via st ten)"
| message: "router_step from_value tenant ten (fst (route_for from_value tenant m sls ten))"

inductive router_reachable :: "from_value \<Rightarrow> 'mt isup_codec \<Rightarrow> config \<Rightarrow> 'mt tenancy \<Rightarrow> bool" for from_value ic cfg where
  built: "router_reachable from_value ic cfg (tenancy_build from_value ic cfg)"
| stepped: "router_reachable from_value ic cfg ten \<Longrightarrow> router_step from_value tenant ten ten' \<Longrightarrow>
    router_reachable from_value ic cfg ten'"

text \<open>What of a tenant is fixed when it is compiled.\<close>

definition same_tables :: "'mt tenant_runtime \<Rightarrow> 'mt tenant_runtime \<Rightarrow> bool" where
  "same_tables a b \<longleftrightarrow> tr_id b = tr_id a \<and> tr_variant b = tr_variant a \<and> tr_point_code b = tr_point_code a \<and>
     tr_routes b = tr_routes a \<and> tr_converter b = tr_converter a \<and> tr_content b = tr_content a \<and>
     tr_isup_screen b = tr_isup_screen a \<and> gr_rules (tr_gtt b) = gr_rules (tr_gtt a) \<and>
     gr_local_ssns (tr_gtt b) = gr_local_ssns (tr_gtt a)"

lemma same_but_cursors_tables: "same_but_cursors a b \<Longrightarrow> same_tables a b"
  by (auto simp: same_but_cursors_def same_tables_def)

lemma same_tables_refl: "same_tables a a"
  by (simp add: same_tables_def)

definition only_tenant :: "string \<Rightarrow> 'mt tenancy \<Rightarrow> 'mt tenancy \<Rightarrow> bool" where
  "only_tenant tenant ten ten' \<longleftrightarrow>
     (\<forall>t. t \<noteq> tenant \<longrightarrow> bt_get t ten' = bt_get t ten) \<and> rel_option same_tables (bt_get tenant ten) (bt_get tenant ten')"

lemma only_tenant_insert:
  "bt_get tenant ten = Some rt \<Longrightarrow> same_tables rt rt' \<Longrightarrow> only_tenant tenant ten (bt_insert tenant rt' ten)"
  by (simp add: only_tenant_def)

lemma only_tenant_refl: "only_tenant tenant ten ten"
  by (simp add: only_tenant_def option.rel_refl same_tables_refl)

lemma update_state_only: "only_tenant tenant ten (update_state tenant f ten)"
  unfolding update_state_def
  by (auto split: option.split simp: same_tables_def intro: only_tenant_insert only_tenant_refl)

lemma route_for_only: "only_tenant tenant ten (fst (route_for fv tenant m sls ten))"
  unfolding route_for_def
  by (auto split: option.split prod.split intro: only_tenant_insert only_tenant_refl same_but_cursors_tables decide_keeps)

lemma router_step_only: "router_step fv tenant ten ten' \<Longrightarrow> only_tenant tenant ten ten'"
  by (induction rule: router_step.induct)
     (simp_all add: note_as_up_def note_as_down_def note_linkset_up_def note_linkset_down_def apply_mtp3_event_def
        reset_availability_down_def note_route_status_def update_state_only route_for_only)

definition tenancy_ok :: "'mt tenancy \<Rightarrow> bool" where
  "tenancy_ok ten \<longleftrightarrow> (\<forall>t rt. bt_get t ten = Some rt \<longrightarrow> tr_id rt = t \<and> resolver_ok (tr_routes rt))"

lemma tenancy_build_get:
  "bt_get t (tenancy_build fv ic cfg) =
     map_option (runtime_build fv ic (cfg_associations cfg) t) (map_of (rev (cfg_tenants cfg)) t)"
proof -
  let ?rt = "runtime_build fv ic (cfg_associations cfg)"
  have "bt_get t (fold (\<lambda>(tid, t). bt_insert tid (?rt tid t)) ts m) =
      (case map_of (rev ts) t of Some x \<Rightarrow> Some (?rt t x) | None \<Rightarrow> bt_get t m)" for ts m
    by (induction ts arbitrary: m) (auto simp: map_add_def split: option.splits)
  then show ?thesis by (simp add: tenancy_build_def split: option.splits)
qed

lemma only_tenant_ok: "only_tenant tenant ten ten' \<Longrightarrow> tenancy_ok ten \<Longrightarrow> tenancy_ok ten'"
  unfolding tenancy_ok_def
proof (intro allI impI)
  fix t rt'
  assume only: "only_tenant tenant ten ten'" and get: "bt_get t ten' = Some rt'"
    and ok: "\<forall>t rt. bt_get t ten = Some rt \<longrightarrow> tr_id rt = t \<and> resolver_ok (tr_routes rt)"
  have "\<exists>rt. bt_get t ten = Some rt \<and> same_tables rt rt'"
  proof (cases "t = tenant")
    case True
    then have "rel_option same_tables (bt_get t ten) (Some rt')" using only get by (simp add: only_tenant_def)
    then show ?thesis by (cases "bt_get t ten") auto
  next
    case False
    then show ?thesis using only get by (simp add: only_tenant_def same_tables_refl)
  qed
  then show "tr_id rt' = t \<and> resolver_ok (tr_routes rt')" using ok by (auto simp: same_tables_def)
qed

lemma router_reachable_ok: "router_reachable fv ic cfg ten \<Longrightarrow> tenancy_ok ten"
proof (induction rule: router_reachable.induct)
  case built
  show ?case by (auto simp: tenancy_ok_def tenancy_build_get runtime_build_def resolver_build_ok)
next
  case (stepped ten tenant ten')
  then show ?case using only_tenant_ok router_step_only by blast
qed


text \<open>An actual domain to try the properties on.\<close>

definition sample_point_code :: from_value where
  "sample_point_code v var = (if v < 16384 then Some \<lparr>pc_value = v, pc_variant = var\<rparr> else None)"

definition sample_runtime :: "nat tenant_runtime" where
  "sample_runtime = \<lparr>tr_id = ''default'', tr_variant = Itu, tr_point_code = 1, tr_network_indicator = 0,
     tr_routes = \<lparr>rr_variant = Itu, rr_routes = [(2, [\<lparr>cand_dest = Linkset ''a'', cand_priority = 1\<rparr>])]\<rparr>,
     tr_route_state = with_linksets_up [''a''],
     tr_gtt = \<lparr>gr_rules = [], gr_groups = [], gr_local_ssns = [6]\<rparr>,
     tr_converter = \<lparr>gv_e214_to_e164 = [], gv_e164_to_e214 = []\<rparr>, tr_content = None, tr_isup_screen = None\<rparr>"

definition sample_inbound :: inbound where
  "sample_inbound = \<lparr>in_dpc = 2, in_cdpa = None, in_called_ssn = None, in_view = None, in_content_undecodable = False\<rparr>"


section \<open>Only destinations in service are used\<close>

definition live_egress :: "from_value \<Rightarrow> 'mt tenant_runtime \<Rightarrow> u32 \<Rightarrow> destination \<Rightarrow> bool" where
  "live_egress fv rt dpc via \<longleftrightarrow>
     (\<exists>pc. fv dpc (tr_variant rt) = Some pc \<and> \<not> is_prohibited (tr_route_state rt) pc \<and>
        route_eligible (tr_route_state rt) (pc_value pc) None via)"

lemma resolve_destination_live:
  "resolver_ok (tr_routes rt) \<Longrightarrow> resolve_destination fv rt dpc sls = Some via \<Longrightarrow> live_egress fv rt dpc via"
  using resolve_avoiding_eligible
  by (auto simp: resolve_destination_def live_egress_def resolve_for_def split: option.splits)

lemma live_egress_cursors: "same_but_cursors rt rt' \<Longrightarrow> live_egress fv rt' = live_egress fv rt"
  by (auto simp: live_egress_def same_but_cursors_def fun_eq_iff)

definition relays_live :: "from_value \<Rightarrow> 'mt tenant_runtime \<Rightarrow> inbound \<Rightarrow> route_decision \<Rightarrow> bool" where
  "relays_live fv rt m d =
     (case d of
        RdRoute via \<Rightarrow> in_dpc m \<noteq> tr_point_code rt \<and> live_egress fv rt (in_dpc m) via
      | RdRouteTo dpc ssn (Some via) rewrite \<Rightarrow> in_dpc m = tr_point_code rt \<and> live_egress fv rt dpc via
      | RdLocal \<Rightarrow> in_dpc m = tr_point_code rt
      | _ \<Rightarrow> True)"

lemma relays_live_gtt:
  "resolver_ok (tr_routes rt) \<Longrightarrow> in_dpc m = tr_point_code rt \<Longrightarrow>
   relays_live fv rt m (decision_from_gtt fv ten rt res sls)"
  by (cases res) (auto simp: relays_live_def split: option.split dest: resolve_destination_live)

lemma relays_live_stamp: "relays_live fv rt m (stamp rw d) = relays_live fv rt m d"
  by (induction rw d rule: stamp.induct) (auto simp: relays_live_def split: option.split)

lemma relays_live_content:
  assumes "resolver_ok (tr_routes rt)" and "in_dpc m = tr_point_code rt"
    and "content_decision_for fv ten rt m sls = (rt', Some d)"
  shows "relays_live fv rt m d"
proof -
  have "decision_from_action fv ten rt a sls = (rt', Some d) \<Longrightarrow> relays_live fv rt m d" for a
    using relays_live_gtt [OF assms(1,2)]
    by (cases a) (auto simp: relays_live_stamp split: prod.splits option.splits, auto simp: relays_live_def)
  then show ?thesis using assms(3) by (auto simp: content_decision_for_def split: option.splits)
qed

lemma relays_live_decide:
  assumes "resolver_ok (tr_routes rt)" and "decide fv ten rt m sls = (rt', d)"
  shows "relays_live fv rt m d"
proof (cases "in_dpc m = tr_point_code rt")
  case False
  then have "d = (case resolve_destination fv rt (in_dpc m) sls of
      Some via \<Rightarrow> RdRoute via | None \<Rightarrow> RdDrop (NoMtp3Route (in_dpc m)))"
    using assms(2) by (auto simp: decide_def)
  then show ?thesis using resolve_destination_live [OF assms(1)] False
    by (auto simp: relays_live_def split: option.splits)
next
  case own: True
  have gtt: "relays_live fv rt m d'" if "gtt_decision_for fv ten rt1 m sls = (rt2, d')" "same_but_cursors rt rt1" for rt1 rt2 d'
  proof -
    have same: "resolver_ok (tr_routes rt1)" "in_dpc m = tr_point_code rt1" "live_egress fv rt1 = live_egress fv rt"
      "tr_point_code rt1 = tr_point_code rt"
      using that(2) assms(1) own live_egress_cursors by (auto simp: same_but_cursors_def)
    have drop: "relays_live fv rt1 m (RdDrop r)" "relays_live fv rt1 m RdLocal" for r
      using same(2) by (simp_all add: relays_live_def)
    have "relays_live fv rt1 m d'"
      using that(1) relays_live_gtt [OF same(1,2)] drop
      by (auto simp: gtt_decision_for_def split: option.splits prod.splits if_split_asm)
    then show ?thesis unfolding relays_live_def same(3,4) .
  qed
  show ?thesis
  proof (cases "content_decision_for fv ten rt m sls")
    case (Pair rt1 od)
    note keep = content_decision_keeps [OF Pair]
    show ?thesis
    proof (cases od)
      case None
      then show ?thesis using assms(2) own Pair gtt [OF _ keep]
        by (auto simp: decide_def relays_live_def split: if_split_asm)
    next
      case (Some d1)
      then show ?thesis using assms(2) own Pair relays_live_content [OF assms(1) own]
        by (auto simp: decide_def relays_live_def split: if_split_asm)
    qed
  qed
qed

text \<open>
  C35: in every state the router can reach, a message is handed only to an egress in service on a
  route not prohibited: transit for a foreign point code, after translation or a content rule for
  our own; it is kept only when it is addressed to us.
\<close>

theorem route_relays_live:
  assumes "router_reachable fv ic cfg ten" and "bt_get tenant ten = Some rt"
  shows "relays_live fv rt m (snd (route_for fv tenant m sls ten))"
proof -
  have "resolver_ok (tr_routes rt)" using router_reachable_ok [OF assms(1)] assms(2) by (auto simp: tenancy_ok_def)
  then show ?thesis using assms(2) relays_live_decide by (auto simp: route_for_def split: prod.split)
qed

definition sample_domain :: "variant \<Rightarrow> gtt_rule list \<Rightarrow> tenant" where
  "sample_domain v rules = \<lparr>tn_point_code = 1, tn_variant = v, tn_network_indicator = National,
     tn_application_servers = [\<lparr>as_name = ''as'', as_traffic_mode = Loadshare, as_routing_context = 1, as_asps = [''p''],
        as_recovery_ms = 2000, as_pending_queue = 8, as_required_asps = 1\<rparr>], tn_linksets = [],
     tn_mtp3_routes = [\<lparr>rt_dpc = 2, rt_as = Some ''as'', rt_linkset = None, rt_priority = 1\<rparr>], tn_mtp3 = mtp3_default,
     tn_sccp = \<lparr>sccp_local_ssns = [6], sccp_gtt_groups = [], sccp_gtt = rules, sccp_gt_conversion = \<lparr>gc_plmn_map = []\<rparr>\<rparr>,
     tn_content_routing = None, tn_isup_screening = None\<rparr>"

definition sample_config :: config where
  "sample_config = \<lparr>cfg_associations = [],
     cfg_tenants = [(''b'', sample_domain Ansi []),
       (''default'', sample_domain Itu
          [\<lparr>rule_match = \<lparr>gt_prefix = Some ''49'', match_gti = None, match_tt = None, match_np = None, match_nai = None\<rparr>,
            rule_to = route_target_default\<lparr>target_tenant := Some ''b'', target_dpc := Some 5, target_ssn := Some 8\<rparr>\<rparr>])]\<rparr>"

definition sample_codec :: "nat isup_codec" where
  "sample_codec = \<lparr>ic_from_u8 = unat, ic_is_other = (\<lambda>n. n \<noteq> 1), ic_acronym = (\<lambda>_. ''IAM''),
     ic_decode = (\<lambda>_. Inl ''short'')\<rparr>"

definition sample_tenancy :: "nat tenancy" where
  "sample_tenancy = tenancy_build sample_point_code sample_codec sample_config"

lemma sample_tenancy_get:
  "bt_get t sample_tenancy = map_option (runtime_build sample_point_code sample_codec [] t)
     (map_of (rev (cfg_tenants sample_config)) t)"
  by (simp add: sample_tenancy_def tenancy_build_get) (simp add: sample_config_def)

lemma sample_reachable: "router_reachable sample_point_code sample_codec sample_config sample_tenancy"
  unfolding sample_tenancy_def by (rule router_reachable.built)

theorem route_relays_live_witness:
  "\<exists>rt. bt_get ''default'' sample_tenancy = Some rt \<and>
     relays_live sample_point_code rt sample_inbound
       (snd (route_for sample_point_code ''default'' sample_inbound 0 sample_tenancy))"
proof -
  obtain rt where rt: "bt_get ''default'' sample_tenancy = Some rt"
    by (simp add: sample_tenancy_get sample_config_def)
  from route_relays_live [OF sample_reachable rt] show ?thesis using rt by blast
qed

section \<open>Content rules bind\<close>

definition damage :: "map_view \<Rightarrow> map_view" where
  "damage v = v\<lparr>mv_imsi := None, mv_msisdn := None, mv_imsi_unreadable := True\<rparr>"

lemma content_damage:
  assumes "\<not> mv_imsi_unreadable v"
  shows "content_evaluate e (damage v) = content_evaluate e v \<or>
    (\<exists>name. content_evaluate e (damage v) = Some \<lparr>hit_rule = name, hit_action = Unevaluable\<rparr>)"
  using hidden_rules [of "damage v" v e "ce_rules e"] assms unfolding content_evaluate_def damage_def by auto



section \<open>Hand-off between domains\<close>

text \<open>
  A hand-off to another domain announces conversion exactly when the two domains have different
  variants, and names the domain the rule names.
\<close>

theorem cross_tenant_conversion:
  assumes "router_reachable fv ic cfg ten" and "bt_get tenant ten = Some rt"
    and "snd (route_for fv tenant m sls ten) = RdCrossTenant other dpc ssn conversion"
  shows "conversion \<longleftrightarrow> (\<exists>rt'. bt_get other ten = Some rt' \<and> tr_variant rt' \<noteq> tr_variant rt)"
proof -
  have tid: "tr_id rt = tenant" using router_reachable_ok [OF assms(1)] assms(2) by (auto simp: tenancy_ok_def)
  define good where "good d \<longleftrightarrow> (\<forall>other dpc ssn conversion. d = RdCrossTenant other dpc ssn conversion \<longrightarrow>
      conversion = (\<exists>rt'. bt_get other ten = Some rt' \<and> tr_variant rt' \<noteq> tr_variant rt))" for d
  have gtt: "good (decision_from_gtt fv ten rt1 res sls)" if "same_but_cursors rt rt1" for rt1 res
    using that tid assms(2)
    by (cases res) (auto simp: good_def cross_tenant_of_def needs_conversion_to_def same_but_cursors_def split: option.splits)
  have stamp: "good (stamp rw d) = good d" for rw d
    by (induction rw d rule: stamp.induct) (auto simp: good_def)
  have act: "good d" if "decision_from_action fv ten rt a sls = (rt1, Some d)" for a rt1 d
    using that gtt [OF same_but_cursors_refl]
    by (cases a) (auto simp: stamp split: prod.splits option.splits, auto simp: good_def)
  have content: "good d" if "content_decision_for fv ten rt m sls = (rt1, Some d)" for rt1 d
    using that act by (auto simp: content_decision_for_def split: option.splits)
  have gttd: "good (snd (gtt_decision_for fv ten rt1 m sls))" if "same_but_cursors rt rt1" for rt1
    using gtt [OF that] by (auto simp: gtt_decision_for_def good_def split: option.splits prod.splits)
  obtain rt1 od where c: "content_decision_for fv ten rt m sls = (rt1, od)" by force
  have "good (snd (decide fv ten rt m sls))"
    using content [of rt1] gttd [OF content_decision_keeps [OF c]] c
    unfolding decide_def by (cases od) (auto simp: good_def split: option.splits)
  then have "good (snd (route_for fv tenant m sls ten))" using assms(2) by (simp add: route_for_def case_prod_beta)
  then show ?thesis using assms(3) by (auto simp: good_def)
qed

theorem cross_tenant_conversion_witness:
  "snd (route_for sample_point_code ''default'' \<lparr>in_dpc = 1, in_cdpa = Some (selector_from_digits ''4917''),
     in_called_ssn = None, in_view = None, in_content_undecodable = False\<rparr> 0 sample_tenancy) = RdCrossTenant ''b'' 5 8 True"
proof -
  let ?m = "\<lparr>in_dpc = 1, in_cdpa = Some (selector_from_digits ''4917''),
     in_called_ssn = None, in_view = None, in_content_undecodable = False\<rparr>"
  let ?d = "snd (route_for sample_point_code ''default'' ?m 0 sample_tenancy)"
  obtain rt where rt: "bt_get ''default'' sample_tenancy = Some rt" and v: "tr_variant rt = Itu"
    by (simp add: sample_tenancy_get sample_config_def runtime_build_def sample_domain_def)
  obtain c where c: "?d = RdCrossTenant ''b'' 5 8 c"
    by (simp add: route_for_def sample_tenancy_get sample_config_def runtime_build_def sample_domain_def decide_def
        resolved_point_code_def sample_point_code_def content_decision_for_def gtt_decision_for_def owned_def
        selector_from_digits_def pre_convert_def translate_def gtt_compile_def rule_matches_def field_matches_def
        Let_def result_of_def route_target_default_def)
  have "\<exists>rt'. bt_get ''b'' sample_tenancy = Some rt' \<and> tr_variant rt' \<noteq> tr_variant rt"
    by (simp add: sample_tenancy_get sample_config_def runtime_build_def sample_domain_def v)
  then have c_True: c using cross_tenant_conversion [OF sample_reachable rt c] by blast
  show ?thesis using c unfolding eqTrueI [OF c_True] .
qed

text \<open>
  A content rule that only rewrites the called party has no effect: the message is translated
  with its own global title, and the new one is stamped nowhere.
\<close>

theorem rewrite_only_ignored:
  assumes "tr_content rt = Some engine" and "in_view m = Some v"
    and "content_evaluate engine v = Some \<lparr>hit_rule = name, hit_action =
           action_of \<lparr>ca_route = None, ca_rewrite_cdpa_gt = Some gt, ca_screen = None\<rparr>\<rparr>"
  shows "content_decision_for fv ten rt m sls = (rt, None)"
  using assms by (simp add: content_decision_for_def action_of_def resolve_target_def result_of_def
      route_target_default_def)

theorem rewrite_only_ignored_witness:
  "\<exists>engine. content_decision_for sample_point_code [] (sample_runtime\<lparr>tr_content := Some engine\<rparr>)
     (sample_inbound\<lparr>in_view := Some sample_view\<rparr>) 0 = (sample_runtime\<lparr>tr_content := Some engine\<rparr>, None)"
proof -
  define engine where "engine = content_compile \<lparr>ct_protocol = GsmMap, ct_address_tables = [], ct_imsi_tables = [],
     ct_rules = [\<lparr>cr_name = ''r'', cr_match = \<lparr>cm_operation = None, cm_imsi_in = None, cm_imsi_prefix = None,
                   cm_cdpa_gt_in = None, cm_cgpa_gt_in = None\<rparr>,
                 cr_action = \<lparr>ca_route = None, ca_rewrite_cdpa_gt = Some ''49'', ca_screen = None\<rparr>\<rparr>]\<rparr>"
  have "content_evaluate engine sample_view = Some \<lparr>hit_rule = ''r'', hit_action =
      action_of \<lparr>ca_route = None, ca_rewrite_cdpa_gt = Some ''49'', ca_screen = None\<rparr>\<rparr>"
    by (simp add: engine_def content_evaluate_def content_compile_def compiled_rule_from_def
        matches_besides_identity_def matches_identity_def optional_test_def tests_identity_def)
  then show ?thesis
    using rewrite_only_ignored [of "sample_runtime\<lparr>tr_content := Some engine\<rparr>" engine
        "sample_inbound\<lparr>in_view := Some sample_view\<rparr>" sample_view "''r''" "''49''" sample_point_code "[]" 0]
    by auto
qed

end
