(* ===== verification/Admission.thy ===== *)
theory Admission
  imports Content
begin

text \<open>
  Admission of new TCAP dialogues (\<^verbatim>\<open>src/src/admission.rs\<close>). The policy the embedding program sets is
  a parameter, as are the SCCP decoder and \<^verbatim>\<open>tcap::decode_detailed\<close>.
\<close>

datatype dialogue_kind = KindBegin | KindUnidirectional

record party =
  party_global_title :: "string option"
  party_ssn :: "u8 option"
  party_point_code :: "u32 option"

definition party_of :: "sccp_address \<Rightarrow> party" where
  "party_of a = \<lparr>party_global_title = sa_digits a, party_ssn = sa_ssn a, party_point_code = sa_point_code a\<rparr>"

record dialogue_start =
  ds_kind :: dialogue_kind
  ds_calling :: party
  ds_called :: party
  ds_opc :: u32
  ds_dpc :: u32
  ds_application_context :: "u32 list option"
  ds_domain :: string
  ds_terminates_here :: bool

datatype return_cause = Unqualified | MtpFailure | SccpFailure | NoTranslationForAddress | HopCounterViolation | OtherCause u8

record refuse_cause =
  rc_reason :: string
  rc_return_cause :: return_cause

definition refuse_cause_new :: "string \<Rightarrow> refuse_cause" where
  "refuse_cause_new reason = \<lparr>rc_reason = reason, rc_return_cause = Unqualified\<rparr>"

definition with_return_cause :: "refuse_cause \<Rightarrow> return_cause \<Rightarrow> refuse_cause" where
  "with_return_cause c r = c\<lparr>rc_return_cause := r\<rparr>"

datatype admission = Admit | Refuse refuse_cause

record refusal =
  rf_cause :: refuse_cause
  rf_kind :: dialogue_kind
  rf_otid :: "bytes option"
  rf_sccp :: sccp_message

datatype gate = GatePass | GateRefused refusal

text \<open>The network message, as far as routing reads it (\<^verbatim>\<open>Msu\<close> of \<^verbatim>\<open>src/src/transport/framing.rs\<close>).\<close>

record msu =
  msu_opc :: u32
  msu_dpc :: u32
  msu_si :: u8
  msu_ni :: u8
  msu_mp :: u8
  msu_sls :: u8
  msu_payload :: bytes

definition SI_SCCP :: u8 where "SI_SCCP = 3"

definition TAG_UNIDIRECTIONAL :: u8 where "TAG_UNIDIRECTIONAL = 0x61"

definition TAG_BEGIN :: u8 where "TAG_BEGIN = 0x62"

definition start_kind :: "bytes \<Rightarrow> dialogue_kind option" where
  "start_kind data =
     (case data of
        [] \<Rightarrow> None
      | tag # _ \<Rightarrow> if tag = TAG_BEGIN then Some KindBegin
                   else if tag = TAG_UNIDIRECTIONAL then Some KindUnidirectional else None)"

definition start_readable :: "tcap_decoded \<Rightarrow> bytes option \<times> dialogue_pdu option" where
  "start_readable d =
     (case d of
        Complete (TcBegin b) \<Rightarrow> (Some (tb_otid b), tb_dialogue_pdu b)
      | Complete (TcUnidirectional u) \<Rightarrow> (None, tb_dialogue_pdu u)
      | Complete _ \<Rightarrow> (None, None)
      | Problem p \<Rightarrow> (tp_otid p, None))"

definition context_of :: "dialogue_pdu option \<Rightarrow> u32 list option" where
  "context_of d = (case d of Some (Aarq ac) \<Rightarrow> Some ac | Some (Audt ac) \<Rightarrow> Some ac | _ \<Rightarrow> None)"

definition admission_check ::
  "(bytes \<Rightarrow> sccp_message option) \<Rightarrow> decode_detailed \<Rightarrow> (dialogue_start \<Rightarrow> admission) \<Rightarrow> msu \<Rightarrow> string \<Rightarrow> bool \<Rightarrow> gate" where
  "admission_check sccp_decode decode policy m domain terminates_here =
     (if msu_si m \<noteq> SI_SCCP then GatePass
      else case sccp_decode (msu_payload m) of
        None \<Rightarrow> GatePass
      | Some sccp \<Rightarrow>
          if sm_kind sccp \<in> {Udts, Xudts, Ludts} then GatePass
          else case start_kind (sm_data sccp) of
            None \<Rightarrow> GatePass
          | Some kind \<Rightarrow>
              (case start_readable (decode (sm_data sccp)) of (otid, dialogue) \<Rightarrow>
                 let start = \<lparr>ds_kind = kind, ds_calling = party_of (sm_calling sccp),
                       ds_called = party_of (sm_called sccp), ds_opc = msu_opc m, ds_dpc = msu_dpc m,
                       ds_application_context = context_of dialogue, ds_domain = domain,
                       ds_terminates_here = terminates_here\<rparr>
                 in case policy start of
                      Admit \<Rightarrow> GatePass
                    | Refuse cause \<Rightarrow>
                        GateRefused \<lparr>rf_cause = cause, rf_kind = kind,
                          rf_otid = (case kind of KindBegin \<Rightarrow> otid | KindUnidirectional \<Rightarrow> None),
                          rf_sccp = sccp\<rparr>))"

text \<open>
  Only the start of a dialogue is put to the policy. A message is refused exactly when it is an
  SCCP data message whose data begins with the tag of a Begin or a Unidirectional and the policy
  refuses what is read of it, even when the rest of it is damaged; a message of a dialogue already
  admitted, of another service or a returned message always passes.
\<close>

theorem admission_starts_only:
  "case admission_check sccp_decode decode policy m domain here of
     GateRefused r \<Rightarrow> msu_si m = 3 \<and> sccp_decode (msu_payload m) = Some (rf_sccp r) \<and>
       (sm_kind (rf_sccp r) = Udt \<or> sm_kind (rf_sccp r) = Xudt \<or> sm_kind (rf_sccp r) = Ludt) \<and>
       (\<exists>rest. sm_data (rf_sccp r) = (case rf_kind r of KindBegin \<Rightarrow> 0x62 | KindUnidirectional \<Rightarrow> 0x61) # rest) \<and>
       (\<exists>start. policy start = Refuse (rf_cause r) \<and> ds_kind start = rf_kind r \<and>
          ds_opc start = msu_opc m \<and> ds_dpc start = msu_dpc m \<and> ds_domain start = domain \<and>
          ds_terminates_here start = here \<and> ds_calling start = party_of (sm_calling (rf_sccp r)))
   | GatePass \<Rightarrow>
       (case sccp_decode (msu_payload m) of
          None \<Rightarrow> True
        | Some sccp \<Rightarrow>
            if msu_si m = 3 then
              sm_kind sccp = Udts \<or> sm_kind sccp = Xudts \<or> sm_kind sccp = Ludts \<or> start_kind (sm_data sccp) = None \<or>
              (\<exists>start. policy start = Admit \<and> Some (ds_kind start) = start_kind (sm_data sccp))
            else True)"
proof (cases "sccp_decode (msu_payload m)")
  case None
  then show ?thesis by (simp add: admission_check_def)
next
  case (Some sccp)
  show ?thesis
  proof (cases "msu_si m = SI_SCCP \<and> sm_kind sccp \<notin> {Udts, Xudts, Ludts} \<and> start_kind (sm_data sccp) \<noteq> None")
    case False
    then show ?thesis using Some by (auto simp: admission_check_def SI_SCCP_def)
  next
    case True
    then obtain kind where kind: "start_kind (sm_data sccp) = Some kind" by blast
    then have tag: "\<exists>rest. sm_data sccp = (case kind of KindBegin \<Rightarrow> 0x62 | KindUnidirectional \<Rightarrow> 0x61) # rest"
      by (auto simp: start_kind_def TAG_BEGIN_def TAG_UNIDIRECTIONAL_def split: list.splits if_splits)
    obtain otid dialogue where rd: "start_readable (decode (sm_data sccp)) = (otid, dialogue)" by force
    define start where "start = \<lparr>ds_kind = kind, ds_calling = party_of (sm_calling sccp),
                       ds_called = party_of (sm_called sccp), ds_opc = msu_opc m, ds_dpc = msu_dpc m,
                       ds_application_context = context_of dialogue, ds_domain = domain,
                       ds_terminates_here = here\<rparr>"
    have chk: "admission_check sccp_decode decode policy m domain here =
        (case policy start of Admit \<Rightarrow> GatePass
         | Refuse cause \<Rightarrow> GateRefused \<lparr>rf_cause = cause, rf_kind = kind,
              rf_otid = (case kind of KindBegin \<Rightarrow> otid | KindUnidirectional \<Rightarrow> None), rf_sccp = sccp\<rparr>)"
      using True Some kind rd by (simp add: admission_check_def start_def Let_def)
    have st: "ds_kind start = kind" "ds_opc start = msu_opc m" "ds_dpc start = msu_dpc m" "ds_domain start = domain"
      "ds_terminates_here start = here" "ds_calling start = party_of (sm_calling sccp)" by (simp_all add: start_def)
    show ?thesis
    proof (cases "policy start")
      case Admit
      then show ?thesis unfolding chk using Some kind st(1) by auto
    next
      case (Refuse cause)
      have "sm_kind sccp = Udt \<or> sm_kind sccp = Xudt \<or> sm_kind sccp = Ludt"
        using True by (cases "sm_kind sccp") auto
      then show ?thesis unfolding chk Refuse using Some True tag st Refuse by (auto simp: SI_SCCP_def)
    qed
  qed
qed

end
