(* ===== verification/Mtp3_Management.thy ===== *)
theory Mtp3_Management
  imports Mtp3_Route
begin

text \<open>
  Signalling network management of a transfer point (\<^verbatim>\<open>src/src/mtp3/management.rs\<close>, ITU-T Q.704):
  changeover, changeback, rerouting, MTP restart, management inhibiting and route management, as
  functions of the state \<open>management\<close>. As in the program every operation appends to the field
  \<open>mg_out\<close> and \<open>mg_handle\<close> takes the actions out.

  \<open>mgmt_message\<close> lists the messages of the \<^verbatim>\<open>mtp3\<close> crate; a message that is not acted on is
  reported with the message itself where the program gives its abbreviation. The constructor
  \<^verbatim>\<open>PointCode::from_value\<close> is the parameter \<open>fv\<close>. \<open>would_isolate\<close> evaluates availability with one link
  left out; the program does that by setting the field \<^verbatim>\<open>without\<close> and clearing it again.
\<close>

section \<open>Timers and topology\<close>

type_synonym link_id = nat
type_synonym linkset_id = nat

record mg_timers =
  mt_t1 :: duration
  mt_t2 :: duration
  mt_t3 :: duration
  mt_t4 :: duration
  mt_t5 :: duration
  mt_t6 :: duration
  mt_t8 :: duration
  mt_t10 :: duration
  mt_t12 :: duration
  mt_t13 :: duration
  mt_t18 :: duration
  mt_t19 :: duration
  mt_t20 :: duration
  mt_t21 :: duration
  mt_t23 :: duration

definition mg_timers_from :: "mtp3_settings \<Rightarrow> mg_timers" where
  "mg_timers_from c = \<lparr>mt_t1 = mtp3_t1_ms c, mt_t2 = mtp3_t2_ms c, mt_t3 = mtp3_t3_ms c,
     mt_t4 = mtp3_t4_ms c, mt_t5 = mtp3_t5_ms c, mt_t6 = mtp3_t6_ms c, mt_t8 = mtp3_t8_ms c,
     mt_t10 = mtp3_t10_ms c, mt_t12 = mtp3_t12_ms c, mt_t13 = mtp3_t13_ms c, mt_t18 = mtp3_t18_ms c,
     mt_t19 = mtp3_t19_ms c, mt_t20 = mtp3_t20_ms c, mt_t21 = mtp3_t21_ms c, mt_t23 = mtp3_t23_ms c\<rparr>"

datatype via = ViaLinkset linkset_id | ViaServer nat

record linkset_spec =
  lss_name :: string
  lss_adjacent :: "u32 option"
  lss_links :: "link_id list"

record link_spec =
  lks_name :: string
  lks_linkset :: linkset_id
  lks_slc :: u8

record route_spec =
  rsp_via :: via
  rsp_priority :: u8

record topology =
  tp_own_pc :: u32
  tp_linksets :: "linkset_spec list"
  tp_links :: "link_spec list"
  tp_servers :: "string list"
  tp_routes :: "(u32, route_spec list) btree"

definition first_some :: "('a \<Rightarrow> 'b option) \<Rightarrow> 'a list \<Rightarrow> 'b option" where
  "first_some f xs = (case List.map_filter f xs of [] \<Rightarrow> None | y # _ \<Rightarrow> Some y)"

definition adjacent_of :: "association list \<Rightarrow> string \<Rightarrow> u32 option" where
  "adjacent_of associations assoc =
     Option.bind (find (\<lambda>a. assoc_id a = assoc \<and> assoc_adaptation a = M2pa) associations) assoc_adjacent_pc"

fun add_linksets :: "(string \<Rightarrow> u32 option) \<Rightarrow> nat \<Rightarrow> linkset list \<Rightarrow> link_spec list \<times> linkset_spec list \<Rightarrow> link_spec list \<times> linkset_spec list" where
  "add_linksets adj index [] acc = acc"
| "add_linksets adj index (ls # rest) (links, linksets) =
     add_linksets adj (Suc index) rest
       (links @ map (\<lambda>p. \<lparr>lks_name = link_assoc (ls_links ls ! p), lks_linkset = index, lks_slc = slc_of ls p\<rparr>)
                  [0..<length (ls_links ls)],
        linksets @ [\<lparr>lss_name = ls_name ls,
                     lss_adjacent = first_some (\<lambda>l. adj (link_assoc l)) (ls_links ls),
                     lss_links = map (\<lambda>p. length links + p) [0..<length (ls_links ls)]\<rparr>])"

fun via_of :: "linkset_spec list \<Rightarrow> string list \<Rightarrow> destination \<Rightarrow> via option" where
  "via_of linksets servers (Linkset name) = map_option ViaLinkset (position (\<lambda>l. lss_name l = name) linksets)"
| "via_of linksets servers (ApplicationServer name) = map_option ViaServer (position (\<lambda>s. s = name) servers)"

definition add_topology_route ::
  "linkset_spec list \<Rightarrow> string list \<Rightarrow> u32 \<times> destination \<times> u8 \<Rightarrow> (u32, route_spec list) btree \<Rightarrow> (u32, route_spec list) btree" where
  "add_topology_route linksets servers r routes =
     (case r of (dpc, dest, priority) \<Rightarrow>
        (case via_of linksets servers dest of
           None \<Rightarrow> routes
         | Some via \<Rightarrow>
             let spec = \<lparr>rsp_via = via, rsp_priority = priority\<rparr>
             in bt_entry dpc [] (\<lambda>entry. if spec \<in> set entry then entry else entry @ [spec]) routes))"

definition topology_build :: "from_value \<Rightarrow> tenant \<Rightarrow> association list \<Rightarrow> topology" where
  "topology_build fv t associations =
     (case add_linksets (adjacent_of associations) 0 (tn_linksets t) ([], []) of (links, linksets) \<Rightarrow>
        let servers = map as_name (tn_application_servers t);
            routes = fold (add_topology_route linksets servers) (resolver_routes (resolver_build t associations)) [];
            own = (case resolved_point_code fv t of Some pc \<Rightarrow> pc_value pc | None \<Rightarrow> tn_point_code t)
        in \<lparr>tp_own_pc = own, tp_linksets = linksets, tp_links = links, tp_servers = servers,
            tp_routes = bt_remove own routes\<rparr>)"

section \<open>Messages, inputs and actions\<close>

datatype mgmt_message =
    Coo u8 | Coa u8 | Xco u32 | Xca u32 | Cbd u8 | Cba u8 | Eco | Eca
  | Tfp point_code | Tfr point_code | Tfa point_code | Tfc point_code u8
  | Rst point_code | Rsr point_code | Rct
  | Lin | Lun | Lia | Lua | Lid | Lfu | Llt | Lrt | Tra
  | Dlc | Css | Cns | Cnp | Upu point_code u8 u8

datatype mg_timer =
    TmChangeover link_id | TmChangeback link_id | TmRerouting u32 | TmProhibited u32
  | TmRouteSetTest u32 linkset_id | TmUninhibit link_id | TmForceUninhibit link_id | TmRestart
  | TmRestartAllowed linkset_id | TmRestartOverall | TmAdjacentRestart linkset_id
  | TmInhibitTest link_id | TmIsolation

datatype mg_input =
    MiLinkUp link_id
  | MiLinkDown link_id u32
  | MiReceived link_id u32 u8 mgmt_message
  | MiTimeout mg_timer
  | MiUnroutable u32 link_id
  | MiServer nat bool
  | MiPaused u32 bool

datatype mg_path = PathLink link_id | PathBehind link_id | PathAdjacent linkset_id "link_id option"

datatype procedure = ChangeoverAcknowledged | ChangeoverEmergency | ChangeoverUnacknowledged
  | ChangeoverTimeControlled | ChangebackAcknowledged | ChangebackUnacknowledged | ChangebackTimeControlled
  | ForcedRerouting | ControlledRerouting | RestartBegun | RestartEnded | AdjacentRestartBegun
  | AdjacentRestartEnded | AdjacentRestartExpired | LinkInhibited | LinkInhibitDenied | LinkUninhibited
  | UninhibitAbandoned

datatype subject = SjNode | SjLink link_id | SjLinkset linkset_id | SjDestination u32

datatype mg_action =
    MaSend u32 u8 mgmt_message mg_path
  | MaStart mg_timer duration
  | MaStop mg_timer
  | MaHold link_id
  | MaDivert link_id "u32 option"
  | MaOpen link_id
  | MaFail link_id
  | MaRoute u32 linkset_id route_status
  | MaHoldDestination u32
  | MaReleaseDestination u32
  | MaAccessibility u32 bool
  | MaRestricted u32 bool
  | MaRestarting bool
  | MaCongestion u32 u8
  | MaNote procedure subject
  | MaIgnored mgmt_message string

section \<open>State\<close>

datatype phase = PhClosed | PhOpen | PhChangeoverOrdered | PhChangeoverTimed | PhChangebackDeclared bool
  | PhChangebackTimed | PhAwaitRestart

record ordered =
  od_fsnc :: "u32 option"
  od_emergency :: bool

record mg_link =
  kl_up :: bool
  kl_phase :: phase
  kl_remote_inhibited :: bool
  kl_bsnt :: u32
  kl_back :: bool
  kl_ordered :: "ordered option"
  kl_declared :: "(u8 \<times> link_id) list"
  kl_uninhibit_attempts :: nat
  kl_force_attempts :: nat

record mg_linkset =
  ks_restarting :: bool
  ks_tra_sent :: bool
  ks_tra_received :: bool
  ks_guard :: bool
  ks_synced :: bool

record mg_route =
  kr_via :: via
  kr_priority :: u8
  kr_status :: route_status

record mg_destination =
  kd_routes :: "mg_route list"
  kd_paused :: bool
  kd_accessible :: bool
  kd_restricted :: bool
  kd_told :: "linkset_id set"
  kd_holding :: bool
  kd_deferred :: "mg_action list"

record management =
  mg_topology :: topology
  mg_timers :: mg_timers
  mg_tfp_unknown :: bool
  mg_links :: "mg_link list"
  mg_linksets :: "mg_linkset list"
  mg_servers :: "bool list"
  mg_destinations :: "(u32, mg_destination) btree"
  mg_guarded :: "u32 set"
  mg_restarting :: bool
  mg_restart_due :: bool
  mg_isolated :: bool
  mg_next_code :: u8
  mg_out :: "mg_action list"

definition mg_link_new :: mg_link where
  "mg_link_new = \<lparr>kl_up = False, kl_phase = PhClosed, kl_remote_inhibited = False, kl_bsnt = 0x00FFFFFF,
     kl_back = False, kl_ordered = None, kl_declared = [], kl_uninhibit_attempts = 0, kl_force_attempts = 0\<rparr>"

definition mg_destination_new :: "route_spec list \<Rightarrow> mg_destination" where
  "mg_destination_new rs = \<lparr>kd_routes = map (\<lambda>r. \<lparr>kr_via = rsp_via r, kr_priority = rsp_priority r, kr_status = Allowed\<rparr>) rs,
     kd_paused = False, kd_accessible = False, kd_restricted = False, kd_told = {}, kd_holding = False, kd_deferred = []\<rparr>"

definition mg_new :: "topology \<Rightarrow> mg_timers \<Rightarrow> bool \<Rightarrow> management" where
  "mg_new tp ts tfp_unknown =
     \<lparr>mg_topology = tp, mg_timers = ts, mg_tfp_unknown = tfp_unknown,
      mg_links = map (\<lambda>_. mg_link_new) (tp_links tp),
      mg_linksets = map (\<lambda>_. \<lparr>ks_restarting = False, ks_tra_sent = False, ks_tra_received = False, ks_guard = False, ks_synced = False\<rparr>) (tp_linksets tp),
      mg_servers = map (\<lambda>_. False) (tp_servers tp),
      mg_destinations = bt_map (\<lambda>_. mg_destination_new) (tp_routes tp),
      mg_guarded = {}, mg_restarting = False, mg_restart_due = True, mg_isolated = True,
      mg_next_code = 0, mg_out = []\<rparr>"

text \<open>Reading and changing one element, and appending an action.\<close>

definition spec_of :: "management \<Rightarrow> linkset_id \<Rightarrow> linkset_spec" where
  "spec_of m s = tp_linksets (mg_topology m) ! s"

definition linkset_at :: "management \<Rightarrow> link_id \<Rightarrow> linkset_id" where
  "linkset_at m l = lks_linkset (tp_links (mg_topology m) ! l)"

definition slc_at :: "management \<Rightarrow> link_id \<Rightarrow> u8" where
  "slc_at m l = lks_slc (tp_links (mg_topology m) ! l)"

definition set_link :: "link_id \<Rightarrow> (mg_link \<Rightarrow> mg_link) \<Rightarrow> management \<Rightarrow> management" where
  "set_link l f m = m\<lparr>mg_links := (mg_links m)[l := f (mg_links m ! l)]\<rparr>"

definition set_linkset :: "linkset_id \<Rightarrow> (mg_linkset \<Rightarrow> mg_linkset) \<Rightarrow> management \<Rightarrow> management" where
  "set_linkset s f m = m\<lparr>mg_linksets := (mg_linksets m)[s := f (mg_linksets m ! s)]\<rparr>"

definition set_dest :: "u32 \<Rightarrow> (mg_destination \<Rightarrow> mg_destination) \<Rightarrow> management \<Rightarrow> management" where
  "set_dest dpc f m = m\<lparr>mg_destinations := bt_map (\<lambda>k d. if k = dpc then f d else d) (mg_destinations m)\<rparr>"

definition dest_of :: "management \<Rightarrow> u32 \<Rightarrow> mg_destination option" where
  "dest_of m dpc = bt_get dpc (mg_destinations m)"

definition push :: "mg_action \<Rightarrow> management \<Rightarrow> management" where
  "push a m = m\<lparr>mg_out := mg_out m @ [a]\<rparr>"

definition set_phase :: "link_id \<Rightarrow> phase \<Rightarrow> management \<Rightarrow> management" where
  "set_phase l p = set_link l (\<lambda>k. k\<lparr>kl_phase := p\<rparr>)"

section \<open>Availability\<close>

definition carrying_phase :: "phase \<Rightarrow> bool" where
  "carrying_phase p \<longleftrightarrow> p = PhOpen \<or> (\<exists>second. p = PhChangebackDeclared second) \<or> p = PhChangebackTimed"

definition link_available :: "link_id option \<Rightarrow> management \<Rightarrow> link_id \<Rightarrow> bool" where
  "link_available without m l \<longleftrightarrow> without \<noteq> Some l \<and> carrying_phase (kl_phase (mg_links m ! l))"

definition linkset_available :: "link_id option \<Rightarrow> management \<Rightarrow> linkset_id \<Rightarrow> bool" where
  "linkset_available without m s \<longleftrightarrow> (\<exists>l \<in> set (lss_links (spec_of m s)). link_available without m l)"

definition linkset_signalling :: "management \<Rightarrow> linkset_id \<Rightarrow> bool" where
  "linkset_signalling m s \<longleftrightarrow> (\<exists>l \<in> set (lss_links (spec_of m s)). kl_up (mg_links m ! l))"

definition mg_usable :: "link_id option \<Rightarrow> management \<Rightarrow> mg_destination \<Rightarrow> mg_route \<Rightarrow> usable" where
  "mg_usable without m d r =
     (if kd_paused d then UNo
      else case kr_via r of
        ViaServer i \<Rightarrow> if i < length (mg_servers m) \<and> mg_servers m ! i then UYes else UNo
      | ViaLinkset s \<Rightarrow>
          if \<not> linkset_available without m s then UNo
          else (case kr_status r of Allowed \<Rightarrow> UYes | Restricted \<Rightarrow> URestricted | Prohibited \<Rightarrow> UNo))"

definition in_use :: "link_id option \<Rightarrow> management \<Rightarrow> u32 \<Rightarrow> nat list" where
  "in_use without m dpc =
     (case dest_of m dpc of
        Some d \<Rightarrow> routes_in_use (kd_routes d) kr_priority (mg_usable without m d)
      | None \<Rightarrow> [])"

definition reachable :: "link_id option \<Rightarrow> management \<Rightarrow> u32 \<Rightarrow> bool" where
  "reachable without m dpc \<longleftrightarrow> in_use without m dpc \<noteq> []"

definition only_restricted :: "management \<Rightarrow> u32 \<Rightarrow> bool" where
  "only_restricted m dpc =
     (case dest_of m dpc of
        None \<Rightarrow> False
      | Some d \<Rightarrow> in_use None m dpc \<noteq> [] \<and>
          (\<forall>i \<in> set (in_use None m dpc). mg_usable None m d (kd_routes d ! i) = URestricted))"

definition can_tell :: "management \<Rightarrow> linkset_id \<Rightarrow> bool" where
  "can_tell m s \<longleftrightarrow> linkset_signalling m s \<or>
     (case lss_adjacent (spec_of m s) of Some pc \<Rightarrow> reachable None m pc | None \<Rightarrow> False)"

definition prohibited_toward :: "management \<Rightarrow> u32 \<Rightarrow> linkset_id \<Rightarrow> bool" where
  "prohibited_toward m dpc s =
     (case dest_of m dpc of
        None \<Rightarrow> True
      | Some d \<Rightarrow> in_use None m dpc = [] \<or>
          (\<exists>i \<in> set (in_use None m dpc). kr_via (kd_routes d ! i) = ViaLinkset s))"

definition about :: "from_value \<Rightarrow> u32 \<Rightarrow> (point_code \<Rightarrow> mgmt_message) \<Rightarrow> mgmt_message option" where
  "about fv dpc msg = map_option msg (fv dpc Itu)"

section \<open>Telling the adjacent points\<close>

definition mg_guard :: "u32 \<Rightarrow> management \<Rightarrow> management" where
  "mg_guard dpc m = push (MaStart (TmProhibited dpc) (mt_t8 (mg_timers m))) (m\<lparr>mg_guarded := insert dpc (mg_guarded m)\<rparr>)"

definition settle_destination :: "u32 \<Rightarrow> management \<Rightarrow> management" where
  "settle_destination dpc m =
     (let accessible = reachable None m dpc; restricted = accessible \<and> only_restricted m dpc
      in case dest_of m dpc of
           None \<Rightarrow> m
         | Some d \<Rightarrow>
             let m = (if \<not> accessible then set_dest dpc (\<lambda>d. d\<lparr>kd_restricted := False\<rparr>) m else m);
                 m = (if kd_accessible d \<noteq> accessible then
                        let m = push (MaAccessibility dpc accessible) (set_dest dpc (\<lambda>d. d\<lparr>kd_accessible := accessible\<rparr>) m)
                        in if \<not> accessible \<and> \<not> mg_restarting m then mg_guard dpc m else m
                      else m)
             in if accessible \<and> kd_restricted d \<noteq> restricted then
                  push (MaRestricted dpc restricted) (set_dest dpc (\<lambda>d. d\<lparr>kd_restricted := restricted\<rparr>) m)
                else m)"

definition settle_tell :: "from_value \<Rightarrow> linkset_id \<Rightarrow> u32 \<Rightarrow> u32 \<Rightarrow> management \<Rightarrow> management" where
  "settle_tell fv s adjacent dpc m =
     (if dpc = adjacent then m
      else let want = prohibited_toward m dpc s
           in case dest_of m dpc of
                None \<Rightarrow> m
              | Some d \<Rightarrow>
                  if (s \<in> kd_told d) = want then m
                  else
                    let m = set_dest dpc (\<lambda>d. d\<lparr>kd_told := (if want then insert s (kd_told d) else kd_told d - {s})\<rparr>) m
                    in case about fv dpc (if want then Tfp else Tfa) of
                         None \<Rightarrow> m
                       | Some message \<Rightarrow> push (MaSend adjacent 0 message (PathAdjacent s None)) m)"

definition mg_resync :: "linkset_id \<Rightarrow> management \<Rightarrow> management" where
  "mg_resync s m =
     (if \<not> ks_synced (mg_linksets m ! s) then
        (set_linkset s (\<lambda>k. k\<lparr>ks_synced := True\<rparr>) m)
          \<lparr>mg_destinations := bt_map (\<lambda>_ d. d\<lparr>kd_told := kd_told d - {s}\<rparr>) (mg_destinations m)\<rparr>
      else m)"

definition settle_linkset :: "from_value \<Rightarrow> u32 list \<Rightarrow> linkset_id \<Rightarrow> management \<Rightarrow> management" where
  "settle_linkset fv dpcs s m =
     (case lss_adjacent (spec_of m s) of
        None \<Rightarrow> m
      | Some adjacent \<Rightarrow>
          if \<not> can_tell m s then set_linkset s (\<lambda>k. k\<lparr>ks_synced := False\<rparr>) m
          else fold (settle_tell fv s adjacent) dpcs (mg_resync s m))"

definition settle :: "from_value \<Rightarrow> management \<Rightarrow> management" where
  "settle fv m =
     (let dpcs = map fst (mg_destinations m); m = fold settle_destination dpcs m
      in if mg_restarting m then m
         else fold (settle_linkset fv dpcs) [0..<length (mg_linksets m)] m)"

definition watch_isolation :: "management \<Rightarrow> management" where
  "watch_isolation m =
     (let isolated = (\<not> (\<exists>l \<in> set (mg_links m). kl_up l) \<and> \<not> (\<exists>up \<in> set (mg_servers m). up))
      in if isolated = mg_isolated m then m
         else let m = m\<lparr>mg_isolated := isolated\<rparr>
              in if isolated then push (MaStart TmIsolation (mt_t1 (mg_timers m))) m
                 else push (MaStop TmIsolation) m)"

section \<open>Sending\<close>

definition mg_send :: "linkset_id \<Rightarrow> u8 \<Rightarrow> mgmt_message \<Rightarrow> mg_path \<Rightarrow> management \<Rightarrow> management" where
  "mg_send s slc message path m =
     (case lss_adjacent (spec_of m s) of Some dpc \<Rightarrow> push (MaSend dpc slc message path) m | None \<Rightarrow> m)"

definition mg_tell :: "linkset_id \<Rightarrow> u8 \<Rightarrow> mgmt_message \<Rightarrow> management \<Rightarrow> management" where
  "mg_tell s slc message = mg_send s slc message (PathAdjacent s None)"

definition mg_note :: "procedure \<Rightarrow> subject \<Rightarrow> management \<Rightarrow> management" where
  "mg_note p sj = push (MaNote p sj)"

definition mg_ignored :: "mgmt_message \<Rightarrow> string \<Rightarrow> management \<Rightarrow> management" where
  "mg_ignored message why = push (MaIgnored message why)"

section \<open>Routes allowed again\<close>

definition allow_routes :: "linkset_id \<Rightarrow> mg_destination \<Rightarrow> mg_destination" where
  "allow_routes s d = d\<lparr>kd_routes := map (\<lambda>r. if kr_via r = ViaLinkset s then r\<lparr>kr_status := Allowed\<rparr> else r) (kd_routes d)\<rparr>"

text \<open>The destinations with a route to clear, once for each such route.\<close>

definition routes_to_clear :: "linkset_id \<Rightarrow> management \<Rightarrow> u32 list" where
  "routes_to_clear s m = concat (map (\<lambda>(dpc, d).
     map (\<lambda>_. dpc) (filter (\<lambda>r. kr_via r = ViaLinkset s \<and> kr_status r \<noteq> Allowed) (kd_routes d))) (mg_destinations m))"

definition allow_routes_through :: "linkset_id \<Rightarrow> management \<Rightarrow> management" where
  "allow_routes_through s m =
     fold (\<lambda>dpc m. push (MaRoute dpc s Allowed) (push (MaStop (TmRouteSetTest dpc s)) m)) (routes_to_clear s m)
       (m\<lparr>mg_destinations := bt_map (\<lambda>_. allow_routes s) (mg_destinations m)\<rparr>)"

section \<open>Restoration and changeback\<close>

definition time_controlled_changeback :: "link_id \<Rightarrow> management \<Rightarrow> management" where
  "time_controlled_changeback l m =
     push (MaStart (TmChangeback l) (mt_t3 (mg_timers m))) (push (MaHold l) (set_phase l PhChangebackTimed m))"

definition start_traffic :: "from_value \<Rightarrow> link_id \<Rightarrow> management \<Rightarrow> management" where
  "start_traffic fv l m =
     (let s = linkset_at m l
      in if (\<exists>(_, d) \<in> set (mg_destinations m). kd_accessible d \<and> (\<exists>r \<in> set (kd_routes d). kr_via r = ViaLinkset s))
         then time_controlled_changeback l m
         else push (MaOpen l) (settle fv (set_phase l PhOpen m)))"

definition declare_on :: "linkset_id \<Rightarrow> u8 \<Rightarrow> link_id \<Rightarrow> management \<times> (u8 \<times> link_id) list \<Rightarrow> management \<times> (u8 \<times> link_id) list" where
  "declare_on s slc alternative acc =
     (case acc of (m, declared) \<Rightarrow>
        let code = mg_next_code m
        in (mg_send s slc (Cbd code) (PathBehind alternative) (m\<lparr>mg_next_code := code + 1\<rparr>), declared @ [(code, alternative)]))"

definition changeback_declared :: "link_id \<Rightarrow> link_id list \<Rightarrow> management \<Rightarrow> management" where
  "changeback_declared l carrying m =
     (case fold (declare_on (linkset_at m l) (slc_at m l)) carrying (push (MaHold l) m, []) of (m, declared) \<Rightarrow>
        push (MaStart (TmChangeback l) (mt_t4 (mg_timers m)))
          (set_link l (\<lambda>k. k\<lparr>kl_declared := declared, kl_phase := PhChangebackDeclared False\<rparr>) m))"

definition adjacent_restarts :: "from_value \<Rightarrow> link_id \<Rightarrow> management \<Rightarrow> management" where
  "adjacent_restarts fv l m =
     (let s = linkset_at m l;
          m = set_linkset s (\<lambda>k. k\<lparr>ks_restarting := True, ks_tra_received := False, ks_synced := False\<rparr>) m;
          m = set_phase l PhAwaitRestart (allow_routes_through s m);
          m = push (MaStart (TmAdjacentRestart s) (mt_t21 (mg_timers m))) m;
          m = settle fv (mg_note AdjacentRestartBegun (SjLinkset s) m);
          m = mg_send s 0 Tra (PathLink l) m
      in set_linkset s (\<lambda>k. k\<lparr>ks_tra_sent := True\<rparr>) m)"

definition restore :: "from_value \<Rightarrow> link_id \<Rightarrow> management \<Rightarrow> management" where
  "restore fv l m =
     (let s = linkset_at m l
      in if mg_restarting m \<or> ks_restarting (mg_linksets m ! s) then set_phase l PhAwaitRestart m
         else
           let carrying = filter (\<lambda>l'. l' \<noteq> l \<and> kl_phase (mg_links m ! l') = PhOpen) (lss_links (spec_of m s));
               adjacent = lss_adjacent (spec_of m s)
           in if linkset_available None m s then
                (if carrying = [] \<or> adjacent = None then time_controlled_changeback l m
                 else changeback_declared l carrying m)
              else if (case adjacent of Some pc \<Rightarrow> \<not> reachable None m pc | None \<Rightarrow> False) then adjacent_restarts fv l m
              else start_traffic fv l m)"

definition finish_changeback :: "link_id \<Rightarrow> procedure \<Rightarrow> management \<Rightarrow> management" where
  "finish_changeback l how m =
     mg_note how (SjLink l) (push (MaOpen l)
       (set_link l (\<lambda>k. k\<lparr>kl_declared := [], kl_phase := PhOpen\<rparr>) (push (MaStop (TmChangeback l)) m)))"

section \<open>The restart of this node\<close>

definition open_waiting :: "link_id \<Rightarrow> management \<Rightarrow> management" where
  "open_waiting l m = (if kl_phase (mg_links m ! l) = PhAwaitRestart then set_phase l PhOpen m else m)"

definition allow_restart :: "linkset_id \<Rightarrow> management \<Rightarrow> management" where
  "allow_restart s m =
     (if \<not> linkset_signalling m s then m
      else
        let m = mg_tell s 0 Tra m;
            m = set_linkset s (\<lambda>k. k\<lparr>ks_tra_sent := True, ks_guard := True\<rparr>) m
        in push (MaStart (TmRestartAllowed s) (mt_t19 (mg_timers m))) m)"

definition end_restart :: "from_value \<Rightarrow> management \<Rightarrow> management" where
  "end_restart fv m =
     (if \<not> mg_restarting m then m
      else
        let m = push (MaStop TmRestartOverall) (push (MaStop TmRestart) (m\<lparr>mg_restarting := False\<rparr>));
            opened = filter (\<lambda>l. kl_phase (mg_links m ! l) = PhAwaitRestart) [0..<length (mg_links m)];
            m = fold open_waiting [0..<length (mg_links m)] m;
            m = m\<lparr>mg_linksets := map (\<lambda>k. k\<lparr>ks_synced := False\<rparr>) (mg_linksets m)\<rparr>;
            m = settle fv m;
            m = fold (\<lambda>l. push (MaOpen l)) opened m;
            m = fold allow_restart [0..<length (mg_linksets m)] m
        in mg_note RestartEnded SjNode (push (MaRestarting False) m))"

definition restart_progress :: "from_value \<Rightarrow> management \<Rightarrow> management" where
  "restart_progress fv m =
     (if (\<forall>s \<in> set [0..<length (mg_linksets m)]. lss_adjacent (spec_of m s) = None \<or>
            ks_tra_received (mg_linksets m ! s) \<and> linkset_signalling m s)
      then end_restart fv m else m)"

definition end_adjacent_restart :: "from_value \<Rightarrow> linkset_id \<Rightarrow> procedure \<Rightarrow> management \<Rightarrow> management" where
  "end_adjacent_restart fv s how m =
     (let m = mg_note how (SjLinkset s) (push (MaStop (TmAdjacentRestart s)) (set_linkset s (\<lambda>k. k\<lparr>ks_restarting := False\<rparr>) m));
          waiting = filter (\<lambda>l. kl_phase (mg_links m ! l) = PhAwaitRestart) (lss_links (spec_of m s))
      in fold (start_traffic fv) waiting m)"

definition traffic_restart_allowed :: "from_value \<Rightarrow> linkset_id \<Rightarrow> management \<Rightarrow> management" where
  "traffic_restart_allowed fv s m =
     (if mg_restarting m then restart_progress fv (set_linkset s (\<lambda>k. k\<lparr>ks_tra_received := True\<rparr>) m)
      else if ks_restarting (mg_linksets m ! s) then
        let m = set_linkset s (\<lambda>k. k\<lparr>ks_tra_received := True\<rparr>) m
        in if ks_tra_sent (mg_linksets m ! s) then end_adjacent_restart fv s AdjacentRestartEnded m else m
      else if ks_guard (mg_linksets m ! s) then mg_ignored Tra ''T19 is running for the adjacent point'' m
      else
        let m = mg_tell s 0 Tra (settle fv (set_linkset s (\<lambda>k. k\<lparr>ks_synced := False\<rparr>) m));
            m = set_linkset s (\<lambda>k. k\<lparr>ks_guard := True\<rparr>) m
        in push (MaStart (TmRestartAllowed s) (mt_t19 (mg_timers m))) m)"

definition begin_restart :: "management \<Rightarrow> management" where
  "begin_restart m =
     (let m = m\<lparr>mg_restarting := True, mg_restart_due := False\<rparr>;
          m = fold (\<lambda>s m. set_linkset s (\<lambda>k. k\<lparr>ks_tra_received := False\<rparr>) (allow_routes_through s m))
                [0..<length (mg_linksets m)] m;
          m = push (MaStart TmRestart (mt_t18 (mg_timers m))) (push (MaRestarting True) m);
          m = push (MaStart TmRestartOverall (mt_t20 (mg_timers m))) m
      in mg_note RestartBegun SjNode m)"

definition link_up :: "from_value \<Rightarrow> link_id \<Rightarrow> management \<Rightarrow> management" where
  "link_up fv l m =
     (let m = (if mg_restart_due m \<and> \<not> mg_restarting m \<and> mg_isolated m then begin_restart m else m);
          m = (if \<not> mg_isolated m then m\<lparr>mg_restart_due := False\<rparr> else m);
          m = set_link l (\<lambda>k. k\<lparr>kl_up := True\<rparr>) m;
          m = (case kl_phase (mg_links m ! l) of
                 PhChangeoverOrdered \<Rightarrow> set_link l (\<lambda>k. k\<lparr>kl_back := True\<rparr>) m
               | PhChangeoverTimed \<Rightarrow> set_link l (\<lambda>k. k\<lparr>kl_back := True\<rparr>) m
               | PhClosed \<Rightarrow> if \<not> kl_remote_inhibited (mg_links m ! l) then restore fv l m else m
               | _ \<Rightarrow> m)
      in if mg_restarting m then restart_progress fv m else m)"

section \<open>Failure and changeover\<close>

definition begin_changeover :: "link_id \<Rightarrow> management \<Rightarrow> management" where
  "begin_changeover l m =
     (let s = linkset_at m l;
          m = set_phase l PhChangeoverOrdered (push (MaHold l) m)
      in if can_tell m s \<and> lss_adjacent (spec_of m s) \<noteq> None then
           let m = mg_send s (slc_at m l) (Xco (kl_bsnt (mg_links m ! l))) (PathAdjacent s (Some l)) m
           in push (MaStart (TmChangeover l) (mt_t2 (mg_timers m))) m
         else push (MaStart (TmChangeover l) (mt_t1 (mg_timers m))) (set_phase l PhChangeoverTimed m))"

definition complete_changeover :: "from_value \<Rightarrow> link_id \<Rightarrow> u32 option \<Rightarrow> procedure option \<Rightarrow> management \<Rightarrow> management" where
  "complete_changeover fv l fsnc how m =
     (let m = push (MaDivert l fsnc) (set_phase l PhClosed (push (MaStop (TmChangeover l)) m));
          how = (case how of Some h \<Rightarrow> h | None \<Rightarrow> if fsnc \<noteq> None then ChangeoverAcknowledged else ChangeoverEmergency);
          m = mg_note how (SjLink l) m;
          k = mg_links m ! l;
          m = set_link l (\<lambda>k. k\<lparr>kl_back := False\<rparr>) m
      in if kl_back k \<and> kl_up k \<and> \<not> kl_remote_inhibited k then restore fv l m else m)"

definition acknowledge_order :: "link_id \<Rightarrow> bool \<Rightarrow> management \<Rightarrow> management" where
  "acknowledge_order l emergency m =
     (let s = linkset_at m l
      in mg_send s (slc_at m l) (if emergency then Eca else Xca (kl_bsnt (mg_links m ! l))) (PathAdjacent s (Some l)) m)"

definition link_down :: "from_value \<Rightarrow> link_id \<Rightarrow> u32 \<Rightarrow> management \<Rightarrow> management" where
  "link_down fv l bsnt m =
     (let s = linkset_at m l;
          ord = kl_ordered (mg_links m ! l);
          m = set_link l (\<lambda>k. k\<lparr>kl_up := False, kl_bsnt := bsnt, kl_back := False, kl_ordered := None\<rparr>) m;
          m = (case ord of Some o' \<Rightarrow> acknowledge_order l (od_emergency o') m | None \<Rightarrow> m);
          p = kl_phase (mg_links m ! l);
          m = (if carrying_phase p then
                 let m = set_link l (\<lambda>k. k\<lparr>kl_declared := []\<rparr>) (push (MaStop (TmChangeback l)) m)
                 in case ord of
                      Some o' \<Rightarrow> complete_changeover fv l (od_fsnc o') None (push (MaHold l) m)
                    | None \<Rightarrow> begin_changeover l m
               else if p = PhChangeoverOrdered \<or> p = PhChangeoverTimed then
                 (case ord of Some o' \<Rightarrow> complete_changeover fv l (od_fsnc o') None m | None \<Rightarrow> m)
               else if p = PhAwaitRestart then set_phase l PhClosed m
               else m)
      in if \<not> linkset_signalling m s then
           let m = (if ks_restarting (mg_linksets m ! s) then
                      push (MaStop (TmAdjacentRestart s)) (set_linkset s (\<lambda>k. k\<lparr>ks_restarting := False\<rparr>) m)
                    else m)
           in set_linkset s (\<lambda>k. k\<lparr>ks_tra_sent := False, ks_tra_received := False\<rparr>) m
         else m)"

definition changeover_order :: "from_value \<Rightarrow> link_id \<Rightarrow> u32 option \<Rightarrow> bool \<Rightarrow> management \<Rightarrow> management" where
  "changeover_order fv l fsnc emergency m =
     (let k = mg_links m ! l; s = linkset_at m l
      in if (kl_phase k = PhChangeoverOrdered \<or> kl_phase k = PhChangeoverTimed) \<and> \<not> kl_up k then
           complete_changeover fv l fsnc None (acknowledge_order l emergency m)
         else if kl_up k then
           push (MaFail l) (set_link l (\<lambda>k. k\<lparr>kl_ordered := Some \<lparr>od_fsnc = fsnc, od_emergency = emergency\<rparr>\<rparr>) m)
         else mg_send s (slc_at m l) Eca (PathAdjacent s (Some l)) m)"

definition changeover_acknowledgement :: "from_value \<Rightarrow> link_id \<Rightarrow> u32 option \<Rightarrow> mgmt_message \<Rightarrow> management \<Rightarrow> management" where
  "changeover_acknowledgement fv l fsnc message m =
     (if kl_phase (mg_links m ! l) = PhChangeoverOrdered then complete_changeover fv l fsnc None m
      else mg_ignored message ''no changeover order is out for the link'' m)"

section \<open>Management inhibiting\<close>

definition would_isolate :: "link_id \<Rightarrow> management \<Rightarrow> bool" where
  "would_isolate l m \<longleftrightarrow>
     (\<exists>dpc \<in> set (map fst (mg_destinations m)). reachable None m dpc \<and> \<not> reachable (Some l) m dpc)"

definition link_or_route :: "management \<Rightarrow> link_id \<Rightarrow> mg_path" where
  "link_or_route m l = (if kl_up (mg_links m ! l) then PathLink l else PathAdjacent (linkset_at m l) (Some l))"

definition grant_inhibit :: "link_id \<Rightarrow> mg_path \<Rightarrow> management \<Rightarrow> management" where
  "grant_inhibit l path m =
     (let s = linkset_at m l;
          m = set_link l (\<lambda>k. k\<lparr>kl_remote_inhibited := True\<rparr>) m;
          m = mg_note LinkInhibited (SjLink l) (mg_send s (slc_at m l) Lia path m);
          p = kl_phase (mg_links m ! l);
          m = (if carrying_phase p then
                 let m = set_link l (\<lambda>k. k\<lparr>kl_declared := [], kl_phase := PhChangeoverTimed\<rparr>) (push (MaStop (TmChangeback l)) m)
                 in push (MaStart (TmChangeover l) (mt_t1 (mg_timers m))) (push (MaHold l) m)
               else if p = PhAwaitRestart then set_phase l PhClosed m
               else m)
      in push (MaStart (TmInhibitTest l) (mt_t23 (mg_timers m))) m)"

definition lift_inhibit :: "from_value \<Rightarrow> link_id \<Rightarrow> mg_path \<Rightarrow> management \<Rightarrow> management" where
  "lift_inhibit fv l path m =
     (let s = linkset_at m l;
          m = push (MaStop (TmForceUninhibit l)) (mg_send s (slc_at m l) Lua path m);
          m = set_link l (\<lambda>k. k\<lparr>kl_force_attempts := 0\<rparr>) m
      in if \<not> kl_remote_inhibited (mg_links m ! l) then m
         else
           let m = push (MaStop (TmInhibitTest l)) (set_link l (\<lambda>k. k\<lparr>kl_remote_inhibited := False\<rparr>) m);
               m = mg_note LinkUninhibited (SjLink l) m;
               k = mg_links m ! l
           in if kl_phase k = PhClosed \<and> kl_up k then restore fv l m
              else if (kl_phase k = PhChangeoverTimed \<or> kl_phase k = PhChangeoverOrdered) \<and> kl_up k then
                set_link l (\<lambda>k. k\<lparr>kl_back := True\<rparr>) m
              else m)"

definition inhibit_message :: "from_value \<Rightarrow> link_id \<Rightarrow> mgmt_message \<Rightarrow> management \<Rightarrow> management" where
  "inhibit_message fv l message m =
     (let s = linkset_at m l; slc = slc_at m l; k = mg_links m ! l; path = link_or_route m l
      in case message of
           Lin \<Rightarrow>
             if kl_remote_inhibited k then mg_send s slc Lia path m
             else if link_available None m l \<and> would_isolate l m then
               mg_note LinkInhibitDenied (SjLink l) (mg_send s slc Lid path m)
             else grant_inhibit l path m
         | Lun \<Rightarrow> lift_inhibit fv l path m
         | Lfu \<Rightarrow> mg_send s slc Lun path m
         | Lua \<Rightarrow>
             if kl_uninhibit_attempts k > 0 then
               push (MaStop (TmUninhibit l)) (set_link l (\<lambda>k. k\<lparr>kl_uninhibit_attempts := 0\<rparr>) m)
             else mg_ignored Lua ''no uninhibit message is outstanding for the link'' m
         | Lia \<Rightarrow> mg_ignored Lia ''no inhibit message is outstanding for the link'' m
         | Lid \<Rightarrow> mg_ignored Lid ''no inhibit message is outstanding for the link'' m
         | Llt \<Rightarrow>
             if \<not> kl_remote_inhibited k \<and> kl_force_attempts k = 0 then
               push (MaStart (TmForceUninhibit l) (mt_t13 (mg_timers m)))
                 (mg_send s slc Lfu path (set_link l (\<lambda>k. k\<lparr>kl_force_attempts := 1\<rparr>) m))
             else m
         | Lrt \<Rightarrow>
             if kl_uninhibit_attempts k = 0 then
               push (MaStart (TmUninhibit l) (mt_t12 (mg_timers m)))
                 (mg_send s slc Lun path (set_link l (\<lambda>k. k\<lparr>kl_uninhibit_attempts := 1\<rparr>) m))
             else m
         | _ \<Rightarrow> m)"

section \<open>Route management\<close>

definition mark_route :: "u32 \<Rightarrow> nat \<Rightarrow> route_status \<Rightarrow> management \<Rightarrow> management" where
  "mark_route dpc i status =
     set_dest dpc (\<lambda>d. d\<lparr>kd_routes := (kd_routes d)[i := (kd_routes d ! i)\<lparr>kr_status := status\<rparr>]\<rparr>)"

text \<open>The end of \<^verbatim>\<open>route_message\<close>: forced rerouting at once, controlled rerouting after T6.\<close>

definition reroute :: "u32 \<Rightarrow> mg_action \<Rightarrow> bool \<Rightarrow> nat list \<Rightarrow> nat list \<Rightarrow> mg_destination \<Rightarrow> management \<Rightarrow> management" where
  "reroute dpc mark forced before after d m =
     (if forced then
        let m = fold push (kd_deferred d) (set_dest dpc (\<lambda>d. d\<lparr>kd_deferred := []\<rparr>) m);
            m = push mark m;
            m = (if kd_holding d then
                   push (MaReleaseDestination dpc) (push (MaStop (TmRerouting dpc)) (set_dest dpc (\<lambda>d. d\<lparr>kd_holding := False\<rparr>) m))
                 else m)
        in if before \<noteq> after \<and> before \<noteq> [] then mg_note ForcedRerouting (SjDestination dpc) m else m
      else if kd_holding d then set_dest dpc (\<lambda>d. d\<lparr>kd_deferred := kd_deferred d @ [mark]\<rparr>) m
      else if before \<noteq> after \<and> before \<noteq> [] \<and> after \<noteq> [] then
        let m = set_dest dpc (\<lambda>d. d\<lparr>kd_holding := True, kd_deferred := kd_deferred d @ [mark]\<rparr>) m;
            m = push (MaStart (TmRerouting dpc) (mt_t6 (mg_timers m))) (push (MaHoldDestination dpc) m)
        in mg_note ControlledRerouting (SjDestination dpc) m
      else push mark m)"

definition route_message :: "linkset_id \<Rightarrow> u32 \<Rightarrow> route_status \<Rightarrow> mgmt_message \<Rightarrow> management \<Rightarrow> management" where
  "route_message s dpc status message m =
     (case dest_of m dpc of
        None \<Rightarrow> mg_ignored message ''there is no route to that destination through the sender'' m
      | Some d \<Rightarrow>
          (case position (\<lambda>r. kr_via r = ViaLinkset s) (kd_routes d) of
             None \<Rightarrow> mg_ignored message ''there is no route to that destination through the sender'' m
           | Some i \<Rightarrow>
               if kr_status (kd_routes d ! i) = status then m
               else
                 let before = in_use None m dpc;
                     m = mark_route dpc i status m;
                     after = in_use None m dpc;
                     m = (if status = Allowed then push (MaStop (TmRouteSetTest dpc s)) m
                          else push (MaStart (TmRouteSetTest dpc s) (mt_t10 (mg_timers m))) m)
                 in reroute dpc (MaRoute dpc s status) (status = Prohibited) before after d m))"

definition route_set_test :: "from_value \<Rightarrow> linkset_id \<Rightarrow> u32 \<Rightarrow> route_status \<Rightarrow> management \<Rightarrow> management" where
  "route_set_test fv s dpc believes m =
     (let proh = prohibited_toward m dpc s
      in if (if proh then Prohibited else Allowed) = believes then m
         else case about fv dpc (if proh then Tfp else Tfa) of
                None \<Rightarrow> m
              | Some message \<Rightarrow>
                  mg_tell s 0 message
                    (set_dest dpc (\<lambda>d. d\<lparr>kd_told := (if proh then insert s (kd_told d) else kd_told d - {s})\<rparr>) m))"

definition unroutable :: "from_value \<Rightarrow> u32 \<Rightarrow> link_id \<Rightarrow> management \<Rightarrow> management" where
  "unroutable fv dpc l m =
     (if mg_restarting m \<or> dpc = tp_own_pc (mg_topology m) \<or> dpc \<in> mg_guarded m then m
      else
        let s = linkset_at m l
        in if lss_adjacent (spec_of m s) = None then m
           else case about fv dpc Tfp of
                  None \<Rightarrow> m
                | Some message \<Rightarrow>
                    if dest_of m dpc = None \<and> \<not> mg_tfp_unknown m then m
                    else mg_guard dpc (mg_tell s 0 message
                           (set_dest dpc (\<lambda>d. d\<lparr>kd_told := insert s (kd_told d)\<rparr>) m)))"

section \<open>Received messages\<close>

definition linkset_of :: "management \<Rightarrow> u32 \<Rightarrow> link_id \<Rightarrow> linkset_id option" where
  "linkset_of m opc l =
     (let arrived = linkset_at m l
      in if lss_adjacent (spec_of m arrived) = Some opc then Some arrived
         else position (\<lambda>ls. lss_adjacent ls = Some opc) (tp_linksets (mg_topology m)))"

definition changeback_acknowledgement :: "link_id \<Rightarrow> u8 \<Rightarrow> management \<Rightarrow> management" where
  "changeback_acknowledgement l code m =
     (let k = mg_links m ! l;
          left = filter (\<lambda>(c, _). c \<noteq> code) (kl_declared k);
          matched = (length left \<noteq> length (kl_declared k) \<and> (\<exists>second. kl_phase k = PhChangebackDeclared second));
          m = set_link l (\<lambda>k. k\<lparr>kl_declared := left\<rparr>) m
      in if \<not> matched then mg_ignored (Cba code) ''no changeback declaration with that code is out'' m
         else if left = [] then finish_changeback l ChangebackAcknowledged m
         else m)"

definition link_message :: "from_value \<Rightarrow> link_id \<Rightarrow> mgmt_message \<Rightarrow> management \<Rightarrow> management" where
  "link_message fv l message m =
     (case message of
        Xco fsn \<Rightarrow> changeover_order fv l (Some fsn) False m
      | Coo _ \<Rightarrow> changeover_order fv l None True m
      | Eco \<Rightarrow> changeover_order fv l None False m
      | Xca fsn \<Rightarrow> changeover_acknowledgement fv l (Some fsn) message m
      | Coa _ \<Rightarrow> changeover_acknowledgement fv l None message m
      | Eca \<Rightarrow> changeover_acknowledgement fv l None message m
      | Cba code \<Rightarrow> changeback_acknowledgement l code m
      | Lin \<Rightarrow> inhibit_message fv l message m
      | Lun \<Rightarrow> inhibit_message fv l message m
      | Lia \<Rightarrow> inhibit_message fv l message m
      | Lua \<Rightarrow> inhibit_message fv l message m
      | Lid \<Rightarrow> inhibit_message fv l message m
      | Lfu \<Rightarrow> inhibit_message fv l message m
      | Llt \<Rightarrow> inhibit_message fv l message m
      | Lrt \<Rightarrow> inhibit_message fv l message m
      | Dlc \<Rightarrow> mg_ignored message ''signalling data links are not allocated on request'' m
      | Css \<Rightarrow> mg_ignored message ''signalling data links are not allocated on request'' m
      | Cns \<Rightarrow> mg_ignored message ''signalling data links are not allocated on request'' m
      | Cnp \<Rightarrow> mg_ignored message ''signalling data links are not allocated on request'' m
      | _ \<Rightarrow> mg_ignored message ''not a message about a link'' m)"

definition restart_message :: "mgmt_message \<Rightarrow> bool" where
  "restart_message message =
     (case message of Tfp _ \<Rightarrow> True | Tfr _ \<Rightarrow> True | Tfa _ \<Rightarrow> True | Tra \<Rightarrow> True | _ \<Rightarrow> False)"

definition received_from :: "from_value \<Rightarrow> linkset_id \<Rightarrow> u8 \<Rightarrow> mgmt_message \<Rightarrow> management \<Rightarrow> management" where
  "received_from fv s slc message m =
     (if mg_restarting m \<and> \<not> restart_message message then mg_ignored message ''this node is restarting'' m
      else case message of
        Tfp d \<Rightarrow> route_message s (pc_value d) Prohibited message m
      | Tfr d \<Rightarrow> route_message s (pc_value d) Restricted message m
      | Tfa d \<Rightarrow> route_message s (pc_value d) Allowed message m
      | Rst d \<Rightarrow> route_set_test fv s (pc_value d) Prohibited m
      | Rsr d \<Rightarrow> route_set_test fv s (pc_value d) Restricted m
      | Tra \<Rightarrow> traffic_restart_allowed fv s m
      | Cbd code \<Rightarrow> mg_tell s slc (Cba code) m
      | _ \<Rightarrow>
          (case find (\<lambda>l. slc_at m l = slc) (lss_links (spec_of m s)) of
             None \<Rightarrow> mg_ignored message ''the linkset has no link with that code'' m
           | Some l \<Rightarrow> link_message fv l message m))"

definition mg_received :: "from_value \<Rightarrow> link_id \<Rightarrow> u32 \<Rightarrow> u8 \<Rightarrow> mgmt_message \<Rightarrow> management \<Rightarrow> management" where
  "mg_received fv arrived opc slc message m =
     (case message of
        Tfc d status \<Rightarrow>
          if \<not> mg_restarting m then push (MaCongestion (pc_value d) status) m
          else mg_ignored message ''this node is restarting'' m
      | Upu _ _ _ \<Rightarrow> mg_ignored message ''no user part of this node sent to that destination'' m
      | Rct \<Rightarrow> mg_ignored message ''discarded at its destination'' m
      | _ \<Rightarrow>
          (case linkset_of m opc arrived of
             None \<Rightarrow> mg_ignored message ''its originating point is not an adjacent point'' m
           | Some s \<Rightarrow> received_from fv s slc message m))"

section \<open>Time-outs\<close>

definition repeat_changeback :: "link_id \<Rightarrow> management \<Rightarrow> management" where
  "repeat_changeback l m =
     (let m = fold (\<lambda>(code, alternative). mg_send (linkset_at m l) (slc_at m l) (Cbd code) (PathBehind alternative))
                (kl_declared (mg_links m ! l)) m;
          m = set_phase l (PhChangebackDeclared True) m
      in push (MaStart (TmChangeback l) (mt_t5 (mg_timers m))) m)"

definition repeat_uninhibit :: "link_id \<Rightarrow> bool \<Rightarrow> management \<Rightarrow> management" where
  "repeat_uninhibit l force m =
     (let k = mg_links m ! l;
          attempts = (if force then kl_force_attempts k else kl_uninhibit_attempts k);
          set_attempts = (\<lambda>n. set_link l (\<lambda>k. if force then k\<lparr>kl_force_attempts := n\<rparr> else k\<lparr>kl_uninhibit_attempts := n\<rparr>))
      in if attempts = 0 then m
         else if attempts = 1 then
           set_attempts 2
             (push (if force then MaStart (TmForceUninhibit l) (mt_t13 (mg_timers m))
                    else MaStart (TmUninhibit l) (mt_t12 (mg_timers m)))
               (mg_send (linkset_at m l) (slc_at m l) (if force then Lfu else Lun) (link_or_route m l) m))
         else set_attempts 0 (mg_note UninhibitAbandoned (SjLink l) m))"

definition release_destination :: "u32 \<Rightarrow> management \<Rightarrow> management" where
  "release_destination dpc m =
     (case dest_of m dpc of
        None \<Rightarrow> m
      | Some d \<Rightarrow>
          if kd_holding d then
            push (MaReleaseDestination dpc) (fold push (kd_deferred d)
              (set_dest dpc (\<lambda>d. d\<lparr>kd_holding := False, kd_deferred := []\<rparr>) m))
          else m)"

definition repeat_test :: "from_value \<Rightarrow> u32 \<Rightarrow> linkset_id \<Rightarrow> management \<Rightarrow> management" where
  "repeat_test fv dpc s m =
     (case Option.bind (dest_of m dpc) (\<lambda>d. find (\<lambda>r. kr_via r = ViaLinkset s) (kd_routes d)) of
        None \<Rightarrow> m
      | Some r \<Rightarrow>
          (case (case kr_status r of Prohibited \<Rightarrow> about fv dpc Rst | Restricted \<Rightarrow> about fv dpc Rsr | Allowed \<Rightarrow> None) of
             None \<Rightarrow> m
           | Some message \<Rightarrow>
               let m = (if \<not> mg_restarting m \<and> can_tell m s then mg_tell s 0 message m else m)
               in push (MaStart (TmRouteSetTest dpc s) (mt_t10 (mg_timers m))) m))"

definition test_inhibited :: "link_id \<Rightarrow> management \<Rightarrow> management" where
  "test_inhibited l m =
     (if kl_remote_inhibited (mg_links m ! l) then
        push (MaStart (TmInhibitTest l) (mt_t23 (mg_timers m)))
          (mg_send (linkset_at m l) (slc_at m l) Lrt (link_or_route m l) m)
      else m)"

definition changeover_expired :: "from_value \<Rightarrow> link_id \<Rightarrow> management \<Rightarrow> management" where
  "changeover_expired fv l m =
     (case kl_phase (mg_links m ! l) of
        PhChangeoverOrdered \<Rightarrow> complete_changeover fv l None (Some ChangeoverUnacknowledged) m
      | PhChangeoverTimed \<Rightarrow> complete_changeover fv l None (Some ChangeoverTimeControlled) m
      | _ \<Rightarrow> m)"

definition changeback_expired :: "link_id \<Rightarrow> management \<Rightarrow> management" where
  "changeback_expired l m =
     (case kl_phase (mg_links m ! l) of
        PhChangebackDeclared second \<Rightarrow>
          if \<not> second then repeat_changeback l m else finish_changeback l ChangebackUnacknowledged m
      | PhChangebackTimed \<Rightarrow> finish_changeback l ChangebackTimeControlled m
      | _ \<Rightarrow> m)"

fun mg_timeout :: "from_value \<Rightarrow> mg_timer \<Rightarrow> management \<Rightarrow> management" where
  "mg_timeout fv (TmChangeover l) m = (if l < length (mg_links m) then changeover_expired fv l m else m)"
| "mg_timeout fv (TmChangeback l) m = (if l < length (mg_links m) then changeback_expired l m else m)"
| "mg_timeout fv (TmRerouting dpc) m = release_destination dpc m"
| "mg_timeout fv (TmProhibited dpc) m = m\<lparr>mg_guarded := mg_guarded m - {dpc}\<rparr>"
| "mg_timeout fv (TmRouteSetTest dpc s) m = (if s < length (mg_linksets m) then repeat_test fv dpc s m else m)"
| "mg_timeout fv (TmUninhibit l) m = (if l < length (mg_links m) then repeat_uninhibit l False m else m)"
| "mg_timeout fv (TmForceUninhibit l) m = (if l < length (mg_links m) then repeat_uninhibit l True m else m)"
| "mg_timeout fv (TmInhibitTest l) m = (if l < length (mg_links m) then test_inhibited l m else m)"
| "mg_timeout fv TmRestart m = end_restart fv m"
| "mg_timeout fv TmRestartOverall m = end_restart fv m"
| "mg_timeout fv (TmRestartAllowed s) m =
     (if s < length (mg_linksets m) then set_linkset s (\<lambda>k. k\<lparr>ks_guard := False\<rparr>) m else m)"
| "mg_timeout fv (TmAdjacentRestart s) m =
     (if s < length (mg_linksets m) \<and> ks_restarting (mg_linksets m ! s)
      then end_adjacent_restart fv s AdjacentRestartExpired m else m)"
| "mg_timeout fv TmIsolation m = (if mg_isolated m then m\<lparr>mg_restart_due := True\<rparr> else m)"

section \<open>One event\<close>

fun mg_event :: "from_value \<Rightarrow> mg_input \<Rightarrow> management \<Rightarrow> management" where
  "mg_event fv (MiLinkUp l) m = (if l < length (mg_links m) then link_up fv l m else m)"
| "mg_event fv (MiLinkDown l bsnt) m = (if l < length (mg_links m) then link_down fv l bsnt m else m)"
| "mg_event fv (MiReceived l opc slc message) m =
     (if l < length (mg_links m) then mg_received fv l opc slc message m else m)"
| "mg_event fv (MiTimeout t) m = mg_timeout fv t m"
| "mg_event fv (MiUnroutable dpc l) m = (if l < length (mg_links m) then unroutable fv dpc l m else m)"
| "mg_event fv (MiServer i up) m = (if i < length (mg_servers m) then m\<lparr>mg_servers := (mg_servers m)[i := up]\<rparr> else m)"
| "mg_event fv (MiPaused dpc paused) m = set_dest dpc (\<lambda>d. d\<lparr>kd_paused := paused\<rparr>) m"

definition settles :: "mg_input \<Rightarrow> management \<Rightarrow> bool" where
  "settles input m = (case input of MiUnroutable _ l \<Rightarrow> \<not> l < length (mg_links m) | _ \<Rightarrow> True)"

definition mg_process :: "from_value \<Rightarrow> mg_input \<Rightarrow> management \<Rightarrow> management" where
  "mg_process fv input m =
     (let m' = mg_event fv input m in if settles input m then watch_isolation (settle fv m') else m')"

definition mg_handle :: "from_value \<Rightarrow> mg_input \<Rightarrow> management \<Rightarrow> management \<times> mg_action list" where
  "mg_handle fv input m = (let m' = mg_process fv input m in (m'\<lparr>mg_out := []\<rparr>, mg_out m'))"

definition is_accessible :: "management \<Rightarrow> u32 \<Rightarrow> bool" where
  "is_accessible m dpc = (case dest_of m dpc of Some d \<Rightarrow> kd_accessible d | None \<Rightarrow> False)"

definition mg_carries :: "management \<Rightarrow> link_id \<Rightarrow> bool" where
  "mg_carries m l \<longleftrightarrow> l < length (mg_links m) \<and> link_available None m l"

definition is_inhibited :: "management \<Rightarrow> link_id \<Rightarrow> bool" where
  "is_inhibited m l \<longleftrightarrow> l < length (mg_links m) \<and> kl_remote_inhibited (mg_links m ! l)"

end
