(* ===== verification/Mgmt_Settle.thy ===== *)
theory Mgmt_Settle
  imports Mtp3_Management
begin

text \<open>
  The rule of \<^verbatim>\<open>Management::settle\<close>: after an event, what the node believes of every destination
  and what it has told every adjacent point is exactly what its links, servers and routes say.
\<close>

section \<open>What availability depends on\<close>

definition same_routing :: "mg_destination \<Rightarrow> mg_destination \<Rightarrow> bool" where
  "same_routing d d' \<longleftrightarrow> kd_routes d' = kd_routes d \<and> kd_paused d' = kd_paused d"

definition same_basis :: "management \<Rightarrow> management \<Rightarrow> bool" where
  "same_basis m m' \<longleftrightarrow> mg_topology m' = mg_topology m \<and> mg_links m' = mg_links m \<and> mg_servers m' = mg_servers m \<and>
     map fst (mg_destinations m') = map fst (mg_destinations m) \<and>
     (\<forall>dpc. rel_option same_routing (dest_of m dpc) (dest_of m' dpc))"

lemma same_routing_refl [simp]: "same_routing d d"
  by (simp add: same_routing_def)

lemma same_basis_refl: "same_basis m m"
  by (simp add: same_basis_def option.rel_refl)

lemma same_routing_trans: "same_routing a b \<Longrightarrow> same_routing b c \<Longrightarrow> same_routing a c"
  by (simp add: same_routing_def)

lemma rel_option_trans:
  assumes "rel_option R a b" "rel_option R b c" "\<And>x y z. R x y \<Longrightarrow> R y z \<Longrightarrow> R x z"
  shows "rel_option R a c"
  using assms(1,2) by (cases a; cases b; cases c) (auto intro: assms(3))

lemma same_basis_trans:
  assumes "same_basis a b" and "same_basis b c"
  shows "same_basis a c"
proof -
  have "rel_option same_routing (dest_of a dpc) (dest_of c dpc)" for dpc
    by (rule rel_option_trans [where b = "dest_of b dpc"]) (use assms in \<open>auto simp: same_basis_def intro: same_routing_trans\<close>)
  then show ?thesis using assms by (simp add: same_basis_def)
qed

lemma basis_dest:
  assumes "same_basis m m'"
  obtains (none) "dest_of m dpc = None" "dest_of m' dpc = None"
    | (some) d d' where "dest_of m dpc = Some d" "dest_of m' dpc = Some d'" "same_routing d d'"
proof -
  have "rel_option same_routing (dest_of m dpc) (dest_of m' dpc)" using assms by (simp add: same_basis_def)
  then show thesis by (cases rule: option.rel_cases) (auto intro: that)
qed

lemma basis_spec: "same_basis m m' \<Longrightarrow> spec_of m' = spec_of m"
  by (simp add: same_basis_def spec_of_def fun_eq_iff)

lemma basis_usable: "same_basis m m' \<Longrightarrow> same_routing d d' \<Longrightarrow> mg_usable w m' d' = mg_usable w m d"
  by (simp add: same_basis_def same_routing_def mg_usable_def linkset_available_def link_available_def spec_of_def fun_eq_iff
      split: via.split)

lemma basis_in_use:
  assumes "same_basis m m'"
  shows "in_use w m' dpc = in_use w m dpc"
  using assms
proof (cases rule: basis_dest [where dpc = dpc])
  case (some d d')
  then show ?thesis using basis_usable [OF assms some(3)] by (simp add: in_use_def same_routing_def)
qed (simp add: in_use_def)

lemma basis_reachable: "same_basis m m' \<Longrightarrow> reachable w m' dpc = reachable w m dpc"
  by (simp add: reachable_def basis_in_use)

lemma basis_only_restricted:
  assumes "same_basis m m'"
  shows "only_restricted m' dpc = only_restricted m dpc"
  using assms
proof (cases rule: basis_dest [where dpc = dpc])
  case (some d d')
  then show ?thesis using basis_in_use [OF assms] basis_usable [OF assms some(3)]
    by (simp add: only_restricted_def same_routing_def)
qed (simp add: only_restricted_def)

lemma basis_prohibited:
  assumes "same_basis m m'"
  shows "prohibited_toward m' dpc s = prohibited_toward m dpc s"
  using assms
proof (cases rule: basis_dest [where dpc = dpc])
  case (some d d')
  then show ?thesis using basis_in_use [OF assms] by (simp add: prohibited_toward_def same_routing_def)
qed (simp add: prohibited_toward_def)

lemma basis_signalling: "same_basis m m' \<Longrightarrow> linkset_signalling m' s = linkset_signalling m s"
  by (simp add: linkset_signalling_def basis_spec) (simp add: same_basis_def)

lemma basis_can_tell: "same_basis m m' \<Longrightarrow> can_tell m' s = can_tell m s"
  by (simp add: can_tell_def basis_signalling basis_spec basis_reachable split: option.split)

lemmas basis_facts = basis_in_use basis_reachable basis_only_restricted basis_prohibited basis_can_tell basis_spec

section \<open>One element changed\<close>

lemma dest_of_push [simp]: "dest_of (push a m) dpc = dest_of m dpc"
  by (simp add: dest_of_def push_def)

lemma dest_of_set_dest [simp]: "dest_of (set_dest dpc f m) k = (if k = dpc then map_option f (dest_of m k) else dest_of m k)"
  by (simp add: dest_of_def set_dest_def map_option.identity)

lemma dest_of_set_linkset [simp]: "dest_of (set_linkset s f m) k = dest_of m k"
  by (simp add: dest_of_def set_linkset_def)

lemma push_fields [simp]:
  "mg_topology (push a m) = mg_topology m" "mg_links (push a m) = mg_links m" "mg_servers (push a m) = mg_servers m"
  "mg_destinations (push a m) = mg_destinations m" "mg_linksets (push a m) = mg_linksets m"
  "mg_restarting (push a m) = mg_restarting m" "mg_guarded (push a m) = mg_guarded m" "mg_timers (push a m) = mg_timers m"
  "mg_isolated (push a m) = mg_isolated m" "mg_out (push a m) = mg_out m @ [a]"
  by (simp_all add: push_def)

lemma set_dest_fields [simp]:
  "mg_topology (set_dest dpc f m) = mg_topology m" "mg_links (set_dest dpc f m) = mg_links m"
  "mg_servers (set_dest dpc f m) = mg_servers m" "mg_linksets (set_dest dpc f m) = mg_linksets m"
  "mg_restarting (set_dest dpc f m) = mg_restarting m" "mg_guarded (set_dest dpc f m) = mg_guarded m"
  "mg_timers (set_dest dpc f m) = mg_timers m" "mg_isolated (set_dest dpc f m) = mg_isolated m"
  "mg_out (set_dest dpc f m) = mg_out m" "map fst (mg_destinations (set_dest dpc f m)) = map fst (mg_destinations m)"
  by (simp_all add: set_dest_def)

lemma set_linkset_fields [simp]:
  "mg_topology (set_linkset s f m) = mg_topology m" "mg_links (set_linkset s f m) = mg_links m"
  "mg_servers (set_linkset s f m) = mg_servers m" "mg_destinations (set_linkset s f m) = mg_destinations m"
  "mg_restarting (set_linkset s f m) = mg_restarting m" "mg_guarded (set_linkset s f m) = mg_guarded m"
  "mg_timers (set_linkset s f m) = mg_timers m" "mg_isolated (set_linkset s f m) = mg_isolated m"
  "mg_out (set_linkset s f m) = mg_out m"
  "mg_linksets (set_linkset s f m) = (mg_linksets m)[s := f (mg_linksets m ! s)]"
  by (simp_all add: set_linkset_def)

lemma mg_guard_fields [simp]:
  "mg_topology (mg_guard dpc m) = mg_topology m" "mg_links (mg_guard dpc m) = mg_links m"
  "mg_servers (mg_guard dpc m) = mg_servers m" "mg_destinations (mg_guard dpc m) = mg_destinations m"
  "mg_linksets (mg_guard dpc m) = mg_linksets m" "mg_restarting (mg_guard dpc m) = mg_restarting m"
  "dest_of (mg_guard dpc m) k = dest_of m k"
  by (simp_all add: mg_guard_def dest_of_def)

lemma basis_push: "same_basis m (push a m)"
  by (simp add: same_basis_def option.rel_refl)

lemma basis_guard: "same_basis m (mg_guard dpc m)"
  by (simp add: same_basis_def option.rel_refl)

lemma basis_set_linkset: "same_basis m (set_linkset s f m)"
  by (simp add: same_basis_def option.rel_refl)

lemma basis_set_dest: "(\<And>d. same_routing d (f d)) \<Longrightarrow> same_basis m (set_dest dpc f m)"
  by (auto simp: same_basis_def option.rel_refl option.rel_map intro!: option.rel_refl)

section \<open>The rule\<close>

lemma settle_destination_basis: "same_basis m (settle_destination dpc m)"
  unfolding settle_destination_def Let_def
  by (auto split: option.split simp: same_basis_refl same_routing_def
      intro!: same_basis_trans [OF _ basis_push] same_basis_trans [OF _ basis_guard] same_basis_trans [OF _ basis_set_dest])

lemma settle_destination_fields [simp]:
  "mg_linksets (settle_destination dpc m) = mg_linksets m" "mg_restarting (settle_destination dpc m) = mg_restarting m"
  by (simp_all add: settle_destination_def Let_def split: option.split)

lemma settle_destination_dest:
  "dest_of (settle_destination dpc m) k =
     (if k = dpc then map_option (\<lambda>d. d\<lparr>kd_accessible := reachable None m dpc,
        kd_restricted := reachable None m dpc \<and> only_restricted m dpc\<rparr>) (dest_of m k)
      else dest_of m k)"
  by (auto simp: settle_destination_def Let_def split: option.split)

lemma settle_destinations:
  "let m' = fold settle_destination dpcs m
   in same_basis m m' \<and> mg_linksets m' = mg_linksets m \<and> mg_restarting m' = mg_restarting m \<and>
      (\<forall>k. dest_of m' k =
        (if k \<in> set dpcs then map_option (\<lambda>d. d\<lparr>kd_accessible := reachable None m k,
            kd_restricted := reachable None m k \<and> only_restricted m k\<rparr>) (dest_of m k)
         else dest_of m k))"
proof (induction dpcs arbitrary: m)
  case Nil
  then show ?case by (simp add: same_basis_refl)
next
  case (Cons dpc dpcs)
  have b: "same_basis m (settle_destination dpc m)" by (rule settle_destination_basis)
  show ?case using Cons.IH [of "settle_destination dpc m"] same_basis_trans [OF b]
    by (auto simp: Let_def settle_destination_dest basis_facts [OF b] option.map_comp comp_def)
qed

lemma settle_tell_basis: "same_basis m (settle_tell fv s adjacent dpc m)"
  unfolding settle_tell_def Let_def
  by (auto split: option.split simp: same_basis_refl same_routing_def
      intro!: same_basis_trans [OF _ basis_push] basis_set_dest)

lemma settle_tell_fields [simp]:
  "mg_linksets (settle_tell fv s adjacent dpc m) = mg_linksets m"
  "mg_restarting (settle_tell fv s adjacent dpc m) = mg_restarting m"
  by (simp_all add: settle_tell_def Let_def split: option.split)

lemma settle_tell_dest:
  "dest_of (settle_tell fv s adjacent dpc m) k =
     (if k = dpc \<and> dpc \<noteq> adjacent then
        map_option (\<lambda>d. d\<lparr>kd_told := (if prohibited_toward m dpc s then insert s (kd_told d) else kd_told d - {s})\<rparr>) (dest_of m k)
      else dest_of m k)"
  by (auto simp: settle_tell_def Let_def insert_absorb split: option.split)

lemma settle_tells:
  "let m' = fold (settle_tell fv s adjacent) dpcs m
   in same_basis m m' \<and> mg_linksets m' = mg_linksets m \<and> mg_restarting m' = mg_restarting m \<and>
      (\<forall>k. dest_of m' k =
        (if k \<in> set dpcs \<and> k \<noteq> adjacent then
           map_option (\<lambda>d. d\<lparr>kd_told := (if prohibited_toward m k s then insert s (kd_told d) else kd_told d - {s})\<rparr>) (dest_of m k)
         else dest_of m k))"
proof (induction dpcs arbitrary: m)
  case Nil
  then show ?case by (simp add: same_basis_refl)
next
  case (Cons dpc dpcs)
  have b: "same_basis m (settle_tell fv s adjacent dpc m)" by (rule settle_tell_basis)
  show ?case using Cons.IH [of "settle_tell fv s adjacent dpc m"] same_basis_trans [OF b]
    by (auto simp: Let_def settle_tell_dest basis_facts [OF b] option.map_comp comp_def insert_absorb cong: if_cong)
qed

definition told_right :: "management \<Rightarrow> linkset_id \<Rightarrow> bool" where
  "told_right m s =
     (case lss_adjacent (spec_of m s) of
        None \<Rightarrow> True
      | Some adjacent \<Rightarrow>
          if can_tell m s then
            ks_synced (mg_linksets m ! s) \<and>
            (\<forall>dpc d. dest_of m dpc = Some d \<and> dpc \<noteq> adjacent \<longrightarrow> (s \<in> kd_told d \<longleftrightarrow> prohibited_toward m dpc s))
          else \<not> ks_synced (mg_linksets m ! s))"

lemma mg_resync_facts:
  "same_basis m (mg_resync s m)" "mg_restarting (mg_resync s m) = mg_restarting m"
  "mg_linksets (mg_resync s m) = (mg_linksets m)[s := (mg_linksets m ! s)\<lparr>ks_synced := True\<rparr>]"
  "dest_of (mg_resync s m) k = (if ks_synced (mg_linksets m ! s) then dest_of m k
     else map_option (\<lambda>d. d\<lparr>kd_told := kd_told d - {s}\<rparr>) (dest_of m k))"
proof -
  show "same_basis m (mg_resync s m)"
    by (auto simp: mg_resync_def same_basis_def dest_of_def option.rel_map option.rel_refl same_routing_def set_linkset_def)
  show "mg_restarting (mg_resync s m) = mg_restarting m"
    by (simp add: mg_resync_def set_linkset_def)
  have "k\<lparr>ks_synced := True\<rparr> = k" if "ks_synced k" for k :: mg_linkset using that by (cases k) simp
  then have "(mg_linksets m)[s := (mg_linksets m ! s)\<lparr>ks_synced := True\<rparr>] = mg_linksets m" if "ks_synced (mg_linksets m ! s)"
    using that by (metis list_update_id)
  then show "mg_linksets (mg_resync s m) = (mg_linksets m)[s := (mg_linksets m ! s)\<lparr>ks_synced := True\<rparr>]"
    by (simp add: mg_resync_def set_linkset_def)
  show "dest_of (mg_resync s m) k = (if ks_synced (mg_linksets m ! s) then dest_of m k
     else map_option (\<lambda>d. d\<lparr>kd_told := kd_told d - {s}\<rparr>) (dest_of m k))"
    by (simp add: mg_resync_def dest_of_def set_linkset_def)
qed

text \<open>What settling one linkset keeps of a destination for another.\<close>

definition keeps_other :: "linkset_id \<Rightarrow> mg_destination \<Rightarrow> mg_destination \<Rightarrow> bool" where
  "keeps_other s d d' \<longleftrightarrow> same_routing d d' \<and> kd_accessible d' = kd_accessible d \<and> kd_restricted d' = kd_restricted d \<and>
     kd_told d' - {s} = kd_told d - {s}"

lemma settle_linkset_facts:
  assumes "s < length (mg_linksets m)" and "map fst (mg_destinations m) = dpcs"
  shows "let m' = settle_linkset fv dpcs s m
    in same_basis m m' \<and> mg_restarting m' = mg_restarting m \<and> length (mg_linksets m') = length (mg_linksets m) \<and>
       (\<forall>s'. s' \<noteq> s \<longrightarrow> mg_linksets m' ! s' = mg_linksets m ! s') \<and>
       (\<forall>k. rel_option (keeps_other s) (dest_of m k) (dest_of m' k)) \<and> told_right m' s"
proof (cases "lss_adjacent (spec_of m s)")
  case None
  then show ?thesis
    by (auto simp: settle_linkset_def told_right_def same_basis_refl keeps_other_def intro!: option.rel_refl)
next
  case adj: (Some adjacent)
  show ?thesis
  proof (cases "can_tell m s")
    case False
    have b: "same_basis m (set_linkset s (\<lambda>k. k\<lparr>ks_synced := False\<rparr>) m)" by (rule basis_set_linkset)
    show ?thesis using False adj assms(1) b
      by (auto simp: settle_linkset_def told_right_def Let_def basis_facts [OF b] keeps_other_def intro!: option.rel_refl)
  next
    case True
    let ?r = "mg_resync s m"
    let ?m = "fold (settle_tell fv s adjacent) dpcs ?r"
    note R = mg_resync_facts [where s = s and m = m]
    note T = settle_tells [where fv = fv and s = s and adjacent = adjacent and dpcs = dpcs and m = ?r, unfolded Let_def]
    have b: "same_basis m ?m" using R(1) T same_basis_trans by blast
    have dest: "dest_of ?m k = (if k \<in> set dpcs \<and> k \<noteq> adjacent then
           map_option (\<lambda>d. d\<lparr>kd_told := (if prohibited_toward m k s then insert s (kd_told d) else kd_told d - {s})\<rparr>) (dest_of ?r k)
         else dest_of ?r k)" for k
      using T basis_prohibited [OF R(1)] by simp
    have keep: "rel_option (keeps_other s) (dest_of m k) (dest_of ?m k)" for k
      unfolding dest R(4) by (auto simp: option.rel_map keeps_other_def same_routing_def intro!: option.rel_refl)
    have "s \<in> kd_told d \<longleftrightarrow> prohibited_toward m dpc s" if "dest_of ?m dpc = Some d" "dpc \<noteq> adjacent" for dpc d
    proof -
      have "dest_of m dpc \<noteq> None" using keep [of dpc] that(1) by (cases "dest_of m dpc") auto
      then have "dpc \<in> set (map fst (mg_destinations m))"
        using bt_get_dom [of dpc "mg_destinations m"] by (simp add: dest_of_def)
      then have "dpc \<in> set dpcs" unfolding assms(2) .
      then have "map_option (\<lambda>d. d\<lparr>kd_told := (if prohibited_toward m dpc s then insert s (kd_told d) else kd_told d - {s})\<rparr>)
          (dest_of ?r dpc) = Some d"
        using that dest [of dpc] by simp
      then obtain z where "d = z\<lparr>kd_told := (if prohibited_toward m dpc s then insert s (kd_told z) else kd_told z - {s})\<rparr>"
        by blast
      then show ?thesis by simp
    qed
    moreover have "mg_linksets ?m = mg_linksets ?r" using T by blast
    then have "ks_synced (mg_linksets ?m ! s)" using assms(1) by (simp add: R(3))
    ultimately have "told_right ?m s"
      unfolding told_right_def basis_facts [OF b] adj option.case using True by auto
    moreover have "settle_linkset fv dpcs s m = ?m" using adj True by (simp add: settle_linkset_def)
    ultimately show ?thesis using b keep T R(2,3) by (auto simp: Let_def)
  qed
qed

lemma told_right_kept:
  assumes "told_right m s'" and "s' \<noteq> s" and "same_basis m m'" and "mg_linksets m' ! s' = mg_linksets m ! s'"
    and "\<And>k. rel_option (keeps_other s) (dest_of m k) (dest_of m' k)"
  shows "told_right m' s'"
proof -
  have "s' \<in> kd_told d' \<longleftrightarrow> prohibited_toward m dpc s'"
    if "lss_adjacent (spec_of m s') = Some adj" "can_tell m s'" "dest_of m' dpc = Some d'" "dpc \<noteq> adj" for dpc d' adj
  proof -
    note given = that
    obtain d where d: "dest_of m dpc = Some d" "keeps_other s d d'"
      using assms(5) [of dpc] given(3) by (cases "dest_of m dpc") auto
    then have "s' \<in> kd_told d' \<longleftrightarrow> s' \<in> kd_told d" using assms(2) unfolding keeps_other_def by blast
    then show ?thesis using assms(1) d(1) given(1,2,4) by (auto simp: told_right_def)
  qed
  then show ?thesis using assms(1,4) by (auto simp: told_right_def basis_facts [OF assms(3)] split: option.splits if_splits)
qed

definition believes_right :: "management \<Rightarrow> bool" where
  "believes_right m \<longleftrightarrow> (\<forall>dpc d. dest_of m dpc = Some d \<longrightarrow>
     kd_accessible d = reachable None m dpc \<and> kd_restricted d = (reachable None m dpc \<and> only_restricted m dpc))"

text \<open>The node is settled: its own beliefs are right and, unless it restarts, so are those of its neighbours.\<close>

definition settled :: "management \<Rightarrow> bool" where
  "settled m \<longleftrightarrow> believes_right m \<and> (if mg_restarting m then True else (\<forall>s < length (mg_linksets m). told_right m s))"

lemma believes_right_kept:
  assumes "believes_right m" and b: "same_basis m m'" and "\<And>k. rel_option (keeps_other s) (dest_of m k) (dest_of m' k)"
  shows "believes_right m'"
  unfolding believes_right_def
proof (intro allI impI)
  fix dpc d'
  assume "dest_of m' dpc = Some d'"
  then obtain d where "dest_of m dpc = Some d" "keeps_other s d d'"
    using assms(3) [of dpc] by (cases "dest_of m dpc") auto
  then show "kd_accessible d' = reachable None m' dpc \<and> kd_restricted d' = (reachable None m' dpc \<and> only_restricted m' dpc)"
    using assms(1) by (auto simp: believes_right_def keeps_other_def basis_facts [OF b])
qed

lemma settle_linksets:
  assumes "believes_right m" and "map fst (mg_destinations m) = dpcs" and "n \<le> length (mg_linksets m)"
  shows "let m' = fold (settle_linkset fv dpcs) [0..<n] m
    in believes_right m' \<and> map fst (mg_destinations m') = dpcs \<and> length (mg_linksets m') = length (mg_linksets m) \<and>
       mg_restarting m' = mg_restarting m \<and> (\<forall>s < n. told_right m' s) \<and> same_basis m m'"
  using assms(3)
proof (induction n)
  case 0
  then show ?case using assms(1,2) by (simp add: same_basis_refl)
next
  case (Suc n)
  let ?m = "fold (settle_linkset fv dpcs) [0..<n] m"
  have IH: "believes_right ?m" "map fst (mg_destinations ?m) = dpcs" "length (mg_linksets ?m) = length (mg_linksets m)"
    "mg_restarting ?m = mg_restarting m" "\<forall>s < n. told_right ?m s" "same_basis m ?m"
    using Suc by (simp_all add: Let_def)
  have n: "n < length (mg_linksets ?m)" using Suc.prems IH(3) by simp
  note F = settle_linkset_facts [OF n IH(2), where fv = fv, unfolded Let_def]
  have keep: "same_basis ?m (settle_linkset fv dpcs n ?m)"
    "\<And>k. rel_option (keeps_other n) (dest_of ?m k) (dest_of (settle_linkset fv dpcs n ?m) k)" using F by blast+
  have "told_right (settle_linkset fv dpcs n ?m) s" if "s < Suc n" for s
  proof (cases "s = n")
    case False
    then show ?thesis using told_right_kept [OF _ False keep(1) _ keep(2)] IH(5) F that by auto
  qed (use F in simp)
  moreover have "map fst (mg_destinations (settle_linkset fv dpcs n ?m)) = dpcs"
    using keep(1) IH(2) by (simp add: same_basis_def)
  ultimately show ?case using F IH believes_right_kept [OF IH(1) keep] same_basis_trans [OF IH(6) keep(1)]
    by (simp add: Let_def)
qed

lemma settle_settled: "settled (settle fv m)"
proof -
  let ?dpcs = "map fst (mg_destinations m)"
  let ?m = "fold settle_destination ?dpcs m"
  note D = settle_destinations [of ?dpcs m, unfolded Let_def]
  have b: "same_basis m ?m" using D by blast
  have "believes_right ?m"
    unfolding believes_right_def
  proof (intro allI impI)
    fix dpc d
    assume "dest_of ?m dpc = Some d"
    moreover from this have "dpc \<in> set (map fst (mg_destinations ?m))"
      using bt_get_dom [of dpc "mg_destinations ?m"] by (simp add: dest_of_def)
    then have "dpc \<in> set ?dpcs" using b by (simp only: same_basis_def)
    ultimately show "kd_accessible d = reachable None ?m dpc \<and> kd_restricted d = (reachable None ?m dpc \<and> only_restricted ?m dpc)"
      using D by (auto simp: basis_facts [OF b])
  qed
  moreover have "map fst (mg_destinations ?m) = ?dpcs" using b by (simp add: same_basis_def)
  ultimately show ?thesis
    using settle_linksets [of ?m ?dpcs "length (mg_linksets ?m)" fv]
    by (auto simp: settle_def Let_def settled_def)
qed

lemma watch_isolation_fields [simp]:
  "dest_of (watch_isolation m) k = dest_of m k" "mg_linksets (watch_isolation m) = mg_linksets m"
  "mg_restarting (watch_isolation m) = mg_restarting m" "mg_links (watch_isolation m) = mg_links m"
  "mg_topology (watch_isolation m) = mg_topology m" "mg_servers (watch_isolation m) = mg_servers m"
  "mg_guarded (watch_isolation m) = mg_guarded m" "mg_destinations (watch_isolation m) = mg_destinations m"
  by (simp_all add: watch_isolation_def Let_def dest_of_def)

lemma settled_basis:
  assumes "same_basis m m'" and "\<And>k. dest_of m' k = dest_of m k" and "mg_linksets m' = mg_linksets m"
    and "mg_restarting m' = mg_restarting m"
  shows "settled m' = settled m"
  unfolding settled_def believes_right_def told_right_def basis_facts [OF assms(1)] assms(2-4) ..


end
