(* ===== verification/Mgmt_Guard.thy ===== *)
theory Mgmt_Guard
  imports Mgmt_Settle
begin

text \<open>
  What the actions of network management promise their caller. The caller runs the timers and keeps
  for each link whether its traffic is sent, held or diverted; \<open>observed\<close> are the facts it can see,
  and \<open>watch\<close> what one action changes of them. The invariant ties these facts to the state: every
  procedure in progress has its timer running, and the traffic of each link is where the phase of the
  link says.
\<close>

section \<open>What the caller sees\<close>

datatype observed = Running mg_timer | Held link_id | Opened link_id

fun watch :: "mg_action \<Rightarrow> observed set \<Rightarrow> observed set" where
  "watch (MaStart t _) A = insert (Running t) A"
| "watch (MaStop t) A = A - {Running t}"
| "watch (MaHold l) A = insert (Held l) (A - {Opened l})"
| "watch (MaOpen l) A = insert (Opened l) (A - {Held l})"
| "watch (MaDivert l _) A = A - {Held l, Opened l}"
| "watch _ A = A"

definition seen :: "observed set \<Rightarrow> management \<Rightarrow> observed set" where
  "seen A m = fold watch (mg_out m) A"

lemma seen_push [simp]: "seen A (push a m) = watch a (seen A m)"
  by (simp add: seen_def)

lemma seen_same [simp]:
  "seen A (set_dest dpc f m) = seen A m" "seen A (set_linkset s g m) = seen A m"
  "seen A (m\<lparr>mg_guarded := G\<rparr>) = seen A m" "seen A (m\<lparr>mg_restarting := b\<rparr>) = seen A m"
  "seen A (m\<lparr>mg_restart_due := b\<rparr>) = seen A m" "seen A (m\<lparr>mg_isolated := b\<rparr>) = seen A m"
  "seen A (m\<lparr>mg_next_code := c\<rparr>) = seen A m" "seen A (m\<lparr>mg_servers := sv\<rparr>) = seen A m"
  "seen A (m\<lparr>mg_linksets := ks\<rparr>) = seen A m" "seen A (m\<lparr>mg_destinations := ds\<rparr>) = seen A m"
  "seen A (set_link l h m) = seen A m"
  by (simp_all add: seen_def set_dest_def set_linkset_def set_link_def)

section \<open>The invariant\<close>

fun changeover_phase :: "phase \<Rightarrow> bool" where
  "changeover_phase PhChangeoverOrdered = True"
| "changeover_phase PhChangeoverTimed = True"
| "changeover_phase _ = False"

fun changeback_phase :: "phase \<Rightarrow> bool" where
  "changeback_phase (PhChangebackDeclared _) = True"
| "changeback_phase PhChangebackTimed = True"
| "changeback_phase _ = False"

lemma carrying_simps [simp]:
  "carrying_phase PhOpen" "carrying_phase (PhChangebackDeclared b)" "carrying_phase PhChangebackTimed"
  "\<not> carrying_phase PhClosed" "\<not> carrying_phase PhChangeoverOrdered" "\<not> carrying_phase PhChangeoverTimed"
  "\<not> carrying_phase PhAwaitRestart"
  by (simp_all add: carrying_phase_def)

text \<open>The timers of the inhibition of a link.\<close>

definition base_fine :: "observed set \<Rightarrow> mg_link \<Rightarrow> link_id \<Rightarrow> bool" where
  "base_fine A k l \<longleftrightarrow>
     (kl_remote_inhibited k \<longrightarrow> Running (TmInhibitTest l) \<in> A) \<and>
     (0 < kl_uninhibit_attempts k \<longrightarrow> Running (TmUninhibit l) \<in> A) \<and>
     (0 < kl_force_attempts k \<longrightarrow> Running (TmForceUninhibit l) \<in> A)"

text \<open>The timers and the traffic of the changeover and changeback of a link.\<close>

definition traffic_fine :: "observed set \<Rightarrow> mg_link \<Rightarrow> link_id \<Rightarrow> bool" where
  "traffic_fine A k l \<longleftrightarrow>
     (changeover_phase (kl_phase k) \<longrightarrow> Running (TmChangeover l) \<in> A) \<and>
     (changeback_phase (kl_phase k) \<longrightarrow> Running (TmChangeback l) \<in> A) \<and>
     (Opened l \<in> A \<longleftrightarrow> kl_phase k = PhOpen) \<and>
     (Held l \<in> A \<longleftrightarrow> changeover_phase (kl_phase k) \<or> changeback_phase (kl_phase k)) \<and>
     (carrying_phase (kl_phase k) \<or> kl_phase k = PhAwaitRestart \<longrightarrow> kl_up k \<and> \<not> kl_remote_inhibited k)"

text \<open>A link put in phase open whose traffic has not been opened yet.\<close>

definition about_to_open :: "observed set \<Rightarrow> mg_link \<Rightarrow> link_id \<Rightarrow> bool" where
  "about_to_open A k l \<longleftrightarrow> kl_phase k = PhOpen \<and> kl_up k \<and> \<not> kl_remote_inhibited k \<and> Opened l \<notin> A \<and> Held l \<notin> A"

definition waits_fine :: "management \<Rightarrow> link_id \<Rightarrow> bool" where
  "waits_fine m l \<longleftrightarrow> (kl_phase (mg_links m ! l) = PhAwaitRestart \<longrightarrow>
     mg_restarting m \<or> ks_restarting (mg_linksets m ! linkset_at m l))"

definition linkset_fine :: "observed set \<Rightarrow> mg_linkset \<Rightarrow> linkset_id \<Rightarrow> bool" where
  "linkset_fine A k s \<longleftrightarrow> (ks_restarting k \<longrightarrow> Running (TmAdjacentRestart s) \<in> A) \<and>
     (ks_guard k \<longrightarrow> Running (TmRestartAllowed s) \<in> A)"

fun route_mark :: "mg_action \<Rightarrow> bool" where
  "route_mark (MaRoute _ _ _) = True"
| "route_mark _ = False"

definition dest_fine :: "observed set \<Rightarrow> mg_destination \<Rightarrow> u32 \<Rightarrow> bool" where
  "dest_fine A d dpc \<longleftrightarrow> (kd_holding d \<longrightarrow> Running (TmRerouting dpc) \<in> A) \<and> list_all route_mark (kd_deferred d) \<and>
     (\<forall>i s. i < length (kd_routes d) \<and> kr_via (kd_routes d ! i) = ViaLinkset s \<and> kr_status (kd_routes d ! i) \<noteq> Allowed \<longrightarrow>
        Running (TmRouteSetTest dpc s) \<in> A \<and> position (\<lambda>r. kr_via r = ViaLinkset s) (kd_routes d) = Some i)"

definition node_fine :: "observed set \<Rightarrow> management \<Rightarrow> bool" where
  "node_fine A m \<longleftrightarrow> (mg_restarting m \<longrightarrow> Running TmRestart \<in> A \<and> Running TmRestartOverall \<in> A) \<and>
     (\<forall>dpc \<in> mg_guarded m. Running (TmProhibited dpc) \<in> A)"

definition topology_wf :: "topology \<Rightarrow> bool" where
  "topology_wf tp \<longleftrightarrow>
     (\<forall>l < length (tp_links tp). lks_linkset (tp_links tp ! l) < length (tp_linksets tp) \<and>
        l \<in> set (lss_links (tp_linksets tp ! lks_linkset (tp_links tp ! l)))) \<and>
     (\<forall>s < length (tp_linksets tp). distinct (lss_links (tp_linksets tp ! s)) \<and>
        (\<forall>l \<in> set (lss_links (tp_linksets tp ! s)). l < length (tp_links tp) \<and> lks_linkset (tp_links tp ! l) = s)) \<and>
     (\<forall>dpc rs r s. bt_get dpc (tp_routes tp) = Some rs \<and> r \<in> set rs \<and> rsp_via r = ViaLinkset s \<longrightarrow> s < length (tp_linksets tp))"

definition shape_fine :: "from_value \<Rightarrow> management \<Rightarrow> bool" where
  "shape_fine fv m \<longleftrightarrow> topology_wf (mg_topology m) \<and>
     length (mg_links m) = length (tp_links (mg_topology m)) \<and>
     length (mg_linksets m) = length (tp_linksets (mg_topology m)) \<and>
     (\<forall>dpc d. dest_of m dpc = Some d \<longrightarrow> fv dpc Itu \<noteq> None \<and>
        (\<forall>r \<in> set (kd_routes d). \<forall>s. kr_via r = ViaLinkset s \<longrightarrow> s < length (mg_linksets m)))"

text \<open>
  The invariant with exceptions: the links in \<open>L\<close> are being changed, those in \<open>P\<close> are about to open,
  those in \<open>W\<close> need not have a reason to wait.
\<close>

definition link_fine :: "observed set \<Rightarrow> link_id set \<Rightarrow> link_id set \<Rightarrow> link_id set \<Rightarrow> management \<Rightarrow> link_id \<Rightarrow> bool" where
  "link_fine A L P W m l \<longleftrightarrow> base_fine A (mg_links m ! l) l \<and>
     (if l \<in> P then about_to_open A (mg_links m ! l) l
      else l \<in> L \<or> traffic_fine A (mg_links m ! l) l \<and> (l \<in> W \<or> waits_fine m l))"

definition rest_fine :: "from_value \<Rightarrow> observed set \<Rightarrow> management \<Rightarrow> bool" where
  "rest_fine fv A m \<longleftrightarrow> shape_fine fv m \<and> node_fine A m \<and>
     (\<forall>s < length (mg_linksets m). linkset_fine A (mg_linksets m ! s) s) \<and>
     (\<forall>dpc d. dest_of m dpc = Some d \<longrightarrow> dest_fine A d dpc)"

definition fine :: "from_value \<Rightarrow> observed set \<Rightarrow> link_id set \<Rightarrow> link_id set \<Rightarrow> link_id set \<Rightarrow> management \<Rightarrow> bool" where
  "fine fv A L P W m \<longleftrightarrow> rest_fine fv A m \<and> (\<forall>l < length (mg_links m). link_fine A L P W m l)"

section \<open>Steps that keep it\<close>

definition traffic_fact :: "link_id \<Rightarrow> observed \<Rightarrow> bool" where
  "traffic_fact l x \<longleftrightarrow> x = Running (TmChangeover l) \<or> x = Running (TmChangeback l) \<or> x = Held l \<or> x = Opened l"

lemma fine_traffic:
  assumes "fine fv A L P W m" and "l \<in> L" and "l \<notin> P" and "\<And>x. \<not> traffic_fact l x \<Longrightarrow> x \<in> B \<longleftrightarrow> x \<in> A"
  shows "fine fv B L P W m"
proof -
  have base: "base_fine B k l' = base_fine A k l'" for k l'
    using assms(4) by (simp add: base_fine_def traffic_fact_def)
  have "traffic_fine B k l' = traffic_fine A k l'" "about_to_open B k l' = about_to_open A k l'" if "l' \<noteq> l" for k l'
    using that assms(4) by (simp_all add: traffic_fine_def about_to_open_def traffic_fact_def)
  then have "link_fine B L P W m l' = link_fine A L P W m l'" for l'
    using assms(2,3) base by (cases "l' = l") (simp_all add: link_fine_def)
  moreover have "rest_fine fv B m = rest_fine fv A m"
    using assms(4) by (simp add: rest_fine_def node_fine_def linkset_fine_def dest_fine_def traffic_fact_def)
  ultimately show ?thesis using assms(1) by (simp add: fine_def)
qed

lemma fine_start:
  assumes "fine fv A L P W m"
  shows "fine fv (insert (Running t) A) L P W m"
proof -
  have "link_fine A L P W m l \<Longrightarrow> link_fine (insert (Running t) A) L P W m l" for l
    by (auto simp: link_fine_def base_fine_def traffic_fine_def about_to_open_def split: if_splits)
  moreover have "rest_fine fv A m \<Longrightarrow> rest_fine fv (insert (Running t) A) m"
    by (auto simp: rest_fine_def node_fine_def linkset_fine_def dest_fine_def)
  ultimately show ?thesis using assms by (simp add: fine_def)
qed

lemma fine_cong:
  assumes "mg_topology m' = mg_topology m" "mg_links m' = mg_links m" "mg_linksets m' = mg_linksets m"
    "\<And>k. dest_of m' k = dest_of m k" "mg_restarting m' = mg_restarting m" "mg_guarded m' = mg_guarded m"
  shows "fine fv A L P W m' = fine fv A L P W m"
  using assms by (simp add: fine_def rest_fine_def link_fine_def shape_fine_def node_fine_def waits_fine_def linkset_at_def)

lemma fine_push [simp]: "fine fv A L P W (push a m) = fine fv A L P W m"
  by (rule fine_cong) simp_all

lemma fine_same [simp]:
  "fine fv A L P W (m\<lparr>mg_restart_due := b\<rparr>) = fine fv A L P W m"
  "fine fv A L P W (m\<lparr>mg_isolated := b\<rparr>) = fine fv A L P W m"
  "fine fv A L P W (m\<lparr>mg_next_code := c\<rparr>) = fine fv A L P W m"
  "fine fv A L P W (m\<lparr>mg_servers := sv\<rparr>) = fine fv A L P W m"
  "fine fv A L P W (m\<lparr>mg_out := os\<rparr>) = fine fv A L P W m"
  by (rule fine_cong; simp add: dest_of_def)+

lemma fine_weaken: "fine fv A L P W m \<Longrightarrow> L \<subseteq> L' \<Longrightarrow> W \<subseteq> W' \<Longrightarrow> fine fv A L' P W' m"
  unfolding fine_def link_fine_def by (smt (verit) subsetD)

text \<open>An action that is not about timers or traffic is not seen.\<close>

abbreviation ok :: "from_value \<Rightarrow> observed set \<Rightarrow> link_id set \<Rightarrow> link_id set \<Rightarrow> link_id set \<Rightarrow> management \<Rightarrow> bool" where
  "ok fv A0 L P W m \<equiv> fine fv (seen A0 m) L P W m"

lemma seen_send [simp]: "seen A (mg_send s slc message path m) = seen A m"
  by (simp add: mg_send_def split: option.split)

lemma fine_send [simp]: "fine fv A L P W (mg_send s slc message path m) = fine fv A L P W m"
  by (simp add: mg_send_def split: option.split)

lemma seen_note [simp]:
  "seen A (mg_note p sj m) = seen A m" "seen A (mg_ignored msg why m) = seen A m" "seen A (mg_tell s slc message m) = seen A m"
  by (simp_all add: mg_note_def mg_ignored_def mg_tell_def)

lemma fine_note [simp]:
  "fine fv A L P W (mg_note p sj m) = fine fv A L P W m" "fine fv A L P W (mg_ignored msg why m) = fine fv A L P W m"
  "fine fv A L P W (mg_tell s slc message m) = fine fv A L P W m"
  by (simp_all add: mg_note_def mg_ignored_def mg_tell_def)

lemma set_link_fields [simp]:
  "mg_topology (set_link l f m) = mg_topology m" "mg_servers (set_link l f m) = mg_servers m"
  "mg_linksets (set_link l f m) = mg_linksets m" "mg_destinations (set_link l f m) = mg_destinations m"
  "dest_of (set_link l f m) k = dest_of m k" "mg_restarting (set_link l f m) = mg_restarting m"
  "mg_guarded (set_link l f m) = mg_guarded m" "mg_timers (set_link l f m) = mg_timers m"
  "mg_isolated (set_link l f m) = mg_isolated m" "mg_out (set_link l f m) = mg_out m"
  "length (mg_links (set_link l f m)) = length (mg_links m)"
  "mg_links (set_link l f m) = (mg_links m)[l := f (mg_links m ! l)]"
  by (simp_all add: set_link_def dest_of_def)

text \<open>Changing a link that is excepted.\<close>

lemma fine_set_link:
  assumes "fine fv A L P W m" and "l \<in> L" and "l \<notin> P" and "base_fine A (f (mg_links m ! l)) l"
  shows "fine fv A L P W (set_link l f m)"
proof -
  have "link_fine A L P W (set_link l f m) l'" if "l' < length (mg_links m)" for l'
    using assms that by (cases "l' = l") (auto simp: fine_def link_fine_def waits_fine_def linkset_at_def)
  moreover have "rest_fine fv A (set_link l f m) = rest_fine fv A m"
    by (simp add: rest_fine_def shape_fine_def node_fine_def)
  ultimately show ?thesis using assms(1) by (simp add: fine_def)
qed

text \<open>Ending the exception of a link, and opening its traffic.\<close>

lemma fine_close:
  assumes "fine fv A (insert l L) P W m" and "l \<notin> P"
    and "l < length (mg_links m) \<Longrightarrow> traffic_fine A (mg_links m ! l) l \<and> (l \<in> W \<or> waits_fine m l)"
  shows "fine fv A L P W m"
  using assms unfolding fine_def link_fine_def by (metis insert_iff)

lemma fine_opened:
  assumes "fine fv A L (insert l P) W m" and "l < length (mg_links m)"
  shows "fine fv (watch (MaOpen l) A) L (P - {l}) W m"
proof -
  define B where B: "B = watch (MaOpen l) A"
  have base: "base_fine B k l' = base_fine A k l'" for k l' by (auto simp: base_fine_def B)
  have other: "traffic_fine B k l' = traffic_fine A k l'" "about_to_open B k l' = about_to_open A k l'" if "l' \<noteq> l" for k l'
    using that by (auto simp: traffic_fine_def about_to_open_def B)
  have "about_to_open A (mg_links m ! l) l" using assms unfolding fine_def link_fine_def by auto
  then have "traffic_fine B (mg_links m ! l) l" "waits_fine m l"
    by (auto simp: about_to_open_def traffic_fine_def waits_fine_def B)
  then have "link_fine B L (P - {l}) W m l'" if "l' < length (mg_links m)" for l'
    using assms(1) that by (cases "l' = l") (auto simp: fine_def link_fine_def base other)
  moreover have "rest_fine fv B m = rest_fine fv A m"
    by (auto simp: rest_fine_def node_fine_def linkset_fine_def dest_fine_def B)
  ultimately show ?thesis using assms(1) by (simp add: fine_def B)
qed

section \<open>Settling is calm\<close>

text \<open>A calm step starts timers at most, and changes only beliefs and what was told.\<close>

definition calm_dest :: "mg_destination \<Rightarrow> mg_destination \<Rightarrow> bool" where
  "calm_dest d d' \<longleftrightarrow> kd_routes d' = kd_routes d \<and> kd_holding d' = kd_holding d \<and>
     kd_deferred d' = kd_deferred d"

definition calm_linkset :: "mg_linkset \<Rightarrow> mg_linkset \<Rightarrow> bool" where
  "calm_linkset k k' \<longleftrightarrow> ks_restarting k' = ks_restarting k \<and> ks_guard k' = ks_guard k"

definition calm :: "observed set \<Rightarrow> management \<Rightarrow> management \<Rightarrow> bool" where
  "calm A m m' \<longleftrightarrow> mg_topology m' = mg_topology m \<and> mg_links m' = mg_links m \<and> mg_restarting m' = mg_restarting m \<and>
     list_all2 calm_linkset (mg_linksets m) (mg_linksets m') \<and>
     (\<forall>k. rel_option calm_dest (dest_of m k) (dest_of m' k)) \<and>
     (\<forall>dpc \<in> mg_guarded m'. dpc \<in> mg_guarded m \<or> Running (TmProhibited dpc) \<in> seen A m') \<and>
     seen A m \<subseteq> seen A m' \<and> (\<forall>x \<in> seen A m'. x \<in> seen A m \<or> (\<exists>t. x = Running t))"

lemma calm_dest_refl [simp]: "calm_dest d d" by (simp add: calm_dest_def)
lemma calm_linkset_refl [simp]: "calm_linkset k k" by (simp add: calm_linkset_def)

lemma calm_refl: "calm A m m"
  by (auto simp: calm_def list_all2_refl intro!: option.rel_refl)

lemma calm_trans:
  assumes "calm A a b" and "calm A b c"
  shows "calm A a c"
proof -
  have "rel_option calm_dest (dest_of a k) (dest_of c k)" for k
    by (rule rel_option_trans [where b = "dest_of b k"]) (use assms in \<open>auto simp: calm_def calm_dest_def\<close>)
  moreover have "list_all2 calm_linkset (mg_linksets a) (mg_linksets c)"
    using assms by (simp add: calm_def list_all2_conv_all_nth calm_linkset_def)
  moreover have "seen A a \<subseteq> seen A c" "\<forall>x \<in> seen A c. x \<in> seen A a \<or> (\<exists>t. x = Running t)"
    "\<forall>dpc \<in> mg_guarded c. dpc \<in> mg_guarded a \<or> Running (TmProhibited dpc) \<in> seen A c"
    using assms unfolding calm_def by blast+
  ultimately show ?thesis using assms by (simp add: calm_def)
qed

lemma fine_calm:
  assumes "fine fv (seen A m) L P W m" and "calm A m m'"
  shows "fine fv (seen A m') L P W m'"
proof -
  let ?A = "seen A m" and ?B = "seen A m'"
  have sub: "x \<in> ?A \<Longrightarrow> x \<in> ?B" for x using assms(2) by (auto simp: calm_def)
  have same: "Held l \<in> ?B \<longleftrightarrow> Held l \<in> ?A" "Opened l \<in> ?B \<longleftrightarrow> Opened l \<in> ?A" for l
    using assms(2) by (auto simp: calm_def)
  have ls: "list_all2 calm_linkset (mg_linksets m) (mg_linksets m')" using assms(2) by (simp add: calm_def)
  have ks: "ks_restarting (mg_linksets m' ! s) = ks_restarting (mg_linksets m ! s)"
    "ks_guard (mg_linksets m' ! s) = ks_guard (mg_linksets m ! s)" if "s < length (mg_linksets m)" for s
    using list_all2_nthD [OF ls that] by (simp_all add: calm_linkset_def)
  have len: "length (mg_linksets m') = length (mg_linksets m)" using list_all2_lengthD [OF ls] by simp
  have eqs: "mg_topology m' = mg_topology m" "mg_links m' = mg_links m" "mg_restarting m' = mg_restarting m"
    using assms(2) by (simp_all add: calm_def)
  have dest: "\<exists>d. dest_of m k = Some d \<and> calm_dest d d'" if "dest_of m' k = Some d'" for k d'
  proof -
    have "rel_option calm_dest (dest_of m k) (dest_of m' k)" using assms(2) by (simp add: calm_def)
    then show ?thesis unfolding that by (cases "dest_of m k") auto
  qed
  have rest: "rest_fine fv ?A m" using assms(1) by (simp add: fine_def)
  have "rest_fine fv ?B m'"
    unfolding rest_fine_def
  proof (intro conjI allI impI)
    have "fv dpc Itu \<noteq> None \<and> (\<forall>r \<in> set (kd_routes d'). \<forall>s. kr_via r = ViaLinkset s \<longrightarrow> s < length (mg_linksets m))"
      if "dest_of m' dpc = Some d'" for dpc d'
      using rest dest [OF that] unfolding rest_fine_def shape_fine_def calm_dest_def by metis
    then show "shape_fine fv m'" using rest by (simp add: rest_fine_def shape_fine_def eqs len)
    show "node_fine ?B m'" using rest assms(2) sub by (auto simp: rest_fine_def node_fine_def calm_def)
    show "linkset_fine ?B (mg_linksets m' ! s) s" if "s < length (mg_linksets m')" for s
      using rest that ks [of s] sub by (simp add: rest_fine_def linkset_fine_def len)
    show "dest_fine ?B d' dpc" if d': "dest_of m' dpc = Some d'" for dpc d'
    proof -
      obtain d where "dest_of m dpc = Some d" and c: "calm_dest d d'" using dest [OF d'] by blast
      then have "dest_fine ?A d dpc" using rest by (simp add: rest_fine_def)
      then show ?thesis using c sub unfolding dest_fine_def calm_dest_def by metis
    qed
  qed
  moreover have "link_fine ?B L P W m' l" if "l < length (mg_links m)" for l
  proof -
    have l: "link_fine ?A L P W m l" using assms(1) that by (simp add: fine_def)
    have shape: "linkset_at m l < length (mg_linksets m)"
      using rest that by (simp add: rest_fine_def shape_fine_def topology_wf_def linkset_at_def)
    have "waits_fine m' l = waits_fine m l" using ks [OF shape] by (simp add: waits_fine_def eqs linkset_at_def)
    moreover have "base_fine ?A k l \<Longrightarrow> base_fine ?B k l" "traffic_fine ?A k l \<Longrightarrow> traffic_fine ?B k l"
      "about_to_open ?B k l = about_to_open ?A k l" for k
      by (simp_all add: base_fine_def traffic_fine_def about_to_open_def same sub)
    ultimately show ?thesis using l unfolding link_fine_def eqs by metis
  qed
  ultimately show ?thesis by (simp add: fine_def eqs)
qed

lemma calm_push: "watch a (seen A m) = seen A m \<Longrightarrow> calm A m (push a m)"
  by (auto simp: calm_def list_all2_refl intro!: option.rel_refl)

lemma calm_set_dest: "(\<And>d. calm_dest d (f d)) \<Longrightarrow> calm A m (set_dest dpc f m)"
  by (auto simp: calm_def list_all2_refl option.rel_map intro!: option.rel_refl)

lemma nth_update: "j < length xs \<Longrightarrow> xs[i := x] ! j = (if i = j then x else xs ! j)"
  by (cases "i = j") auto

lemma calm_set_linkset: "(\<And>k. calm_linkset k (f k)) \<Longrightarrow> calm A m (set_linkset s f m)"
  by (auto simp: calm_def list_all2_conv_all_nth nth_update intro!: option.rel_refl)

lemma calm_guard: "calm A m (mg_guard dpc m)"
proof -
  have "mg_guarded (mg_guard dpc m) = insert dpc (mg_guarded m)" "seen A (mg_guard dpc m) = insert (Running (TmProhibited dpc)) (seen A m)"
    by (simp_all add: mg_guard_def)
  then show ?thesis by (auto simp: calm_def list_all2_refl intro!: option.rel_refl)
qed

lemma calm_settle_destination: "calm A m (settle_destination dpc m)"
  unfolding settle_destination_def Let_def
  by (auto split: option.split simp: calm_refl calm_dest_def
      intro!: calm_trans [OF _ calm_push] calm_trans [OF _ calm_guard] calm_trans [OF _ calm_set_dest])

lemma calm_settle_tell: "calm A m (settle_tell fv s adjacent dpc m)"
  unfolding settle_tell_def Let_def
  by (auto split: option.split simp: calm_refl calm_dest_def intro!: calm_trans [OF _ calm_push] calm_set_dest)

lemma calm_fold: "(\<And>x m. x \<in> set xs \<Longrightarrow> calm A m (f x m)) \<Longrightarrow> calm A m (fold f xs m)"
  by (induction xs arbitrary: m) (auto simp: calm_refl intro: calm_trans)

lemma calm_resync: "calm A m (mg_resync s m)"
proof (cases "ks_synced (mg_linksets m ! s)")
  case True
  then show ?thesis by (simp add: mg_resync_def calm_refl)
next
  case False
  have "seen A (mg_resync s m) = seen A m" using False by (simp add: mg_resync_def seen_def set_linkset_def)
  moreover have "mg_guarded (mg_resync s m) = mg_guarded m" "mg_links (mg_resync s m) = mg_links m"
    "mg_topology (mg_resync s m) = mg_topology m" by (simp_all add: mg_resync_def set_linkset_def)
  moreover have "rel_option calm_dest (dest_of m k) (dest_of (mg_resync s m) k)" for k
    by (auto simp: mg_resync_facts option.rel_map calm_dest_def intro!: option.rel_refl)
  ultimately show ?thesis
    by (simp add: calm_def mg_resync_facts list_all2_conv_all_nth nth_update calm_linkset_def)
qed

lemma calm_settle_linkset: "calm A m (settle_linkset fv dpcs s m)"
proof -
  have "calm A m (fold (settle_tell fv s adjacent) dpcs (mg_resync s m))" for adjacent
    by (rule calm_trans [OF calm_resync]) (rule calm_fold, rule calm_settle_tell)
  then show ?thesis
    by (simp add: settle_linkset_def calm_refl calm_set_linkset calm_linkset_def split: option.split)
qed

lemma calm_settle: "calm A m (settle fv m)"
proof -
  let ?dpcs = "map fst (mg_destinations m)"
  have d: "calm A m (fold settle_destination ?dpcs m)" by (rule calm_fold) (rule calm_settle_destination)
  have "calm A m' (fold (settle_linkset fv ?dpcs) ss m')" for ss m' by (rule calm_fold) (rule calm_settle_linkset)
  then show ?thesis using d calm_trans [OF d] by (simp add: settle_def Let_def)
qed

lemmas fine_settle = fine_calm [OF _ calm_settle]

lemma settle_same:
  "mg_links (settle fv m) = mg_links m" "mg_topology (settle fv m) = mg_topology m" "mg_restarting (settle fv m) = mg_restarting m"
  "Held l \<in> seen A (settle fv m) \<longleftrightarrow> Held l \<in> seen A m" "Opened l \<in> seen A (settle fv m) \<longleftrightarrow> Opened l \<in> seen A m"
  using calm_settle [of A m fv] by (auto simp: calm_def)

lemma calm_watch_isolation: "fine fv (seen A m) L P W m \<Longrightarrow> fine fv (seen A (watch_isolation m)) L P W (watch_isolation m)"
proof -
  have stop: "fine fv (B - {Running TmIsolation}) L P W m" if "fine fv B L P W m" for B
  proof -
    have "link_fine (B - {Running TmIsolation}) L P W m l = link_fine B L P W m l" for l
      unfolding link_fine_def base_fine_def traffic_fine_def about_to_open_def by simp
    moreover have "rest_fine fv (B - {Running TmIsolation}) m = rest_fine fv B m"
      unfolding rest_fine_def node_fine_def linkset_fine_def dest_fine_def by simp
    ultimately show ?thesis using that by (simp add: fine_def)
  qed
  assume "fine fv (seen A m) L P W m"
  then show ?thesis using stop fine_start by (simp add: watch_isolation_def Let_def)
qed

section \<open>Changing the phase of a link\<close>

lemma fine_relink:
  assumes "fine fv A (insert l L) P W m" and "l \<notin> P" and "base_fine A (f (mg_links m ! l)) l"
    and "\<And>x. \<not> traffic_fact l x \<Longrightarrow> x \<in> B \<longleftrightarrow> x \<in> A"
    and "l < length (mg_links m) \<Longrightarrow> traffic_fine B (f (mg_links m ! l)) l \<and>
      (kl_phase (f (mg_links m ! l)) = PhAwaitRestart \<longrightarrow> l \<in> W \<or> mg_restarting m \<or> ks_restarting (mg_linksets m ! linkset_at m l))"
  shows "fine fv B L P W (set_link l f m)"
proof (rule fine_close)
  have "fine fv A (insert l L) P W (set_link l f m)" by (rule fine_set_link) (use assms in simp_all)
  then show "fine fv B (insert l L) P W (set_link l f m)" by (rule fine_traffic) (use assms in simp_all)
  show "l \<notin> P" by fact
  show "traffic_fine B (mg_links (set_link l f m) ! l) l \<and> (l \<in> W \<or> waits_fine (set_link l f m) l)"
    if "l < length (mg_links (set_link l f m))"
    using assms(5) that by (auto simp: waits_fine_def linkset_at_def)
qed

lemma fine_excepting: "fine fv A L P W m \<Longrightarrow> fine fv A (insert l L) P W m"
  by (erule fine_weaken) auto

lemma fine_base: "fine fv A L P W m \<Longrightarrow> l < length (mg_links m) \<Longrightarrow> base_fine A (mg_links m ! l) l"
  by (simp add: fine_def link_fine_def)

lemma fine_link: "fine fv A L {} W m \<Longrightarrow> l < length (mg_links m) \<Longrightarrow> l \<notin> L \<Longrightarrow> traffic_fine A (mg_links m ! l) l"
  by (auto simp: fine_def link_fine_def)

text \<open>A link that may be put into traffic: up, not inhibited, its traffic neither sent nor held.\<close>

definition idle :: "observed set \<Rightarrow> management \<Rightarrow> link_id \<Rightarrow> bool" where
  "idle A m l \<longleftrightarrow> l < length (mg_links m) \<and> kl_up (mg_links m ! l) \<and> \<not> kl_remote_inhibited (mg_links m ! l) \<and>
     Held l \<notin> A \<and> Opened l \<notin> A"

lemma changeback_timed_ok:
  assumes "ok fv A (insert l L) {} W m" and "idle (seen A m) m l"
  shows "ok fv A L {} W (time_controlled_changeback l m)"
proof -
  have "fine fv (insert (Running (TmChangeback l)) (insert (Held l) (seen A m - {Opened l}))) L {} W
      (set_link l (\<lambda>k. k\<lparr>kl_phase := PhChangebackTimed\<rparr>) m)"
    by (rule fine_relink [OF assms(1)])
       (use assms(2) fine_base [OF assms(1), of l] in \<open>auto simp: idle_def base_fine_def traffic_fact_def traffic_fine_def\<close>)
  then show ?thesis by (simp add: time_controlled_changeback_def set_phase_def)
qed

lemma fine_ready:
  assumes "fine fv A (insert l L) P W m" and "idle A m l" and "kl_phase (mg_links m ! l) = PhOpen"
  shows "fine fv A L (insert l P) W m"
  using assms unfolding fine_def link_fine_def idle_def about_to_open_def by (metis insert_iff)

lemma start_traffic_ok:
  assumes "ok fv A (insert l L) {} W m" and "idle (seen A m) m l"
  shows "ok fv A L {} W (start_traffic fv l m)"
proof -
  let ?m = "set_phase l PhOpen m"
  have "fine fv (seen A ?m) (insert l L) {} W ?m"
    unfolding set_phase_def seen_same
    by (rule fine_set_link [OF assms(1)])
       (use assms(2) fine_base [OF assms(1), of l] in \<open>auto simp: idle_def base_fine_def\<close>)
  moreover have "idle (seen A ?m) ?m l" "kl_phase (mg_links ?m ! l) = PhOpen" "l < length (mg_links ?m)"
    using assms(2) by (simp_all add: idle_def set_phase_def)
  ultimately have "fine fv (seen A (settle fv ?m)) L (insert l {}) W (settle fv ?m)"
    by (intro fine_settle fine_ready)
  from fine_opened [OF this] have "ok fv A L {} W (push (MaOpen l) (settle fv ?m))"
    using \<open>l < length (mg_links ?m)\<close> by (simp add: settle_same)
  moreover have "ok fv A L {} W (time_controlled_changeback l m)" by (rule changeback_timed_ok [OF assms])
  ultimately show ?thesis by (simp add: start_traffic_def Let_def)
qed

lemma declare_same:
  "let m' = fst (fold (declare_on s slc) ls (m, ds))
   in fine fv B L P W m' = fine fv B L P W m \<and> seen A m' = seen A m \<and> mg_links m' = mg_links m \<and>
      mg_timers m' = mg_timers m \<and> mg_topology m' = mg_topology m"
proof (induction ls arbitrary: m ds)
  case (Cons l ls)
  show ?case using Cons.IH [of "mg_send s slc (Cbd (mg_next_code m)) (PathBehind l) (m\<lparr>mg_next_code := mg_next_code m + 1\<rparr>)"
        "ds @ [(mg_next_code m, l)]"]
    by (simp add: declare_on_def Let_def mg_send_def split: option.splits)
qed simp

lemma changeback_declared_ok:
  assumes "ok fv A (insert l L) {} W m" and "idle (seen A m) m l"
  shows "ok fv A L {} W (changeback_declared l carrying m)"
proof -
  obtain m1 declared where f: "fold (declare_on (linkset_at m l) (slc_at m l)) carrying (push (MaHold l) m, []) = (m1, declared)" by force
  note S = declare_same [of "linkset_at m l" "slc_at m l" carrying "push (MaHold l) m" "[]", unfolded f Let_def, simplified]
  have m1: "fine fv (seen A m) (insert l L) {} W m1" "mg_links m1 = mg_links m"
    using S [of fv "seen A m" "insert l L" "{}" W A] assms(1) by simp_all
  have "fine fv (insert (Running (TmChangeback l)) (insert (Held l) (seen A m - {Opened l}))) L {} W
      (set_link l (\<lambda>k. k\<lparr>kl_declared := declared, kl_phase := PhChangebackDeclared False\<rparr>) m1)"
    by (rule fine_relink [OF m1(1)])
       (use assms(2) fine_base [OF assms(1), of l] m1(2) in \<open>auto simp: idle_def base_fine_def traffic_fact_def traffic_fine_def\<close>)
  moreover have "seen A m1 = insert (Held l) (seen A m - {Opened l})"
    using S [of fv "seen A m" "insert l L" "{}" W A] by simp
  ultimately show ?thesis by (simp add: changeback_declared_def f)
qed

section \<open>Routes and linksets\<close>

definition cleared_tests :: "linkset_id \<Rightarrow> management \<Rightarrow> observed set" where
  "cleared_tests s m = (\<lambda>dpc. Running (TmRouteSetTest dpc s)) ` set (routes_to_clear s m)"

lemma allow_fold:
  "let m' = fold (\<lambda>dpc m. push (MaRoute dpc s Allowed) (push (MaStop (TmRouteSetTest dpc s)) m)) ds m
   in seen A m' = seen A m - (\<lambda>dpc. Running (TmRouteSetTest dpc s)) ` set ds \<and> fine fv B L P W m' = fine fv B L P W m \<and>
      mg_links m' = mg_links m \<and> mg_topology m' = mg_topology m \<and> mg_restarting m' = mg_restarting m \<and>
      mg_linksets m' = mg_linksets m \<and> mg_timers m' = mg_timers m"
  by (induction ds arbitrary: m) (auto simp: Let_def)

lemma allow_through_same [simp]:
  "seen A (allow_routes_through s m) = seen A m - cleared_tests s m"
  "mg_links (allow_routes_through s m) = mg_links m" "mg_topology (allow_routes_through s m) = mg_topology m"
  "mg_restarting (allow_routes_through s m) = mg_restarting m" "mg_linksets (allow_routes_through s m) = mg_linksets m"
  "mg_timers (allow_routes_through s m) = mg_timers m"
  using allow_fold [of s "routes_to_clear s m" "m\<lparr>mg_destinations := bt_map (\<lambda>_. allow_routes s) (mg_destinations m)\<rparr>" A]
  by (simp_all add: allow_routes_through_def cleared_tests_def Let_def)

lemma position_map: "position Q (map f xs) = position (\<lambda>x. Q (f x)) xs"
  unfolding position_def by (rule find_cong) auto

lemma dest_fine_allow:
  assumes "dest_fine A d dpc" and "\<And>x. x \<in> A \<Longrightarrow> x \<notin> B \<Longrightarrow> x = Running (TmRouteSetTest dpc s) \<or> (\<exists>k s'. x = Running (TmRouteSetTest k s') \<and> k \<noteq> dpc)"
  shows "dest_fine B (allow_routes s d) dpc"
  unfolding dest_fine_def
proof (intro conjI allI impI)
  have A: "list_all route_mark (kd_deferred d)" "kd_holding d \<longrightarrow> Running (TmRerouting dpc) \<in> A" using assms(1) by (simp_all add: dest_fine_def)
  show "list_all route_mark (kd_deferred (allow_routes s d))" using A(1) by (simp add: allow_routes_def)
  show "Running (TmRerouting dpc) \<in> B" if "kd_holding (allow_routes s d)"
    using that A(2) assms(2) by (auto simp: allow_routes_def)
  fix i s'
  assume i: "i < length (kd_routes (allow_routes s d)) \<and> kr_via (kd_routes (allow_routes s d) ! i) = ViaLinkset s' \<and>
    kr_status (kd_routes (allow_routes s d) ! i) \<noteq> Allowed"
  then have o: "i < length (kd_routes d)" "kr_via (kd_routes d ! i) = ViaLinkset s'" "kr_status (kd_routes d ! i) \<noteq> Allowed" "s' \<noteq> s"
    by (auto simp: allow_routes_def split: if_splits)
  then have r: "Running (TmRouteSetTest dpc s') \<in> A" "position (\<lambda>r. kr_via r = ViaLinkset s') (kd_routes d) = Some i"
    using assms(1) by (auto simp: dest_fine_def)
  show "Running (TmRouteSetTest dpc s') \<in> B" using r(1) o(4) assms(2) by blast
  have eq: "(\<lambda>r. kr_via (if kr_via r = ViaLinkset s then r\<lparr>kr_status := Allowed\<rparr> else r) = ViaLinkset s') = (\<lambda>r. kr_via r = ViaLinkset s')"
    by (auto simp: fun_eq_iff)
  have routes: "kd_routes (allow_routes s d) = map (\<lambda>r. if kr_via r = ViaLinkset s then r\<lparr>kr_status := Allowed\<rparr> else r) (kd_routes d)"
    by (simp add: allow_routes_def)
  show "position (\<lambda>r. kr_via r = ViaLinkset s') (kd_routes (allow_routes s d)) = Some i"
    unfolding routes position_map eq by (rule r(2))
qed

lemma fine_allow:
  assumes "fine fv A L P W m"
  shows "fine fv (A - cleared_tests s m) L P W (allow_routes_through s m)"
proof -
  let ?m = "m\<lparr>mg_destinations := bt_map (\<lambda>_. allow_routes s) (mg_destinations m)\<rparr>"
  define B where B: "B = A - cleared_tests s m"
  have off: "x \<in> B \<longleftrightarrow> x \<in> A" if "\<nexists>dpc. x = Running (TmRouteSetTest dpc s)" for x
    using that by (auto simp: cleared_tests_def B)
  have dest: "dest_of ?m k = map_option (allow_routes s) (dest_of m k)" for k by (simp add: dest_of_def)
  have rest: "rest_fine fv A m" using assms by (simp add: fine_def)
  have "dest_fine B (allow_routes s d) dpc" if "dest_of m dpc = Some d" for dpc d
    by (rule dest_fine_allow [of A]) (use rest that in \<open>auto simp: rest_fine_def cleared_tests_def B\<close>)
  moreover have "node_fine B ?m" "linkset_fine B k s' = linkset_fine A k s'" for k s'
    using rest off by (simp_all add: rest_fine_def node_fine_def linkset_fine_def)
  moreover have "shape_fine fv ?m"
    using rest by (auto simp: rest_fine_def shape_fine_def dest allow_routes_def split: if_splits)
  ultimately have "rest_fine fv B ?m" using rest by (auto simp: rest_fine_def dest)
  moreover have "link_fine B L P W ?m l = link_fine A L P W m l" for l
    using off by (simp add: link_fine_def base_fine_def traffic_fine_def about_to_open_def waits_fine_def linkset_at_def)
  ultimately have "fine fv B L P W ?m" using assms by (simp add: fine_def)
  then show ?thesis using allow_fold [of s "routes_to_clear s m" ?m] by (simp add: allow_routes_through_def Let_def B)
qed

lemma fine_set_linkset:
  assumes "fine fv A L P W m" and "linkset_fine A (f (mg_linksets m ! s)) s"
    and "ks_restarting (mg_linksets m ! s) \<Longrightarrow> ks_restarting (f (mg_linksets m ! s)) \<or>
      (\<forall>l < length (mg_links m). linkset_at m l = s \<longrightarrow> l \<in> L \<union> P \<union> W \<or> mg_restarting m \<or> kl_phase (mg_links m ! l) \<noteq> PhAwaitRestart)"
  shows "fine fv A L P W (set_linkset s f m)"
proof -
  have rest: "rest_fine fv A m" using assms(1) by (simp add: fine_def)
  have "rest_fine fv A (set_linkset s f m)"
    using rest assms(2) by (auto simp: rest_fine_def shape_fine_def node_fine_def nth_update)
  moreover have "link_fine A L P W (set_linkset s f m) l" if "l < length (mg_links m)" for l
  proof -
    have l: "link_fine A L P W m l" using assms(1) that by (simp add: fine_def)
    have "linkset_at m l < length (mg_linksets m)"
      using rest that by (simp add: rest_fine_def shape_fine_def topology_wf_def linkset_at_def)
    then have "waits_fine m l \<Longrightarrow> l \<in> L \<union> P \<union> W \<or> waits_fine (set_linkset s f m) l"
      using assms(3) that by (auto simp: waits_fine_def linkset_at_def nth_update)
    then show ?thesis using l by (auto simp: link_fine_def split: if_splits)
  qed
  ultimately show ?thesis by (simp add: fine_def)
qed

lemma fine_linkset: "fine fv A L P W m \<Longrightarrow> s < length (mg_linksets m) \<Longrightarrow> linkset_fine A (mg_linksets m ! s) s"
  by (simp add: fine_def rest_fine_def)

lemma fine_linkset_at: "fine fv A L P W m \<Longrightarrow> l < length (mg_links m) \<Longrightarrow> linkset_at m l < length (mg_linksets m)"
  by (simp add: fine_def rest_fine_def shape_fine_def topology_wf_def linkset_at_def)

lemma linkset_at_same [simp]:
  "linkset_at (set_link l f m) k = linkset_at m k" "linkset_at (set_linkset s g m) k = linkset_at m k"
  "linkset_at (allow_routes_through s m) k = linkset_at m k" "linkset_at (push a m) k = linkset_at m k"
  by (simp_all add: linkset_at_def)

lemma set_linkset_keeps:
  assumes "fine fv A L P W m" and "\<And>k. ks_restarting (f k) = ks_restarting k \<and> ks_guard (f k) = ks_guard k"
  shows "fine fv A L P W (set_linkset s f m)"
proof (cases "s < length (mg_linksets m)")
  case True
  then show ?thesis using assms fine_linkset [OF assms(1) True] by (intro fine_set_linkset) (simp_all add: linkset_fine_def)
next
  case False
  then have "set_linkset s f m = m" by (simp add: set_linkset_def list_update_beyond)
  then show ?thesis using assms(1) by simp
qed

lemma adjacent_restarts_ok:
  assumes "ok fv A (insert l L) {} W m" and "idle (seen A m) m l"
  shows "ok fv A L {} W (adjacent_restarts fv l m)"
proof -
  let ?s = "linkset_at m l" let ?R = "Running (TmAdjacentRestart ?s)"
  let ?m1 = "set_linkset ?s (\<lambda>k. k\<lparr>ks_restarting := True, ks_tra_received := False, ks_synced := False\<rparr>) m"
  let ?m2 = "allow_routes_through ?s ?m1"
  let ?m3 = "set_phase l PhAwaitRestart ?m2"
  let ?m4 = "mg_note AdjacentRestartBegun (SjLinkset ?s) (push (MaStart (TmAdjacentRestart ?s) (mt_t21 (mg_timers ?m3))) ?m3)"
  have l: "l < length (mg_links m)" using assms(2) by (simp add: idle_def)
  have s: "?s < length (mg_linksets m)" by (rule fine_linkset_at [OF assms(1) l])
  have "fine fv (insert ?R (seen A m)) (insert l L) {} W ?m1"
    by (rule fine_set_linkset [OF fine_start [OF assms(1)]])
       (use fine_linkset [OF assms(1) s] in \<open>auto simp: linkset_fine_def\<close>)
  from fine_allow [OF this, of ?s] have m2: "fine fv (insert ?R (seen A m) - cleared_tests ?s ?m1) (insert l L) {} W ?m2" .
  have "fine fv (insert ?R (seen A m) - cleared_tests ?s ?m1) L {} W ?m3"
    unfolding set_phase_def
    by (rule fine_relink [OF m2])
       (use fine_base [OF m2, of l] l s assms(2) in \<open>auto simp: base_fine_def traffic_fine_def idle_def\<close>)
  moreover have "seen A ?m4 = insert ?R (seen A m) - cleared_tests ?s ?m1"
    by (auto simp: set_phase_def cleared_tests_def)
  ultimately have "fine fv (seen A ?m4) L {} W ?m4" by simp
  then have "ok fv A L {} W (settle fv ?m4)" by (rule fine_settle)
  then have "ok fv A L {} W (set_linkset ?s (\<lambda>k. k\<lparr>ks_tra_sent := True\<rparr>) (mg_send ?s 0 Tra (PathLink l) (settle fv ?m4)))"
    by (simp add: set_linkset_keeps)
  then show ?thesis by (simp only: adjacent_restarts_def Let_def)
qed

lemma restore_ok:
  assumes "ok fv A (insert l L) {} W m" and "idle (seen A m) m l"
  shows "ok fv A L {} W (restore fv l m)"
proof -
  have "fine fv (seen A m) L {} W (set_link l (\<lambda>k. k\<lparr>kl_phase := PhAwaitRestart\<rparr>) m)"
    if "mg_restarting m \<or> ks_restarting (mg_linksets m ! linkset_at m l)"
    by (rule fine_relink [OF assms(1)])
       (use that fine_base [OF assms(1), of l] assms(2) in \<open>auto simp: base_fine_def traffic_fine_def idle_def\<close>)
  then show ?thesis
    using changeback_timed_ok [OF assms] changeback_declared_ok [OF assms] adjacent_restarts_ok [OF assms] start_traffic_ok [OF assms]
    by (simp add: restore_def Let_def set_phase_def)
qed

lemma finish_changeback_ok:
  assumes "ok fv A {} {} {} m" and "l < length (mg_links m)" and "changeback_phase (kl_phase (mg_links m ! l))"
  shows "ok fv A {} {} {} (finish_changeback l how m)"
proof -
  have "traffic_fine (seen A m) (mg_links m ! l) l" using fine_link [OF assms(1,2)] by simp
  then have up: "kl_up (mg_links m ! l)" "\<not> kl_remote_inhibited (mg_links m ! l)"
    using assms(3) by (cases "kl_phase (mg_links m ! l)"; simp add: traffic_fine_def)+
  have "fine fv (insert (Opened l) (seen A m - {Running (TmChangeback l)} - {Held l})) {} {} {}
      (set_link l (\<lambda>k. k\<lparr>kl_declared := [], kl_phase := PhOpen\<rparr>) m)"
    by (rule fine_relink [OF fine_excepting [OF assms(1)]])
       (use fine_base [OF assms(1,2)] up in \<open>auto simp: base_fine_def traffic_fine_def traffic_fact_def\<close>)
  moreover have "set_link l f (push a m) = push a (set_link l f m)" for f a by (simp add: set_link_def push_def)
  ultimately show ?thesis by (simp add: finish_changeback_def)
qed

section \<open>Restart\<close>

lemma fine_not_restarting:
  assumes "fine fv A L P W m"
  shows "fine fv (A - {Running TmRestart, Running TmRestartOverall}) L P UNIV (m\<lparr>mg_restarting := False\<rparr>)"
proof -
  have "link_fine A L P W m l \<Longrightarrow> link_fine (A - {Running TmRestart, Running TmRestartOverall}) L P UNIV (m\<lparr>mg_restarting := False\<rparr>) l" for l
    by (simp add: link_fine_def base_fine_def traffic_fine_def about_to_open_def split: if_splits) blast
  moreover have "shape_fine fv (m\<lparr>mg_restarting := False\<rparr>) = shape_fine fv m" by (simp add: shape_fine_def dest_of_def)
  then have "rest_fine fv A m \<Longrightarrow> rest_fine fv (A - {Running TmRestart, Running TmRestartOverall}) (m\<lparr>mg_restarting := False\<rparr>)"
    by (simp add: rest_fine_def node_fine_def linkset_fine_def dest_fine_def dest_of_def)
  ultimately show ?thesis using assms by (simp add: fine_def)
qed

lemma open_waiting_fold:
  assumes "fine fv A {} {} UNIV m" and "n \<le> length (mg_links m)"
  shows "let m' = fold open_waiting [0..<n] m; X = {l. l < n \<and> kl_phase (mg_links m ! l) = PhAwaitRestart}
    in fine fv A {} X UNIV m' \<and> seen A0 m' = seen A0 m \<and> length (mg_links m') = length (mg_links m) \<and>
       mg_linksets m' = mg_linksets m \<and> mg_topology m' = mg_topology m \<and> mg_restarting m' = mg_restarting m \<and>
       (\<forall>l < length (mg_links m). mg_links m' ! l =
          (if l \<in> X then (mg_links m ! l)\<lparr>kl_phase := PhOpen\<rparr> else mg_links m ! l))"
  using assms(2)
proof (induction n)
  case 0
  then show ?case using assms(1) by simp
next
  case (Suc n)
  let ?X = "{l. l < n \<and> kl_phase (mg_links m ! l) = PhAwaitRestart}"
  let ?X' = "{l. l < Suc n \<and> kl_phase (mg_links m ! l) = PhAwaitRestart}"
  let ?m = "fold open_waiting [0..<n] m"
  have n: "n < length (mg_links m)" using Suc.prems by simp
  have IH: "fine fv A {} ?X UNIV ?m" "seen A0 ?m = seen A0 m" "length (mg_links ?m) = length (mg_links m)"
    "mg_linksets ?m = mg_linksets m" "mg_topology ?m = mg_topology m" "mg_restarting ?m = mg_restarting m"
    "\<forall>l < length (mg_links m). mg_links ?m ! l = (if l \<in> ?X then (mg_links m ! l)\<lparr>kl_phase := PhOpen\<rparr> else mg_links m ! l)"
    using Suc by (simp_all add: Let_def)
  have at: "mg_links ?m ! n = mg_links m ! n" using IH(7) n by simp
  show ?case
  proof (cases "kl_phase (mg_links m ! n) = PhAwaitRestart")
    case False
    then have "?X' = ?X" using less_Suc_eq by auto
    moreover have "open_waiting n ?m = ?m" using False at by (simp add: open_waiting_def)
    ultimately show ?thesis using IH by (simp add: Let_def)
  next
    case True
    then have X: "?X' = insert n ?X" using less_Suc_eq by auto
    have tf: "traffic_fine A (mg_links m ! n) n" using fine_link [OF assms(1) n] by simp
    have base: "base_fine A (mg_links m ! n) n" by (rule fine_base [OF assms(1) n])
    let ?m' = "set_link n (\<lambda>k. k\<lparr>kl_phase := PhOpen\<rparr>) ?m"
    have "fine fv A (insert n {}) ?X UNIV ?m'"
      by (rule fine_set_link [OF fine_excepting [OF IH(1)]]) (use base at in \<open>auto simp: base_fine_def\<close>)
    moreover have "idle A ?m' n" "kl_phase (mg_links ?m' ! n) = PhOpen"
      using tf True n IH(3) at by (auto simp: idle_def traffic_fine_def)
    ultimately have "fine fv A {} (insert n ?X) UNIV ?m'" by (rule fine_ready)
    moreover have "open_waiting n ?m = ?m'" using True at by (simp add: open_waiting_def set_phase_def)
    ultimately show ?thesis using IH n by (auto simp: Let_def X nth_update)
  qed
qed

lemma open_all:
  assumes "fine fv (seen A m) {} (set ls) W m" and "\<And>l. l \<in> set ls \<Longrightarrow> l < length (mg_links m)" and "distinct ls"
  shows "let m' = fold (\<lambda>l. push (MaOpen l)) ls m
    in ok fv A {} {} W m' \<and> mg_linksets m' = mg_linksets m"
  using assms
proof (induction ls arbitrary: m)
  case (Cons l ls)
  have "fine fv (watch (MaOpen l) (seen A m)) {} (set ls - {l}) W m"
    using fine_opened [of fv "seen A m" "{}" l "set ls" W m] Cons.prems by simp
  then have "fine fv (seen A (push (MaOpen l) m)) {} (set ls) W (push (MaOpen l) m)" using Cons.prems(3) by simp
  from Cons.IH [OF this] show ?case using Cons.prems(2,3) by (simp add: Let_def)
qed simp

lemma allow_restart_ok:
  assumes "ok fv A L P W m"
  shows "ok fv A L P W (allow_restart s m) \<and> length (mg_linksets (allow_restart s m)) = length (mg_linksets m)"
proof (cases "linkset_signalling m s")
  case True
  let ?f = "\<lambda>k. k\<lparr>ks_tra_sent := True, ks_guard := True\<rparr>" let ?m = "mg_tell s 0 Tra m"
  have ls: "mg_linksets ?m = mg_linksets m" by (simp add: mg_tell_def mg_send_def split: option.split)
  have m: "fine fv (insert (Running (TmRestartAllowed s)) (seen A m)) L P W ?m" using assms by (simp add: fine_start)
  have "fine fv (insert (Running (TmRestartAllowed s)) (seen A m)) L P W (set_linkset s ?f ?m)"
  proof (cases "s < length (mg_linksets m)")
    case True
    show ?thesis by (rule fine_set_linkset [OF m]) (use fine_linkset [OF assms True] ls in \<open>auto simp: linkset_fine_def\<close>)
  next
    case False
    then have "set_linkset s ?f ?m = ?m" by (simp add: set_linkset_def list_update_beyond ls)
    then show ?thesis using m by simp
  qed
  then show ?thesis using True ls by (simp add: allow_restart_def Let_def)
qed (use assms in \<open>simp add: allow_restart_def\<close>)

lemma fine_unsync:
  assumes "fine fv A L P W m"
  shows "fine fv A L P W (m\<lparr>mg_linksets := map (\<lambda>k. k\<lparr>ks_synced := False\<rparr>) (mg_linksets m)\<rparr>)"
proof -
  let ?m = "m\<lparr>mg_linksets := map (\<lambda>k. k\<lparr>ks_synced := False\<rparr>) (mg_linksets m)\<rparr>"
  have d: "dest_of ?m k = dest_of m k" for k by (simp add: dest_of_def)
  have rest: "rest_fine fv A m" using assms by (simp add: fine_def)
  have "shape_fine fv ?m = shape_fine fv m" by (simp add: shape_fine_def d)
  then have "rest_fine fv A ?m" using rest by (simp add: rest_fine_def node_fine_def linkset_fine_def d)
  moreover have "link_fine A L P W ?m l = link_fine A L P W m l" if "l < length (mg_links m)" for l
    using fine_linkset_at [OF assms that] by (simp add: link_fine_def waits_fine_def linkset_at_def)
  ultimately show ?thesis using assms by (simp add: fine_def)
qed

lemma fine_all_waits:
  assumes "fine fv A L P UNIV m" and "\<And>l. l < length (mg_links m) \<Longrightarrow> kl_phase (mg_links m ! l) \<noteq> PhAwaitRestart"
  shows "fine fv A L P W m"
  using assms by (auto simp: fine_def link_fine_def waits_fine_def)

lemma end_restart_ok:
  assumes "ok fv A {} {} {} m"
  shows "ok fv A {} {} {} (end_restart fv m)"
proof (cases "mg_restarting m")
  case True
  let ?m1 = "push (MaStop TmRestartOverall) (push (MaStop TmRestart) (m\<lparr>mg_restarting := False\<rparr>))"
  let ?n = "length (mg_links ?m1)"
  let ?opened = "filter (\<lambda>l. kl_phase (mg_links ?m1 ! l) = PhAwaitRestart) [0..<?n]"
  let ?m2 = "fold open_waiting [0..<?n] ?m1"
  let ?m3 = "?m2\<lparr>mg_linksets := map (\<lambda>k. k\<lparr>ks_synced := False\<rparr>) (mg_linksets ?m2)\<rparr>"
  let ?m4 = "settle fv ?m3"
  let ?m5 = "fold (\<lambda>l. push (MaOpen l)) ?opened ?m4"
  have "seen A ?m1 = seen A m - {Running TmRestart, Running TmRestartOverall}" by auto
  then have m1: "fine fv (seen A ?m1) {} {} UNIV ?m1" using fine_not_restarting [OF assms] by simp
  note O = open_waiting_fold [OF m1, of ?n, unfolded Let_def, where ?A0.0 = A, simplified]
  have X: "{l. l < ?n \<and> kl_phase (mg_links ?m1 ! l) = PhAwaitRestart} = set ?opened" by auto
  have m2: "fine fv (seen A ?m2) {} (set ?opened) UNIV ?m2" using O X by simp
  have "kl_phase (mg_links ?m2 ! l) \<noteq> PhAwaitRestart" if "l < length (mg_links ?m2)" for l
    using O that by auto
  from fine_all_waits [OF m2 this] have "fine fv (seen A ?m3) {} (set ?opened) {} ?m3" by (simp add: fine_unsync)
  then have m4: "fine fv (seen A ?m4) {} (set ?opened) {} ?m4" by (rule fine_settle)
  have m5: "ok fv A {} {} {} ?m5" using open_all [OF m4] O by (simp add: Let_def settle_same)
  have "ok fv A {} {} {} (fold allow_restart ss m')" if "ok fv A {} {} {} m'" for ss m'
    using that by (induction ss arbitrary: m') (simp_all add: allow_restart_ok)
  from this [OF m5] show ?thesis using True by (simp add: end_restart_def Let_def)
qed (use assms in \<open>simp add: end_restart_def\<close>)

lemma restart_progress_ok: "ok fv A {} {} {} m \<Longrightarrow> ok fv A {} {} {} (restart_progress fv m)"
  by (simp add: restart_progress_def end_restart_ok)

end
