(* ===== verification/Mgmt_Correct.thy ===== *)
theory Mgmt_Correct
  imports Mgmt_Guard
begin

text \<open>
  Every event of network management other than a time-out keeps the invariant of \<open>Mgmt_Guard\<close>.
\<close>

section \<open>The end of an adjacent point's restart\<close>

lemma fine_stop_adjacent:
  assumes "fine fv A L P W m" and "s < length (mg_linksets m) \<Longrightarrow> \<not> ks_restarting (mg_linksets m ! s)"
  shows "fine fv (A - {Running (TmAdjacentRestart s)}) L P W m"
proof -
  let ?B = "A - {Running (TmAdjacentRestart s)}"
  have "link_fine ?B L P W m l = link_fine A L P W m l" for l
    unfolding link_fine_def base_fine_def traffic_fine_def about_to_open_def by simp
  moreover have "linkset_fine ?B (mg_linksets m ! s') s'" if "s' < length (mg_linksets m)" for s'
    using fine_linkset [OF assms(1) that] assms(2) that by (auto simp: linkset_fine_def)
  then have "rest_fine fv A m \<Longrightarrow> rest_fine fv ?B m"
    by (simp add: rest_fine_def node_fine_def dest_fine_def)
  ultimately show ?thesis using assms(1) by (simp add: fine_def)
qed

lemma start_traffic_links: "\<exists>k. mg_links (start_traffic fv l m) = (mg_links m)[l := k]"
  by (auto simp: start_traffic_def time_controlled_changeback_def set_phase_def Let_def settle_same)

lemma start_all_ok:
  assumes "ok fv A {} {} (set ls) m" and "distinct ls"
    and "\<And>l. l \<in> set ls \<Longrightarrow> l < length (mg_links m) \<and> kl_phase (mg_links m ! l) = PhAwaitRestart"
  shows "ok fv A {} {} {} (fold (start_traffic fv) ls m)"
  using assms
proof (induction ls arbitrary: m)
  case (Cons l ls)
  have l: "l < length (mg_links m)" "kl_phase (mg_links m ! l) = PhAwaitRestart" using Cons.prems(3) by simp_all
  have "traffic_fine (seen A m) (mg_links m ! l) l" using fine_link [OF Cons.prems(1) l(1)] by simp
  then have idle: "idle (seen A m) m l" using l by (simp add: idle_def traffic_fine_def)
  have "ok fv A (insert l {}) {} (set ls) m"
    using Cons.prems(1) unfolding fine_def link_fine_def by auto
  then have ok: "ok fv A {} {} (set ls) (start_traffic fv l m)" using idle by (rule start_traffic_ok)
  obtain k where k: "mg_links (start_traffic fv l m) = (mg_links m)[l := k]" using start_traffic_links by blast
  have "l' < length (mg_links (start_traffic fv l m)) \<and> kl_phase (mg_links (start_traffic fv l m) ! l') = PhAwaitRestart"
    if "l' \<in> set ls" for l'
    using Cons.prems(2) Cons.prems(3) [of l'] that by (cases "l' = l") (simp_all add: k)
  from Cons.IH [OF ok _ this] show ?case using Cons.prems(2) by simp
qed simp

lemma spec_links:
  assumes "fine fv A L P W m" and "s < length (mg_linksets m)"
  shows "distinct (lss_links (spec_of m s))" and "l \<in> set (lss_links (spec_of m s)) \<Longrightarrow> l < length (mg_links m) \<and> linkset_at m l = s"
    and "l < length (mg_links m) \<Longrightarrow> linkset_at m l = s \<Longrightarrow> l \<in> set (lss_links (spec_of m s))"
  using assms by (auto simp: fine_def rest_fine_def shape_fine_def topology_wf_def spec_of_def linkset_at_def)

lemma end_adjacent_restart_ok:
  assumes "ok fv A {} {} {} m" and "s < length (mg_linksets m)"
  shows "ok fv A {} {} {} (end_adjacent_restart fv s how m)"
proof -
  let ?m1 = "set_linkset s (\<lambda>k. k\<lparr>ks_restarting := False\<rparr>) m"
  let ?m = "mg_note how (SjLinkset s) (push (MaStop (TmAdjacentRestart s)) ?m1)"
  have same: "mg_links ?m = mg_links m" "spec_of ?m s = spec_of m s" by (simp_all add: mg_note_def spec_of_def)
  let ?ls = "filter (\<lambda>l. kl_phase (mg_links ?m ! l) = PhAwaitRestart) (lss_links (spec_of ?m s))"
  note spec = spec_links [OF assms]
  have "fine fv (seen A m) {} {} (set ?ls) ?m1"
    by (rule fine_set_linkset [OF fine_weaken [OF assms(1)]])
       (use fine_linkset [OF assms] spec(3) in \<open>auto simp: linkset_fine_def same\<close>)
  then have "fine fv (seen A m - {Running (TmAdjacentRestart s)}) {} {} (set ?ls) ?m1"
    by (rule fine_stop_adjacent) (use assms(2) in simp)
  then have "ok fv A {} {} (set ?ls) ?m" by simp
  moreover have "distinct ?ls" using spec(1) by (simp add: same)
  ultimately have "ok fv A {} {} {} (fold (start_traffic fv) ?ls ?m)"
    by (rule start_all_ok) (use spec(2) in \<open>auto simp: same\<close>)
  then show ?thesis by (simp only: end_adjacent_restart_def Let_def)
qed

lemma guard_linkset_ok:
  assumes "fine fv A L P W m" and "s < length (mg_linksets m)" and "\<And>k. ks_restarting (f k) = ks_restarting k"
  shows "fine fv (insert (Running (TmRestartAllowed s)) A) L P W (set_linkset s f m)"
  by (rule fine_set_linkset [OF fine_start [OF assms(1)]])
     (use fine_linkset [OF assms(1,2)] assms(3) in \<open>auto simp: linkset_fine_def\<close>)

lemma mg_send_same [simp]:
  "mg_links (mg_send s slc msg path m) = mg_links m" "mg_linksets (mg_send s slc msg path m) = mg_linksets m"
  "mg_topology (mg_send s slc msg path m) = mg_topology m" "dest_of (mg_send s slc msg path m) k = dest_of m k"
  "mg_restarting (mg_send s slc msg path m) = mg_restarting m" "linkset_at (mg_send s slc msg path m) l = linkset_at m l"
  "mg_timers (mg_send s slc msg path m) = mg_timers m"
  by (simp_all add: mg_send_def linkset_at_def split: option.split)

lemma mg_tell_same [simp]:
  "mg_links (mg_tell s slc msg m) = mg_links m" "mg_linksets (mg_tell s slc msg m) = mg_linksets m"
  by (simp_all add: mg_tell_def)

lemma length_settle [simp]: "length (mg_linksets (settle fv m)) = length (mg_linksets m)"
  using calm_settle [of "{}" m fv] by (auto simp: calm_def dest: list_all2_lengthD)

lemma traffic_restart_allowed_ok:
  assumes "ok fv A {} {} {} m" and "s < length (mg_linksets m)"
  shows "ok fv A {} {} {} (traffic_restart_allowed fv s m)"
proof -
  let ?r = "set_linkset s (\<lambda>k. k\<lparr>ks_tra_received := True\<rparr>) m"
  have r: "ok fv A {} {} {} ?r" using assms(1) by (simp add: set_linkset_keeps)
  let ?t = "mg_tell s 0 Tra (settle fv (set_linkset s (\<lambda>k. k\<lparr>ks_synced := False\<rparr>) m))"
  have "ok fv A {} {} {} (set_linkset s (\<lambda>k. k\<lparr>ks_synced := False\<rparr>) m)" using assms(1) by (simp add: set_linkset_keeps)
  from fine_settle [OF this, of fv] have "ok fv A {} {} {} ?t" by simp
  from guard_linkset_ok [OF this, of s "\<lambda>k. k\<lparr>ks_guard := True\<rparr>"]
  have "ok fv A {} {} {} (push (MaStart (TmRestartAllowed s) d) (set_linkset s (\<lambda>k. k\<lparr>ks_guard := True\<rparr>) ?t))" for d
    using assms(2) by simp
  then show ?thesis
    using assms r restart_progress_ok [OF r] end_adjacent_restart_ok [OF r] by (simp add: traffic_restart_allowed_def Let_def)
qed

section \<open>The restart of this node begins\<close>

lemma begin_restart_ok:
  assumes "ok fv A {} {} {} m"
  shows "ok fv A {} {} {} (begin_restart m)"
proof -
  let ?m1 = "m\<lparr>mg_restarting := True, mg_restart_due := False\<rparr>" and ?X = "{Running TmRestart, Running TmRestartOverall}"
  let ?step = "\<lambda>s m. set_linkset s (\<lambda>k. k\<lparr>ks_tra_received := False\<rparr>) (allow_routes_through s m)"
  have d: "dest_of ?m1 k = dest_of m k" for k by (simp add: dest_of_def)
  have rest: "rest_fine fv (seen A m) m" using assms by (simp add: fine_def)
  have "shape_fine fv ?m1 = shape_fine fv m" by (simp add: shape_fine_def d)
  then have "rest_fine fv (?X \<union> seen A m) ?m1"
    using rest by (simp add: rest_fine_def node_fine_def linkset_fine_def dest_fine_def d)
  moreover have "link_fine (seen A m) {} {} {} m l \<Longrightarrow> link_fine (?X \<union> seen A m) {} {} {} ?m1 l" for l
    by (simp add: link_fine_def base_fine_def traffic_fine_def waits_fine_def)
  moreover have "seen A ?m1 = seen A m" by (simp add: seen_def)
  ultimately have m1: "fine fv (?X \<union> seen A ?m1) {} {} {} ?m1" using assms by (simp add: fine_def)
  have step: "fine fv (?X \<union> seen A (?step s m')) {} {} {} (?step s m')" if "fine fv (?X \<union> seen A m') {} {} {} m'" for s m'
  proof -
    have "fine fv (?X \<union> seen A m' - cleared_tests s m') {} {} {} (?step s m')"
      using fine_allow [OF that] by (simp add: set_linkset_keeps)
    moreover have "?X \<union> seen A m' - cleared_tests s m' = ?X \<union> seen A (?step s m')" by (auto simp: cleared_tests_def)
    ultimately show ?thesis by simp
  qed
  have "fine fv (?X \<union> seen A (fold ?step ss m')) {} {} {} (fold ?step ss m')" if "fine fv (?X \<union> seen A m') {} {} {} m'" for ss m'
    using that step by (induction ss arbitrary: m') simp_all
  from this [OF m1, of "[0..<length (mg_linksets ?m1)]"] show ?thesis by (simp add: begin_restart_def Let_def insert_commute)
qed

section \<open>Links coming up and going down\<close>

lemma fine_tweak:
  assumes "fine fv A L P W m" and "l < length (mg_links m)"
    and "\<And>k. kl_phase (f k) = kl_phase k \<and> kl_remote_inhibited (f k) = kl_remote_inhibited k \<and>
      kl_uninhibit_attempts (f k) = kl_uninhibit_attempts k \<and> kl_force_attempts (f k) = kl_force_attempts k \<and> (kl_up k \<longrightarrow> kl_up (f k))"
  shows "fine fv A L P W (set_link l f m)"
proof -
  have "link_fine A L P W (set_link l f m) l'" if "l' < length (mg_links m)" for l'
  proof -
    have l': "link_fine A L P W m l'" using assms(1) that by (simp add: fine_def)
    have "waits_fine m l' \<Longrightarrow> waits_fine (set_link l f m) l'" using that assms(3) by (simp add: waits_fine_def nth_update)
    moreover have "base_fine A k l \<Longrightarrow> base_fine A (f k) l" "traffic_fine A k l \<Longrightarrow> traffic_fine A (f k) l"
      "about_to_open A k l \<Longrightarrow> about_to_open A (f k) l" for k
      using assms(3) [of k] by (auto simp: base_fine_def traffic_fine_def about_to_open_def)
    ultimately show ?thesis using l' that by (auto simp: link_fine_def nth_update split: if_splits)
  qed
  moreover have "rest_fine fv A (set_link l f m) = rest_fine fv A m" by (simp add: rest_fine_def shape_fine_def node_fine_def)
  ultimately show ?thesis using assms(1) by (simp add: fine_def)
qed

lemma begin_restart_links [simp]: "mg_links (begin_restart m) = mg_links m"
proof -
  have "mg_links (fold (\<lambda>s m. set_linkset s f (allow_routes_through s m)) ss m') = mg_links m'" for ss m' f
    by (induction ss arbitrary: m') simp_all
  then show ?thesis by (simp add: begin_restart_def Let_def mg_note_def)
qed

lemma restore_closed:
  assumes "ok fv A {} {} {} m" and "l < length (mg_links m)" and "kl_phase (mg_links m ! l) = PhClosed"
    and "kl_up (mg_links m ! l)" and "\<not> kl_remote_inhibited (mg_links m ! l)"
  shows "ok fv A {} {} {} (restore fv l m)"
proof (rule restore_ok [OF fine_excepting [OF assms(1)]])
  show "idle (seen A m) m l"
    using fine_link [OF assms(1,2)] assms(2-5) by (simp add: idle_def traffic_fine_def)
qed

lemma link_up_ok:
  assumes "ok fv A {} {} {} m" and "l < length (mg_links m)"
  shows "ok fv A {} {} {} (link_up fv l m)"
proof -
  define m1 where "m1 = (if mg_restart_due m \<and> \<not> mg_restarting m \<and> mg_isolated m then begin_restart m else m)"
  define m2 where "m2 = (if \<not> mg_isolated m1 then m1\<lparr>mg_restart_due := False\<rparr> else m1)"
  define m3 where "m3 = set_link l (\<lambda>k. k\<lparr>kl_up := True\<rparr>) m2"
  have "ok fv A {} {} {} m2" "mg_links m2 = mg_links m"
    using assms(1) begin_restart_ok [OF assms(1)] by (simp_all add: m1_def m2_def)
  then have m3: "ok fv A {} {} {} m3" "l < length (mg_links m3)" "kl_up (mg_links m3 ! l)"
    using assms(2) fine_tweak [of fv "seen A m2" "{}" "{}" "{}" m2 l "\<lambda>k. k\<lparr>kl_up := True\<rparr>"] by (simp_all add: m3_def)
  define m4 where "m4 = (case kl_phase (mg_links m3 ! l) of
                 PhChangeoverOrdered \<Rightarrow> set_link l (\<lambda>k. k\<lparr>kl_back := True\<rparr>) m3
               | PhChangeoverTimed \<Rightarrow> set_link l (\<lambda>k. k\<lparr>kl_back := True\<rparr>) m3
               | PhClosed \<Rightarrow> if \<not> kl_remote_inhibited (mg_links m3 ! l) then restore fv l m3 else m3
               | _ \<Rightarrow> m3)"
  have "ok fv A {} {} {} (set_link l (\<lambda>k. k\<lparr>kl_back := True\<rparr>) m3)"
    unfolding seen_same by (rule fine_tweak [OF m3(1,2)]) simp
  then have "ok fv A {} {} {} m4" using m3 restore_closed [OF m3(1,2)] by (simp add: m4_def split: phase.split)
  moreover have "link_up fv l m = (if mg_restarting m4 then restart_progress fv m4 else m4)"
    unfolding link_up_def Let_def m1_def [symmetric] m2_def [symmetric] m3_def [symmetric] m4_def [symmetric] ..
  ultimately show ?thesis by (simp add: restart_progress_ok)
qed

lemma begin_changeover_ok:
  assumes "ok fv A (insert l L) {} W m" and "l < length (mg_links m)"
  shows "ok fv A L {} W (begin_changeover l m)"
proof -
  let ?B = "insert (Running (TmChangeover l)) (insert (Held l) (seen A m - {Opened l}))"
  have sl: "set_link l f (push a m') = push a (set_link l f m')" for f a m' by (simp add: set_link_def push_def)
  have ok: "fine fv ?B L {} W (set_link l (\<lambda>k. k\<lparr>kl_phase := p\<rparr>) m)" if "changeover_phase p" for p
    by (rule fine_relink [OF assms(1)])
       (use that fine_base [OF assms] in \<open>cases p; auto simp: base_fine_def traffic_fine_def traffic_fact_def\<close>)+
  have twice: "set_phase l PhChangeoverTimed (set_phase l PhChangeoverOrdered (push a m)) = push a (set_link l (\<lambda>k. k\<lparr>kl_phase := PhChangeoverTimed\<rparr>) m)" for a
    using assms(2) by (simp add: set_phase_def set_link_def push_def)
  show ?thesis
    using ok [of PhChangeoverOrdered] ok [of PhChangeoverTimed]
    by (simp add: begin_changeover_def Let_def twice) (simp add: set_phase_def sl)
qed

lemma complete_changeover_ok:
  assumes "ok fv A (insert l {}) {} {} m" and "l < length (mg_links m)"
  shows "ok fv A {} {} {} (complete_changeover fv l fsnc how m)"
proof -
  let ?B = "seen A m - {Running (TmChangeover l)} - {Held l, Opened l}"
  let ?h = "case how of Some h \<Rightarrow> h | None \<Rightarrow> if fsnc \<noteq> None then ChangeoverAcknowledged else ChangeoverEmergency"
  let ?m1 = "push (MaDivert l fsnc) (set_phase l PhClosed (push (MaStop (TmChangeover l)) m))"
  let ?m2 = "mg_note ?h (SjLink l) ?m1"
  let ?m3 = "set_link l (\<lambda>k. k\<lparr>kl_back := False\<rparr>) ?m2"
  have "fine fv ?B {} {} {} (set_link l (\<lambda>k. k\<lparr>kl_phase := PhClosed\<rparr>) m)"
    by (rule fine_relink [OF assms(1)])
       (use fine_base [OF assms] in \<open>auto simp: base_fine_def traffic_fine_def traffic_fact_def\<close>)
  moreover have "set_link l f (push a m') = push a (set_link l f m')" for f a m' by (simp add: set_link_def push_def)
  ultimately have m2: "ok fv A {} {} {} ?m2" by (simp add: set_phase_def)
  have links: "mg_links ?m2 = (mg_links m)[l := (mg_links m ! l)\<lparr>kl_phase := PhClosed\<rparr>]" by (simp add: set_phase_def mg_note_def)
  have m3: "ok fv A {} {} {} ?m3" unfolding seen_same by (rule fine_tweak [OF m2]) (use assms(2) links in simp_all)
  have "mg_links ?m3 ! l = (mg_links m ! l)\<lparr>kl_phase := PhClosed, kl_back := False\<rparr>" "l < length (mg_links ?m3)"
    using assms(2) by (simp_all add: links)
  then have "ok fv A {} {} {} (restore fv l ?m3)" if "kl_up (mg_links m ! l)" "\<not> kl_remote_inhibited (mg_links m ! l)"
    using that by (intro restore_closed [OF m3]) simp_all
  then show ?thesis using m3 assms(2) by (simp add: complete_changeover_def Let_def links)
qed

lemma fine_unmoved:
  assumes "fine fv A L P W m" and "\<not> carrying_phase (kl_phase (mg_links m ! l))" and "kl_phase (mg_links m ! l) \<noteq> PhAwaitRestart"
    and "fine fv A (insert l L) P W (set_link l f m)" and "l \<notin> P" "l \<notin> L"
    and "kl_phase (f (mg_links m ! l)) = kl_phase (mg_links m ! l)"
  shows "fine fv A L P W (set_link l f m)"
proof (rule fine_close [OF assms(4,5)])
  assume l: "l < length (mg_links (set_link l f m))"
  then have "traffic_fine A (mg_links m ! l) l" using assms(1,5,6) by (auto simp: fine_def link_fine_def)
  then show "traffic_fine A (mg_links (set_link l f m) ! l) l \<and> (l \<in> W \<or> waits_fine (set_link l f m) l)"
    using l assms(2,3,7) by (simp add: traffic_fine_def waits_fine_def)
qed

lemma stop_linkset_ok:
  assumes "ok fv A {} {} {} m" and "s < length (mg_linksets m)" and "\<not> linkset_signalling m s"
  shows "ok fv A {} {} {} (push (MaStop (TmAdjacentRestart s)) (set_linkset s (\<lambda>k. k\<lparr>ks_restarting := False\<rparr>) m))"
proof -
  have "kl_phase (mg_links m ! l) \<noteq> PhAwaitRestart" if "l < length (mg_links m)" "linkset_at m l = s" for l
  proof -
    have "\<not> kl_up (mg_links m ! l)" using assms(3) spec_links(3) [OF assms(1,2) that] by (auto simp: linkset_signalling_def)
    then show ?thesis using fine_link [OF assms(1) that(1)] by (auto simp: traffic_fine_def)
  qed
  then have "fine fv (seen A m) {} {} {} (set_linkset s (\<lambda>k. k\<lparr>ks_restarting := False\<rparr>) m)"
    by (intro fine_set_linkset [OF assms(1)]) (use fine_linkset [OF assms(1,2)] in \<open>auto simp: linkset_fine_def\<close>)
  then have "fine fv (seen A m - {Running (TmAdjacentRestart s)}) {} {} {} (set_linkset s (\<lambda>k. k\<lparr>ks_restarting := False\<rparr>) m)"
    by (rule fine_stop_adjacent) (use assms(2) in simp)
  then show ?thesis by simp
qed

lemma acknowledge_order_same [simp]:
  "seen A (acknowledge_order l e m) = seen A m" "fine fv B L P W (acknowledge_order l e m) = fine fv B L P W m"
  "mg_links (acknowledge_order l e m) = mg_links m" "mg_linksets (acknowledge_order l e m) = mg_linksets m"
  by (simp_all add: acknowledge_order_def Let_def)

lemma restore_linksets [simp]: "length (mg_linksets (restore fv l m)) = length (mg_linksets m)"
proof -
  have "mg_linksets (fst (fold (declare_on s slc) ls (m', ds))) = mg_linksets m'" for s slc ls m' ds
  proof (induction ls arbitrary: m' ds)
    case (Cons l ls)
    then show ?case by (simp add: declare_on_def Let_def)
  qed simp
  then show ?thesis
    by (simp add: restore_def Let_def set_phase_def time_controlled_changeback_def changeback_declared_def
        adjacent_restarts_def start_traffic_def mg_note_def case_prod_beta)
qed

lemma complete_changeover_linksets [simp]:
  "length (mg_linksets (complete_changeover fv l fsnc how m)) = length (mg_linksets m)"
  by (simp add: complete_changeover_def Let_def set_phase_def mg_note_def)

lemma begin_changeover_linksets [simp]: "mg_linksets (begin_changeover l m) = mg_linksets m"
  by (simp add: begin_changeover_def Let_def set_phase_def)

lemma link_down_ok:
  assumes "ok fv A {} {} {} m" and "l < length (mg_links m)"
  shows "ok fv A {} {} {} (link_down fv l bsnt m)"
proof -
  let ?s = "linkset_at m l" let ?k = "mg_links m ! l" let ?ord = "kl_ordered ?k"
  let ?f = "\<lambda>k. k\<lparr>kl_up := False, kl_bsnt := bsnt, kl_back := False, kl_ordered := None\<rparr>"
  define m1 where "m1 = set_link l ?f m"
  define m2 where "m2 = (case ?ord of Some o' \<Rightarrow> acknowledge_order l (od_emergency o') m1 | None \<Rightarrow> m1)"
  have base: "base_fine (seen A m) ?k l" by (rule fine_base [OF assms])
  have m1: "ok fv A (insert l {}) {} {} m1"
    unfolding m1_def seen_same
    by (rule fine_set_link [OF fine_excepting [OF assms(1)]]) (use base in \<open>auto simp: base_fine_def\<close>)
  have m2: "ok fv A (insert l {}) {} {} m2" "l < length (mg_links m2)" "mg_links m2 ! l = ?f ?k"
    "length (mg_linksets m2) = length (mg_linksets m)" "seen A m2 = seen A m"
    using m1 assms(2) by (auto simp: m2_def m1_def split: option.split)
  define m3 where "m3 = (if carrying_phase (kl_phase ?k) then
                 let m = set_link l (\<lambda>k. k\<lparr>kl_declared := []\<rparr>) (push (MaStop (TmChangeback l)) m2)
                 in case ?ord of
                      Some o' \<Rightarrow> complete_changeover fv l (od_fsnc o') None (push (MaHold l) m)
                    | None \<Rightarrow> begin_changeover l m
               else if kl_phase ?k = PhChangeoverOrdered \<or> kl_phase ?k = PhChangeoverTimed then
                 (case ?ord of Some o' \<Rightarrow> complete_changeover fv l (od_fsnc o') None m2 | None \<Rightarrow> m2)
               else if kl_phase ?k = PhAwaitRestart then set_phase l PhClosed m2
               else m2)"
  have stopped: "ok fv A (insert l {}) {} {} (set_link l (\<lambda>k. k\<lparr>kl_declared := []\<rparr>) (push (MaStop (TmChangeback l)) m2))"
    "ok fv A (insert l {}) {} {} (push (MaHold l) (set_link l (\<lambda>k. k\<lparr>kl_declared := []\<rparr>) (push (MaStop (TmChangeback l)) m2)))"
  proof -
    have "fine fv B (insert l {}) {} {} (set_link l (\<lambda>k. k\<lparr>kl_declared := []\<rparr>) (push (MaStop (TmChangeback l)) m2))"
      if "\<And>x. \<not> traffic_fact l x \<Longrightarrow> x \<in> B \<longleftrightarrow> x \<in> seen A m2" for B
    proof (rule fine_set_link)
      show "fine fv B (insert l {}) {} {} (push (MaStop (TmChangeback l)) m2)"
        unfolding fine_push by (rule fine_traffic [OF m2(1)]) (use that in simp_all)
      show "base_fine B ((mg_links (push (MaStop (TmChangeback l)) m2) ! l)\<lparr>kl_declared := []\<rparr>) l"
        using base that m2(3,5) by (simp add: base_fine_def traffic_fact_def)
    qed simp_all
    then show "ok fv A (insert l {}) {} {} (set_link l (\<lambda>k. k\<lparr>kl_declared := []\<rparr>) (push (MaStop (TmChangeback l)) m2))"
      "ok fv A (insert l {}) {} {} (push (MaHold l) (set_link l (\<lambda>k. k\<lparr>kl_declared := []\<rparr>) (push (MaStop (TmChangeback l)) m2)))"
      by (auto simp: traffic_fact_def)
  qed
  have still: "ok fv A {} {} {} m2" if "\<not> carrying_phase (kl_phase ?k)" "kl_phase ?k \<noteq> PhAwaitRestart"
  proof -
    have "fine fv (seen A m) {} {} {} m1"
      unfolding m1_def by (rule fine_unmoved [OF assms(1) that]) (use m1 in \<open>simp_all add: m1_def\<close>)
    then show ?thesis by (auto simp: m2_def m1_def split: option.split)
  qed
  have await: "ok fv A {} {} {} (set_phase l PhClosed m2)" if "kl_phase ?k = PhAwaitRestart"
  proof -
    have "traffic_fine (seen A m) ?k l" using fine_link [OF assms] by simp
    then show ?thesis unfolding set_phase_def seen_same
      by (intro fine_relink [OF m2(1)]) (use that base m2(3,5) in \<open>auto simp: base_fine_def traffic_fine_def\<close>)
  qed
  have m3: "ok fv A {} {} {} m3" "length (mg_linksets m3) = length (mg_linksets m)"
    using complete_changeover_ok [OF stopped(2)] begin_changeover_ok [OF stopped(1)] complete_changeover_ok [OF m2(1,2)]
      still await m2(2,4)
    by (auto simp: m3_def Let_def set_phase_def split: option.split)
  have s: "?s < length (mg_linksets m3)" using fine_linkset_at [OF assms] m3(2) by simp
  have "link_down fv l bsnt m = (if \<not> linkset_signalling m3 ?s then
      let m = (if ks_restarting (mg_linksets m3 ! ?s) then
                 push (MaStop (TmAdjacentRestart ?s)) (set_linkset ?s (\<lambda>k. k\<lparr>ks_restarting := False\<rparr>) m3) else m3)
      in set_linkset ?s (\<lambda>k. k\<lparr>ks_tra_sent := False, ks_tra_received := False\<rparr>) m else m3)"
    unfolding link_down_def Let_def m1_def [symmetric] m2_def [symmetric] using m2(3) by (simp add: m3_def Let_def)
  then show ?thesis using m3(1) stop_linkset_ok [OF m3(1) s] by (simp add: Let_def set_linkset_keeps)
qed

lemma changeover_order_ok:
  assumes "ok fv A {} {} {} m" and "l < length (mg_links m)"
  shows "ok fv A {} {} {} (changeover_order fv l fsnc emergency m)"
proof -
  have "ok fv A (insert l {}) {} {} (acknowledge_order l emergency m)"
    using fine_excepting [OF assms(1)] by simp
  then have "ok fv A {} {} {} (complete_changeover fv l fsnc None (acknowledge_order l emergency m))"
    using assms(2) by (intro complete_changeover_ok) simp_all
  moreover have "fine fv (seen A m) {} {} {} (set_link l (\<lambda>k. k\<lparr>kl_ordered := Some od\<rparr>) m)" for od
    by (rule fine_tweak [OF assms]) simp
  ultimately show ?thesis using assms(1) by (simp add: changeover_order_def Let_def)
qed

lemma changeover_acknowledgement_ok:
  assumes "ok fv A {} {} {} m" and "l < length (mg_links m)"
  shows "ok fv A {} {} {} (changeover_acknowledgement fv l fsnc message m)"
  using assms(1) complete_changeover_ok [OF fine_excepting [OF assms(1)] assms(2)]
  by (simp add: changeover_acknowledgement_def)

lemma changeback_acknowledgement_ok:
  assumes "ok fv A {} {} {} m" and "l < length (mg_links m)"
  shows "ok fv A {} {} {} (changeback_acknowledgement l code m)"
proof -
  define left where "left = filter (\<lambda>(c, _). c \<noteq> code) (kl_declared (mg_links m ! l))"
  let ?m = "set_link l (\<lambda>k. k\<lparr>kl_declared := left\<rparr>) m"
  have m: "ok fv A {} {} {} ?m" unfolding seen_same by (rule fine_tweak [OF assms]) simp
  have "ok fv A {} {} {} (finish_changeback l how ?m)" if "\<exists>second. kl_phase (mg_links m ! l) = PhChangebackDeclared second" for how
    by (rule finish_changeback_ok [OF m]) (use assms(2) that in auto)
  then show ?thesis using m unfolding changeback_acknowledgement_def Let_def left_def [symmetric] by auto
qed

section \<open>Inhibiting\<close>

text \<open>Stopping a timer of the inhibition of a link that no longer needs it.\<close>

definition inhibit_fact :: "link_id \<Rightarrow> observed \<Rightarrow> bool" where
  "inhibit_fact l x \<longleftrightarrow> x = Running (TmInhibitTest l) \<or> x = Running (TmUninhibit l) \<or> x = Running (TmForceUninhibit l)"

lemma fine_base_change:
  assumes "fine fv A L P W m" and "\<And>x. \<not> inhibit_fact l x \<Longrightarrow> x \<in> B \<longleftrightarrow> x \<in> A"
    and "base_fine B (f (mg_links m ! l)) l"
    and "kl_phase (f (mg_links m ! l)) = kl_phase (mg_links m ! l)" "kl_up (f (mg_links m ! l)) = kl_up (mg_links m ! l)"
    and "l \<notin> L \<Longrightarrow> kl_remote_inhibited (f (mg_links m ! l)) \<Longrightarrow> kl_remote_inhibited (mg_links m ! l)" and "l \<notin> P"
  shows "fine fv B L P W (set_link l f m)"
proof -
  have same: "traffic_fine B k l' = traffic_fine A k l'" "about_to_open B k l' = about_to_open A k l'" for k l'
    using assms(2) by (simp_all add: traffic_fine_def about_to_open_def inhibit_fact_def)
  have "link_fine B L P W (set_link l f m) l'" if l': "l' < length (mg_links m)" for l'
  proof (cases "l' = l")
    case True
    then have fl: "link_fine A L P W m l" using assms(1) that by (simp add: fine_def)
    have "traffic_fine A (mg_links m ! l) l \<Longrightarrow> l \<notin> L \<Longrightarrow> traffic_fine A (f (mg_links m ! l)) l"
      using assms(4-6) by (auto simp: traffic_fine_def)
    moreover have "waits_fine m l \<Longrightarrow> waits_fine (set_link l f m) l" using that True assms(4) by (simp add: waits_fine_def)
    ultimately show ?thesis using fl assms(3,7) that True by (auto simp: link_fine_def same split: if_splits)
  next
    case False
    have "base_fine B k l' = base_fine A k l'" for k using False assms(2) by (simp add: base_fine_def inhibit_fact_def)
    moreover have "waits_fine (set_link l f m) l' = waits_fine m l'" using False by (simp add: waits_fine_def)
    ultimately show ?thesis using assms(1) that False by (auto simp: fine_def link_fine_def same)
  qed
  moreover have "rest_fine fv B (set_link l f m) = rest_fine fv A m"
    using assms(2) by (simp add: rest_fine_def shape_fine_def node_fine_def linkset_fine_def dest_fine_def inhibit_fact_def)
  ultimately show ?thesis using assms(1) by (simp add: fine_def)
qed

lemma set_link_push: "set_link l f (push a m) = push a (set_link l f m)"
  by (simp add: set_link_def push_def)

lemma set_link_send: "set_link l f (mg_send s slc msg path m) = mg_send s slc msg path (set_link l f m)"
  by (simp add: mg_send_def set_link_push spec_of_def split: option.split)

lemma grant_inhibit_ok:
  assumes "ok fv A {} {} {} m" and "l < length (mg_links m)"
  shows "ok fv A {} {} {} (grant_inhibit l path m)"
proof -
  let ?R = "Running (TmInhibitTest l)" let ?k = "mg_links m ! l"
  let ?g = "\<lambda>k. k\<lparr>kl_remote_inhibited := True\<rparr>"
  define m1 where "m1 = mg_note LinkInhibited (SjLink l) (mg_send (linkset_at m l) (slc_at (set_link l ?g m) l) Lia path (set_link l ?g m))"
  have base: "base_fine (seen A m) ?k l" by (rule fine_base [OF assms])
  have ex: "fine fv (insert ?R (seen A m)) (insert l {}) {} {} m1"
    unfolding m1_def fine_note fine_send
    by (rule fine_set_link [OF fine_excepting [OF fine_start [OF assms(1)]]]) (use base in \<open>auto simp: base_fine_def\<close>)
  have l1: "mg_links m1 ! l = ?g ?k" "l < length (mg_links m1)" "seen A m1 = seen A m"
    using assms(2) by (simp_all add: m1_def) (simp_all add: mg_note_def)
  have tf: "traffic_fine (seen A m) ?k l" using fine_link [OF assms] by simp
  have base1: "base_fine (insert ?R (seen A m)) (?g ?k) l" using base by (auto simp: base_fine_def)
  define m2 where "m2 = (if carrying_phase (kl_phase ?k) then
                 let m = set_link l (\<lambda>k. k\<lparr>kl_declared := [], kl_phase := PhChangeoverTimed\<rparr>) (push (MaStop (TmChangeback l)) m1)
                 in push (MaStart (TmChangeover l) (mt_t1 (mg_timers m))) (push (MaHold l) m)
               else if kl_phase ?k = PhAwaitRestart then set_phase l PhClosed m1
               else m1)"
  have "fine fv (insert ?R (seen A m2)) {} {} {} m2"
  proof -
    have "fine fv (insert (Running (TmChangeover l)) (insert (Held l) (insert ?R (seen A m) - {Running (TmChangeback l)} - {Opened l}))) {} {} {}
        (set_link l (\<lambda>k. k\<lparr>kl_declared := [], kl_phase := PhChangeoverTimed\<rparr>) m1)"
      by (rule fine_relink [OF ex]) (use base1 l1 in \<open>auto simp: base_fine_def traffic_fine_def traffic_fact_def\<close>)
    moreover have "insert (Running (TmChangeover l)) (insert (Held l) (insert ?R (seen A m) - {Running (TmChangeback l)} - {Opened l})) =
        insert ?R (insert (Running (TmChangeover l)) (insert (Held l) (seen A m - {Running (TmChangeback l)} - {Opened l})))" by auto
    moreover have "fine fv (insert ?R (seen A m)) {} {} {} (set_link l (\<lambda>k. k\<lparr>kl_phase := PhClosed\<rparr>) m1)" if "kl_phase ?k = PhAwaitRestart"
      by (rule fine_relink [OF ex]) (use that tf base1 l1 in \<open>auto simp: base_fine_def traffic_fine_def\<close>)
    moreover have "fine fv (insert ?R (seen A m)) {} {} {} m1" if "\<not> carrying_phase (kl_phase ?k)" "kl_phase ?k \<noteq> PhAwaitRestart"
      by (rule fine_close [OF ex]) (use that tf l1 in \<open>auto simp: traffic_fine_def waits_fine_def\<close>)
    ultimately show ?thesis using l1(3) by (simp add: m2_def Let_def set_phase_def set_link_push)
  qed
  moreover have "grant_inhibit l path m = push (MaStart (TmInhibitTest l) (mt_t23 (mg_timers m2))) m2"
    unfolding grant_inhibit_def Let_def m1_def [symmetric] using l1(1) by (simp add: m2_def Let_def)
  ultimately show ?thesis by simp
qed

lemma lift_inhibit_ok:
  assumes "ok fv A {} {} {} m" and "l < length (mg_links m)"
  shows "ok fv A {} {} {} (lift_inhibit fv l path m)"
proof -
  let ?s = "linkset_at m l" let ?k = "mg_links m ! l"
  define m1 where "m1 = set_link l (\<lambda>k. k\<lparr>kl_force_attempts := 0\<rparr>)
    (push (MaStop (TmForceUninhibit l)) (mg_send ?s (slc_at m l) Lua path m))"
  define m2 where "m2 = mg_note LinkUninhibited (SjLink l)
    (push (MaStop (TmInhibitTest l)) (set_link l (\<lambda>k. k\<lparr>kl_remote_inhibited := False\<rparr>) m1))"
  have base: "base_fine (seen A m) ?k l" by (rule fine_base [OF assms])
  have "fine fv (seen A m - {Running (TmForceUninhibit l)}) {} {} {} (set_link l (\<lambda>k. k\<lparr>kl_force_attempts := 0\<rparr>) m)"
    by (rule fine_base_change [OF assms(1)]) (use base in \<open>auto simp: base_fine_def inhibit_fact_def\<close>)
  then have m1: "ok fv A {} {} {} m1" by (simp add: m1_def set_link_push set_link_send)
  have l1: "mg_links m1 ! l = ?k\<lparr>kl_force_attempts := 0\<rparr>" "l < length (mg_links m1)" using assms(2) by (simp_all add: m1_def)
  have "fine fv (seen A m1 - {Running (TmInhibitTest l)}) {} {} {} (set_link l (\<lambda>k. k\<lparr>kl_remote_inhibited := False\<rparr>) m1)"
    by (rule fine_base_change [OF m1]) (use fine_base [OF m1 l1(2)] in \<open>auto simp: base_fine_def inhibit_fact_def\<close>)
  then have m2: "ok fv A {} {} {} m2" by (simp add: m2_def)
  have l2: "l < length (mg_links m2)" "mg_links m2 ! l = ?k\<lparr>kl_force_attempts := 0, kl_remote_inhibited := False\<rparr>"
    using l1 by (simp_all add: m2_def mg_note_def)
  have "ok fv A {} {} {} (set_link l (\<lambda>k. k\<lparr>kl_back := True\<rparr>) m2)" unfolding seen_same by (rule fine_tweak [OF m2 l2(1)]) simp
  moreover have "ok fv A {} {} {} (restore fv l m2)" if "kl_phase ?k = PhClosed" "kl_up ?k"
    by (rule restore_closed [OF m2 l2(1)]) (use l2(2) that in simp_all)
  ultimately have "ok fv A {} {} {} (let k = mg_links m2 ! l in if kl_phase k = PhClosed \<and> kl_up k then restore fv l m2
      else if (kl_phase k = PhChangeoverTimed \<or> kl_phase k = PhChangeoverOrdered) \<and> kl_up k then set_link l (\<lambda>k. k\<lparr>kl_back := True\<rparr>) m2 else m2)"
    using m2 l2(2) by (simp add: Let_def)
  then show ?thesis using m1 unfolding lift_inhibit_def Let_def m1_def [symmetric] m2_def [symmetric] by simp
qed

lemma attempts_ok:
  assumes "ok fv A {} {} {} m" and "l < length (mg_links m)"
  shows "fine fv (insert (Running (TmUninhibit l)) (seen A m)) {} {} {} (set_link l (\<lambda>k. k\<lparr>kl_uninhibit_attempts := n\<rparr>) m)"
    and "fine fv (insert (Running (TmForceUninhibit l)) (seen A m)) {} {} {} (set_link l (\<lambda>k. k\<lparr>kl_force_attempts := n\<rparr>) m)"
    and "fine fv (seen A m - {Running (TmUninhibit l)}) {} {} {} (set_link l (\<lambda>k. k\<lparr>kl_uninhibit_attempts := 0\<rparr>) m)"
    and "fine fv (seen A m) {} {} {} (set_link l (\<lambda>k. k\<lparr>kl_uninhibit_attempts := 0\<rparr>) m)"
    and "fine fv (seen A m) {} {} {} (set_link l (\<lambda>k. k\<lparr>kl_force_attempts := 0\<rparr>) m)"
  using fine_base [OF assms]
  by (auto intro!: fine_base_change [OF assms(1)] simp: base_fine_def inhibit_fact_def)

lemma inhibit_message_ok:
  assumes "ok fv A {} {} {} m" and "l < length (mg_links m)"
  shows "ok fv A {} {} {} (inhibit_message fv l message m)"
  using assms(1) grant_inhibit_ok [OF assms] lift_inhibit_ok [OF assms] attempts_ok [OF assms]
  by (simp add: inhibit_message_def Let_def set_link_send split: mgmt_message.split)

lemma link_message_ok:
  assumes "ok fv A {} {} {} m" and "l < length (mg_links m)"
  shows "ok fv A {} {} {} (link_message fv l message m)"
  using assms(1) changeover_order_ok [OF assms] changeover_acknowledgement_ok [OF assms] changeback_acknowledgement_ok [OF assms]
    inhibit_message_ok [OF assms]
  by (cases message) (simp_all add: link_message_def)

section \<open>Routes\<close>

definition dest_fact :: "u32 \<Rightarrow> observed \<Rightarrow> bool" where
  "dest_fact dpc x \<longleftrightarrow> x = Running (TmRerouting dpc) \<or> (\<exists>s. x = Running (TmRouteSetTest dpc s))"

lemma fine_dest_change:
  assumes "fine fv A L P W m" and "\<And>x. \<not> dest_fact dpc x \<Longrightarrow> x \<in> B \<longleftrightarrow> x \<in> A"
    and "\<And>d. dest_of m dpc = Some d \<Longrightarrow> dest_fine A d dpc \<Longrightarrow> dest_fine B (f d) dpc \<and> kr_via ` set (kd_routes (f d)) \<subseteq> kr_via ` set (kd_routes d)"
  shows "fine fv B L P W (set_dest dpc f m)"
proof -
  have rest: "rest_fine fv A m" using assms(1) by (simp add: fine_def)
  have df: "dest_of m k = Some d \<Longrightarrow> dest_fine A d k" for k d using rest by (simp add: rest_fine_def)
  have other: "dest_fine B d k = dest_fine A d k" if "k \<noteq> dpc" for d k
    using that assms(2) by (simp add: dest_fine_def dest_fact_def)
  have "dest_fine B d' k" if "dest_of (set_dest dpc f m) k = Some d'" for k d'
    using that df assms(3) other [of k] by (cases "k = dpc") auto
  moreover have "fv k Itu \<noteq> None \<and> (\<forall>r \<in> set (kd_routes d'). \<forall>s. kr_via r = ViaLinkset s \<longrightarrow> s < length (mg_linksets m))"
    if k: "dest_of (set_dest dpc f m) k = Some d'" for k d'
  proof (cases "k = dpc")
    case True
    then obtain d where d: "dest_of m dpc = Some d" "d' = f d" using k by auto
    have "fv dpc Itu \<noteq> None" and r: "\<forall>r \<in> set (kd_routes d). \<forall>s. kr_via r = ViaLinkset s \<longrightarrow> s < length (mg_linksets m)"
      using rest d(1) by (auto simp: rest_fine_def shape_fine_def)
    moreover have "s < length (mg_linksets m)" if "r \<in> set (kd_routes (f d))" "kr_via r = ViaLinkset s" for r s
    proof -
      have "kr_via r \<in> kr_via ` set (kd_routes d)" using assms(3) [OF d(1) df [OF d(1)]] that(1) by blast
      then show ?thesis using r that(2) by auto
    qed
    ultimately show ?thesis using True d(2) by blast
  next
    case False
    then show ?thesis using rest k unfolding rest_fine_def shape_fine_def by auto
  qed
  then have "shape_fine fv (set_dest dpc f m)" using rest by (simp add: rest_fine_def shape_fine_def)
  moreover have "node_fine B (set_dest dpc f m)" "linkset_fine B k s = linkset_fine A k s" for k s
    using rest assms(2) by (simp_all add: rest_fine_def node_fine_def linkset_fine_def dest_fact_def)
  ultimately have "rest_fine fv B (set_dest dpc f m)" using rest by (simp add: rest_fine_def)
  moreover have "link_fine B L P W (set_dest dpc f m) l = link_fine A L P W m l" for l
    using assms(2) by (simp add: link_fine_def base_fine_def traffic_fine_def about_to_open_def waits_fine_def linkset_at_def dest_fact_def)
  ultimately show ?thesis using assms(1) by (simp add: fine_def)
qed

lemma marks_pushed:
  assumes "list_all route_mark as"
  shows "seen A (fold push as m) = seen A m" and "fine fv B L P W (fold push as m) = fine fv B L P W m"
    and "dest_of (fold push as m) k = dest_of m k" and "mg_timers (fold push as m) = mg_timers m"
proof -
  have mark: "watch a B = B" if "route_mark a" for a B using that by (cases a) simp_all
  show "seen A (fold push as m) = seen A m" "fine fv B L P W (fold push as m) = fine fv B L P W m"
    "dest_of (fold push as m) k = dest_of m k" "mg_timers (fold push as m) = mg_timers m"
    using assms by (induction as arbitrary: m) (simp_all add: mark)
qed

lemma dest_fine_flags:
  assumes "dest_fine A d dpc" and "kd_routes d' = kd_routes d" and "list_all route_mark (kd_deferred d')"
    and "\<And>s. Running (TmRouteSetTest dpc s) \<in> A \<Longrightarrow> Running (TmRouteSetTest dpc s) \<in> B"
    and "kd_holding d' \<Longrightarrow> Running (TmRerouting dpc) \<in> B"
  shows "dest_fine B d' dpc"
  using assms unfolding dest_fine_def by metis

lemma reroute_ok:
  assumes "ok fv A {} {} {} m" and "dest_of m dpc = Some d0" and "kd_holding d0 = kd_holding d" "kd_deferred d0 = kd_deferred d"
    and "route_mark mark"
  shows "ok fv A {} {} {} (reroute dpc mark forced before after d m)"
proof -
  have df: "dest_fine (seen A m) d0 dpc" using assms(1,2) by (simp add: fine_def rest_fine_def)
  have marks: "list_all route_mark (kd_deferred d)" using df assms(4) by (simp add: dest_fine_def)
  have mk: "watch mark B = B" for B using assms(5) by (cases mark) simp_all
  let ?m1 = "fold push (kd_deferred d) (set_dest dpc (\<lambda>d. d\<lparr>kd_deferred := []\<rparr>) m)"
  have "fine fv (seen A m) {} {} {} (set_dest dpc (\<lambda>d. d\<lparr>kd_deferred := []\<rparr>) m)"
    by (rule fine_dest_change [OF assms(1)]) (auto intro: dest_fine_flags simp: dest_fine_def)
  then have m1: "ok fv A {} {} {} (push mark ?m1)" by (simp add: marks_pushed [OF marks] mk)
  have "fine fv (seen A (push mark ?m1) - {Running (TmRerouting dpc)}) {} {} {} (set_dest dpc (\<lambda>d. d\<lparr>kd_holding := False\<rparr>) (push mark ?m1))"
    by (rule fine_dest_change [OF m1]) (auto simp: dest_fact_def dest_fine_def)
  then have forced: "ok fv A {} {} {} (push (MaReleaseDestination dpc) (push (MaStop (TmRerouting dpc))
      (set_dest dpc (\<lambda>d. d\<lparr>kd_holding := False\<rparr>) (push mark ?m1))))" by simp
  have held: "fine fv (seen A m) {} {} {} (set_dest dpc (\<lambda>d. d\<lparr>kd_deferred := kd_deferred d @ [mark]\<rparr>) m)"
    by (rule fine_dest_change [OF assms(1)]) (use assms(5) in \<open>auto simp: dest_fine_def\<close>)
  have hold: "fine fv (insert (Running (TmRerouting dpc)) (seen A m)) {} {} {}
      (set_dest dpc (\<lambda>d. d\<lparr>kd_holding := True, kd_deferred := kd_deferred d @ [mark]\<rparr>) m)"
    by (rule fine_dest_change [OF assms(1)]) (use assms(5) in \<open>auto simp: dest_fine_def dest_fact_def\<close>)
  show ?thesis using m1 forced held hold assms(1) mk by (simp add: reroute_def Let_def)
qed

lemma position_update:
  assumes "\<And>r. Q (f r) = Q r"
  shows "position Q (xs[i := f (xs ! i)]) = position Q xs"
proof (cases "i < length xs")
  case True
  have "Q (xs[i := f (xs ! i)] ! j) = Q (xs ! j)" if "j < length xs" for j
    using that assms by (simp add: nth_update)
  then show ?thesis unfolding position_def by (auto intro!: find_cong)
qed (simp add: list_update_beyond)

lemma dest_fine_mark:
  assumes "dest_fine A d dpc" and "position (\<lambda>r. kr_via r = ViaLinkset s) (kd_routes d) = Some i"
    and "\<And>x. x \<noteq> Running (TmRouteSetTest dpc s) \<Longrightarrow> x \<in> B \<longleftrightarrow> x \<in> A"
    and "status \<noteq> Allowed \<Longrightarrow> Running (TmRouteSetTest dpc s) \<in> B"
  shows "dest_fine B (d\<lparr>kd_routes := (kd_routes d)[i := (kd_routes d ! i)\<lparr>kr_status := status\<rparr>]\<rparr>) dpc"
proof -
  let ?rs = "(kd_routes d)[i := (kd_routes d ! i)\<lparr>kr_status := status\<rparr>]"
  have pos: "position (\<lambda>r. kr_via r = ViaLinkset s') ?rs = position (\<lambda>r. kr_via r = ViaLinkset s') (kd_routes d)" for s'
    by (rule position_update) simp
  have i: "i < length (kd_routes d)" "kr_via (kd_routes d ! i) = ViaLinkset s" using position_Some [OF assms(2)] by simp_all
  have "Running (TmRouteSetTest dpc s') \<in> B \<and> position (\<lambda>r. kr_via r = ViaLinkset s') ?rs = Some j"
    if j: "j < length ?rs" "kr_via (?rs ! j) = ViaLinkset s'" "kr_status (?rs ! j) \<noteq> Allowed" for j s'
  proof (cases "j = i")
    case True
    then have "s' = s" "status \<noteq> Allowed" using j i by simp_all
    then show ?thesis using assms(2,4) True by (simp add: pos)
  next
    case False
    then have "Running (TmRouteSetTest dpc s') \<in> A \<and> position (\<lambda>r. kr_via r = ViaLinkset s') (kd_routes d) = Some j"
      using j assms(1) by (simp add: dest_fine_def)
    moreover from this have "s' \<noteq> s" using assms(2) False by auto
    ultimately show ?thesis using assms(3) by (simp add: pos)
  qed
  then have "\<forall>j s'. j < length ?rs \<and> kr_via (?rs ! j) = ViaLinkset s' \<and> kr_status (?rs ! j) \<noteq> Allowed \<longrightarrow>
      Running (TmRouteSetTest dpc s') \<in> B \<and> position (\<lambda>r. kr_via r = ViaLinkset s') ?rs = Some j"
    by blast
  moreover have "kd_holding d \<longrightarrow> Running (TmRerouting dpc) \<in> B" "list_all route_mark (kd_deferred d)"
    using assms(1,3) by (simp_all add: dest_fine_def)
  moreover have "kd_routes (d\<lparr>kd_routes := ?rs\<rparr>) = ?rs" "kd_holding (d\<lparr>kd_routes := ?rs\<rparr>) = kd_holding d"
    "kd_deferred (d\<lparr>kd_routes := ?rs\<rparr>) = kd_deferred d" by simp_all
  ultimately show ?thesis unfolding dest_fine_def by presburger
qed

lemma route_message_ok:
  assumes "ok fv A {} {} {} m"
  shows "ok fv A {} {} {} (route_message s dpc status message m)"
proof (cases "dest_of m dpc")
  case (Some d)
  show ?thesis
  proof (cases "position (\<lambda>r. kr_via r = ViaLinkset s) (kd_routes d)")
    case (Some i)
    note pos = Some
    let ?T = "Running (TmRouteSetTest dpc s)"
    have via: "kr_via ` set ((kd_routes d)[i := (kd_routes d ! i)\<lparr>kr_status := status\<rparr>]) \<subseteq> kr_via ` set (kd_routes d)"
    proof
      fix v
      assume "v \<in> kr_via ` set ((kd_routes d)[i := (kd_routes d ! i)\<lparr>kr_status := status\<rparr>])"
      then obtain x where x: "v = kr_via x" "x = (kd_routes d ! i)\<lparr>kr_status := status\<rparr> \<or> x \<in> set (kd_routes d)"
        using set_update_subset_insert by fastforce
      have "kd_routes d ! i \<in> set (kd_routes d)" using position_Some [OF pos] by simp
      then show "v \<in> kr_via ` set (kd_routes d)" using x by auto
    qed
    have marked: "fine fv B {} {} {} (mark_route dpc i status m)"
      if "\<And>x. x \<noteq> ?T \<Longrightarrow> x \<in> B \<longleftrightarrow> x \<in> seen A m" "status \<noteq> Allowed \<Longrightarrow> ?T \<in> B" for B
      unfolding mark_route_def
    proof (rule fine_dest_change [OF assms])
      show "x \<in> B \<longleftrightarrow> x \<in> seen A m" if "\<not> dest_fact dpc x" for x
        using \<open>\<And>x. x \<noteq> ?T \<Longrightarrow> x \<in> B \<longleftrightarrow> x \<in> seen A m\<close> that by (auto simp: dest_fact_def)
      fix d'
      assume "dest_of m dpc = Some d'" and df: "dest_fine (seen A m) d' dpc"
      then have "d' = d" using \<open>dest_of m dpc = Some d\<close> by simp
      then show "dest_fine B (d'\<lparr>kd_routes := (kd_routes d')[i := (kd_routes d' ! i)\<lparr>kr_status := status\<rparr>]\<rparr>) dpc \<and>
          kr_via ` set (kd_routes (d'\<lparr>kd_routes := (kd_routes d')[i := (kd_routes d' ! i)\<lparr>kr_status := status\<rparr>]\<rparr>)) \<subseteq> kr_via ` set (kd_routes d')"
        using dest_fine_mark [OF _ pos that] df via by simp
    qed
    have seen: "seen A (mark_route dpc i status m) = seen A m" by (simp add: mark_route_def)
    let ?m = "if status = Allowed then push (MaStop (TmRouteSetTest dpc s)) (mark_route dpc i status m)
        else push (MaStart (TmRouteSetTest dpc s) (mt_t10 (mg_timers (mark_route dpc i status m)))) (mark_route dpc i status m)"
    have "ok fv A {} {} {} ?m"
    proof (cases "status = Allowed")
      case True
      have "fine fv (seen A m - {?T}) {} {} {} (mark_route dpc i status m)" by (rule marked) (use True in simp_all)
      then show ?thesis using True seen by simp
    next
      case False
      have "fine fv (insert ?T (seen A m)) {} {} {} (mark_route dpc i status m)" by (rule marked) simp_all
      then show ?thesis using False seen by simp
    qed
    then have "ok fv A {} {} {} (reroute dpc (MaRoute dpc s status) (status = Prohibited) before after d ?m)" for before after
      by (rule reroute_ok [where ?d0.0 = "d\<lparr>kd_routes := (kd_routes d)[i := (kd_routes d ! i)\<lparr>kr_status := status\<rparr>]\<rparr>"])
         (use \<open>dest_of m dpc = Some d\<close> in \<open>simp_all add: mark_route_def\<close>)
    then show ?thesis using \<open>dest_of m dpc = Some d\<close> pos assms by (simp add: route_message_def Let_def)
  qed (use assms Some in \<open>simp add: route_message_def\<close>)
qed (use assms in \<open>simp add: route_message_def\<close>)

lemma calm_told: "calm A m (set_dest dpc (\<lambda>d. d\<lparr>kd_told := f d\<rparr>) m)"
  by (rule calm_set_dest) (simp add: calm_dest_def)

lemmas told_ok = fine_calm [OF _ calm_told]

lemma route_set_test_ok: "ok fv A {} {} {} m \<Longrightarrow> ok fv A {} {} {} (route_set_test fv s dpc believes m)"
  using told_ok [of fv A m "{}" "{}" "{}" dpc] by (simp add: route_set_test_def Let_def split: option.split)

lemma unroutable_ok:
  assumes "ok fv A {} {} {} m"
  shows "ok fv A {} {} {} (unroutable fv dpc l m)"
proof -
  let ?s = "linkset_at m l"
  let ?m = "\<lambda>message. mg_tell ?s 0 message (set_dest dpc (\<lambda>d. d\<lparr>kd_told := insert ?s (kd_told d)\<rparr>) m)"
  have "ok fv A {} {} {} (?m message)" for message using told_ok [OF assms] by simp
  then have "ok fv A {} {} {} (mg_guard dpc (?m message))" for message by (rule fine_calm) (rule calm_guard)
  then show ?thesis using assms by (simp add: unroutable_def Let_def split: option.split)
qed

section \<open>Every event\<close>

lemma linkset_of_in:
  assumes "fine fv A L P W m" and "l < length (mg_links m)" and "linkset_of m opc l = Some s"
  shows "s < length (mg_linksets m)"
proof -
  have "length (mg_linksets m) = length (tp_linksets (mg_topology m))"
    using assms(1) by (simp add: fine_def rest_fine_def shape_fine_def)
  then show ?thesis using assms(3) fine_linkset_at [OF assms(1,2)]
    by (auto simp: linkset_of_def Let_def split: if_splits dest: position_Some)
qed

lemma received_from_ok:
  assumes "ok fv A {} {} {} m" and "s < length (mg_linksets m)"
  shows "ok fv A {} {} {} (received_from fv s slc message m)"
proof -
  have "ok fv A {} {} {} (link_message fv l message m)" if "find (\<lambda>l. slc_at m l = slc) (lss_links (spec_of m s)) = Some l" for l
  proof (rule link_message_ok [OF assms(1)])
    have "l \<in> set (lss_links (spec_of m s))" using that by (auto simp: find_Some_iff)
    then show "l < length (mg_links m)" using spec_links(2) [OF assms] by blast
  qed
  then have other: "ok fv A {} {} {} (case find (\<lambda>l. slc_at m l = slc) (lss_links (spec_of m s)) of
      None \<Rightarrow> mg_ignored message ''the linkset has no link with that code'' m | Some l \<Rightarrow> link_message fv l message m)"
    using assms(1) by (simp split: option.split)
  define Q where "Q m = ok fv A {} {} {} m" for m
  have "Q (mg_ignored message why m)" "Q (mg_tell s slc msg m)" for why msg using assms(1) by (simp_all add: Q_def)
  moreover note route_message_ok [OF assms(1), folded Q_def] route_set_test_ok [OF assms(1), folded Q_def]
    traffic_restart_allowed_ok [OF assms, folded Q_def] other [folded Q_def]
  ultimately have "Q (received_from fv s slc message m)" unfolding received_from_def by (cases message) simp_all
  then show ?thesis by (simp add: Q_def)
qed

lemma mg_received_ok:
  assumes "ok fv A {} {} {} m" and "l < length (mg_links m)"
  shows "ok fv A {} {} {} (mg_received fv l opc slc message m)"
proof -
  define Q where "Q m = ok fv A {} {} {} m" for m
  have "Q (case linkset_of m opc l of
      None \<Rightarrow> mg_ignored message ''its originating point is not an adjacent point'' m
    | Some s \<Rightarrow> received_from fv s slc message m)"
    using assms(1) received_from_ok [OF assms(1)] linkset_of_in [OF assms] by (simp add: Q_def split: option.split)
  moreover have "Q (mg_ignored message why m)" "Q (push (MaCongestion dpc c) m)" for why dpc c using assms(1) by (simp_all add: Q_def)
  ultimately have "Q (mg_received fv l opc slc message m)" unfolding mg_received_def by (cases message) simp_all
  then show ?thesis by (simp add: Q_def)
qed

end
