(* ===== verification/Mgmt_Reach.thy ===== *)
theory Mgmt_Reach
  imports Mgmt_Correct
begin

text \<open>
  The time-outs of network management and the states it can reach. \<open>needed\<close> lists the procedures in
  progress by the timer that ends them; after its time-out a timer is running again or no longer
  needed, so the invariant of \<open>Mgmt_Guard\<close> holds in every state reached from the start.
\<close>

section \<open>Time-outs\<close>

text \<open>The procedures in progress, each by the timer that ends it if nothing else does.\<close>

fun needed :: "management \<Rightarrow> mg_timer \<Rightarrow> bool" where
  "needed m (TmChangeover l) = (l < length (mg_links m) \<and> changeover_phase (kl_phase (mg_links m ! l)))"
| "needed m (TmChangeback l) = (l < length (mg_links m) \<and> changeback_phase (kl_phase (mg_links m ! l)))"
| "needed m (TmRerouting dpc) = (case dest_of m dpc of Some d \<Rightarrow> kd_holding d | None \<Rightarrow> False)"
| "needed m (TmProhibited dpc) = (dpc \<in> mg_guarded m)"
| "needed m (TmRouteSetTest dpc s) = (case dest_of m dpc of
      Some d \<Rightarrow> \<exists>r \<in> set (kd_routes d). kr_via r = ViaLinkset s \<and> kr_status r \<noteq> Allowed
    | None \<Rightarrow> False)"
| "needed m (TmUninhibit l) = (l < length (mg_links m) \<and> 0 < kl_uninhibit_attempts (mg_links m ! l))"
| "needed m (TmForceUninhibit l) = (l < length (mg_links m) \<and> 0 < kl_force_attempts (mg_links m ! l))"
| "needed m TmRestart = mg_restarting m"
| "needed m TmRestartOverall = mg_restarting m"
| "needed m (TmRestartAllowed s) = (s < length (mg_linksets m) \<and> ks_guard (mg_linksets m ! s))"
| "needed m (TmAdjacentRestart s) = (s < length (mg_linksets m) \<and> ks_restarting (mg_linksets m ! s))"
| "needed m (TmInhibitTest l) = (l < length (mg_links m) \<and> kl_remote_inhibited (mg_links m ! l))"
| "needed m TmIsolation = False"

lemma fine_needed:
  assumes "fine fv A {} {} {} m" and "needed m t"
  shows "Running t \<in> A"
proof -
  have link: "base_fine A (mg_links m ! l) l" "traffic_fine A (mg_links m ! l) l" if "l < length (mg_links m)" for l
    using fine_base [OF assms(1) that] fine_link [OF assms(1) that] by simp_all
  have dest: "dest_fine A d dpc" if "dest_of m dpc = Some d" for d dpc using assms(1) that by (simp add: fine_def rest_fine_def)
  have node: "node_fine A m" using assms(1) by (simp add: fine_def rest_fine_def)
  show ?thesis
  proof (cases t)
    case (TmRouteSetTest dpc s)
    then obtain d r where "dest_of m dpc = Some d" "r \<in> set (kd_routes d)" "kr_via r = ViaLinkset s" "kr_status r \<noteq> Allowed"
      using assms(2) by (auto split: option.splits)
    then show ?thesis using dest [of dpc d] TmRouteSetTest by (auto simp: dest_fine_def in_set_conv_nth)
  next
    case (TmRerouting dpc)
    then show ?thesis using assms(2) dest by (auto simp: dest_fine_def split: option.splits)
  qed (use assms(2) link node fine_linkset [OF assms(1)] in
      \<open>auto simp: base_fine_def traffic_fine_def linkset_fine_def node_fine_def\<close>)
qed

lemma fine_drop:
  assumes "fine fv A {} {} {} m" and "\<not> needed m t"
  shows "fine fv (A - {Running t}) {} {} {} m"
proof -
  let ?B = "A - {Running t}"
  have ne: "needed m u \<Longrightarrow> Running u \<in> A \<Longrightarrow> Running u \<in> ?B" for u using assms(2) by auto
  have "link_fine ?B {} {} {} m l" if "l < length (mg_links m)" for l
  proof -
    have "base_fine A (mg_links m ! l) l" "traffic_fine A (mg_links m ! l) l" "waits_fine m l"
      using assms(1) that by (simp_all add: fine_def link_fine_def)
    then have "base_fine ?B (mg_links m ! l) l" "traffic_fine ?B (mg_links m ! l) l"
      using that ne [of "TmInhibitTest l"] ne [of "TmUninhibit l"] ne [of "TmForceUninhibit l"] ne [of "TmChangeover l"]
        ne [of "TmChangeback l"] by (simp_all add: base_fine_def traffic_fine_def)
    then show ?thesis using \<open>waits_fine m l\<close> by (simp add: link_fine_def)
  qed
  moreover have "linkset_fine ?B (mg_linksets m ! s) s" if "s < length (mg_linksets m)" for s
    using fine_linkset [OF assms(1) that] assms(2) that by (auto simp: linkset_fine_def)
  moreover have "dest_fine ?B d dpc" if "dest_of m dpc = Some d" for d dpc
  proof -
    have "dest_fine A d dpc" using assms(1) that by (simp add: fine_def rest_fine_def)
    moreover have "t \<noteq> TmRerouting dpc \<or> \<not> kd_holding d" using that assms(2) by auto
    moreover have "t \<noteq> TmRouteSetTest dpc s" if "i < length (kd_routes d)" "kr_via (kd_routes d ! i) = ViaLinkset s"
      "kr_status (kd_routes d ! i) \<noteq> Allowed" for i s
      using \<open>dest_of m dpc = Some d\<close> assms(2) that by auto
    ultimately show ?thesis unfolding dest_fine_def by blast
  qed
  moreover have "shape_fine fv m" "node_fine ?B m"
    using assms by (auto simp: fine_def rest_fine_def node_fine_def)
  ultimately show ?thesis by (simp add: fine_def rest_fine_def)
qed

lemma seen_drop: "seen (A - {Running t}) m = seen A m \<or> seen (A - {Running t}) m = seen A m - {Running t}"
proof -
  have "fold watch xs (A - {Running t}) = fold watch xs A \<or> fold watch xs (A - {Running t}) = fold watch xs A - {Running t}" for xs
  proof (induction xs rule: rev_induct)
    case (snoc x xs)
    then show ?case by (cases x) auto
  qed simp
  then show ?thesis by (simp add: seen_def)
qed

lemma expired_ok:
  assumes "ok fv A {} {} {} m" and "needed m t \<Longrightarrow> Running t \<in> seen (A - {Running t}) m"
  shows "ok fv (A - {Running t}) {} {} {} m"
proof (cases "Running t \<in> seen (A - {Running t}) m")
  case True
  then have "seen (A - {Running t}) m = seen A m" using seen_drop [of A t m] by auto
  then show ?thesis using assms(1) by simp
next
  case False
  then have "\<not> needed m t" using assms(2) by blast
  with seen_drop [of A t m] fine_drop [OF assms(1)] assms(1) show ?thesis by metis
qed

lemma repeat_changeback_ok:
  assumes "ok fv A {} {} {} m" and "l < length (mg_links m)" and "kl_phase (mg_links m ! l) = PhChangebackDeclared b"
  shows "ok fv A {} {} {} (repeat_changeback l m)"
proof -
  define step where "step = (\<lambda>(code, alternative). mg_send (linkset_at m l) (slc_at m l) (Cbd code) (PathBehind alternative))"
  have sent: "ok fv A {} {} {} (fold step ds m') = ok fv A {} {} {} m'" "mg_links (fold step ds m') = mg_links m'" for ds m'
    by (induction ds arbitrary: m') (simp_all add: step_def split: prod.split)
  let ?m = "fold step (kl_declared (mg_links m ! l)) m"
  have m: "ok fv A {} {} {} ?m" "l < length (mg_links ?m)" "mg_links ?m ! l = mg_links m ! l" using sent assms by simp_all
  have "traffic_fine (seen A ?m) (mg_links ?m ! l) l" using fine_link [OF m(1,2)] by simp
  then have "fine fv (insert (Running (TmChangeback l)) (seen A ?m)) {} {} {} (set_link l (\<lambda>k. k\<lparr>kl_phase := PhChangebackDeclared True\<rparr>) ?m)"
    using assms(3) m(3) fine_base [OF m(1,2)]
    by (intro fine_relink [OF fine_excepting [OF m(1)]]) (auto simp: base_fine_def traffic_fine_def traffic_fact_def)
  then show ?thesis by (simp add: repeat_changeback_def Let_def step_def set_phase_def)
qed

lemma repeat_uninhibit_ok:
  assumes "ok fv A {} {} {} m" and "l < length (mg_links m)"
  shows "ok fv A {} {} {} (repeat_uninhibit l force m)"
  using assms(1) attempts_ok [OF assms] by (cases force) (simp_all add: repeat_uninhibit_def Let_def set_link_push set_link_send mg_note_def)

lemma release_destination_ok:
  assumes "ok fv A {} {} {} m"
  shows "ok fv A {} {} {} (release_destination dpc m)"
proof (cases "dest_of m dpc")
  case (Some d)
  then have "list_all route_mark (kd_deferred d)" using assms by (simp add: fine_def rest_fine_def dest_fine_def)
  moreover have "fine fv (seen A m) {} {} {} (set_dest dpc (\<lambda>d. d\<lparr>kd_holding := False, kd_deferred := []\<rparr>) m)"
    by (rule fine_dest_change [OF assms]) (auto simp: dest_fine_def)
  ultimately show ?thesis using Some assms by (simp add: release_destination_def marks_pushed)
qed (use assms in \<open>simp add: release_destination_def\<close>)

lemma repeat_test_ok: "ok fv A {} {} {} m \<Longrightarrow> ok fv A {} {} {} (repeat_test fv dpc s m)"
  by (simp add: repeat_test_def Let_def fine_start split: option.split)

lemma test_inhibited_ok: "ok fv A {} {} {} m \<Longrightarrow> ok fv A {} {} {} (test_inhibited l m)"
  by (simp add: test_inhibited_def fine_start)

lemma changeover_expired_ok:
  assumes "ok fv A {} {} {} m" and "l < length (mg_links m)"
  shows "ok fv A {} {} {} (changeover_expired fv l m)"
  using assms(1) complete_changeover_ok [OF fine_excepting [OF assms(1)] assms(2)]
  by (simp add: changeover_expired_def split: phase.split)

lemma changeback_expired_ok:
  assumes "ok fv A {} {} {} m" and "l < length (mg_links m)"
  shows "ok fv A {} {} {} (changeback_expired l m)"
proof -
  have "ok fv A {} {} {} (repeat_changeback l m)" if "kl_phase (mg_links m ! l) = PhChangebackDeclared b" for b
    by (rule repeat_changeback_ok [OF assms that])
  moreover have "ok fv A {} {} {} (finish_changeback l how m)" if "changeback_phase (kl_phase (mg_links m ! l))" for how
    by (rule finish_changeback_ok [OF assms that])
  ultimately show ?thesis using assms(1) by (simp add: changeback_expired_def split: phase.split)
qed

lemma fine_unguard: "fine fv A L P W m \<Longrightarrow> G \<subseteq> mg_guarded m \<Longrightarrow> fine fv A L P W (m\<lparr>mg_guarded := G\<rparr>)"
  by (auto simp: fine_def rest_fine_def link_fine_def shape_fine_def node_fine_def waits_fine_def linkset_at_def dest_of_def)

lemma unguard_linkset_ok:
  assumes "fine fv A L P W m" and "s < length (mg_linksets m)"
  shows "fine fv A L P W (set_linkset s (\<lambda>k. k\<lparr>ks_guard := False\<rparr>) m)"
  by (rule fine_set_linkset [OF assms(1)]) (use fine_linkset [OF assms] in \<open>auto simp: linkset_fine_def\<close>)

lemma mg_timeout_keeps:
  assumes "ok fv A {} {} {} m"
  shows "ok fv A {} {} {} (mg_timeout fv t m)"
  using assms changeover_expired_ok [OF assms] changeback_expired_ok [OF assms] release_destination_ok [OF assms]
    repeat_test_ok [OF assms] repeat_uninhibit_ok [OF assms] test_inhibited_ok [OF assms] end_restart_ok [OF assms]
    end_adjacent_restart_ok [OF assms] unguard_linkset_ok [OF assms] fine_unguard [OF assms]
  by (cases t) simp_all

text \<open>After its time-out a timer is running again or no longer needed.\<close>

lemma declare_on_links: "mg_links (fst (fold (declare_on s slc) ls (m, ds))) = mg_links m"
  by (induction ls arbitrary: m ds) (simp_all add: declare_on_def Let_def)

lemma restore_phase:
  assumes "l < length (mg_links m)"
  shows "\<not> changeover_phase (kl_phase (mg_links (restore fv l m) ! l))"
  using assms
  by (simp add: restore_def Let_def set_phase_def time_controlled_changeback_def changeback_declared_def case_prod_beta
      declare_on_links adjacent_restarts_def mg_note_def settle_same start_traffic_def)

lemma complete_changeover_phase:
  assumes "l < length (mg_links m)"
  shows "\<not> changeover_phase (kl_phase (mg_links (complete_changeover fv l fsnc how m) ! l))"
  using assms by (simp add: complete_changeover_def Let_def restore_phase set_phase_def mg_note_def)

lemma end_restart_restarting: "\<not> mg_restarting (end_restart fv m)"
proof -
  have "mg_restarting (fold open_waiting ls m') = mg_restarting m'" for ls m'
    by (induction ls arbitrary: m') (simp_all add: open_waiting_def set_phase_def)
  moreover have "mg_restarting (fold (\<lambda>l. push (MaOpen l)) ls m') = mg_restarting m'" for ls m'
    by (induction ls arbitrary: m') simp_all
  moreover have "mg_restarting (fold allow_restart ls m') = mg_restarting m'" for ls m'
    by (induction ls arbitrary: m') (simp_all add: allow_restart_def Let_def mg_tell_def)
  ultimately show ?thesis by (simp add: end_restart_def Let_def settle_same mg_note_def)
qed

lemma start_traffic_restarting:
  assumes "s < length (mg_linksets m)"
  shows "ks_restarting (mg_linksets (start_traffic fv l m) ! s) = ks_restarting (mg_linksets m ! s) \<and>
    length (mg_linksets (start_traffic fv l m)) = length (mg_linksets m)"
proof -
  have "ks_restarting (mg_linksets (settle fv m') ! s) = ks_restarting (mg_linksets m' ! s)" if "s < length (mg_linksets m')" for m'
    using calm_settle [of "{}" m' fv] that by (auto simp: calm_def calm_linkset_def list_all2_conv_all_nth)
  then show ?thesis using assms by (simp add: start_traffic_def time_controlled_changeback_def set_phase_def Let_def)
qed

lemma end_adjacent_restart_restarting:
  assumes "s < length (mg_linksets m)"
  shows "\<not> ks_restarting (mg_linksets (end_adjacent_restart fv s how m) ! s)"
proof -
  have "ks_restarting (mg_linksets (fold (start_traffic fv) ls m') ! s) = ks_restarting (mg_linksets m' ! s)"
    if "s < length (mg_linksets m')" for ls m'
    using that by (induction ls arbitrary: m') (simp_all add: start_traffic_restarting)
  then show ?thesis using assms by (simp add: end_adjacent_restart_def Let_def mg_note_def)
qed

lemma release_destination_holding: "\<not> needed (release_destination dpc m) (TmRerouting dpc)"
proof -
  have "dest_of (fold push as m') k = dest_of m' k" for as k m' by (induction as arbitrary: m') simp_all
  then show ?thesis by (auto simp: release_destination_def split: option.split)
qed

lemma repeat_test_needed:
  assumes "fine fv A {} {} {} m" and "needed (repeat_test fv dpc s m) (TmRouteSetTest dpc s)"
  shows "Running (TmRouteSetTest dpc s) \<in> seen B (repeat_test fv dpc s m)"
proof -
  have "dest_of (repeat_test fv dpc s m) dpc = dest_of m dpc"
    by (simp add: repeat_test_def Let_def mg_tell_def split: option.split)
  then obtain d r where d: "dest_of m dpc = Some d" "r \<in> set (kd_routes d)" "kr_via r = ViaLinkset s" "kr_status r \<noteq> Allowed"
    using assms(2) by (auto split: option.splits)
  then obtain i where i: "i < length (kd_routes d)" "r = kd_routes d ! i" by (auto simp: in_set_conv_nth)
  have fine: "dest_fine A d dpc" "fv dpc Itu \<noteq> None" using assms(1) d(1) by (simp_all add: fine_def rest_fine_def shape_fine_def)
  then have pos: "position (\<lambda>r. kr_via r = ViaLinkset s) (kd_routes d) = Some i" using d i by (simp add: dest_fine_def)
  have "find (\<lambda>r. kr_via r = ViaLinkset s) (kd_routes d) = Some r"
    using position_Some [OF pos] i by (auto simp: find_Some_iff)
  moreover obtain pc where "fv dpc Itu = Some pc" using fine(2) by blast
  ultimately show ?thesis using d(1,4) by (cases "kr_status r") (simp_all add: repeat_test_def Let_def about_def)
qed

lemma mg_timeout_needed:
  assumes "fine fv A {} {} {} m" and "needed (mg_timeout fv t m) t"
  shows "Running t \<in> seen B (mg_timeout fv t m)"
proof (cases t)
  case (TmChangeover l)
  then show ?thesis using assms(2) complete_changeover_phase [of l m fv]
    by (auto simp: changeover_expired_def split: phase.splits if_splits)
next
  case (TmChangeback l)
  then show ?thesis using assms(2)
    by (auto simp: changeback_expired_def repeat_changeback_def finish_changeback_def mg_note_def Let_def split: phase.splits if_splits)
next
  case (TmRouteSetTest dpc s)
  have "s < length (mg_linksets m)" if "needed m (TmRouteSetTest dpc s)"
  proof -
    obtain d r where "dest_of m dpc = Some d" "r \<in> set (kd_routes d)" "kr_via r = ViaLinkset s"
      using \<open>needed m (TmRouteSetTest dpc s)\<close> by (auto split: option.splits)
    then show ?thesis using assms(1) unfolding fine_def rest_fine_def shape_fine_def by blast
  qed
  then show ?thesis using repeat_test_needed [OF assms(1)] assms(2) TmRouteSetTest by (cases "s < length (mg_linksets m)") auto
next
  case (TmAdjacentRestart s)
  then show ?thesis using assms(2) end_adjacent_restart_restarting [of s m fv] by (auto split: if_splits)
next
  case (TmUninhibit l)
  then show ?thesis using assms(2) by (auto simp: repeat_uninhibit_def Let_def mg_note_def split: if_splits)
next
  case (TmForceUninhibit l)
  then show ?thesis using assms(2) by (auto simp: repeat_uninhibit_def Let_def mg_note_def split: if_splits)
next
  case (TmRerouting dpc)
  then show ?thesis using assms(2) release_destination_holding by simp
qed (use assms(2) end_restart_restarting in \<open>auto simp: test_inhibited_def split: if_splits\<close>)

lemma mg_timeout_ok: "ok fv A {} {} {} m \<Longrightarrow> ok fv (A - {Running t}) {} {} {} (mg_timeout fv t m)"
  using expired_ok [OF mg_timeout_keeps] mg_timeout_needed by blast

section \<open>Reachable states\<close>

fun expires :: "mg_input \<Rightarrow> observed set" where
  "expires (MiTimeout t) = {Running t}"
| "expires _ = {}"

lemma mg_event_ok:
  assumes "ok fv A {} {} {} m"
  shows "ok fv (A - expires input) {} {} {} (mg_event fv input m)"
proof (cases input)
  case (MiPaused dpc paused)
  have "calm A m (set_dest dpc (\<lambda>d. d\<lparr>kd_paused := paused\<rparr>) m)" by (rule calm_set_dest) (simp add: calm_dest_def)
  from fine_calm [OF assms this] show ?thesis using MiPaused by simp
qed (use assms mg_timeout_ok [OF assms] link_up_ok [OF assms] link_down_ok [OF assms] mg_received_ok [OF assms] unroutable_ok [OF assms]
    in simp_all)

definition managed :: "from_value \<Rightarrow> management \<Rightarrow> observed set \<Rightarrow> bool" where
  "managed fv m A \<longleftrightarrow> fine fv A {} {} {} m \<and> mg_out m = []"

lemma mg_handle_managed:
  assumes "managed fv m A"
  shows "managed fv (fst (mg_handle fv input m)) (fold watch (snd (mg_handle fv input m)) (A - expires input))"
proof -
  have "seen A m = A" using assms by (simp add: managed_def seen_def)
  then have "ok fv A {} {} {} m" using assms by (simp add: managed_def)
  then have "ok fv (A - expires input) {} {} {} (mg_event fv input m)" by (rule mg_event_ok)
  then have "ok fv (A - expires input) {} {} {} (mg_process fv input m)"
    using calm_watch_isolation [OF fine_settle] by (simp add: mg_process_def Let_def)
  then show ?thesis by (simp add: managed_def mg_handle_def Let_def seen_def)
qed

interpretation mg_clock: clocked_machine "mg_handle fv" watch expires "\<lambda>_ _. True" "managed fv" for fv
  by unfold_locales (rule mg_handle_managed)

text \<open>The state the program starts from.\<close>

definition destinations_valid :: "from_value \<Rightarrow> topology \<Rightarrow> bool" where
  "destinations_valid fv tp \<longleftrightarrow> (\<forall>dpc \<in> fst ` set (tp_routes tp). fv dpc Itu \<noteq> None)"

definition linksets_built :: "link_spec list \<times> linkset_spec list \<Rightarrow> bool" where
  "linksets_built acc \<longleftrightarrow> (case acc of (links, linksets) \<Rightarrow>
     (\<forall>l < length links. lks_linkset (links ! l) < length linksets \<and> l \<in> set (lss_links (linksets ! lks_linkset (links ! l)))) \<and>
     (\<forall>s < length linksets. distinct (lss_links (linksets ! s)) \<and>
        (\<forall>l \<in> set (lss_links (linksets ! s)). l < length links \<and> lks_linkset (links ! l) = s)))"

lemma add_linksets_built:
  assumes "linksets_built acc" and "index = length (snd acc)"
  shows "linksets_built (add_linksets adj index lss acc)"
  using assms
proof (induction adj index lss acc rule: add_linksets.induct)
  case (2 adj index ls rest links linksets)
  define n where "n = length (ls_links ls)"
  define new where "new = map (\<lambda>p. \<lparr>lks_name = link_assoc (ls_links ls ! p), lks_linkset = index, lks_slc = slc_of ls p\<rparr>) [0..<n]"
  define spec where "spec = \<lparr>lss_name = ls_name ls, lss_adjacent = first_some (\<lambda>l. adj (link_assoc l)) (ls_links ls),
    lss_links = map (\<lambda>p. length links + p) [0..<n]\<rparr>"
  have new: "length new = n" "\<And>p. p < n \<Longrightarrow> lks_linkset (new ! p) = length linksets" using 2(3) by (simp_all add: new_def)
  have spec: "lss_links spec = [length links..<length links + n]"
    by (simp add: spec_def map_add_upt add.commute)
  have old: "lks_linkset (links ! l) < length linksets" "l \<in> set (lss_links (linksets ! lks_linkset (links ! l)))" if "l < length links" for l
    using 2(2) that by (simp_all add: linksets_built_def)
  have built: "distinct (lss_links (linksets ! s))" "\<And>l. l \<in> set (lss_links (linksets ! s)) \<Longrightarrow> l < length links \<and> lks_linkset (links ! l) = s"
    if "s < length linksets" for s
    using 2(2) that by (simp_all add: linksets_built_def)
  have "linksets_built (links @ new, linksets @ [spec])"
    unfolding linksets_built_def prod.case
  proof (intro conjI allI impI ballI)
    fix l
    assume l: "l < length (links @ new)"
    show "lks_linkset ((links @ new) ! l) < length (linksets @ [spec])"
      using l old(1) [of l] new by (cases "l < length links") (auto simp: nth_append less_Suc_eq)
    show "l \<in> set (lss_links ((linksets @ [spec]) ! lks_linkset ((links @ new) ! l)))"
      using l old [of l] new spec by (cases "l < length links") (auto simp: nth_append)
  next
    fix s
    assume "s < length (linksets @ [spec])"
    then have s: "s < length linksets \<or> s = length linksets" by auto
    then show "distinct (lss_links ((linksets @ [spec]) ! s))" using built(1) [of s] spec by (auto simp: nth_append)
    fix l
    assume "l \<in> set (lss_links ((linksets @ [spec]) ! s))"
    then have "l < length links \<and> lks_linkset (links ! l) = s \<or> s = length linksets \<and> length links \<le> l \<and> l < length links + n"
      using s built(2) [of s l] spec by (auto simp: nth_append)
    then show "l < length (links @ new)" "lks_linkset ((links @ new) ! l) = s"
      using new by (auto simp: nth_append)
  qed
  then show ?case using 2 by (simp add: new_def spec_def n_def)
qed simp

definition vias_in :: "nat \<Rightarrow> (u32, route_spec list) btree \<Rightarrow> bool" where
  "vias_in n routes \<longleftrightarrow> (\<forall>rs \<in> snd ` set routes. \<forall>r \<in> set rs. case rsp_via r of ViaLinkset s \<Rightarrow> s < n | ViaServer _ \<Rightarrow> True)"

lemma bt_get_range: "bt_get k m = Some v \<Longrightarrow> v \<in> snd ` set m"
  unfolding bt_get_def using map_of_SomeD by (metis imageI snd_conv)

lemma vias_in_insert:
  assumes "vias_in n routes" and "\<forall>r \<in> set rs. case rsp_via r of ViaLinkset s \<Rightarrow> s < n | ViaServer _ \<Rightarrow> True"
  shows "vias_in n (bt_insert dpc rs routes)"
proof -
  have "snd ` set (bt_insert dpc rs routes) \<subseteq> insert rs (snd ` set routes)"
    by (induction dpc rs routes rule: bt_insert.induct) auto
  then show ?thesis using assms unfolding vias_in_def by blast
qed

lemma vias_in_add:
  assumes "vias_in (length linksets) routes"
  shows "vias_in (length linksets) (add_topology_route linksets servers r routes)"
proof -
  let ?good = "\<lambda>r. case rsp_via r of ViaLinkset s \<Rightarrow> s < length linksets | ViaServer _ \<Rightarrow> True"
  obtain dpc dest priority where r: "r = (dpc, dest, priority)" by (cases r) auto
  show ?thesis
  proof (cases "via_of linksets servers dest")
    case (Some via)
    let ?spec = "\<lparr>rsp_via = via, rsp_priority = priority\<rparr>"
    let ?old = "case bt_get dpc routes of None \<Rightarrow> [] | Some v \<Rightarrow> v"
    have "\<forall>r \<in> set ?old. ?good r"
      using assms bt_get_range [of dpc routes] unfolding vias_in_def by (cases "bt_get dpc routes") auto
    moreover have "?good ?spec" using Some by (cases dest) (auto dest: position_Some)
    ultimately have "\<forall>r \<in> set (if ?spec \<in> set ?old then ?old else ?old @ [?spec]). ?good r" by simp
    from vias_in_insert [OF assms this] show ?thesis
      using Some by (simp only: add_topology_route_def r bt_entry_def Let_def prod.case option.case)
  qed (use assms in \<open>simp add: add_topology_route_def r\<close>)
qed

lemma topology_build_wf: "topology_wf (topology_build fv t associations)"
proof -
  obtain links linksets where L: "add_linksets (adjacent_of associations) 0 (tn_linksets t) ([], []) = (links, linksets)" by fastforce
  have "linksets_built (links, linksets)"
    using add_linksets_built [of "([], [])" 0 "adjacent_of associations" "tn_linksets t"] L by (simp add: linksets_built_def)
  moreover have "vias_in (length linksets) (fold (add_topology_route linksets servers) rs routes)" if "vias_in (length linksets) routes" for servers rs routes
    using that by (induction rs arbitrary: routes) (simp_all add: vias_in_add)
  from this [of "[]"] have "vias_in (length linksets) (fold (add_topology_route linksets servers) rs [])" for servers rs
    by (simp add: vias_in_def)
  then have "s < length linksets" if "bt_get dpc (fold (add_topology_route linksets servers) rs []) = Some specs" "r \<in> set specs" "rsp_via r = ViaLinkset s"
    for servers rs dpc specs r s
    using bt_get_range [OF that(1)] that(2,3) unfolding vias_in_def by fastforce
  ultimately show ?thesis unfolding topology_wf_def
    by (auto simp: topology_build_def L linksets_built_def Let_def)
qed

lemma mg_new_managed:
  assumes "topology_wf tp" and "destinations_valid fv tp"
  shows "managed fv (mg_new tp ts tfp_unknown) {}"
proof -
  let ?m = "mg_new tp ts tfp_unknown"
  have dest: "\<exists>rs. bt_get dpc (tp_routes tp) = Some rs \<and> d = mg_destination_new rs" if "dest_of ?m dpc = Some d" for dpc d
    using that by (auto simp: dest_of_def mg_new_def bt_get_map)
  have "link_fine {} {} {} {} ?m l" if "l < length (mg_links ?m)" for l
    using that by (simp add: mg_new_def link_fine_def base_fine_def traffic_fine_def waits_fine_def mg_link_new_def)
  moreover have "shape_fine fv ?m"
  proof -
    have "fv dpc Itu \<noteq> None \<and> (\<forall>r \<in> set (kd_routes d). \<forall>s. kr_via r = ViaLinkset s \<longrightarrow> s < length (tp_linksets tp))"
      if d: "dest_of ?m dpc = Some d" for dpc d
    proof -
      obtain rs where rs: "bt_get dpc (tp_routes tp) = Some rs" "d = mg_destination_new rs" using dest [OF d] by blast
      then have "dpc \<in> fst ` set (tp_routes tp)" by (auto simp: bt_get_def dest!: map_of_SomeD intro: rev_image_eqI)
      then show ?thesis using rs assms unfolding topology_wf_def destinations_valid_def
        by (auto simp: mg_destination_new_def)
    qed
    then show ?thesis using assms(1) by (simp add: shape_fine_def mg_new_def)
  qed
  moreover have "dest_fine {} d dpc" if "dest_of ?m dpc = Some d" for dpc d
    using dest [OF that] by (auto simp: dest_fine_def mg_destination_new_def)
  moreover have "node_fine {} ?m" "\<forall>s < length (mg_linksets ?m). linkset_fine {} (mg_linksets ?m ! s) s"
    by (simp_all add: node_fine_def linkset_fine_def mg_new_def)
  ultimately show ?thesis by (simp add: managed_def fine_def rest_fine_def) (simp add: mg_new_def)
qed

lemma mg_reaches_managed:
  assumes "mg_clock.reaches fv (mg_new (topology_build fv t associations) ts tfp_unknown) {} m A"
    and "destinations_valid fv (topology_build fv t associations)"
  shows "managed fv m A"
  by (rule mg_clock.reaches_inv [OF assms(1) mg_new_managed [OF topology_build_wf assms(2)]])

section \<open>What holds of every reachable state\<close>

text \<open>
  C11: no procedure of network management is left without a clock. In every state reached from the
  start, whatever the links, the peers and the timers did, a changeover or changeback in progress, a
  rerouting that holds traffic, a guarded destination, a marked route, an outstanding inhibit or
  uninhibit message, a restart of this node or of an adjacent point: each has its timer running at
  the caller.
\<close>

theorem mgmt_guarded:
  assumes "mg_clock.reaches fv (mg_new (topology_build fv t associations) ts tfp_unknown) {} m A"
    and "destinations_valid fv (topology_build fv t associations)" and "needed m timer"
  shows "Running timer \<in> A"
  using mg_reaches_managed [OF assms(1,2)] fine_needed [OF _ assms(3)] unfolding managed_def by blast

text \<open>
  C12: the caller and the machine agree on the traffic of every link. Following the hold, divert and open
  actions alone, the caller sends on a link exactly when the machine has it open, and holds its
  traffic exactly during a changeover or a changeback; and traffic is sent only on links that are
  in service and not inhibited by the far end.
\<close>

theorem mgmt_traffic:
  assumes "mg_clock.reaches fv (mg_new (topology_build fv t associations) ts tfp_unknown) {} m A"
    and "destinations_valid fv (topology_build fv t associations)" and "l < length (mg_links m)"
  shows "(Opened l \<in> A) = (kl_phase (mg_links m ! l) = PhOpen) \<and>
    (Held l \<in> A) = (needed m (TmChangeover l) \<or> needed m (TmChangeback l)) \<and>
    (if mg_carries m l then kl_up (mg_links m ! l) \<and> \<not> is_inhibited m l else Opened l \<notin> A)"
proof -
  have "fine fv A {} {} {} m" using mg_reaches_managed [OF assms(1,2)] by (simp add: managed_def)
  then have tf: "traffic_fine A (mg_links m ! l) l" using fine_link [OF _ assms(3)] by simp
  then show ?thesis using assms(3)
    by (cases "kl_phase (mg_links m ! l)") (simp_all add: traffic_fine_def mg_carries_def link_available_def is_inhibited_def)
qed

lemma needed_calm:
  assumes "calm A m m'" and "\<And>dpc. t \<noteq> TmProhibited dpc"
  shows "needed m' t = needed m t"
proof -
  have ls: "length (mg_linksets m') = length (mg_linksets m)"
    "\<And>s. s < length (mg_linksets m) \<Longrightarrow> calm_linkset (mg_linksets m ! s) (mg_linksets m' ! s)"
    using assms(1) by (simp_all add: calm_def list_all2_conv_all_nth)
  have rel: "rel_option calm_dest (dest_of m k) (dest_of m' k)" for k using assms(1) by (simp add: calm_def)
  have dest: "(case dest_of m' k of None \<Rightarrow> False | Some d \<Rightarrow> Q d) = (case dest_of m k of None \<Rightarrow> False | Some d \<Rightarrow> Q d)"
    if "\<And>d d'. calm_dest d d' \<Longrightarrow> Q d' = Q d" for Q k
    using rel [of k] that by (cases "dest_of m k"; cases "dest_of m' k") simp_all
  show ?thesis using assms ls dest by (cases t) (auto simp: calm_def calm_dest_def calm_linkset_def)
qed

lemma mg_handle_timeout:
  assumes "\<And>dpc. t \<noteq> TmProhibited dpc"
  shows "needed (fst (mg_handle fv (MiTimeout t) m)) t = needed (mg_timeout fv t m) t"
    and "mg_links (fst (mg_handle fv (MiTimeout t) m)) = mg_links (mg_timeout fv t m)"
proof -
  let ?m = "settle fv (mg_timeout fv t m)"
  have "needed ((watch_isolation ?m)\<lparr>mg_out := []\<rparr>) t = needed ?m t" by (cases t) (simp_all add: dest_of_def)
  then show "needed (fst (mg_handle fv (MiTimeout t) m)) t = needed (mg_timeout fv t m) t"
    using needed_calm [OF calm_settle assms] by (simp add: mg_handle_def mg_process_def Let_def settles_def)
  show "mg_links (fst (mg_handle fv (MiTimeout t) m)) = mg_links (mg_timeout fv t m)"
    by (simp add: mg_handle_def mg_process_def Let_def settles_def settle_same)
qed

lemma repeat_changeback_links:
  "mg_links (repeat_changeback l m) = (mg_links m)[l := (mg_links m ! l)\<lparr>kl_phase := PhChangebackDeclared True\<rparr>]"
proof -
  have "mg_links (fold (\<lambda>(code, alternative). mg_send s slc (Cbd code) (PathBehind alternative)) ds m') = mg_links m'" for s slc ds m'
    by (induction ds arbitrary: m') (simp_all split: prod.split)
  then show ?thesis by (simp add: repeat_changeback_def Let_def set_phase_def)
qed

lemma second_timeout:
  assumes "\<And>dpc. t \<noteq> TmProhibited dpc" and "needed m t" and "needed (mg_timeout fv t m) t"
    and "case t of TmRouteSetTest _ _ \<Rightarrow> False | TmInhibitTest _ \<Rightarrow> False | _ \<Rightarrow> True"
  shows "\<not> needed (mg_timeout fv t (fst (mg_handle fv (MiTimeout t) m))) t"
proof -
  define m' where "m' = fst (mg_handle fv (MiTimeout t) m)"
  have links: "mg_links m' = mg_links (mg_timeout fv t m)" unfolding m'_def by (rule mg_handle_timeout(2) [OF assms(1)])
  show ?thesis unfolding m'_def [symmetric]
  proof (cases t)
    case (TmChangeover l)
    then show "\<not> needed (mg_timeout fv t m') t" using assms(2,3) complete_changeover_phase [of l m fv]
      by (auto simp: changeover_expired_def split: phase.splits)
  next
    case (TmChangeback l)
    then have l: "l < length (mg_links m)" "changeback_phase (kl_phase (mg_links m ! l))" using assms(2) by simp_all
    have "kl_phase (mg_links m ! l) = PhChangebackDeclared False"
      using assms(3) TmChangeback l by (cases "kl_phase (mg_links m ! l)")
        (auto simp: changeback_expired_def finish_changeback_def mg_note_def split: if_splits)
    then have "kl_phase (mg_links m' ! l) = PhChangebackDeclared True" "l < length (mg_links m')"
      using TmChangeback l by (simp_all add: links changeback_expired_def repeat_changeback_links)
    then show "\<not> needed (mg_timeout fv t m') t"
      using TmChangeback by (simp add: changeback_expired_def finish_changeback_def mg_note_def)
  next
    case (TmUninhibit l)
    then have "l < length (mg_links m')" "kl_uninhibit_attempts (mg_links m' ! l) = 2"
      using assms(2,3) by (auto simp: links repeat_uninhibit_def Let_def mg_note_def split: if_splits)
    then show "\<not> needed (mg_timeout fv t m') t" using TmUninhibit by (simp add: repeat_uninhibit_def Let_def mg_note_def)
  next
    case (TmForceUninhibit l)
    then have "l < length (mg_links m')" "kl_force_attempts (mg_links m' ! l) = 2"
      using assms(2,3) by (auto simp: links repeat_uninhibit_def Let_def mg_note_def split: if_splits)
    then show "\<not> needed (mg_timeout fv t m') t" using TmForceUninhibit by (simp add: repeat_uninhibit_def Let_def mg_note_def)
  next
    case (TmAdjacentRestart s)
    then show "\<not> needed (mg_timeout fv t m') t" using end_adjacent_restart_restarting [of s m' fv] by auto
  next
    case (TmRerouting dpc)
    then show "\<not> needed (mg_timeout fv t m') t" using release_destination_holding by simp
  qed (use assms(1,4) end_restart_restarting in auto)
qed

text \<open>
  C14: time alone ends every procedure. If no message arrives, the time-outs of a changeover, a
  changeback, a rerouting, an uninhibit request, a restart of this node or of an adjacent point bring
  it to its end after at most two of them. The tests of marked routes and inhibited links repeat for
  as long as the mark lasts, and the guard of a destination may be renewed.
\<close>

theorem mgmt_procedures_end:
  "case timer of
     TmRouteSetTest _ _ \<Rightarrow> True
   | TmInhibitTest _ \<Rightarrow> True
   | TmProhibited _ \<Rightarrow> True
   | _ \<Rightarrow> \<exists>n \<le> 2. \<not> needed (((\<lambda>m. fst (mg_handle fv (MiTimeout timer) m)) ^^ n) m) timer"
proof -
  let ?step = "\<lambda>m. fst (mg_handle fv (MiTimeout timer) m)"
  have "\<exists>n \<le> 2. \<not> needed ((?step ^^ n) m) timer"
    if "\<And>dpc. timer \<noteq> TmProhibited dpc" "case timer of TmRouteSetTest _ _ \<Rightarrow> False | TmInhibitTest _ \<Rightarrow> False | _ \<Rightarrow> True"
  proof -
    have "\<not> needed m timer \<or> \<not> needed (?step m) timer \<or> \<not> needed (?step (?step m)) timer"
      using second_timeout [OF that(1) _ _ that(2), of m fv] mg_handle_timeout(1) [OF that(1)] by blast
    then have "\<not> needed ((?step ^^ 0) m) timer \<or> \<not> needed ((?step ^^ 1) m) timer \<or> \<not> needed ((?step ^^ 2) m) timer"
      by (simp add: numeral_2_eq_2)
    then show ?thesis by (metis le_numeral_extra(3) one_le_numeral zero_le order_refl)
  qed
  then show ?thesis by (cases timer) simp_all
qed

section \<open>An example\<close>

text \<open>A point with one linkset of two links to an adjacent point, and two routes through it that differ in priority.\<close>

definition mgmt_sample_tenant :: tenant where
  "mgmt_sample_tenant = \<lparr>tn_point_code = 1, tn_variant = Itu, tn_network_indicator = National,
     tn_application_servers = [],
     tn_linksets = [\<lparr>ls_name = ''ls'', ls_links = [\<lparr>link_assoc = ''a'', link_slc = None\<rparr>, \<lparr>link_assoc = ''b'', link_slc = None\<rparr>], ls_link_test = link_test_default\<rparr>],
     tn_mtp3_routes = [\<lparr>rt_dpc = 5, rt_as = None, rt_linkset = Some ''ls'', rt_priority = 1\<rparr>,
       \<lparr>rt_dpc = 5, rt_as = None, rt_linkset = Some ''ls'', rt_priority = 2\<rparr>], tn_mtp3 = mtp3_default,
     tn_sccp = \<lparr>sccp_local_ssns = [], sccp_gtt_groups = [], sccp_gtt = [], sccp_gt_conversion = \<lparr>gc_plmn_map = []\<rparr>\<rparr>,
     tn_content_routing = None, tn_isup_screening = None\<rparr>"

definition mgmt_sample_assocs :: "association list" where
  "mgmt_sample_assocs = [\<lparr>assoc_id = ''a'', assoc_adaptation = M2pa, assoc_role = Server, assoc_adjacent_pc = Some 2, assoc_m2pa = None\<rparr>,
     \<lparr>assoc_id = ''b'', assoc_adaptation = M2pa, assoc_role = Server, assoc_adjacent_pc = Some 2, assoc_m2pa = None\<rparr>]"

definition mgmt_sample_codes :: from_value where
  "mgmt_sample_codes v var = (if v < 16384 then Some \<lparr>pc_value = v, pc_variant = var\<rparr> else None)"

definition mgmt_sample_topology :: topology where
  "mgmt_sample_topology = topology_build mgmt_sample_codes mgmt_sample_tenant mgmt_sample_assocs"

definition mgmt_sample_timers :: mg_timers where
  "mgmt_sample_timers = \<lparr>mt_t1 = 1, mt_t2 = 1, mt_t3 = 1, mt_t4 = 1, mt_t5 = 1, mt_t6 = 1, mt_t8 = 1, mt_t10 = 9,
     mt_t12 = 1, mt_t13 = 1, mt_t18 = 4, mt_t19 = 9, mt_t20 = 8, mt_t21 = 8, mt_t23 = 9\<rparr>"

definition mgmt_sample_start :: management where
  "mgmt_sample_start = mg_new mgmt_sample_topology mgmt_sample_timers True"

text \<open>The first link comes into service, then the adjacent point allows traffic.\<close>

definition mgmt_sample_up :: "management \<times> mg_action list" where
  "mgmt_sample_up = mg_handle mgmt_sample_codes (MiLinkUp 0) mgmt_sample_start"

definition mgmt_sample_open :: "management \<times> mg_action list" where
  "mgmt_sample_open = mg_handle mgmt_sample_codes (MiReceived 0 2 0 Tra) (fst mgmt_sample_up)"

lemma mgmt_sample_topology_value [code]:
  "mgmt_sample_topology = \<lparr>tp_own_pc = 1, tp_linksets = [\<lparr>lss_name = ''ls'', lss_adjacent = Some 2, lss_links = [0, 1]\<rparr>],
     tp_links = [\<lparr>lks_name = ''a'', lks_linkset = 0, lks_slc = 0\<rparr>, \<lparr>lks_name = ''b'', lks_linkset = 0, lks_slc = 1\<rparr>], tp_servers = [],
     tp_routes = [(2, [\<lparr>rsp_via = ViaLinkset 0, rsp_priority = 0\<rparr>]), (5, [\<lparr>rsp_via = ViaLinkset 0, rsp_priority = 1\<rparr>, \<lparr>rsp_via = ViaLinkset 0, rsp_priority = 2\<rparr>])]\<rparr>"
  by (simp add: mgmt_sample_topology_def mgmt_sample_tenant_def mgmt_sample_assocs_def mgmt_sample_codes_def topology_build_def
      resolver_build_def resolver_routes_def resolved_point_code_def first_some_def adjacent_of_def List.map_filter_def slc_of_def
      explicit_routes_def adjacent_routes_def adjacent_pcs_def push_route_def push_route_once_def sort_candidates_def
      add_topology_route_def ADJACENT_PRIORITY_def position_def bt_entry_def bt_get_def bt_map_def bt_remove_def Let_def)

lemma mgmt_sample_valid: "destinations_valid mgmt_sample_codes (topology_build mgmt_sample_codes mgmt_sample_tenant mgmt_sample_assocs)"
  using mgmt_sample_topology_value by (simp add: mgmt_sample_topology_def destinations_valid_def mgmt_sample_codes_def)

lemma mgmt_sample_up_reached:
  "mg_clock.reaches mgmt_sample_codes mgmt_sample_start {} (fst mgmt_sample_up) (fold watch (snd mgmt_sample_up) {})"
  using mg_clock.reaches_once [where e = "MiLinkUp 0" and s = mgmt_sample_start and A = "{}" and fv = mgmt_sample_codes] by (simp add: mgmt_sample_up_def)

lemma mgmt_sample_open_reached:
  "mg_clock.reaches mgmt_sample_codes mgmt_sample_start {} (fst mgmt_sample_open) (fold watch (snd mgmt_sample_open) (fold watch (snd mgmt_sample_up) {}))"
  using mg_clock.reaches_step [OF mgmt_sample_up_reached, of "MiReceived 0 2 0 Tra"] by (simp add: mgmt_sample_open_def)

lemma mgmt_sample_values:
  "needed (fst mgmt_sample_up) TmRestart" "length (mg_links (fst mgmt_sample_open)) = 2"
  "kl_phase (mg_links (fst mgmt_sample_open) ! 0) = PhOpen" "mg_carries (fst mgmt_sample_open) 0"
  by code_simp+

theorem mgmt_guarded_witness: "Running TmRestart \<in> fold watch (snd mgmt_sample_up) {}"
  using mgmt_guarded [OF mgmt_sample_up_reached [unfolded mgmt_sample_start_def mgmt_sample_topology_def] mgmt_sample_valid]
    mgmt_sample_values(1) by blast

theorem mgmt_traffic_witness:
  "Opened 0 \<in> fold watch (snd mgmt_sample_open) (fold watch (snd mgmt_sample_up) {}) \<and> \<not> is_inhibited (fst mgmt_sample_open) 0"
  using mgmt_traffic [OF mgmt_sample_open_reached [unfolded mgmt_sample_start_def mgmt_sample_topology_def] mgmt_sample_valid, of 0]
    mgmt_sample_values by simp

text \<open>
  A transfer-prohibited message marks only the first route through the sender. With two routes of
  different priority through one linkset, the adjacent point prohibits the destination: the router is
  told to mark the linkset, and then finds no route, while network management goes on counting the
  destination accessible by the second route and announces nothing.
\<close>

theorem twin_route_unmarked:
  "let dest = \<lparr>pc_value = 5, pc_variant = Itu\<rparr>;
       (m, actions) = mg_handle mgmt_sample_codes (MiReceived 0 2 0 (Tfp dest)) (fst mgmt_sample_open)
   in MaRoute 5 0 Prohibited \<in> set actions \<and> is_accessible m 5 \<and> MaAccessibility 5 False \<notin> set actions \<and>
      resolve (resolver_build mgmt_sample_tenant mgmt_sample_assocs) dest
        (set_route_status 5 (Linkset ''ls'') Prohibited (with_linksets_up [''ls''])) = None"
proof -
  have table: "bt_get 5 (rr_routes (resolver_build mgmt_sample_tenant mgmt_sample_assocs)) =
      Some [\<lparr>cand_dest = Linkset ''ls'', cand_priority = 1\<rparr>, \<lparr>cand_dest = Linkset ''ls'', cand_priority = 2\<rparr>]"
    by (simp add: resolver_build_def mgmt_sample_tenant_def mgmt_sample_assocs_def explicit_routes_def adjacent_routes_def
        adjacent_pcs_def push_route_def push_route_once_def sort_candidates_def bt_entry_def bt_get_def bt_map_def Let_def)
  have "resolve (resolver_build mgmt_sample_tenant mgmt_sample_assocs) \<lparr>pc_value = 5, pc_variant = Itu\<rparr>
      (set_route_status 5 (Linkset ''ls'') Prohibited (with_linksets_up [''ls''])) = None"
    unfolding resolve_def resolve_for_def resolve_avoiding_def by (simp add: table) code_simp
  moreover have "case mg_handle mgmt_sample_codes (MiReceived 0 2 0 (Tfp \<lparr>pc_value = 5, pc_variant = Itu\<rparr>)) (fst mgmt_sample_open) of
      (m, actions) \<Rightarrow> MaRoute 5 0 Prohibited \<in> set actions \<and> is_accessible m 5 \<and> MaAccessibility 5 False \<notin> set actions"
    by code_simp
  ultimately show ?thesis by (simp add: Let_def case_prod_beta)
qed

end
