(* ===== verification/Dial.thy ===== *)
theory Dial
  imports Sig_Prelude
begin

text \<open>
  When an association this node opens is dialled, and when it is dialled again
  (\<^verbatim>\<open>src/src/transport/dial.rs\<close>): the back-off with its jitter, and the state machine of one
  association. Durations and instants are nanoseconds, as in \<^verbatim>\<open>std::time\<close>; the arithmetic of a
  wait is on \<open>u64\<close> milliseconds with the saturation the program writes.
\<close>

unbundle bit_operations_syntax

section \<open>Saturating arithmetic\<close>

definition saturating_mul :: "u64 \<Rightarrow> u64 \<Rightarrow> u64" where
  "saturating_mul a b = (if unat a * unat b < 2 ^ 64 then a * b else - 1)"

definition saturating_sub :: "u64 \<Rightarrow> u64 \<Rightarrow> u64" where
  "saturating_sub a b = (if b \<le> a then a - b else 0)"

definition saturating_succ :: "u32 \<Rightarrow> u32" where
  "saturating_succ a = (if a = - 1 then a else a + 1)"

definition as_millis :: "duration \<Rightarrow> nat" where
  "as_millis d = d div 1000000"

definition from_millis :: "u64 \<Rightarrow> duration" where
  "from_millis ms = unat ms * 1000000"

section \<open>Settings, states and lines\<close>

record dial_settings =
  ds_connect_timeout :: duration
  ds_initial :: duration
  ds_max :: duration
  ds_jitter_percent :: u8
  ds_log_every :: duration

datatype dial_failure = DfRefused | DfTimeout | DfUnreachable | DfLocal | DfOther

datatype dial_state = DialIdle | DialConnecting | DialUp instant | DialWaiting | DialStopped

datatype dial_input = DiStart | DiConnected | DiFailed dial_failure | DiLost | DiElapsed | DiStop

datatype dial_line =
    LineEstablished u32
  | LineFailing dial_failure u32 duration
  | LineLost duration duration

datatype dial_action = DaConnect | DaServe | DaWait duration | DaLog dial_line

section \<open>Jitter\<close>

type_synonym jitter = u64

definition jitter_seeded :: "u64 \<Rightarrow> jitter" where
  "jitter_seeded seed = (if seed = 0 then 0x9E3779B97F4A7C15 else seed)"

definition jitter_step :: "u64 \<Rightarrow> u64" where
  "jitter_step x0 =
     (let x1 = x0 XOR drop_bit 12 x0;
          x2 = x1 XOR push_bit 25 x1
      in x2 XOR drop_bit 27 x2)"

definition jitter_next :: "jitter \<Rightarrow> jitter \<times> u64" where
  "jitter_next j = (let x = jitter_step j in (x, x * 0x2545F4914F6CDD1D))"

definition jitter_up_to :: "u64 \<Rightarrow> jitter \<Rightarrow> jitter \<times> u64" where
  "jitter_up_to bound j =
     (case jitter_next j of (j', n) \<Rightarrow>
        if bound \<noteq> - 1 then (j', drop_bit 11 n mod (bound + 1)) else (j', n))"

section \<open>The machine\<close>

record dial =
  dl_settings :: dial_settings
  dl_state :: dial_state
  dl_waits :: u32
  dl_failed :: u32
  dl_jitter :: jitter
  dl_logged :: "(dial_failure \<times> instant) option"
  dl_quiet :: u32
  dl_waiting :: duration

definition dial_new :: "dial_settings \<Rightarrow> jitter \<Rightarrow> dial" where
  "dial_new s j = \<lparr>dl_settings = s, dl_state = DialIdle, dl_waits = 0, dl_failed = 0, dl_jitter = j,
     dl_logged = None, dl_quiet = 0, dl_waiting = 0\<rparr>"

definition dial_backoff :: "dial \<Rightarrow> duration" where
  "dial_backoff d = (if dl_state d = DialWaiting then dl_waiting d else 0)"

definition checked_shl_1 :: "u32 \<Rightarrow> u64 option" where
  "checked_shl_1 n = (if n < 64 then Some (push_bit (unat n) 1) else None)"

definition whole_wait :: "dial_settings \<Rightarrow> u32 \<Rightarrow> u64" where
  "whole_wait s waits =
     (let initial = word_of_nat (max (as_millis (ds_initial s)) 1);
          most = max (word_of_nat (as_millis (ds_max s))) initial;
          doubled = (case checked_shl_1 waits of Some factor \<Rightarrow> saturating_mul initial factor | None \<Rightarrow> - 1)
      in min doubled most)"

definition next_wait :: "dial \<Rightarrow> dial \<times> duration" where
  "next_wait d =
     (let whole = whole_wait (dl_settings d) (dl_waits d);
          off = saturating_mul whole (ucast (min (ds_jitter_percent (dl_settings d)) 100)) div 100
      in case jitter_up_to off (dl_jitter d) of (j, n) \<Rightarrow>
           let wait = from_millis (max (saturating_sub whole n) 1)
           in (d\<lparr>dl_waits := saturating_succ (dl_waits d), dl_jitter := j, dl_waiting := wait\<rparr>, wait))"

definition log_due :: "dial \<Rightarrow> dial_failure \<Rightarrow> instant \<Rightarrow> bool" where
  "log_due d reason now =
     (case dl_logged d of
        Some (was, at) \<Rightarrow> was \<noteq> reason \<or> ds_log_every (dl_settings d) \<le> now - at
      | None \<Rightarrow> True)"

definition dial_attempt_failed :: "dial_failure \<Rightarrow> instant \<Rightarrow> dial \<Rightarrow> dial \<times> dial_action list" where
  "dial_attempt_failed reason now d =
     (case next_wait (d\<lparr>dl_failed := saturating_succ (dl_failed d)\<rparr>) of (d, next) \<Rightarrow>
        let d = d\<lparr>dl_state := DialWaiting\<rparr>
        in if log_due d reason now then
             (d\<lparr>dl_quiet := 0, dl_logged := Some (reason, now)\<rparr>,
              [DaLog (LineFailing reason (dl_quiet d) next), DaWait next])
           else (d\<lparr>dl_quiet := saturating_succ (dl_quiet d)\<rparr>, [DaWait next]))"

definition dial_was_lost :: "instant \<Rightarrow> instant \<Rightarrow> dial \<Rightarrow> dial \<times> dial_action list" where
  "dial_was_lost since now d =
     (let up = now - since;
          d = (if ds_max (dl_settings d) \<le> up then d\<lparr>dl_waits := 0\<rparr> else d)
      in case next_wait d of (d, next) \<Rightarrow>
           (d\<lparr>dl_state := DialWaiting\<rparr>, [DaLog (LineLost up next), DaWait next]))"

definition dial_handle :: "dial_input \<times> instant \<Rightarrow> dial \<Rightarrow> dial \<times> dial_action list" where
  "dial_handle e d =
     (case e of (input, now) \<Rightarrow>
        if dl_state d = DialStopped then (d, [])
        else if input = DiStop then (d\<lparr>dl_state := DialStopped\<rparr>, [])
        else case (dl_state d, input) of
               (DialIdle, DiStart) \<Rightarrow> (d\<lparr>dl_state := DialConnecting\<rparr>, [DaConnect])
             | (DialWaiting, DiElapsed) \<Rightarrow> (d\<lparr>dl_state := DialConnecting\<rparr>, [DaConnect])
             | (DialConnecting, DiConnected) \<Rightarrow>
                 (d\<lparr>dl_state := DialUp now, dl_failed := 0, dl_logged := None, dl_quiet := 0\<rparr>,
                  [DaLog (LineEstablished (dl_failed d)), DaServe])
             | (DialConnecting, DiFailed reason) \<Rightarrow> dial_attempt_failed reason now d
             | (DialUp since, DiLost) \<Rightarrow> dial_was_lost since now d
             | _ \<Rightarrow> (d, []))"

section \<open>The jitter generator never gets stuck\<close>

lemma xor_zero_eq:
  fixes x y :: u64
  assumes "x XOR y = 0"
  shows "x = y"
proof (rule bit_word_eqI)
  fix n
  have "bit (x XOR y) n = False" using assms by simp
  then show "bit x n = bit y n" unfolding bit_xor_iff by blast
qed

lemma xor_drop_zero:
  fixes x :: u64
  assumes "x XOR drop_bit n x = 0" and "0 < n"
  shows "x = 0"
proof -
  have eq: "x = drop_bit n x" by (rule xor_zero_eq [OF assms(1)])
  have "x = drop_bit (k * n) x" for k
  proof (induction k)
    case (Suc k)
    then have "x = drop_bit n (drop_bit (k * n) x)" using eq by simp
    then show ?case by (simp add: drop_bit_drop_bit add.commute)
  qed simp
  from this [of 64] have "x = drop_bit (64 * n) x" .
  moreover have "64 \<le> 64 * n" using assms(2) by simp
  then have "drop_bit (64 * n) x = 0" by (intro bit_word_eqI) (auto simp: bit_drop_bit_eq bit_imp_le_length dest: bit_imp_le_length)
  ultimately show ?thesis by simp
qed

lemma xor_push_zero:
  fixes x :: u64
  assumes "x XOR push_bit n x = 0" and "0 < n"
  shows "x = 0"
proof -
  have eq: "x = push_bit n x" by (rule xor_zero_eq [OF assms(1)])
  have "x = push_bit (k * n) x" for k
  proof (induction k)
    case (Suc k)
    then have "x = push_bit n (push_bit (k * n) x)" using eq by simp
    then show ?case by (simp add: push_bit_push_bit add.commute)
  qed simp
  from this [of 64] have "x = push_bit (64 * n) x" .
  moreover have "64 \<le> 64 * n" using assms(2) by simp
  then have "push_bit (64 * n) x = 0" by (intro bit_word_eqI) (auto simp: bit_push_bit_iff)
  ultimately show ?thesis by simp
qed

lemma jitter_step_nonzero:
  assumes "x \<noteq> 0"
  shows "jitter_step x \<noteq> 0"
proof
  define x1 where "x1 = x XOR drop_bit 12 x"
  define x2 where "x2 = x1 XOR push_bit 25 x1"
  assume "jitter_step x = 0"
  then have "x2 XOR drop_bit 27 x2 = 0" by (simp only: jitter_step_def Let_def x1_def [symmetric] x2_def [symmetric])
  then have "x2 = 0" by (rule xor_drop_zero) simp
  then have "x1 = 0" unfolding x2_def by (rule xor_push_zero) simp
  then have "x = 0" unfolding x1_def by (rule xor_drop_zero) simp
  then show False using assms by simp
qed

lemma jitter_up_to_le: "snd (jitter_up_to bound j) \<le> bound"
proof (cases "bound = - 1")
  case False
  then have nz: "1 + bound \<noteq> 0" by (metis add.inverse_unique add.commute)
  have "drop_bit 11 n mod (bound + 1) \<le> bound" for n :: u64
  proof -
    have "unat (drop_bit 11 n mod (bound + 1)) < unat (bound + 1)"
      using nz by (simp add: unat_mod_distrib add.commute unat_gt_0)
    also have "\<dots> = Suc (unat bound)" using unatSuc [OF nz] by (simp add: add.commute)
    finally show ?thesis by (simp add: word_le_nat_alt)
  qed
  then show ?thesis using False by (simp add: jitter_up_to_def split: prod.split)
qed (simp add: jitter_up_to_def split: prod.split)

section \<open>How long a wait is\<close>

lemma unat_minus_1: "unat (- 1 :: u64) = 2 ^ 64 - 1"
  by (simp add: unsigned_minus_1_eq_mask mask_eq_exp_minus_1)

lemma unat_max: "unat (max a b :: u64) = max (unat a) (unat b)"
  by (simp add: max_def word_le_nat_alt)

lemma unat_min: "unat (min a b :: 'a::len word) = min (unat a) (unat b)"
  by (simp add: min_def word_le_nat_alt)

lemma unat_saturating_mul: "unat (saturating_mul a b) = min (unat a * unat b) (2 ^ 64 - 1)"
proof (cases "unat a * unat b < 2 ^ 64")
  case True
  then show ?thesis by (simp add: saturating_mul_def unat_word_ariths(2))
next
  case False
  then show ?thesis using unat_minus_1 unfolding saturating_mul_def by (simp add: min_def)
qed

lemma unat_saturating_sub: "unat (saturating_sub a b) = unat a - unat b"
  by (auto simp: saturating_sub_def word_le_nat_alt unat_sub)

text \<open>The wait before jitter, on numbers: doubled for each wait before it, at most the longest.\<close>

definition ideal_wait :: "dial_settings \<Rightarrow> nat \<Rightarrow> nat" where
  "ideal_wait s n =
     (let initial = max (as_millis (ds_initial s)) 1 in min (initial * 2 ^ n) (max (as_millis (ds_max s)) initial))"

definition settings_fit :: "dial_settings \<Rightarrow> bool" where
  "settings_fit s \<longleftrightarrow> as_millis (ds_initial s) < 2 ^ 64 \<and> as_millis (ds_max s) < 2 ^ 64"

lemma whole_wait_ideal:
  assumes "settings_fit s"
  shows "unat (whole_wait s waits) = ideal_wait s (unat waits)"
proof -
  define i where "i = max (as_millis (ds_initial s)) 1"
  define m where "m = max (as_millis (ds_max s)) i"
  have i: "1 \<le> i" "i < 2 ^ 64" and m: "m < 2 ^ 64" using assms by (auto simp: i_def m_def settings_fit_def)
  let ?i = "word_of_nat i :: u64"
  let ?m = "max (word_of_nat (as_millis (ds_max s))) ?i"
  have ui: "unat ?i = i" using i by (simp add: unat_of_nat)
  have um: "unat ?m = m" using assms i by (simp add: unat_max ui m_def settings_fit_def unat_of_nat)
  let ?d = "case checked_shl_1 waits of Some factor \<Rightarrow> saturating_mul ?i factor | None \<Rightarrow> - 1"
  have "min (unat ?d) m = min (i * 2 ^ unat waits) m"
  proof (cases "waits < 64")
    case True
    then have w: "unat waits < 64" by (simp add: word_less_nat_alt)
    have "push_bit (unat waits) 1 = (word_of_nat (2 ^ unat waits) :: u64)" by simp
    then have "unat (push_bit (unat waits) 1 :: u64) = 2 ^ unat waits"
      using w power_strict_increasing [of "unat waits" 64 "2 :: nat"] by (simp only: unat_of_nat) simp
    then have "unat ?d = min (i * 2 ^ unat waits) (2 ^ 64 - 1)" using True ui by (simp add: checked_shl_1_def unat_saturating_mul)
    then show ?thesis using m by (simp add: min_def)
  next
    case False
    then have "64 \<le> unat waits" by (simp add: word_less_nat_alt)
    then have "(2 :: nat) ^ 64 \<le> 2 ^ unat waits" by (rule power_increasing) simp
    then have "2 ^ 64 \<le> i * 2 ^ unat waits" using i(1) by (metis mult_le_mono mult_1)
    then show ?thesis using False m unat_minus_1 by (simp add: checked_shl_1_def min_def)
  qed
  then show ?thesis unfolding whole_wait_def ideal_wait_def Let_def i_def [symmetric] unat_min um m_def [symmetric] .
qed

lemma as_millis_from: "as_millis (from_millis x) = unat x"
  by (simp add: as_millis_def from_millis_def)

lemma dial_wait_bounds_aux:
  assumes "settings_fit (dl_settings d)"
  shows "let whole = ideal_wait (dl_settings d) (unat (dl_waits d));
             percent = min (unat (ds_jitter_percent (dl_settings d))) 100;
             wait = as_millis (snd (next_wait d))
         in 1 \<le> wait \<and> wait \<le> whole \<and> whole - whole * percent div 100 \<le> wait"
proof -
  define w where "w = whole_wait (dl_settings d) (dl_waits d)"
  define p where "p = min (unat (ds_jitter_percent (dl_settings d))) 100"
  define off where "off = saturating_mul w (ucast (min (ds_jitter_percent (dl_settings d)) 100)) div 100"
  define n where "n = snd (jitter_up_to off (dl_jitter d))"
  have w: "unat w = ideal_wait (dl_settings d) (unat (dl_waits d))" unfolding w_def by (rule whole_wait_ideal [OF assms])
  have one: "1 \<le> unat w" unfolding w ideal_wait_def by (simp add: Let_def)
  have "unat (ucast (min (ds_jitter_percent (dl_settings d)) 100) :: u64) = p"
    using unsigned_less [of "ds_jitter_percent (dl_settings d)", where 'a = nat]
    by (simp add: unsigned_ucast_eq unat_min p_def take_bit_nat_eq_self min_less_iff_disj)
  then have off: "unat off \<le> unat w * p div 100" unfolding off_def by (simp add: unat_div unat_saturating_mul div_le_mono)
  have "n \<le> off" unfolding n_def by (rule jitter_up_to_le)
  then have n: "unat n \<le> unat w * p div 100" using off by (simp add: word_le_nat_alt)
  have "as_millis (snd (next_wait d)) = max (unat w - unat n) 1"
    by (simp add: next_wait_def Let_def w_def [symmetric] off_def [symmetric] n_def case_prod_beta as_millis_from unat_max unat_saturating_sub)
  then show ?thesis using one n by (simp add: Let_def w [symmetric] p_def [symmetric])
qed


text \<open>
  C30: the wait before an association is dialled again is the first wait doubled once for each wait
  before it, never more than the longest, never less than a millisecond, and jitter takes off at most
  its percentage: the saturating 64-bit arithmetic never wraps, whatever the settings.
\<close>

theorem dial_wait_bounds:
  assumes "settings_fit (dl_settings d)"
  shows "let whole = ideal_wait (dl_settings d) (unat (dl_waits d));
             percent = min (unat (ds_jitter_percent (dl_settings d))) 100;
             wait = as_millis (snd (next_wait d))
         in 1 \<le> wait \<and> wait \<le> whole \<and> whole - whole * percent div 100 \<le> wait"
  by (rule dial_wait_bounds_aux [OF assms])

section \<open>An association is never forgotten\<close>

datatype duty = DutyConnect | DutyServe | DutyWait

fun take_up :: "dial_action \<Rightarrow> duty set \<Rightarrow> duty set" where
  "take_up DaConnect A = insert DutyConnect A"
| "take_up DaServe A = insert DutyServe A"
| "take_up (DaWait _) A = insert DutyWait A"
| "take_up (DaLog _) A = A"

fun lay_down :: "dial_input \<times> instant \<Rightarrow> duty set" where
  "lay_down (DiConnected, _) = {DutyConnect}"
| "lay_down (DiFailed _, _) = {DutyConnect}"
| "lay_down (DiLost, _) = {DutyServe}"
| "lay_down (DiElapsed, _) = {DutyWait}"
| "lay_down _ = {}"

definition dial_duties :: "dial_state \<Rightarrow> duty set" where
  "dial_duties st = (case st of DialConnecting \<Rightarrow> {DutyConnect} | DialUp _ \<Rightarrow> {DutyServe} | DialWaiting \<Rightarrow> {DutyWait} | _ \<Rightarrow> {})"

definition dial_inv :: "dial_settings \<Rightarrow> dial \<Rightarrow> duty set \<Rightarrow> bool" where
  "dial_inv s d A \<longleftrightarrow> dl_settings d = s \<and> dl_jitter d \<noteq> 0 \<and> (dl_state d = DialStopped \<or> A = dial_duties (dl_state d)) \<and>
     (dl_state d = DialWaiting \<longrightarrow> 1 \<le> as_millis (dl_waiting d) \<and> as_millis (dl_waiting d) \<le> max (as_millis (ds_max s)) (max (as_millis (ds_initial s)) 1))"

lemma next_wait_fields:
  assumes "settings_fit (dl_settings d)" and "dl_jitter d \<noteq> 0"
  shows "dl_settings (fst (next_wait d)) = dl_settings d" "dl_state (fst (next_wait d)) = dl_state d"
    "dl_jitter (fst (next_wait d)) \<noteq> 0" "dl_waiting (fst (next_wait d)) = snd (next_wait d)"
    "1 \<le> as_millis (snd (next_wait d))"
    "as_millis (snd (next_wait d)) \<le> max (as_millis (ds_max (dl_settings d))) (max (as_millis (ds_initial (dl_settings d))) 1)"
proof -
  show "dl_settings (fst (next_wait d)) = dl_settings d" "dl_state (fst (next_wait d)) = dl_state d"
    "dl_waiting (fst (next_wait d)) = snd (next_wait d)"
    by (simp_all add: next_wait_def Let_def case_prod_beta)
  have "fst (jitter_up_to off j) = jitter_step j" for off j
    by (simp add: jitter_up_to_def jitter_next_def Let_def)
  then show "dl_jitter (fst (next_wait d)) \<noteq> 0"
    using jitter_step_nonzero [OF assms(2)] by (simp add: next_wait_def Let_def case_prod_beta)
  show "1 \<le> as_millis (snd (next_wait d))" "as_millis (snd (next_wait d)) \<le> max (as_millis (ds_max (dl_settings d))) (max (as_millis (ds_initial (dl_settings d))) 1)"
    using dial_wait_bounds_aux [OF assms(1)] by (simp_all add: Let_def ideal_wait_def)
qed

lemma dial_handle_inv:
  assumes "dial_inv s d A" and "lay_down e \<subseteq> A" and "settings_fit s"
  shows "dial_inv s (fst (dial_handle e d)) (fold take_up (snd (dial_handle e d)) (A - lay_down e))"
proof -
  obtain input now where e: "e = (input, now)" by (cases e)
  have fit: "settings_fit (dl_settings d')" "dl_jitter d' \<noteq> 0" if "dl_settings d' = dl_settings d" "dl_jitter d' = dl_jitter d" for d'
    using assms that by (simp_all add: dial_inv_def)
  have failed: "dial_inv s (fst (dial_attempt_failed reason now d)) {DutyWait}" for reason
    using assms(1) next_wait_fields [OF fit, of "d\<lparr>dl_failed := saturating_succ (dl_failed d)\<rparr>"]
    by (simp add: dial_attempt_failed_def Let_def case_prod_beta dial_inv_def dial_duties_def)
  have "dial_inv s (fst (dial_was_lost since now d)) {DutyWait}" for since
    using assms(1) next_wait_fields [OF fit, of d] next_wait_fields [OF fit, of "d\<lparr>dl_waits := 0\<rparr>"]
    by (simp add: dial_was_lost_def Let_def case_prod_beta dial_inv_def dial_duties_def)
  moreover have "fold take_up (snd (dial_attempt_failed reason now d)) {} = {DutyWait}"
    "fold take_up (snd (dial_was_lost since now d)) {} = {DutyWait}" for reason since
    by (simp_all add: dial_attempt_failed_def dial_was_lost_def Let_def case_prod_beta)
  ultimately show ?thesis using assms failed
    by (cases "dl_state d"; cases input) (simp_all add: dial_handle_def e dial_inv_def dial_duties_def)
qed

interpretation dial_task: clocked_machine dial_handle take_up lay_down "\<lambda>_ _. True"
  "\<lambda>d A. settings_fit s \<longrightarrow> dial_inv s d A" for s
  by unfold_locales (simp add: dial_handle_inv)

text \<open>
  An association this node opens is never forgotten. However attempts end, associations are lost
  and waits run out, until the node stops exactly one thing is under way for it, and it is what the
  state says: an attempt, the association itself, or a wait of at least a millisecond and at most the
  longest configured; and the jitter never falls into the fixed point of its generator.
\<close>

theorem dial_always_pursued:
  assumes "dial_task.reaches (dial_new s (jitter_seeded seed)) {} d A" and "settings_fit s"
  shows "dl_jitter d \<noteq> 0 \<and>
    (case dl_state d of
       DialIdle \<Rightarrow> A = {}
     | DialConnecting \<Rightarrow> A = {DutyConnect}
     | DialUp _ \<Rightarrow> A = {DutyServe}
     | DialWaiting \<Rightarrow> A = {DutyWait} \<and> 1 \<le> as_millis (dial_backoff d) \<and>
         as_millis (dial_backoff d) \<le> max (as_millis (ds_max s)) (max (as_millis (ds_initial s)) 1)
     | DialStopped \<Rightarrow> True)"
proof -
  have "dial_inv s (dial_new s (jitter_seeded seed)) {}"
    by (simp add: dial_inv_def dial_new_def jitter_seeded_def dial_duties_def)
  then have "dial_inv s d A" using dial_task.reaches_inv [OF assms(1), of s] assms(2) by simp
  then show ?thesis by (cases "dl_state d") (simp_all add: dial_inv_def dial_duties_def dial_backoff_def)
qed

definition dial_sample :: dial_settings where
  "dial_sample = \<lparr>ds_connect_timeout = 9000000, ds_initial = 2000000, ds_max = 7000000, ds_jitter_percent = 50, ds_log_every = 60000000\<rparr>"

theorem dial_wait_bounds_witness:
  "let wait = as_millis (snd (next_wait ((dial_new dial_sample 1)\<lparr>dl_waits := 1\<rparr>))) in 2 \<le> wait \<and> wait \<le> 4"
  using dial_wait_bounds [of "(dial_new dial_sample 1)\<lparr>dl_waits := 1\<rparr>"]
  by (simp add: settings_fit_def dial_sample_def dial_new_def as_millis_def ideal_wait_def Let_def)

theorem dial_always_pursued_witness:
  "dl_jitter (fst (dial_handle (DiStart, 5) (dial_new dial_sample (jitter_seeded 0)))) \<noteq> 0 \<and>
   fold take_up (snd (dial_handle (DiStart, 5) (dial_new dial_sample (jitter_seeded 0)))) {} = {DutyConnect}"
proof -
  let ?d = "dial_new dial_sample (jitter_seeded 0)"
  have "dial_task.reaches ?d {} (fst (dial_handle (DiStart, 5) ?d)) (fold take_up (snd (dial_handle (DiStart, 5) ?d)) ({} - lay_down (DiStart, 5)))"
    by (rule dial_task.reaches_once) simp_all
  from dial_always_pursued [OF this] show ?thesis
    by (simp add: settings_fit_def dial_sample_def as_millis_def dial_handle_def dial_new_def)
qed

end
