(* ===== verification/Identity.thy ===== *)
theory Identity
  imports Sig_Prelude
begin

text \<open>
  Who a listening endpoint accepts (\<^verbatim>\<open>src/src/transport/identity.rs\<close>): the match of the addresses
  a peer presented against the configured rules, and the throttle of the log lines a remote party can
  cause. An IP address is its octets, four of an IPv4 address and sixteen of an IPv6 address;
  \<open>to_canonical\<close> is the function of the standard library that turns an IPv4-mapped IPv6 address into
  the IPv4 address.
\<close>

section \<open>Peers and rules\<close>

type_synonym ip_addr = octets
type_synonym socket_addr = "ip_addr \<times> u16"

definition to_canonical :: "ip_addr \<Rightarrow> ip_addr" where
  "to_canonical ip =
     (if length ip = 16 \<and> take 12 ip = replicate 10 0 @ [0xFF, 0xFF] then drop 12 ip else ip)"

record peer_rule =
  pr_addrs :: "ip_addr list"
  pr_port :: "u16 option"

definition rule_anyone :: peer_rule where
  "rule_anyone = \<lparr>pr_addrs = [], pr_port = None\<rparr>"

definition rule_lists :: "peer_rule \<Rightarrow> ip_addr \<Rightarrow> bool" where
  "rule_lists r ip \<longleftrightarrow> to_canonical ip \<in> set (pr_addrs r)"

datatype peer_refusal = UnknownPeer | UnlistedAddress | PeerPort | Duplicate | Closed

fun admit_from :: "nat \<Rightarrow> bool \<Rightarrow> bool \<Rightarrow> peer_rule list \<Rightarrow> socket_addr list \<Rightarrow> peer_refusal + nat" where
  "admit_from index partly wrong_port [] peer =
     Inl (if wrong_port then PeerPort else if partly then UnlistedAddress else UnknownPeer)"
| "admit_from index partly wrong_port (rule # rules) peer =
     (if pr_addrs rule = [] then Inr index
      else
        let listed = length (filter (\<lambda>a. rule_lists rule (fst a)) peer)
        in if listed = 0 then admit_from (Suc index) partly wrong_port rules peer
           else if listed < length peer then admit_from (Suc index) True wrong_port rules peer
           else if (case pr_port rule of Some port \<Rightarrow> \<exists>a \<in> set peer. snd a \<noteq> port | None \<Rightarrow> False)
           then admit_from (Suc index) partly True rules peer
           else Inr index)"

definition peer_admit :: "peer_rule list \<Rightarrow> socket_addr list \<Rightarrow> peer_refusal + nat" where
  "peer_admit rules peer = (if peer = [] then Inl Closed else admit_from 0 False False rules peer)"

section \<open>The throttle\<close>

record throttle =
  th_interval :: duration
  th_last :: "instant option"
  th_suppressed :: u64

definition throttle_new :: "duration \<Rightarrow> throttle" where
  "throttle_new interval = \<lparr>th_interval = interval, th_last = None, th_suppressed = 0\<rparr>"

definition throttle_event :: "instant \<Rightarrow> throttle \<Rightarrow> throttle \<times> u64 option" where
  "throttle_event now t =
     (if (case th_last t of Some at \<Rightarrow> now - at < th_interval t | None \<Rightarrow> False)
      then (t\<lparr>th_suppressed := th_suppressed t + 1\<rparr>, None)
      else (t\<lparr>th_last := Some now, th_suppressed := 0\<rparr>, Some (th_suppressed t)))"

section \<open>A peer is known by all of its addresses\<close>

text \<open>What the rules mean: whoever comes, or exactly the listed addresses from the configured port.\<close>

definition vouches :: "peer_rule \<Rightarrow> socket_addr list \<Rightarrow> bool" where
  "vouches r peer \<longleftrightarrow> pr_addrs r = [] \<or>
     (\<forall>(ip, port) \<in> set peer. to_canonical ip \<in> set (pr_addrs r) \<and> (pr_port r = None \<or> pr_port r = Some port))"

definition knows_some :: "peer_rule \<Rightarrow> socket_addr list \<Rightarrow> bool" where
  "knows_some r peer \<longleftrightarrow> (\<exists>(ip, port) \<in> set peer. to_canonical ip \<in> set (pr_addrs r))"

definition knows_all :: "peer_rule \<Rightarrow> socket_addr list \<Rightarrow> bool" where
  "knows_all r peer \<longleftrightarrow> (\<forall>(ip, port) \<in> set peer. to_canonical ip \<in> set (pr_addrs r))"

lemma listed_none: "length (filter (\<lambda>a. rule_lists r (fst a)) peer) = 0 \<longleftrightarrow> \<not> knows_some r peer"
  by (auto simp: filter_empty_conv knows_some_def rule_lists_def)

lemma listed_all: "length (filter (\<lambda>a. rule_lists r (fst a)) peer) < length peer \<longleftrightarrow> \<not> knows_all r peer"
  using length_filter_less [of _ peer "\<lambda>a. rule_lists r (fst a)"] filter_id_conv [of "\<lambda>a. rule_lists r (fst a)" peer]
  by (auto simp: knows_all_def rule_lists_def case_prod_beta)

lemma vouches_iff:
  assumes "pr_addrs r \<noteq> []"
  shows "vouches r peer \<longleftrightarrow> knows_all r peer \<and>
    \<not> (case pr_port r of Some port \<Rightarrow> \<exists>a \<in> set peer. snd a \<noteq> port | None \<Rightarrow> False)"
  using assms by (cases "pr_port r") (auto simp: vouches_def knows_all_def)

lemma admit_from_exact:
  assumes "peer \<noteq> []"
  shows "admit_from n partly wrong rules peer =
    (case position (\<lambda>r. vouches r peer) rules of
       Some i \<Rightarrow> Inr (n + i)
     | None \<Rightarrow> Inl (if wrong \<or> (\<exists>r \<in> set rules. knows_all r peer) then PeerPort
                    else if partly \<or> (\<exists>r \<in> set rules. knows_some r peer) then UnlistedAddress
                    else UnknownPeer))"
proof (induction rules arbitrary: n partly wrong)
  case Nil
  then show ?case by (simp add: position_def)
next
  case (Cons r rules)
  have pos: "position (\<lambda>r. vouches r peer) (r # rules) =
      (if vouches r peer then Some 0 else map_option Suc (position (\<lambda>r. vouches r peer) rules))"
    by (rule position_Cons)
  show ?case
  proof (cases "pr_addrs r = []")
    case True
    then show ?thesis unfolding pos by (simp add: vouches_def)
  next
    case False
    have ks: "knows_all r peer \<Longrightarrow> knows_some r peer"
      using assms by (cases peer) (auto simp: knows_all_def knows_some_def)
    show ?thesis unfolding pos admit_from.simps listed_none listed_all Let_def vouches_iff [OF False] Cons.IH
      using False ks by (auto split: option.split)
  qed
qed

text \<open>
  C31: an accepted association belongs to the first configured association that vouches for every
  address the peer presented, IPv4-mapped ones in their IPv4 form, and for its port; a peer is refused
  exactly when none does, and the reason names the nearest miss: the wrong port, an address nobody
  vouched for beside a listed one, or no listed address at all.
\<close>

theorem peer_admit_exact:
  "peer_admit rules peer =
     (if peer = [] then Inl Closed
      else case position (\<lambda>r. vouches r peer) rules of
        Some i \<Rightarrow> Inr i
      | None \<Rightarrow> Inl (if \<exists>r \<in> set rules. knows_all r peer then PeerPort
                     else if \<exists>r \<in> set rules. knows_some r peer then UnlistedAddress
                     else UnknownPeer))"
proof (cases "peer = []")
  case False
  then show ?thesis unfolding peer_admit_def admit_from_exact [OF False] simp_thms add_0 by (simp only: if_False)
qed (simp add: peer_admit_def)

section \<open>The throttle loses no count\<close>

fun throttle_run :: "instant list \<Rightarrow> throttle \<Rightarrow> throttle \<times> u64 option list" where
  "throttle_run [] t = (t, [])"
| "throttle_run (now # nows) t =
     (case throttle_event now t of (t', r) \<Rightarrow> (case throttle_run nows t' of (t'', rs) \<Rightarrow> (t'', r # rs)))"

lemma throttle_run_count:
  "(\<Sum>r\<leftarrow>snd (throttle_run nows t). case r of Some n \<Rightarrow> n + 1 | None \<Rightarrow> 0) + th_suppressed (fst (throttle_run nows t)) =
     word_of_nat (length nows) + th_suppressed t"
proof (induction nows arbitrary: t)
  case (Cons now nows)
  obtain t' r where e: "throttle_event now t = (t', r)" by fastforce
  define x where "x = (case r of Some n \<Rightarrow> n + 1 | None \<Rightarrow> 0)"
  define S where "S = (\<Sum>r\<leftarrow>snd (throttle_run nows t'). case r of Some n \<Rightarrow> n + 1 | None \<Rightarrow> 0)"
  have "x + th_suppressed t' = th_suppressed t + 1"
    using e by (auto simp: x_def throttle_event_def split: if_splits option.splits)
  moreover have "S + th_suppressed (fst (throttle_run nows t')) = word_of_nat (length nows) + th_suppressed t'"
    unfolding S_def by (rule Cons.IH)
  ultimately have "x + S + th_suppressed (fst (throttle_run nows t')) = 1 + word_of_nat (length nows) + th_suppressed t"
    by (metis (no_types, opaque_lifting) add.assoc add.commute)
  then show ?case using e by (simp add: case_prod_beta x_def S_def)
qed simp

end
