(* ===== verification/Registry.thy ===== *)
theory Registry
  imports Router Admission M2pa_Link M3ua_Aspm Mtp3_Management
begin

text \<open>
  The runtime state the association tasks share (\<^verbatim>\<open>src/src/transport/registry.rs\<close>): one slot per
  association, the Application Servers and linksets compiled from a tenant, the queue of each pending
  server and the buffers of controlled rerouting, and the selection of an egress.

  The slots are the store \<open>rg_assocs\<close>, and a server or linkset refers to its members by association id
  where the program shares them by \<^verbatim>\<open>Arc\<close>; the handle of an SCTP association is a number. Channels
  are lists of what was put into them; \<^verbatim>\<open>OnceLock\<close> fields are flags that say whether a receiver is
  attached. The \<^verbatim>\<open>m3ua:\<close> block a slot carries for its task, the metrics and the log are left out.
\<close>

section \<open>Link ports\<close>

datatype destination_change = ChAccessible u32 | ChInaccessible u32 | ChCongested u32 u8 | ChRestricted u32

datatype link_command = CmdHold bool | CmdDivert "u32 option" | CmdOpen | CmdFail | CmdDirect octets

record link_test_settings =
  lts_t1 :: duration
  lts_t2 :: duration
  lts_pattern :: octets

record link_settings =
  lst_timers :: link_timers
  lst_proving :: proving
  lst_tx_queue :: nat
  lst_restart :: duration
  lst_test :: "link_test_settings option"
  lst_own_pc :: u32
  lst_adjacent_pc :: "u32 option"
  lst_ni :: u8
  lst_slc :: u8
  lst_index :: "nat option"

record link_port =
  lp_settings :: link_settings
  lp_tx :: "octets list"
  lp_commands :: "link_command list"
  lp_aligned :: bool
  lp_routable :: bool

definition port_new :: "link_settings \<Rightarrow> link_port" where
  "port_new s = \<lparr>lp_settings = s, lp_tx = [], lp_commands = [], lp_aligned = False, lp_routable = False\<rparr>"

definition port_command :: "link_command \<Rightarrow> link_port \<Rightarrow> link_port" where
  "port_command c p = p\<lparr>lp_commands := lp_commands p @ [c]\<rparr>"

definition port_set_routable :: "bool \<Rightarrow> link_port \<Rightarrow> link_port" where
  "port_set_routable on p = p\<lparr>lp_routable := on\<rparr>"

definition port_offer :: "octets \<Rightarrow> link_port \<Rightarrow> link_port \<times> bool" where
  "port_offer m p =
     (if length (lp_tx p) < max (lst_tx_queue (lp_settings p)) 1 then (p\<lparr>lp_tx := lp_tx p @ [m]\<rparr>, True) else (p, False))"

definition port_set_aligned :: "bool \<Rightarrow> link_port \<Rightarrow> link_port \<times> bool" where
  "port_set_aligned on p = (p\<lparr>lp_aligned := on\<rparr>, lp_aligned p \<noteq> on)"

section \<open>Association slots\<close>

type_synonym handle = nat

record membership =
  mb_server :: nat
  mb_position :: nat
  mb_context :: u32
  mb_mode :: traffic_mode

record assoc_slot =
  sl_id :: string
  sl_adaptation :: adaptation
  sl_sender :: "handle option"
  sl_active :: bool
  sl_link :: "link_port option"
  sl_role :: role
  sl_asp :: "nat option"
  sl_memberships :: "membership list"
  sl_occupied :: bool

definition slot_new :: "string \<Rightarrow> adaptation \<Rightarrow> link_port option \<Rightarrow> role \<Rightarrow> assoc_slot" where
  "slot_new ident adaptation link role =
     \<lparr>sl_id = ident, sl_adaptation = adaptation, sl_sender = None, sl_active = False, sl_link = link, sl_role = role,
      sl_asp = None, sl_memberships = [], sl_occupied = False\<rparr>"

definition slot_occupy :: "assoc_slot \<Rightarrow> assoc_slot \<times> bool" where
  "slot_occupy s = (if sl_occupied s then (s, False) else (s\<lparr>sl_occupied := True\<rparr>, True))"

definition slot_is_sender :: "assoc_slot \<Rightarrow> handle \<Rightarrow> bool" where
  "slot_is_sender s h \<longleftrightarrow> sl_sender s = Some h"

definition slot_vacate :: "handle \<Rightarrow> assoc_slot \<Rightarrow> assoc_slot" where
  "slot_vacate h s =
     (let s = (if slot_is_sender s h then s\<lparr>sl_active := False, sl_sender := None\<rparr> else s) in s\<lparr>sl_occupied := False\<rparr>)"

definition slot_set_sender :: "handle \<Rightarrow> assoc_slot \<Rightarrow> assoc_slot" where
  "slot_set_sender h s = s\<lparr>sl_sender := Some h\<rparr>"

definition slot_clear_sender :: "assoc_slot \<Rightarrow> assoc_slot" where
  "slot_clear_sender s = s\<lparr>sl_sender := None\<rparr>"

definition slot_set_active :: "bool \<Rightarrow> assoc_slot \<Rightarrow> assoc_slot" where
  "slot_set_active on s = s\<lparr>sl_active := on\<rparr>"

definition is_carrying :: "assoc_slot \<Rightarrow> bool" where
  "is_carrying s \<longleftrightarrow> sl_active s \<and> sl_sender s \<noteq> None"

definition slot_routable :: "assoc_slot \<Rightarrow> bool" where
  "slot_routable s \<longleftrightarrow> (case sl_link s of Some port \<Rightarrow> lp_routable port | None \<Rightarrow> False)"

section \<open>The registry\<close>

record as_entry =
  ae_name :: string
  ae_traffic_mode :: traffic_mode
  ae_routing_context :: u32
  ae_asps :: "string list"
  ae_members :: "string list"
  ae_up :: bool
  ae_managed :: bool
  ae_active :: "bool list"
  ae_state :: u8
  ae_pending :: "msu list"
  ae_pending_limit :: nat

record linkset_entry =
  le_name :: string
  le_links :: "string list"
  le_width :: nat

record registry =
  rg_tenant :: string
  rg_variant :: variant
  rg_assocs :: "(string, assoc_slot) btree"
  rg_servers :: "as_entry list"
  rg_linksets :: "linkset_entry list"
  rg_links :: "string list"
  rg_management :: bool
  rg_layer :: bool
  rg_restarting :: bool
  rg_holding :: nat
  rg_held :: "(u32, msu list) btree"
  rg_rerouting_buffer :: nat
  rg_destinations :: "(u32, nat list) btree"

fun state_number :: "as_state \<Rightarrow> u8" where
  "state_number AsDown = 0"
| "state_number AsInactive = 1"
| "state_number AsActive = 2"
| "state_number AsPending = 3"

definition entry_state :: "as_entry \<Rightarrow> as_state" where
  "entry_state a =
     (if ae_state a = 1 then AsInactive else if ae_state a = 2 then AsActive
      else if ae_state a = 3 then AsPending else AsDown)"

definition slot_of :: "registry \<Rightarrow> string \<Rightarrow> assoc_slot option" where
  "slot_of r ident = bt_get ident (rg_assocs r)"

definition set_slot :: "string \<Rightarrow> (assoc_slot \<Rightarrow> assoc_slot) \<Rightarrow> registry \<Rightarrow> registry" where
  "set_slot ident f r = r\<lparr>rg_assocs := bt_map (\<lambda>k s. if k = ident then f s else s) (rg_assocs r)\<rparr>"

definition set_server :: "nat \<Rightarrow> (as_entry \<Rightarrow> as_entry) \<Rightarrow> registry \<Rightarrow> registry" where
  "set_server i f r = r\<lparr>rg_servers := (rg_servers r)[i := f (rg_servers r ! i)]\<rparr>"

definition entry_carries :: "registry \<Rightarrow> as_entry \<Rightarrow> nat \<Rightarrow> bool" where
  "entry_carries r a i =
     (case (if i < length (ae_members a) then slot_of r (ae_members a ! i) else None) of
        None \<Rightarrow> False
      | Some s \<Rightarrow> if ae_managed a then ae_active a ! i \<and> sl_sender s \<noteq> None else is_carrying s)"

section \<open>Compiling a tenant\<close>

definition registry_link_timers :: "m2pa_link \<Rightarrow> link_timers" where
  "registry_link_timers m = \<lparr>lt_t1 = ml_t1_ms m, lt_t2 = ml_t2_ms m, lt_t3 = ml_t3_ms m, lt_t4_normal = ml_t4n_ms m,
     lt_t4_emergency = ml_t4e_ms m, lt_t6 = ml_t6_ms m, lt_t7 = ml_t7_ms m, lt_proving_interval = ml_proving_interval_ms m\<rparr>"

definition place_of :: "tenant \<Rightarrow> string \<Rightarrow> (linkset \<times> nat) option" where
  "place_of t ident =
     first_some (\<lambda>ls. map_option (\<lambda>i. (ls, i)) (position (\<lambda>l. link_assoc l = ident) (ls_links ls))) (tn_linksets t)"

definition link_test_of :: "(linkset \<times> nat) option \<Rightarrow> u32 option \<Rightarrow> link_test_settings option" where
  "link_test_of place adjacent =
     (case place of
        None \<Rightarrow> None
      | Some (ls, _) \<Rightarrow>
          (case pattern_octets (ls_link_test ls) of
             None \<Rightarrow> None
           | Some pattern \<Rightarrow>
               if clt_enabled (ls_link_test ls) \<and> adjacent \<noteq> None
               then Some \<lparr>lts_t1 = clt_t1_ms (ls_link_test ls), lts_t2 = clt_t2_ms (ls_link_test ls), lts_pattern = pattern\<rparr>
               else None))"

definition port_of :: "u32 \<Rightarrow> tenant \<Rightarrow> topology \<Rightarrow> association \<Rightarrow> link_port" where
  "port_of own_pc t tp a =
     (let place = place_of t (assoc_id a);
          m = (case assoc_m2pa a of Some m \<Rightarrow> m | None \<Rightarrow> m2pa_link_default)
      in port_new \<lparr>lst_timers = registry_link_timers m,
           lst_proving = (case ml_proving m of ProvingModeNormal \<Rightarrow> PvNormal | ProvingModeEmergency \<Rightarrow> PvEmergency),
           lst_tx_queue = ml_tx_queue m, lst_restart = ml_restart_ms m,
           lst_test = link_test_of place (assoc_adjacent_pc a), lst_own_pc = own_pc,
           lst_adjacent_pc = assoc_adjacent_pc a, lst_ni = ni_bits (tn_network_indicator t),
           lst_slc = (case place of Some (ls, i) \<Rightarrow> slc_of ls i | None \<Rightarrow> 0),
           lst_index = position (\<lambda>l. lks_name l = assoc_id a) (tp_links tp)\<rparr>)"

definition memberships_of :: "tenant \<Rightarrow> string \<Rightarrow> membership list" where
  "memberships_of t ident =
     List.map_filter (\<lambda>(server, entry).
       map_option (\<lambda>p. \<lparr>mb_server = server, mb_position = p, mb_context = as_routing_context entry, mb_mode = as_traffic_mode entry\<rparr>)
         (position (\<lambda>x. x = ident) (as_asps entry)))
       (List.enumerate 0 (tn_application_servers t))"

definition slot_build :: "u32 \<Rightarrow> tenant \<Rightarrow> topology \<Rightarrow> layout \<Rightarrow> association \<Rightarrow> assoc_slot" where
  "slot_build own_pc t tp ly a =
     (let link = (if assoc_adaptation a = M2pa then Some (port_of own_pc t tp a) else None);
          s = slot_new (assoc_id a) (assoc_adaptation a) link (assoc_role a)
      in if assoc_adaptation a = M3ua then
           s\<lparr>sl_asp := position (\<lambda>x. ap_name x = assoc_id a) (ly_asps ly), sl_memberships := memberships_of t (assoc_id a)\<rparr>
         else s)"

definition entry_build :: "(string, assoc_slot) btree \<Rightarrow> application_server \<Rightarrow> as_entry" where
  "entry_build assocs a =
     (let members = filter (\<lambda>x. bt_get x assocs \<noteq> None) (as_asps a)
      in \<lparr>ae_name = as_name a, ae_traffic_mode = as_traffic_mode a, ae_routing_context = as_routing_context a,
          ae_asps = as_asps a, ae_members = members, ae_up = False,
          ae_managed = (members \<noteq> [] \<and> length members = length (as_asps a) \<and>
            list_all (\<lambda>x. map_option sl_adaptation (bt_get x assocs) = Some M3ua) members),
          ae_active = map (\<lambda>_. False) members, ae_state = 0, ae_pending = [], ae_pending_limit = as_pending_queue a\<rparr>)"

definition linkset_entry_build :: "route_resolver \<Rightarrow> (string, assoc_slot) btree \<Rightarrow> linkset \<Rightarrow> linkset_entry" where
  "linkset_entry_build res assocs l =
     \<lparr>le_name = ls_name l, le_links = filter (\<lambda>x. bt_get x assocs \<noteq> None) (map link_assoc (ls_links l)),
      le_width = share_width res (Linkset (ls_name l))\<rparr>"

definition server_routes :: "route_spec list \<Rightarrow> nat list" where
  "server_routes rs = List.map_filter (\<lambda>x. case rsp_via x of ViaServer i \<Rightarrow> Some i | ViaLinkset _ \<Rightarrow> None) rs"

definition registry_build :: "from_value \<Rightarrow> config \<Rightarrow> string \<Rightarrow> registry option" where
  "registry_build fv cfg tenant_id =
     (case map_of (rev (cfg_tenants cfg)) tenant_id of
        None \<Rightarrow> None
      | Some t \<Rightarrow>
          let own_pc = (case resolved_point_code fv t of Some pc \<Rightarrow> pc_value pc | None \<Rightarrow> tn_point_code t);
              tp = topology_build fv t (cfg_associations cfg);
              ly = layout_build t (cfg_associations cfg);
              assocs = bt_collect (map (\<lambda>a. (assoc_id a, slot_build own_pc t tp ly a)) (cfg_associations cfg));
              res = resolver_build t (cfg_associations cfg)
          in Some \<lparr>rg_tenant = tenant_id, rg_variant = tn_variant t, rg_assocs = assocs,
               rg_servers = map (entry_build assocs) (tn_application_servers t),
               rg_linksets = map (linkset_entry_build res assocs) (tn_linksets t),
               rg_links = filter (\<lambda>x. bt_get x assocs \<noteq> None) (map lks_name (tp_links tp)),
               rg_management = False, rg_layer = False, rg_restarting = False, rg_holding = 0, rg_held = [],
               rg_rerouting_buffer = mtp3_rerouting_buffer (tn_mtp3 t),
               rg_destinations = bt_map (\<lambda>_. server_routes) (tp_routes tp)\<rparr>)"

section \<open>Reports to the tasks\<close>

datatype rg_effect = RgManage mg_input | RgUnroutable mg_input | RgAnnounce destination_change | RgRequest

definition attach_management :: "registry \<Rightarrow> registry" where
  "attach_management r = r\<lparr>rg_management := True\<rparr>"

definition attach_layer :: "registry \<Rightarrow> registry" where
  "attach_layer r = r\<lparr>rg_layer := True\<rparr>"

definition manage :: "mg_input \<Rightarrow> registry \<Rightarrow> rg_effect list" where
  "manage input r = (if rg_management r then [RgManage input] else [])"

definition report_unroutable :: "u32 \<Rightarrow> string \<Rightarrow> registry \<Rightarrow> rg_effect list" where
  "report_unroutable dpc inbound_assoc r =
     (case Option.bind (slot_of r inbound_assoc) (\<lambda>s. Option.bind (sl_link s) (\<lambda>port. lst_index (lp_settings port))) of
        None \<Rightarrow> []
      | Some link \<Rightarrow> if rg_management r then [RgUnroutable (MiUnroutable dpc link)] else [])"

definition registry_request :: "registry \<Rightarrow> bool" where
  "registry_request r = rg_layer r"

definition announce :: "destination_change \<Rightarrow> rg_effect list" where
  "announce change = [RgAnnounce change]"

definition set_restarting :: "bool \<Rightarrow> registry \<Rightarrow> registry" where
  "set_restarting on r = r\<lparr>rg_restarting := on\<rparr>"

section \<open>Reading the tables\<close>

definition registry_link :: "registry \<Rightarrow> nat \<Rightarrow> assoc_slot option" where
  "registry_link r i = (if i < length (rg_links r) then slot_of r (rg_links r ! i) else None)"

definition linkset_links :: "registry \<Rightarrow> nat \<Rightarrow> string list" where
  "linkset_links r i = (if i < length (rg_linksets r) then le_links (rg_linksets r ! i) else [])"

definition linkset_name :: "registry \<Rightarrow> nat \<Rightarrow> string option" where
  "linkset_name r i = (if i < length (rg_linksets r) then Some (le_name (rg_linksets r ! i)) else None)"

definition asp_slot :: "registry \<Rightarrow> nat \<Rightarrow> assoc_slot option" where
  "asp_slot r asp = find (\<lambda>s. sl_asp s = Some asp) (map snd (rg_assocs r))"

definition registry_server :: "registry \<Rightarrow> nat \<Rightarrow> (string \<times> u32) option" where
  "registry_server r i =
     (if i < length (rg_servers r) then Some (ae_name (rg_servers r ! i), ae_routing_context (rg_servers r ! i)) else None)"

definition server_index :: "registry \<Rightarrow> string \<Rightarrow> nat option" where
  "server_index r name = position (\<lambda>a. ae_name a = name) (rg_servers r)"

definition active_asps :: "registry \<Rightarrow> nat \<Rightarrow> string list" where
  "active_asps r server =
     (if server < length (rg_servers r) then
        let a = rg_servers r ! server
        in map (\<lambda>i. ae_members a ! i) (filter (entry_carries r a) [0..<length (ae_members a)])
      else [])"

definition as_membership :: "registry \<Rightarrow> string \<Rightarrow> (u32 \<times> traffic_mode) option" where
  "as_membership r ident =
     map_option (\<lambda>a. (ae_routing_context a, ae_traffic_mode a)) (find (\<lambda>a. ident \<in> set (ae_asps a)) (rg_servers r))"

definition inbound_destination :: "registry \<Rightarrow> string \<Rightarrow> destination option" where
  "inbound_destination r ident =
     (case find (\<lambda>a. ident \<in> set (ae_asps a)) (rg_servers r) of
        Some a \<Rightarrow> Some (ApplicationServer (ae_name a))
      | None \<Rightarrow> map_option (\<lambda>l. Linkset (le_name l)) (find (\<lambda>l. ident \<in> set (le_links l)) (rg_linksets r)))"

definition link_by_slc :: "registry \<Rightarrow> string \<Rightarrow> u8 \<Rightarrow> string option" where
  "link_by_slc r ident slc =
     (case find (\<lambda>l. ident \<in> set (le_links l)) (rg_linksets r) of
        None \<Rightarrow> None
      | Some l \<Rightarrow> find (\<lambda>x. case Option.bind (slot_of r x) sl_link of
                              Some port \<Rightarrow> lst_slc (lp_settings port) = slc | None \<Rightarrow> False) (le_links l))"

section \<open>ASP state\<close>

definition member_active :: "registry \<Rightarrow> membership \<Rightarrow> bool" where
  "member_active r m \<longleftrightarrow> mb_server m < length (rg_servers r) \<and>
     mb_position m < length (ae_active (rg_servers r ! mb_server m)) \<and> ae_active (rg_servers r ! mb_server m) ! mb_position m"

definition set_member_flag :: "bool \<Rightarrow> membership \<Rightarrow> registry \<Rightarrow> registry" where
  "set_member_flag on m r =
     (if mb_server m < length (rg_servers r)
      then set_server (mb_server m) (\<lambda>a. a\<lparr>ae_active := (ae_active a)[mb_position m := on]\<rparr>) r else r)"

definition set_asp_active :: "string \<Rightarrow> nat \<Rightarrow> bool \<Rightarrow> registry \<Rightarrow> registry" where
  "set_asp_active ident server active r =
     (case slot_of r ident of
        None \<Rightarrow> r
      | Some s \<Rightarrow>
          if server < length (rg_servers r) then
            let r = fold (set_member_flag active) (filter (\<lambda>m. mb_server m = server) (sl_memberships s)) r
            in set_slot ident (slot_set_active (\<exists>m \<in> set (sl_memberships s). member_active r m)) r
          else r)"

definition quiesce :: "string \<Rightarrow> registry \<Rightarrow> registry" where
  "quiesce ident r =
     (case slot_of r ident of
        None \<Rightarrow> r
      | Some s \<Rightarrow> set_slot ident (slot_set_active False) (fold (set_member_flag False) (sl_memberships s) r))"

datatype asp_admission = AdActive | AdNotActive | AdUnconfigured

definition asp_admits :: "registry \<Rightarrow> assoc_slot \<Rightarrow> u32 option \<Rightarrow> asp_admission" where
  "asp_admits r s context =
     (let active = filter (member_active r) (sl_memberships s)
      in if active = [] then AdNotActive
         else case context of
                None \<Rightarrow> AdActive
              | Some c \<Rightarrow>
                  if \<exists>m \<in> set active. mb_context m = c then AdActive
                  else if \<exists>m \<in> set (sl_memberships s). mb_context m = c then AdNotActive
                  else AdUnconfigured)"

section \<open>Pending servers\<close>

definition registry_server_state :: "registry \<Rightarrow> string \<Rightarrow> as_state option" where
  "registry_server_state r name = map_option entry_state (find (\<lambda>a. ae_name a = name \<and> ae_managed a) (rg_servers r))"

definition set_server_state :: "nat \<Rightarrow> as_state \<Rightarrow> registry \<Rightarrow> registry \<times> msu list" where
  "set_server_state server st r =
     (if server < length (rg_servers r) then
        let r = set_server server (\<lambda>a. a\<lparr>ae_state := state_number st\<rparr>) r
        in if st = AsPending then (r, [])
           else (set_server server (\<lambda>a. a\<lparr>ae_pending := []\<rparr>) r, ae_pending (rg_servers r ! server))
      else (r, []))"

definition queue_if_pending :: "string \<Rightarrow> msu \<Rightarrow> registry \<Rightarrow> registry \<times> bool" where
  "queue_if_pending name m r =
     (case position (\<lambda>a. ae_name a = name \<and> ae_managed a) (rg_servers r) of
        None \<Rightarrow> (r, False)
      | Some i \<Rightarrow>
          let a = rg_servers r ! i
          in if entry_state a \<noteq> AsPending then (r, False)
             else if ae_pending_limit a \<le> length (ae_pending a) then (r, True)
             else (set_server i (\<lambda>a. a\<lparr>ae_pending := ae_pending a @ [m]\<rparr>) r, True))"

section \<open>Controlled rerouting\<close>

definition hold_destination :: "u32 \<Rightarrow> registry \<Rightarrow> registry" where
  "hold_destination dpc r =
     (let fresh = (bt_get dpc (rg_held r) = None); r = r\<lparr>rg_held := bt_insert dpc [] (rg_held r)\<rparr>
      in if fresh then r\<lparr>rg_holding := rg_holding r + 1\<rparr> else r)"

definition hold_if_rerouting :: "msu \<Rightarrow> registry \<Rightarrow> registry \<times> bool" where
  "hold_if_rerouting m r =
     (if rg_holding r = 0 then (r, False)
      else case bt_get (msu_dpc m) (rg_held r) of
        None \<Rightarrow> (r, False)
      | Some buffer \<Rightarrow>
          if rg_rerouting_buffer r \<le> length buffer then (r, True)
          else (r\<lparr>rg_held := bt_insert (msu_dpc m) (buffer @ [m]) (rg_held r)\<rparr>, True))"

definition release_held :: "u32 \<Rightarrow> registry \<Rightarrow> registry \<times> msu list option" where
  "release_held dpc r =
     (case bt_get dpc (rg_held r) of
        None \<Rightarrow> (r, None)
      | Some buffer \<Rightarrow>
          if buffer = [] then (r\<lparr>rg_held := bt_remove dpc (rg_held r), rg_holding := rg_holding r - 1\<rparr>, None)
          else (r\<lparr>rg_held := bt_insert dpc [] (rg_held r)\<rparr>, Some buffer))"

section \<open>Availability and selection\<close>

definition server_available :: "registry \<Rightarrow> as_entry \<Rightarrow> bool" where
  "server_available r a =
     (if ae_managed a then entry_state a = AsActive \<or> entry_state a = AsPending
      else \<exists>x \<in> set (ae_members a). case slot_of r x of Some s \<Rightarrow> is_carrying s | None \<Rightarrow> False)"

definition linkset_routed :: "registry \<Rightarrow> linkset_entry \<Rightarrow> bool" where
  "linkset_routed r l \<longleftrightarrow> (\<exists>x \<in> set (le_links l). case slot_of r x of Some s \<Rightarrow> slot_routable s | None \<Rightarrow> False)"

definition recompute_server ::
  "nat \<Rightarrow> registry \<times> 'mt tenancy \<times> rg_effect list \<Rightarrow> registry \<times> 'mt tenancy \<times> rg_effect list" where
  "recompute_server i acc =
     (case acc of (r, ten, out) \<Rightarrow>
        let a = rg_servers r ! i; up = server_available r a;
            out = (if ae_up a \<noteq> up then out @ manage (MiServer i up) r else out);
            r = set_server i (\<lambda>a. a\<lparr>ae_up := up\<rparr>) r
        in (r, (if up then note_as_up (rg_tenant r) (ae_name a) ten else note_as_down (rg_tenant r) (ae_name a) ten), out))"

definition recompute_linkset :: "registry \<Rightarrow> linkset_entry \<Rightarrow> 'mt tenancy \<Rightarrow> 'mt tenancy" where
  "recompute_linkset r l ten =
     (if linkset_routed r l then note_linkset_up (rg_tenant r) (le_name l) ten else note_linkset_down (rg_tenant r) (le_name l) ten)"

definition recompute :: "registry \<Rightarrow> 'mt tenancy \<Rightarrow> registry \<times> 'mt tenancy \<times> rg_effect list" where
  "recompute r ten =
     (case fold recompute_server [0..<length (rg_servers r)] (r, ten, []) of (r, ten, out) \<Rightarrow>
        (r, fold (recompute_linkset r) (rg_linksets r) ten, out))"

definition choose_members :: "traffic_mode \<Rightarrow> bool list \<Rightarrow> u8 \<Rightarrow> nat list" where
  "choose_members mode active sls =
     (let up = filter (\<lambda>i. active ! i) [0..<length active]
      in if up = [] then []
         else case mode of
                Override \<Rightarrow> [up ! 0]
              | Loadshare \<Rightarrow> [up ! (unat sls mod length up)]
              | Broadcast \<Rightarrow> up)"

definition select_link_avoiding :: "registry \<Rightarrow> string \<Rightarrow> u8 \<Rightarrow> string option \<Rightarrow> string option" where
  "select_link_avoiding r linkset sls avoid =
     (case find (\<lambda>l. le_name l = linkset) (rg_linksets r) of
        None \<Rightarrow> None
      | Some l \<Rightarrow>
          if le_links l = [] then None
          else
            let key = unat sls div max (le_width l) 1;
                routable = (\<lambda>x. avoid \<noteq> Some x \<and> (case slot_of r x of Some s \<Rightarrow> slot_routable s | None \<Rightarrow> False));
                normal = le_links l ! (key mod length (le_links l));
                left = filter routable (le_links l)
            in if routable normal then Some normal
               else if left = [] then None
               else Some (left ! (key mod length left)))"

definition select_link :: "registry \<Rightarrow> string \<Rightarrow> u8 \<Rightarrow> string option" where
  "select_link r linkset sls = select_link_avoiding r linkset sls None"

record selected =
  se_assoc :: handle
  se_slot :: string
  se_routing_context :: "u32 option"
  se_adaptation :: adaptation

definition selected_of :: "registry \<Rightarrow> u32 option \<Rightarrow> string \<Rightarrow> selected option" where
  "selected_of r context x =
     (case slot_of r x of
        None \<Rightarrow> None
      | Some s \<Rightarrow> map_option (\<lambda>h. \<lparr>se_assoc = h, se_slot = x, se_routing_context = context, se_adaptation = sl_adaptation s\<rparr>) (sl_sender s))"

fun select :: "registry \<Rightarrow> destination \<Rightarrow> u8 \<Rightarrow> selected list" where
  "select r (ApplicationServer name) sls =
     (case find (\<lambda>a. ae_name a = name) (rg_servers r) of
        None \<Rightarrow> []
      | Some a \<Rightarrow>
          List.map_filter (\<lambda>i. selected_of r (Some (ae_routing_context a)) (ae_members a ! i))
            (choose_members (ae_traffic_mode a) (map (entry_carries r a) [0..<length (ae_members a)]) sls))"
| "select r (Linkset name) sls =
     (case Option.bind (select_link r name sls) (selected_of r None) of None \<Rightarrow> [] | Some x \<Rightarrow> [x])"

end
