(* ===== verification/Registry_Race.thy ===== *)
theory Registry_Race
  imports Registry
begin

text \<open>
  The queue of a pending Application Server under concurrency. \<open>queue_if_pending\<close> and
  \<open>set_server_state\<close> run in different tasks: a sender reads the state, takes the lock of the queue,
  reads the state again and appends; ASP state maintenance stores the new state, takes the lock and
  takes the queue out. This theory has them as the sequences of shared accesses they are, in
  \<^verbatim>\<open>src/src/transport/registry.rs\<close>, with any number of senders and every interleaving.
\<close>

section \<open>Threads\<close>

text \<open>Where a sender is: before the first read, before the lock, holding it before the second read, before the append, and done with its answer.\<close>

datatype sender_at = AtCheck | AtLock | AtRecheck | AtPush | AtDone bool

text \<open>Where the setter is: between calls, about to take the lock, or holding it.\<close>

datatype setter_at = SetterIdle | SetterLock | SetterTake

datatype owner = Nobody | SenderOwns nat | SetterOwns

record race =
  rc_state :: as_state
  rc_queue :: "(nat \<times> msu) list"
  rc_lock :: owner
  rc_senders :: "nat \<Rightarrow> sender_at"
  rc_setter :: setter_at
  rc_taken :: "(nat \<times> msu) list"
  rc_dropped :: "nat list"

definition race_start :: "as_state \<Rightarrow> race" where
  "race_start st = \<lparr>rc_state = st, rc_queue = [], rc_lock = Nobody, rc_senders = (\<lambda>_. AtCheck), rc_setter = SetterIdle,
     rc_taken = [], rc_dropped = []\<rparr>"

definition sender_moves :: "nat \<Rightarrow> sender_at \<Rightarrow> race \<Rightarrow> race" where
  "sender_moves i p s = s\<lparr>rc_senders := (rc_senders s)(i := p)\<rparr>"

text \<open>One shared access of the sender with number \<open>i\<close> and message \<open>m\<close>.\<close>

definition sender_step :: "nat \<Rightarrow> nat \<Rightarrow> msu \<Rightarrow> race \<Rightarrow> race" where
  "sender_step limit i m s =
     (case rc_senders s i of
        AtCheck \<Rightarrow> sender_moves i (if rc_state s = AsPending then AtLock else AtDone False) s
      | AtLock \<Rightarrow> if rc_lock s = Nobody then (sender_moves i AtRecheck s)\<lparr>rc_lock := SenderOwns i\<rparr> else s
      | AtRecheck \<Rightarrow>
          if rc_state s = AsPending then sender_moves i AtPush s
          else (sender_moves i (AtDone False) s)\<lparr>rc_lock := Nobody\<rparr>
      | AtPush \<Rightarrow>
          if limit \<le> length (rc_queue s)
          then (sender_moves i (AtDone True) s)\<lparr>rc_lock := Nobody, rc_dropped := i # rc_dropped s\<rparr>
          else (sender_moves i (AtDone True) s)\<lparr>rc_lock := Nobody, rc_queue := rc_queue s @ [(i, m)]\<rparr>
      | AtDone _ \<Rightarrow> s)"

text \<open>One shared access of the setter; between calls it stores the state it is given.\<close>

definition setter_step :: "as_state \<Rightarrow> race \<Rightarrow> race" where
  "setter_step st s =
     (case rc_setter s of
        SetterIdle \<Rightarrow> s\<lparr>rc_state := st, rc_setter := (if st = AsPending then SetterIdle else SetterLock)\<rparr>
      | SetterLock \<Rightarrow> if rc_lock s = Nobody then s\<lparr>rc_lock := SetterOwns, rc_setter := SetterTake\<rparr> else s
      | SetterTake \<Rightarrow> s\<lparr>rc_taken := rc_taken s @ rc_queue s, rc_queue := [], rc_lock := Nobody, rc_setter := SetterIdle\<rparr>)"

inductive race_reach :: "nat \<Rightarrow> (nat \<Rightarrow> msu) \<Rightarrow> as_state \<Rightarrow> race \<Rightarrow> bool" for limit msg st0 where
  race_begin: "race_reach limit msg st0 (race_start st0)"
| race_sender: "race_reach limit msg st0 s \<Longrightarrow> race_reach limit msg st0 (sender_step limit i (msg i) s)"
| race_setter: "race_reach limit msg st0 s \<Longrightarrow> race_reach limit msg st0 (setter_step st s)"

section \<open>The invariant\<close>

definition in_section :: "sender_at \<Rightarrow> bool" where
  "in_section p \<longleftrightarrow> p = AtRecheck \<or> p = AtPush"

definition locks_exclusive :: "race \<Rightarrow> bool" where
  "locks_exclusive s \<longleftrightarrow> (\<forall>i. in_section (rc_senders s i) = (rc_lock s = SenderOwns i)) \<and>
     (rc_setter s = SetterTake) = (rc_lock s = SetterOwns) \<and> (rc_setter s \<noteq> SetterIdle \<longrightarrow> rc_state s \<noteq> AsPending)"

definition queue_quiet :: "race \<Rightarrow> bool" where
  "queue_quiet s \<longleftrightarrow> (rc_setter s = SetterIdle \<and> rc_state s \<noteq> AsPending \<longrightarrow> rc_queue s = [] \<and> (\<forall>i. rc_senders s i \<noteq> AtPush))"

text \<open>Every sender that was told its message is queued finds it, once, with what was taken out, in the queue or dropped.\<close>

definition accounted :: "nat \<Rightarrow> (nat \<Rightarrow> msu) \<Rightarrow> race \<Rightarrow> bool" where
  "accounted limit msg s \<longleftrightarrow> length (rc_queue s) \<le> limit \<and>
     (\<forall>i. (rc_senders s i = AtDone True) = (i \<in> set (map fst (rc_taken s @ rc_queue s) @ rc_dropped s))) \<and>
     distinct (map fst (rc_taken s @ rc_queue s) @ rc_dropped s) \<and>
     (\<forall>x \<in> set (rc_taken s @ rc_queue s). snd x = msg (fst x))"

definition race_inv :: "nat \<Rightarrow> (nat \<Rightarrow> msu) \<Rightarrow> race \<Rightarrow> bool" where
  "race_inv limit msg s \<longleftrightarrow> locks_exclusive s \<and> queue_quiet s \<and> accounted limit msg s"

lemma race_start_inv: "race_inv limit msg (race_start st)"
  by (simp add: race_inv_def locks_exclusive_def queue_quiet_def accounted_def race_start_def in_section_def)

lemma in_section_simps [simp]:
  "in_section AtRecheck" "in_section AtPush" "\<not> in_section AtCheck" "\<not> in_section AtLock" "\<not> in_section (AtDone b)"
  by (simp_all add: in_section_def)

lemma locks_exclusive_sender:
  assumes "locks_exclusive s"
  shows "locks_exclusive (sender_step limit i m s)"
proof -
  have own: "in_section (rc_senders s j) = (rc_lock s = SenderOwns j)" for j using assms by (simp add: locks_exclusive_def)
  have setter: "(rc_setter s = SetterTake) = (rc_lock s = SetterOwns)" "rc_setter s \<noteq> SetterIdle \<Longrightarrow> rc_state s \<noteq> AsPending"
    using assms by (simp_all add: locks_exclusive_def)
  show ?thesis
  proof (cases "rc_senders s i")
    case AtCheck
    then show ?thesis using own [of i] own setter by (auto simp: sender_step_def sender_moves_def locks_exclusive_def)
  next
    case AtLock
    then show ?thesis using own setter by (auto simp: sender_step_def sender_moves_def locks_exclusive_def)
  next
    case AtRecheck
    then have "rc_lock s = SenderOwns i" using own [of i] by simp
    then show ?thesis using AtRecheck own setter by (auto simp: sender_step_def sender_moves_def locks_exclusive_def)
  next
    case AtPush
    then have "rc_lock s = SenderOwns i" using own [of i] by simp
    then show ?thesis using AtPush own setter by (auto simp: sender_step_def sender_moves_def locks_exclusive_def)
  qed (use assms in \<open>simp add: sender_step_def\<close>)
qed

lemma queue_quiet_sender:
  assumes "queue_quiet s"
  shows "queue_quiet (sender_step limit i m s)"
  using assms by (auto simp: queue_quiet_def sender_step_def sender_moves_def split: sender_at.split)

lemma accounted_sender:
  assumes "accounted limit msg s"
  shows "accounted limit msg (sender_step limit i (msg i) s)"
proof -
  have told: "(rc_senders s j = AtDone True) = (j \<in> set (map fst (rc_taken s @ rc_queue s) @ rc_dropped s))" for j
    using assms by (simp add: accounted_def)
  have others: "accounted limit msg (sender_moves i p s)" "accounted limit msg ((sender_moves i p s)\<lparr>rc_lock := x\<rparr>)"
    if "rc_senders s i \<noteq> AtDone True" "p \<noteq> AtDone True" for p x
    using assms that told [of i] by (auto simp: accounted_def sender_moves_def)
  have "i \<notin> set (map fst (rc_taken s @ rc_queue s) @ rc_dropped s)" if "rc_senders s i = AtPush" using told [of i] that by simp
  then have "accounted limit msg ((sender_moves i (AtDone True) s)\<lparr>rc_lock := Nobody, rc_dropped := i # rc_dropped s\<rparr>)"
    "length (rc_queue s) < limit \<Longrightarrow> accounted limit msg ((sender_moves i (AtDone True) s)\<lparr>rc_lock := Nobody, rc_queue := rc_queue s @ [(i, msg i)]\<rparr>)"
    if "rc_senders s i = AtPush"
    using assms that by (auto simp: accounted_def sender_moves_def)
  then show ?thesis using assms others by (cases "rc_senders s i") (auto simp: sender_step_def)
qed

lemma setter_inv:
  assumes "race_inv limit msg s"
  shows "race_inv limit msg (setter_step st s)"
proof -
  have e: "locks_exclusive s" and q: "queue_quiet s" and a: "accounted limit msg s" using assms by (simp_all add: race_inv_def)
  have own: "in_section (rc_senders s j) = (rc_lock s = SenderOwns j)" for j using e by (simp add: locks_exclusive_def)
  have "locks_exclusive (setter_step st s)"
    using e by (cases "rc_setter s") (auto simp: locks_exclusive_def setter_step_def)
  moreover have "rc_senders s j \<noteq> AtPush" if "rc_setter s = SetterTake" for j
    using own [of j] e that in_section_simps(2) by (metis locks_exclusive_def owner.distinct(5))
  then have "queue_quiet (setter_step st s)" using q by (cases "rc_setter s") (auto simp: queue_quiet_def setter_step_def)
  moreover have "accounted limit msg (setter_step st s)"
    using a by (cases "rc_setter s") (auto simp: accounted_def setter_step_def)
  ultimately show ?thesis by (simp add: race_inv_def)
qed

lemma race_reach_inv: "race_reach limit msg st0 s \<Longrightarrow> race_inv limit msg s"
proof (induction rule: race_reach.induct)
  case (race_sender s i)
  then show ?case by (simp add: race_inv_def locks_exclusive_sender queue_quiet_sender accounted_sender)
qed (simp_all add: race_start_inv setter_inv)

text \<open>
  C23: no message is stranded in the queue of a pending server, however the senders and the task that
  sets the state interleave. Whenever a server is not pending and its setter has returned, its queue
  is empty and nobody is about to append to it; and each message whose sender was told it is queued
  is, exactly once, among those the setter took out, still in the queue, or counted as dropped by
  its limit.
\<close>

theorem pending_never_stranded:
  assumes "race_reach limit msg st0 s"
  shows "(if rc_setter s = SetterIdle \<and> rc_state s \<noteq> AsPending then rc_queue s = [] \<and> \<not> (\<exists>i. rc_senders s i = AtPush) else True) \<and>
    distinct (map fst (rc_taken s @ rc_queue s) @ rc_dropped s) \<and>
    (rc_senders s i = AtDone True) = ((i, msg i) \<in> set (rc_taken s @ rc_queue s) \<or> i \<in> set (rc_dropped s)) \<and>
    length (rc_queue s) \<le> limit"
proof -
  have inv: "queue_quiet s" "accounted limit msg s" using race_reach_inv [OF assms] by (simp_all add: race_inv_def)
  have "(i, msg i) \<in> set (rc_taken s @ rc_queue s) \<longleftrightarrow> i \<in> fst ` set (rc_taken s @ rc_queue s)"
  proof
    assume "i \<in> fst ` set (rc_taken s @ rc_queue s)"
    then obtain x where x: "x \<in> set (rc_taken s @ rc_queue s)" "fst x = i" by blast
    then have "snd x = msg i" using inv(2) unfolding accounted_def by blast
    then show "(i, msg i) \<in> set (rc_taken s @ rc_queue s)" using x by (metis prod.collapse)
  qed (metis fst_conv image_eqI)
  then show ?thesis using inv by (simp add: queue_quiet_def accounted_def image_Un disj_assoc)
qed

text \<open>A sender queues its message while the server is pending, and the setter then makes it active.\<close>

definition race_sample :: "nat \<Rightarrow> msu \<Rightarrow> race" where
  "race_sample i m = setter_step AsActive (sender_step 2 i m (sender_step 2 i m (sender_step 2 i m (sender_step 2 i m (race_start AsPending)))))"

lemma race_sample_reached: "race_reach 2 msg AsPending (race_sample i (msg i))"
  unfolding race_sample_def by (intro race_setter race_sender race_begin)

theorem pending_never_stranded_witness:
  "let m = \<lparr>msu_opc = 1, msu_dpc = 2, msu_si = 3, msu_ni = 2, msu_mp = 0, msu_sls = 0, msu_payload = []\<rparr>;
       s = setter_step AsActive (setter_step AsActive (race_sample 7 m))
   in rc_queue s = [] \<and> rc_taken s = [(7, m)] \<and> (7, m) \<in> set (rc_taken s @ rc_queue s)"
proof -
  define m where "m = \<lparr>msu_opc = 1, msu_dpc = 2, msu_si = 3, msu_ni = 2, msu_mp = 0, msu_sls = 0, msu_payload = []\<rparr>"
  let ?s = "setter_step AsActive (setter_step AsActive (race_sample 7 m))"
  have "race_reach 2 (\<lambda>_. m) AsPending ?s" using race_sample_reached [of "\<lambda>_. m" 7] by (intro race_setter) simp
  note pending_never_stranded [OF this, of 7]
  moreover have "rc_setter ?s = SetterIdle" "rc_state ?s = AsActive" "rc_taken ?s = [(7, m)]" "rc_senders ?s 7 = AtDone True" "rc_dropped ?s = []"
    by (simp_all add: race_sample_def race_start_def sender_step_def setter_step_def sender_moves_def)
  ultimately show ?thesis by (simp add: m_def [symmetric] Let_def)
qed

end
