(* ===== verification/Registry_Shape.thy ===== *)
theory Registry_Shape
  imports Registry
begin

text \<open>
  The shape of the registry: what the tables refer to exists, an association has a link port exactly
  when it is an M2PA link, and the flags of a server are as many as its members, so that no index or
  lookup of the egress path fails. It holds when the registry is compiled and after every operation.
\<close>

definition slot_shape :: "string \<Rightarrow> assoc_slot \<Rightarrow> bool" where
  "slot_shape k s \<longleftrightarrow> sl_id s = k \<and> (sl_link s \<noteq> None) = (sl_adaptation s = M2pa) \<and> (sl_adaptation s \<noteq> M3ua \<longrightarrow> sl_memberships s = [])"

definition registry_shape :: "registry \<Rightarrow> bool" where
  "registry_shape r \<longleftrightarrow>
     (\<forall>k s. slot_of r k = Some s \<longrightarrow> slot_shape k s) \<and>
     list_all (\<lambda>a. length (ae_active a) = length (ae_members a) \<and> list_all (\<lambda>x. slot_of r x \<noteq> None) (ae_members a) \<and>
       length (ae_pending a) \<le> ae_pending_limit a) (rg_servers r) \<and>
     list_all (\<lambda>l. list_all (\<lambda>x. slot_of r x \<noteq> None) (le_links l)) (rg_linksets r) \<and>
     list_all (\<lambda>x. slot_of r x \<noteq> None) (rg_links r)"

section \<open>Operations\<close>

text \<open>The changes one slot undergoes.\<close>

inductive slot_op :: "assoc_slot \<Rightarrow> assoc_slot \<Rightarrow> bool" where
  op_occupy: "slot_op s (fst (slot_occupy s))"
| op_vacate: "slot_op s (slot_vacate h s)"
| op_set_sender: "slot_op s (slot_set_sender h s)"
| op_clear_sender: "slot_op s (slot_clear_sender s)"
| op_set_active: "slot_op s (slot_set_active on s)"
| op_command: "sl_link s = Some p \<Longrightarrow> slot_op s (s\<lparr>sl_link := Some (port_command c p)\<rparr>)"
| op_routable: "sl_link s = Some p \<Longrightarrow> slot_op s (s\<lparr>sl_link := Some (port_set_routable on p)\<rparr>)"
| op_offer: "sl_link s = Some p \<Longrightarrow> slot_op s (s\<lparr>sl_link := Some (fst (port_offer m p))\<rparr>)"
| op_aligned: "sl_link s = Some p \<Longrightarrow> slot_op s (s\<lparr>sl_link := Some (fst (port_set_aligned on p))\<rparr>)"

inductive registry_op :: "registry \<Rightarrow> registry \<Rightarrow> bool" where
  op_slot: "slot_of r k = Some s \<Longrightarrow> slot_op s s' \<Longrightarrow> registry_op r (set_slot k (\<lambda>_. s') r)"
| op_management: "registry_op r (attach_management r)"
| op_layer: "registry_op r (attach_layer r)"
| op_restarting: "registry_op r (set_restarting on r)"
| op_asp_active: "registry_op r (set_asp_active x server active r)"
| op_quiesce: "registry_op r (quiesce x r)"
| op_server_state: "registry_op r (fst (set_server_state server st r))"
| op_queue: "registry_op r (fst (queue_if_pending name m r))"
| op_hold: "registry_op r (hold_destination dpc r)"
| op_hold_message: "registry_op r (fst (hold_if_rerouting m r))"
| op_release: "registry_op r (fst (release_held dpc r))"
| op_recompute: "registry_op r (fst (recompute r (ten :: nat tenancy)))"

section \<open>The shape is kept\<close>

lemma slot_op_shape: "slot_op s s' \<Longrightarrow> slot_shape k s \<Longrightarrow> slot_shape k s'"
  by (induction rule: slot_op.induct)
    (auto simp: slot_shape_def slot_occupy_def slot_vacate_def slot_set_sender_def slot_clear_sender_def slot_set_active_def Let_def)

text \<open>What of a registry the shape depends on, beside the slots.\<close>

lemma shape_slots:
  assumes "registry_shape r" and "slot_of r k = Some s" and "slot_shape k s'"
  shows "registry_shape (set_slot k (\<lambda>_. s') r)"
proof -
  have "slot_of (set_slot k (\<lambda>_. s') r) x = (if x = k then Some s' else slot_of r x)" for x
    using assms(2) by (cases "bt_get x (rg_assocs r)") (auto simp: slot_of_def set_slot_def)
  then show ?thesis using assms by (auto simp: registry_shape_def list_all_iff set_slot_def)
qed

lemma shape_server:
  assumes "registry_shape r" and "\<And>a. length (ae_active (f a)) = length (ae_active a)" and "\<And>a. ae_members (f a) = ae_members a"
    and "\<And>a. length (ae_pending a) \<le> ae_pending_limit a \<Longrightarrow> length (ae_pending (f a)) \<le> ae_pending_limit (f a)"
  shows "registry_shape (set_server i f r)"
proof (cases "i < length (rg_servers r)")
  case True
  define good where "good = (\<lambda>a :: as_entry. length (ae_active a) = length (ae_members a) \<and> list_all (\<lambda>x. slot_of r x \<noteq> None) (ae_members a) \<and>
    length (ae_pending a) \<le> ae_pending_limit a)"
  have all: "list_all good (rg_servers r)" using assms(1) by (simp add: registry_shape_def good_def)
  then have "good (rg_servers r ! i)" using True by (simp add: list_all_length)
  then have "good (f (rg_servers r ! i))" using assms(2-4) by (simp add: good_def)
  then have "list_all good ((rg_servers r)[i := f (rg_servers r ! i)])"
    using all set_update_subset_insert [of "rg_servers r" i] by (auto simp: list_all_iff)
  moreover have "slot_of (set_server i f r) = slot_of r" by (simp add: fun_eq_iff slot_of_def set_server_def)
  ultimately show ?thesis using assms(1) unfolding registry_shape_def good_def by (simp add: set_server_def)
next
  case False
  then have "set_server i f r = r" by (simp add: set_server_def list_update_beyond)
  then show ?thesis using assms(1) by simp
qed

lemma shape_same:
  assumes "registry_shape r" and "rg_assocs r' = rg_assocs r" "rg_servers r' = rg_servers r" "rg_linksets r' = rg_linksets r" "rg_links r' = rg_links r"
  shows "registry_shape r'"
  using assms by (simp add: registry_shape_def slot_of_def)

lemma shape_flag: "registry_shape r \<Longrightarrow> registry_shape (set_member_flag on m r)"
  by (simp add: set_member_flag_def shape_server)

lemma shape_flags: "registry_shape r \<Longrightarrow> registry_shape (fold (set_member_flag on) ms r)"
  by (induction ms arbitrary: r) (simp_all add: shape_flag)

lemma flags_slots: "slot_of (fold (set_member_flag on) ms r) k = slot_of r k"
  by (induction ms arbitrary: r) (simp_all add: set_member_flag_def set_server_def slot_of_def)

lemma shape_slot_update:
  assumes "registry_shape r" and "\<And>s. slot_shape k s \<Longrightarrow> slot_shape k (f s)"
  shows "registry_shape (set_slot k f r)"
proof (cases "slot_of r k")
  case None
  then have "fst e \<noteq> k" if "e \<in> set (rg_assocs r)" for e
    using that by (force simp: slot_of_def bt_get_def map_of_eq_None_iff)
  then have "bt_map (\<lambda>x s. if x = k then f s else s) (rg_assocs r) = rg_assocs r" by (auto simp: bt_map_def intro!: map_idI)
  then have "set_slot k f r = r" by (simp add: set_slot_def)
  then show ?thesis using assms(1) by simp
next
  case (Some s)
  have "slot_of (set_slot k f r) x = (if x = k then Some (f s) else slot_of r x)" for x
    using Some by (cases "bt_get x (rg_assocs r)") (auto simp: slot_of_def set_slot_def)
  moreover have "slot_shape k (f s)" using assms Some by (auto simp: registry_shape_def)
  ultimately show ?thesis using assms(1) Some by (auto simp: registry_shape_def list_all_iff set_slot_def)
qed

lemma recompute_shape: "registry_shape r \<Longrightarrow> registry_shape (fst (recompute r ten))"
proof -
  have steps: "registry_shape (fst (fold recompute_server is (r, ten, out)))" if "registry_shape r" for "is" r ten out
    using that
  proof (induction "is" arbitrary: r ten out)
    case (Cons i xs)
    obtain r' ten' out' where s: "recompute_server i (r, ten, out) = (r', ten', out')" by (metis prod_cases3)
    then have "r' = set_server i (\<lambda>a. a\<lparr>ae_up := server_available r (rg_servers r ! i)\<rparr>) r" by (auto simp: recompute_server_def Let_def)
    then have "registry_shape r'" using Cons.prems by (simp add: shape_server)
    then show ?case using Cons.IH s by simp
  qed simp
  assume "registry_shape r"
  then have "registry_shape (fst (fold recompute_server [0..<length (rg_servers r)] (r, ten, [])))" by (rule steps)
  then show ?thesis by (auto simp: recompute_def split: prod.split)
qed

lemma queue_shape:
  assumes "registry_shape r"
  shows "registry_shape (fst (queue_if_pending name m r))"
proof (cases "position (\<lambda>a. ae_name a = name \<and> ae_managed a) (rg_servers r)")
  case (Some i)
  let ?a = "rg_servers r ! i"
  let ?f = "\<lambda>a. if length (ae_pending a) < ae_pending_limit a then a\<lparr>ae_pending := ae_pending a @ [m]\<rparr> else a"
  have "set_server i (\<lambda>a. a\<lparr>ae_pending := ae_pending a @ [m]\<rparr>) r = set_server i ?f r" if "length (ae_pending ?a) < ae_pending_limit ?a"
    using that by (simp add: set_server_def)
  moreover have "registry_shape (set_server i ?f r)" using assms by (intro shape_server) auto
  ultimately show ?thesis using assms Some by (auto simp: queue_if_pending_def Let_def not_le)
qed (use assms in \<open>simp add: queue_if_pending_def\<close>)

lemma registry_op_shape: "registry_op r r' \<Longrightarrow> registry_shape r \<Longrightarrow> registry_shape r'"
proof (induction rule: registry_op.induct)
  case (op_slot r k s s')
  then show ?case using shape_slots slot_op_shape by (metis registry_shape_def)
next
  case (op_asp_active r x server active)
  then show ?case
    by (auto simp: set_asp_active_def Let_def slot_set_active_def slot_shape_def shape_flags intro!: shape_slot_update split: option.split)
next
  case (op_quiesce r x)
  then show ?case
    by (auto simp: quiesce_def slot_set_active_def slot_shape_def shape_flags intro!: shape_slot_update split: option.split)
next
  case (op_server_state r server st)
  then show ?case by (auto simp: set_server_state_def Let_def intro!: shape_server)
next
  case (op_hold_message r m)
  then show ?case by (auto simp: hold_if_rerouting_def intro: shape_same split: option.split)
next
  case (op_release r dpc)
  then show ?case by (auto simp: release_held_def intro: shape_same split: option.split)
qed (auto simp: attach_management_def attach_layer_def set_restarting_def hold_destination_def Let_def queue_shape recompute_shape intro: shape_same)

section \<open>The compiled registry\<close>

lemma build_shape:
  assumes "registry_build fv cfg tenant_id = Some r"
  shows "registry_shape r"
proof -
  obtain t where t: "map_of (rev (cfg_tenants cfg)) tenant_id = Some t"
    using assms by (auto simp: registry_build_def split: option.splits)
  define own tp ly where "own = (case resolved_point_code fv t of Some pc \<Rightarrow> pc_value pc | None \<Rightarrow> tn_point_code t)"
    and "tp = topology_build fv t (cfg_associations cfg)" and "ly = layout_build t (cfg_associations cfg)"
  define kvs where "kvs = map (\<lambda>a. (assoc_id a, slot_build own t tp ly a)) (cfg_associations cfg)"
  have r: "rg_assocs r = bt_collect kvs" "rg_servers r = map (entry_build (bt_collect kvs)) (tn_application_servers t)"
    "rg_linksets r = map (linkset_entry_build (resolver_build t (cfg_associations cfg)) (bt_collect kvs)) (tn_linksets t)"
    "rg_links r = filter (\<lambda>x. bt_get x (bt_collect kvs) \<noteq> None) (map lks_name (tp_links tp))"
    using assms t by (auto simp: registry_build_def kvs_def own_def tp_def ly_def Let_def)
  have slot: "slot_shape (assoc_id a) (slot_build own t tp ly a)" for a
    by (simp add: slot_shape_def slot_build_def slot_new_def Let_def)
  have "slot_shape k s" if "slot_of r k = Some s" for k s
  proof -
    have "(k, s) \<in> set kvs" using that r(1) map_of_SomeD [of "rev kvs" k s] by (simp add: slot_of_def bt_get_collect)
    then show ?thesis using slot by (auto simp: kvs_def)
  qed
  then show ?thesis
    unfolding registry_shape_def slot_of_def r by (auto simp: list_all_iff entry_build_def linkset_entry_build_def Let_def)
qed

lemma choose_members_range: "set (choose_members mode active sls) \<subseteq> {..<length active}"
proof -
  let ?up = "filter (\<lambda>i. active ! i) [0..<length active]"
  have "?up ! k < length active" if "k < length ?up" for k using nth_mem [OF that] by simp
  moreover have "unat sls mod length ?up < length ?up" if "?up \<noteq> []" using that by simp
  ultimately show ?thesis by (cases mode) (auto simp: choose_members_def Let_def)
qed

inductive registry_reach :: "registry \<Rightarrow> registry \<Rightarrow> bool" for r0 where
  reach_built: "registry_reach r0 r0"
| reach_op: "registry_reach r0 r \<Longrightarrow> registry_op r r' \<Longrightarrow> registry_reach r0 r'"



end
