(* ===== verification/Framing.thy ===== *)
theory Framing
  imports Admission
begin

text \<open>
  The boundary between an SCTP payload and the network message (\<^verbatim>\<open>src/src/transport/framing.rs\<close>): a
  message is taken out of M3UA DATA, M2PA User Data or a SUA connectionless message, and put into one
  again. The codecs (the crates \<^verbatim>\<open>m3ua\<close>, \<^verbatim>\<open>m2pa\<close>, \<^verbatim>\<open>mtp3\<close>, \<^verbatim>\<open>sccp\<close> and \<^verbatim>\<open>sua\<close>) are the parameters \<open>codecs\<close> and
  \<open>sua_codec\<close>; their messages are records of the fields the program reads and writes, the type
  variable \<open>'x\<close> standing for what an SCCP message carries besides.
\<close>

section \<open>SCCP and SUA messages\<close>

text \<open>A title by its indicator; the translation type, the numbering plan, the encoding scheme and the nature of address in that order.\<close>

datatype global_title =
    Gt0001 u8 bool string
  | Gt0010 u8 string
  | Gt0011 u8 u8 u8 string
  | Gt0100 u8 u8 u8 u8 string
  | NoTitle

fun gt_digits :: "global_title \<Rightarrow> string option" where
  "gt_digits (Gt0001 _ _ d) = Some d"
| "gt_digits (Gt0010 _ d) = Some d"
| "gt_digits (Gt0011 _ _ _ d) = Some d"
| "gt_digits (Gt0100 _ _ _ _ d) = Some d"
| "gt_digits NoTitle = None"

record 'x address =
  ad_route_on_ssn :: bool
  ad_point_code :: "16 word option"
  ad_ssn :: "u8 option"
  ad_title :: global_title
  ad_rest :: 'x

record 'x sccp_unit =
  un_kind :: sccp_kind
  un_called :: "'x address"
  un_calling :: "'x address"
  un_data :: bytes
  un_class :: u8
  un_handling :: u8
  un_hop :: u8
  un_cause :: return_cause
  un_optional :: bytes
  un_rest :: 'x

definition hop_counter :: "'x sccp_unit \<Rightarrow> u8 option" where
  "hop_counter u = (if un_kind u \<in> {Udt, Udts} then None else Some (un_hop u))"

text \<open>What content routing and admission read of an address and a message.\<close>

definition address_view :: "'x address \<Rightarrow> sccp_address" where
  "address_view a = \<lparr>sa_digits = gt_digits (ad_title a), sa_ssn = ad_ssn a, sa_point_code = map_option ucast (ad_point_code a)\<rparr>"

definition unit_view :: "'x sccp_unit \<Rightarrow> sccp_message" where
  "unit_view u = \<lparr>sm_kind = un_kind u, sm_data = un_data u, sm_calling = address_view (un_calling u),
     sm_called = address_view (un_called u), sm_optional_part = un_optional u\<rparr>"

record sua_title =
  sg_gti :: u8
  sg_translation_type :: u8
  sg_numbering_plan :: u8
  sg_nature_of_address :: u8
  sg_digits :: string

datatype routing_indicator = RouteOnGt | RouteOnSsnAndPc | RouteOnSsnAndIp | RouteOnOther

record sua_address =
  su_indicator :: routing_indicator
  su_point_code :: "u32 option"
  su_include_pc :: bool
  su_ssn :: "u8 option"
  su_title :: "sua_title option"

datatype sua_type = Cldt | Cldr | OtherSua

text \<open>A SUA message by what its accessors give; the two addresses are absent when they cannot be read.\<close>

record sua_message =
  sx_type :: sua_type
  sx_destination :: "sua_address option"
  sx_source :: "sua_address option"
  sx_data :: "bytes option"
  sx_protocol_class :: "u8 option"
  sx_hop_count :: "u8 option"
  sx_sequence_control :: "u32 option"
  sx_cause :: "(u8 \<times> u8) option"

record protocol_data =
  pd_opc :: u32
  pd_dpc :: u32
  pd_si :: u8
  pd_ni :: u8
  pd_mp :: u8
  pd_sls :: u8
  pd_user_data :: bytes

record mtp3_unit =
  mx_si :: u8
  mx_ni :: u8
  mx_mp :: u8
  mx_opc :: point_code
  mx_dpc :: point_code
  mx_sls :: u8
  mx_data :: bytes

section \<open>The codecs\<close>

text \<open>
  \<open>cd_service\<close> and \<open>cd_unit\<close> are the constructors \<^verbatim>\<open>new\<close> of the service and the data messages, \<open>cd_m3ua\<close>
  the decoder of M3UA: \<open>Inr\<close> the Protocol Data of a DATA message, \<open>Inl\<close> anything else.
\<close>

record 'x codecs =
  cd_decode :: "bytes \<Rightarrow> 'x sccp_unit option"
  cd_encode :: "'x sccp_unit \<Rightarrow> bytes option"
  cd_service :: "sccp_kind \<Rightarrow> return_cause \<Rightarrow> 'x address \<Rightarrow> 'x address \<Rightarrow> bytes \<Rightarrow> 'x sccp_unit"
  cd_unit :: "sccp_kind \<Rightarrow> 'x address \<Rightarrow> 'x address \<Rightarrow> bytes \<Rightarrow> 'x sccp_unit"
  cd_m3ua :: "bytes \<Rightarrow> string + protocol_data"
  cd_m3ua_data :: "u32 option \<Rightarrow> protocol_data \<Rightarrow> bytes"
  cd_mtp3_encode :: "mtp3_unit \<Rightarrow> bytes"
  cd_mtp3_decode :: "bytes \<Rightarrow> mtp3_unit option"
  cd_point_code :: from_value

datatype m2pa_frame = UserData u8 bytes | LinkStatus

record 'x sua_codec =
  sua_decode :: "bytes \<Rightarrow> sua_message option"
  sua_cldt :: "u32 \<Rightarrow> u8 \<Rightarrow> sua_address \<Rightarrow> sua_address \<Rightarrow> u32 \<Rightarrow> u8 option \<Rightarrow> bytes \<Rightarrow> bytes option"
  sua_cldr :: "u32 \<Rightarrow> u8 \<Rightarrow> u8 \<Rightarrow> sua_address \<Rightarrow> sua_address \<Rightarrow> bytes option \<Rightarrow> bytes option"
  sua_with_gt :: "sua_title \<Rightarrow> u8 option \<Rightarrow> sua_address"
  sua_with_ssn_pc :: "u8 \<Rightarrow> u32 \<Rightarrow> sua_address"
  sccp_with_gt :: "global_title \<Rightarrow> u8 option \<Rightarrow> 'x address"
  sccp_with_ssn :: "u8 \<Rightarrow> 16 word option \<Rightarrow> 'x address"
  ssn_unknown :: u8
  cause_value :: "return_cause \<Rightarrow> u8"
  cause_from :: "u8 \<Rightarrow> return_cause"

section \<open>M3UA and M2PA\<close>

definition SI_ISUP :: u8 where "SI_ISUP = 5"

definition msu_of_data :: "protocol_data \<Rightarrow> msu" where
  "msu_of_data p = \<lparr>msu_opc = pd_opc p, msu_dpc = pd_dpc p, msu_si = pd_si p, msu_ni = pd_ni p, msu_mp = pd_mp p,
     msu_sls = pd_sls p, msu_payload = pd_user_data p\<rparr>"

definition data_of_msu :: "msu \<Rightarrow> protocol_data" where
  "data_of_msu m = \<lparr>pd_opc = msu_opc m, pd_dpc = msu_dpc m, pd_si = msu_si m, pd_ni = msu_ni m, pd_mp = msu_mp m,
     pd_sls = msu_sls m, pd_user_data = msu_payload m\<rparr>"

definition extract_m3ua :: "'x codecs \<Rightarrow> bytes \<Rightarrow> string + msu" where
  "extract_m3ua cd payload = map_sum id msu_of_data (cd_m3ua cd payload)"

definition msu_of_unit :: "mtp3_unit \<Rightarrow> msu" where
  "msu_of_unit u = \<lparr>msu_opc = pc_value (mx_opc u), msu_dpc = pc_value (mx_dpc u), msu_si = mx_si u, msu_ni = mx_ni u,
     msu_mp = mx_mp u, msu_sls = mx_sls u, msu_payload = mx_data u\<rparr>"

text \<open>\<open>Inl\<close> is the error; a Link Status message gives no message.\<close>

definition extract_m2pa :: "'x codecs \<Rightarrow> (bytes \<Rightarrow> m2pa_frame option) \<Rightarrow> bytes \<Rightarrow> unit + msu option" where
  "extract_m2pa cd m2pa_decode payload =
     (case m2pa_decode payload of
        None \<Rightarrow> Inl ()
      | Some LinkStatus \<Rightarrow> Inr None
      | Some (UserData _ raw) \<Rightarrow>
          (case cd_mtp3_decode cd raw of None \<Rightarrow> Inl () | Some u \<Rightarrow> Inr (Some (msu_of_unit u))))"

definition wrap_m3ua :: "'x codecs \<Rightarrow> msu \<Rightarrow> u32 option \<Rightarrow> bytes" where
  "wrap_m3ua cd m context = cd_m3ua_data cd context (data_of_msu m)"

unbundle bit_operations_syntax

definition itu_pc :: "'x codecs \<Rightarrow> u32 \<Rightarrow> point_code option" where
  "itu_pc cd value = cd_point_code cd (value AND 0x3FFF) Itu"

definition mtp3_msu :: "'x codecs \<Rightarrow> msu \<Rightarrow> bytes option" where
  "mtp3_msu cd m =
     (case itu_pc cd (msu_opc m) of
        None \<Rightarrow> None
      | Some opc \<Rightarrow>
          (case itu_pc cd (msu_dpc m) of
             None \<Rightarrow> None
           | Some dpc \<Rightarrow>
               Some (cd_mtp3_encode cd \<lparr>mx_si = msu_si m, mx_ni = msu_ni m, mx_mp = msu_mp m, mx_opc = opc, mx_dpc = dpc,
                 mx_sls = msu_sls m, mx_data = msu_payload m\<rparr>)))"

text \<open>The encoder of M2PA User Data gets both sequence numbers at their initial value.\<close>

definition wrap_m2pa :: "'x codecs \<Rightarrow> (24 word \<Rightarrow> 24 word \<Rightarrow> u8 \<Rightarrow> bytes \<Rightarrow> bytes option) \<Rightarrow> msu \<Rightarrow> bytes option" where
  "wrap_m2pa cd m2pa_encode m = Option.bind (mtp3_msu cd m) (m2pa_encode 0xFFFFFF 0xFFFFFF (msu_mp m))"

section \<open>SUA\<close>

definition sccp_addr_to_sua :: "'x sua_codec \<Rightarrow> 'x address \<Rightarrow> sua_address" where
  "sccp_addr_to_sua sc a =
     (let gt = (case ad_title a of
                  Gt0100 tt np es nai d \<Rightarrow> Some \<lparr>sg_gti = 4, sg_translation_type = tt, sg_numbering_plan = np, sg_nature_of_address = nai, sg_digits = d\<rparr>
                | Gt0011 tt np es d \<Rightarrow> Some \<lparr>sg_gti = 3, sg_translation_type = tt, sg_numbering_plan = np, sg_nature_of_address = 0, sg_digits = d\<rparr>
                | Gt0010 tt d \<Rightarrow> Some \<lparr>sg_gti = 2, sg_translation_type = tt, sg_numbering_plan = 0, sg_nature_of_address = 0, sg_digits = d\<rparr>
                | Gt0001 nai oe d \<Rightarrow> Some \<lparr>sg_gti = 1, sg_translation_type = 0, sg_numbering_plan = 0, sg_nature_of_address = nai, sg_digits = d\<rparr>
                | NoTitle \<Rightarrow> None)
      in case gt of
           Some gt \<Rightarrow>
             let out = sua_with_gt sc gt (ad_ssn a)
             in (case ad_point_code a of Some pc \<Rightarrow> out\<lparr>su_point_code := Some (ucast pc), su_include_pc := True\<rparr> | None \<Rightarrow> out)
         | None \<Rightarrow>
             sua_with_ssn_pc sc (case ad_ssn a of Some s \<Rightarrow> s | None \<Rightarrow> 0)
               (case ad_point_code a of Some pc \<Rightarrow> ucast pc | None \<Rightarrow> 0))"

definition sua_addr_to_sccp :: "'x sua_codec \<Rightarrow> sua_address \<Rightarrow> 'x address" where
  "sua_addr_to_sccp sc a =
     (case su_title a of
        Some gt \<Rightarrow>
          let digits = sg_digits gt;
              odd = (length digits mod 2 = 1);
              es = (if odd then 1 else 2);
              title = (if sg_gti gt = 1 then Gt0001 (sg_nature_of_address gt) odd digits
                       else if sg_gti gt = 2 then Gt0010 (sg_translation_type gt) digits
                       else if sg_gti gt = 3 then Gt0011 (sg_translation_type gt) (sg_numbering_plan gt) es digits
                       else Gt0100 (sg_translation_type gt) (sg_numbering_plan gt) es (sg_nature_of_address gt) digits);
              out = sccp_with_gt sc title (su_ssn a)
          in (case su_point_code a of Some pc \<Rightarrow> out\<lparr>ad_point_code := Some (ucast pc)\<rparr> | None \<Rightarrow> out)
      | None \<Rightarrow>
          sccp_with_ssn sc (case su_ssn a of Some s \<Rightarrow> s | None \<Rightarrow> ssn_unknown sc) (map_option ucast (su_point_code a)))"

definition sua_dest_dpc :: "sua_address \<Rightarrow> u32 \<Rightarrow> u32" where
  "sua_dest_dpc dest node_pc =
     (if su_indicator dest \<in> {RouteOnSsnAndPc, RouteOnSsnAndIp}
      then (case su_point_code dest of Some pc \<Rightarrow> pc | None \<Rightarrow> node_pc) else node_pc)"

definition cldt_to_msu :: "'x codecs \<Rightarrow> 'x sua_codec \<Rightarrow> sua_message \<Rightarrow> u32 \<Rightarrow> u8 \<Rightarrow> msu option" where
  "cldt_to_msu cd sc msg node_pc node_ni =
     (case (sx_destination msg, sx_source msg) of
        (Some dest, Some src) \<Rightarrow>
          let data = (case sx_data msg of Some d \<Rightarrow> d | None \<Rightarrow> []);
              protocol_class = (case sx_protocol_class msg of Some c \<Rightarrow> c | None \<Rightarrow> 0);
              called = sua_addr_to_sccp sc dest;
              calling = sua_addr_to_sccp sc src;
              sccp = (case sx_hop_count msg of
                        Some hop \<Rightarrow> (cd_unit cd Xudt called calling data)\<lparr>un_class := protocol_class, un_hop := hop\<rparr>
                      | None \<Rightarrow> (cd_unit cd Udt called calling data)\<lparr>un_class := protocol_class\<rparr>)
          in map_option (\<lambda>payload. \<lparr>msu_opc = (case su_point_code src of Some pc \<Rightarrow> pc | None \<Rightarrow> 0),
               msu_dpc = sua_dest_dpc dest node_pc, msu_si = SI_SCCP, msu_ni = node_ni, msu_mp = 0,
               msu_sls = ucast ((case sx_sequence_control msg of Some s \<Rightarrow> s | None \<Rightarrow> 0) AND 0xFF),
               msu_payload = payload\<rparr>) (cd_encode cd sccp)
      | _ \<Rightarrow> None)"

definition cldr_to_msu :: "'x codecs \<Rightarrow> 'x sua_codec \<Rightarrow> sua_message \<Rightarrow> u32 \<Rightarrow> u8 \<Rightarrow> msu option" where
  "cldr_to_msu cd sc msg node_pc node_ni =
     (case (sx_destination msg, sx_source msg) of
        (Some dest, Some src) \<Rightarrow>
          let data = (case sx_data msg of Some d \<Rightarrow> d | None \<Rightarrow> []);
              value = (case sx_cause msg of Some (_, v) \<Rightarrow> v | None \<Rightarrow> 0);
              called = sua_addr_to_sccp sc dest;
              calling = sua_addr_to_sccp sc src;
              udts = cd_service cd Udts (cause_from sc value) called calling data
          in map_option (\<lambda>payload. \<lparr>msu_opc = (case su_point_code src of Some pc \<Rightarrow> pc | None \<Rightarrow> 0),
               msu_dpc = sua_dest_dpc dest node_pc, msu_si = SI_SCCP, msu_ni = node_ni, msu_mp = 0, msu_sls = 0,
               msu_payload = payload\<rparr>) (cd_encode cd udts)
      | _ \<Rightarrow> None)"

definition extract_sua :: "'x codecs \<Rightarrow> 'x sua_codec \<Rightarrow> bytes \<Rightarrow> u32 \<Rightarrow> u8 \<Rightarrow> msu option" where
  "extract_sua cd sc payload node_pc node_ni =
     (case sua_decode sc payload of
        None \<Rightarrow> None
      | Some msg \<Rightarrow>
          (case sx_type msg of
             Cldt \<Rightarrow> cldt_to_msu cd sc msg node_pc node_ni
           | Cldr \<Rightarrow> cldr_to_msu cd sc msg node_pc node_ni
           | OtherSua \<Rightarrow> None))"

definition wrap_sua :: "'x codecs \<Rightarrow> 'x sua_codec \<Rightarrow> msu \<Rightarrow> u32 \<Rightarrow> bytes option" where
  "wrap_sua cd sc m context =
     (if msu_si m \<noteq> SI_SCCP then None
      else case cd_decode cd (msu_payload m) of
        None \<Rightarrow> None
      | Some sccp \<Rightarrow>
          let source = sccp_addr_to_sua sc (un_calling sccp);
              destination = sccp_addr_to_sua sc (un_called sccp);
              data = un_data sccp;
              seq = ucast (msu_sls m)
          in case un_kind sccp of
               Udt \<Rightarrow> sua_cldt sc context (un_class sccp) source destination seq None data
             | Xudt \<Rightarrow> sua_cldt sc context (un_class sccp) source destination seq (Some (un_hop sccp)) data
             | Ludt \<Rightarrow> sua_cldt sc context (un_class sccp) source destination seq (Some (un_hop sccp)) data
             | _ \<Rightarrow> sua_cldr sc context 0 (cause_value sc (un_cause sccp)) source destination (Some data))"

section \<open>Round trips\<close>

text \<open>The encoding scheme a title gets when it comes back from SUA.\<close>

definition parity_scheme :: "string \<Rightarrow> u8" where
  "parity_scheme d = (if length d mod 2 = 1 then 1 else 2)"

fun reschemed :: "global_title \<Rightarrow> global_title" where
  "reschemed (Gt0001 nai oe d) = Gt0001 nai (length d mod 2 = 1) d"
| "reschemed (Gt0011 tt np es d) = Gt0011 tt np (parity_scheme d) d"
| "reschemed (Gt0100 tt np es nai d) = Gt0100 tt np (parity_scheme d) nai d"
| "reschemed t = t"

text \<open>What the constructors of an address are documented to set.\<close>

definition address_constructors :: "'x sua_codec \<Rightarrow> bool" where
  "address_constructors sc \<longleftrightarrow>
     (\<forall>gt ssn. su_title (sua_with_gt sc gt ssn) = Some gt \<and> su_ssn (sua_with_gt sc gt ssn) = ssn \<and>
        su_point_code (sua_with_gt sc gt ssn) = None) \<and>
     (\<forall>ssn pc. su_title (sua_with_ssn_pc sc ssn pc) = None \<and> su_ssn (sua_with_ssn_pc sc ssn pc) = Some ssn \<and>
        su_point_code (sua_with_ssn_pc sc ssn pc) = Some pc \<and> su_indicator (sua_with_ssn_pc sc ssn pc) = RouteOnSsnAndPc) \<and>
     (\<forall>t ssn. ad_title (sccp_with_gt sc t ssn) = t \<and> ad_ssn (sccp_with_gt sc t ssn) = ssn \<and> ad_point_code (sccp_with_gt sc t ssn) = None) \<and>
     (\<forall>ssn pc. ad_title (sccp_with_ssn sc ssn pc) = NoTitle \<and> ad_ssn (sccp_with_ssn sc ssn pc) = Some ssn \<and> ad_point_code (sccp_with_ssn sc ssn pc) = pc)"

lemma ucast_up_down: "(ucast (ucast (w :: 16 word) :: u32) :: 16 word) = w"
  by transfer simp


text \<open>What the label and the service octet of an ITU message signal unit have room for (Q.704 2.2 and 14.2).\<close>

definition unit_fits :: "mtp3_unit \<Rightarrow> bool" where
  "unit_fits u \<longleftrightarrow> mx_si u < 16 \<and> mx_ni u < 4 \<and> mx_mp u = 0 \<and> mx_sls u < 16 \<and>
     pc_value (mx_opc u) < 2 ^ 14 \<and> pc_variant (mx_opc u) = Itu \<and> pc_value (mx_dpc u) < 2 ^ 14 \<and> pc_variant (mx_dpc u) = Itu"

text \<open>
  A message that leaves as an MTP3 message signal unit is the one read back at the far end of the
  link, label, service and payload, when the encoder and the decoder agree on every unit that fits the
  format and each number of fourteen bits is a point code: the two point codes are cut to fourteen
  bits and nothing else changes, so framing never fails.
\<close>

theorem mtp3_framing_roundtrip:
  assumes "\<And>u. unit_fits u \<Longrightarrow> cd_mtp3_decode cd (cd_mtp3_encode cd u) = Some u"
    and "\<And>v. v < 2 ^ 14 \<Longrightarrow> cd_point_code cd v Itu = Some \<lparr>pc_value = v, pc_variant = Itu\<rparr>"
    and "msu_si m < 16" "msu_ni m < 4" "msu_mp m = 0" "msu_sls m < 16"
  shows "\<exists>raw. mtp3_msu cd m = Some raw \<and> map_option msu_of_unit (cd_mtp3_decode cd raw) =
    Some (m\<lparr>msu_opc := msu_opc m AND 0x3FFF, msu_dpc := msu_dpc m AND 0x3FFF\<rparr>)"
proof -
  have small: "(v AND 0x3FFF :: u32) < 2 ^ 14" for v
    by (rule le_less_trans [OF word_and_le1]) simp
  then have "itu_pc cd v = Some \<lparr>pc_value = v AND 0x3FFF, pc_variant = Itu\<rparr>" for v
    using assms(2) [of "v AND 0x3FFF"] by (simp add: itu_pc_def)
  moreover define u where "u = \<lparr>mx_si = msu_si m, mx_ni = msu_ni m, mx_mp = msu_mp m,
    mx_opc = \<lparr>pc_value = msu_opc m AND 0x3FFF, pc_variant = Itu\<rparr>, mx_dpc = \<lparr>pc_value = msu_dpc m AND 0x3FFF, pc_variant = Itu\<rparr>,
    mx_sls = msu_sls m, mx_data = msu_payload m\<rparr>"
  ultimately have "mtp3_msu cd m = Some (cd_mtp3_encode cd u)" by (simp add: mtp3_msu_def)
  moreover have "unit_fits u" using assms(3-6) small [of "msu_opc m"] small [of "msu_dpc m"] by (simp add: unit_fits_def u_def)
  ultimately show ?thesis using assms(1) by (simp add: msu_of_unit_def u_def)
qed

section \<open>An example\<close>

text \<open>A format for each codec, as plain as it can be: a hop counter alone for SCCP, point codes in unary for MTP3.\<close>

definition sample_address :: "unit address" where
  "sample_address = \<lparr>ad_route_on_ssn = False, ad_point_code = None, ad_ssn = Some 6, ad_title = Gt0100 0 1 2 4 ''49'', ad_rest = ()\<rparr>"

definition sample_unit :: "sccp_kind \<Rightarrow> u8 \<Rightarrow> unit sccp_unit" where
  "sample_unit kind hop = \<lparr>un_kind = kind, un_called = sample_address, un_calling = sample_address, un_data = [], un_class = 0,
     un_handling = 0, un_hop = hop, un_cause = Unqualified, un_optional = [], un_rest = ()\<rparr>"

definition unary :: "point_code \<Rightarrow> bytes" where
  "unary p = replicate (unat (pc_value p)) 0 @ [1]"

definition unary_decode :: "bytes \<Rightarrow> point_code \<times> bytes" where
  "unary_decode b = (let n = length (takeWhile (\<lambda>x. x = 0) b) in (\<lparr>pc_value = of_nat n, pc_variant = Itu\<rparr>, drop (Suc n) b))"

definition sample_codecs :: "unit codecs" where
  "sample_codecs =
     \<lparr>cd_decode = (\<lambda>b. case b of [] \<Rightarrow> None | h # _ \<Rightarrow> Some (sample_unit Xudt h)),
      cd_encode = (\<lambda>u. Some [un_hop u]),
      cd_service = (\<lambda>k c to from d. (sample_unit k 15)\<lparr>un_called := to, un_calling := from, un_data := d, un_cause := c\<rparr>),
      cd_unit = (\<lambda>k to from d. (sample_unit k 15)\<lparr>un_called := to, un_calling := from, un_data := d\<rparr>),
      cd_m3ua = (\<lambda>_. Inl ''short''), cd_m3ua_data = (\<lambda>_ p. pd_user_data p),
      cd_mtp3_encode = (\<lambda>u. [mx_si u, mx_ni u, mx_mp u, mx_sls u] @ unary (mx_opc u) @ unary (mx_dpc u) @ mx_data u),
      cd_mtp3_decode = (\<lambda>b. case b of
          si # ni # mp # sls # r \<Rightarrow>
            (let (opc, r) = unary_decode r; (dpc, r) = unary_decode r
             in Some \<lparr>mx_si = si, mx_ni = ni, mx_mp = mp, mx_opc = opc, mx_dpc = dpc, mx_sls = sls, mx_data = r\<rparr>)
        | _ \<Rightarrow> None),
      cd_point_code = (\<lambda>v var. if v < 2 ^ 14 then Some \<lparr>pc_value = v, pc_variant = var\<rparr> else None)\<rparr>"

definition sample_sua :: "unit sua_codec" where
  "sample_sua =
     \<lparr>sua_decode = (\<lambda>_. None), sua_cldt = (\<lambda>_ _ _ _ _ _ d. Some d), sua_cldr = (\<lambda>_ _ _ _ _ d. d),
      sua_with_gt = (\<lambda>gt ssn. \<lparr>su_indicator = RouteOnGt, su_point_code = None, su_include_pc = False, su_ssn = ssn, su_title = Some gt\<rparr>),
      sua_with_ssn_pc = (\<lambda>ssn pc. \<lparr>su_indicator = RouteOnSsnAndPc, su_point_code = Some pc, su_include_pc = True, su_ssn = Some ssn, su_title = None\<rparr>),
      sccp_with_gt = (\<lambda>t ssn. \<lparr>ad_route_on_ssn = False, ad_point_code = None, ad_ssn = ssn, ad_title = t, ad_rest = ()\<rparr>),
      sccp_with_ssn = (\<lambda>ssn pc. \<lparr>ad_route_on_ssn = True, ad_point_code = pc, ad_ssn = Some ssn, ad_title = NoTitle, ad_rest = ()\<rparr>),
      ssn_unknown = 0, cause_value = (\<lambda>_. 0), cause_from = (\<lambda>_. Unqualified)\<rparr>"

lemma unary_decode_unary: "pc_variant p = Itu \<Longrightarrow> unary_decode (unary p @ xs) = (p, xs)"
proof -
  have "takeWhile (\<lambda>x :: u8. x = 0) (replicate n 0 @ 1 # ys) = replicate n 0" for n and ys by (induction n) simp_all
  moreover assume "pc_variant p = Itu"
  ultimately show ?thesis by (cases p) (simp add: unary_decode_def unary_def)
qed


theorem mtp3_framing_roundtrip_witness:
  "\<exists>raw. mtp3_msu sample_codecs \<lparr>msu_opc = 1, msu_dpc = 2, msu_si = 3, msu_ni = 2, msu_mp = 0, msu_sls = 7, msu_payload = [9]\<rparr> = Some raw \<and>
     map_option msu_of_unit (cd_mtp3_decode sample_codecs raw) =
       Some \<lparr>msu_opc = 1, msu_dpc = 2, msu_si = 3, msu_ni = 2, msu_mp = 0, msu_sls = 7, msu_payload = [9]\<rparr>"
proof -
  have "cd_mtp3_decode sample_codecs (cd_mtp3_encode sample_codecs u) = Some u" if "unit_fits u" for u
    using that by (simp add: sample_codecs_def unary_decode_unary unit_fits_def)
  moreover have "v < 2 ^ 14 \<Longrightarrow> cd_point_code sample_codecs v Itu = Some \<lparr>pc_value = v, pc_variant = Itu\<rparr>" for v
    by (simp add: sample_codecs_def)
  ultimately show ?thesis
    using mtp3_framing_roundtrip [of sample_codecs "\<lparr>msu_opc = 1, msu_dpc = 2, msu_si = 3, msu_ni = 2, msu_mp = 0, msu_sls = 7, msu_payload = [9]\<rparr>"]
    by (simp add: word_less_nat_alt)
qed

end
