(* ===== verification/Forward.thy ===== *)
theory Forward
  imports Framing Registry
begin

text \<open>
  The path of a message through the node (\<^verbatim>\<open>src/src/transport/forward.rs\<close>): the loop guards, the routing
  decision and what is done about it, the egress by link, Application Server or buffer, and the
  rerouting of what a link hands back. With it are the pieces of other modules that path calls:
  \<^verbatim>\<open>send_reply\<close> of \<^verbatim>\<open>mod.rs\<close>, \<^verbatim>\<open>management_for_server\<close> of \<^verbatim>\<open>m3ua.rs\<close> and \<^verbatim>\<open>refuse_begin\<close> of \<^verbatim>\<open>dialogue.rs\<close>.

  The state is the registry, the router's domains and what was put out so far. Counters and log lines
  are kept as effects where they say what became of a message; the transmission on an association is
  an effect, whether the kernel accepts it is not modelled.
\<close>

section \<open>State and effects\<close>

datatype loop_kind = OwnOpc | RouteReflect | HopCounterLoop

datatype mtp3_discard = DiscardNoRoute | DiscardNoEgress | DiscardNoAlternative | DiscardNoPath | DiscardManagement

datatype admission_action = AaReturned | AaAborted | AaDiscarded

datatype fw_effect =
    FxSend handle bytes "16 word" u32
  | FxScon handle "u32 option" u32 "u32 option" "u8 option"
  | FxDupu handle "u32 option" u32 u8 u8
  | FxLocal msu string
  | FxReport rg_effect
  | FxLoop loop_kind
  | FxDiscard mtp3_discard
  | FxM3uaManagement
  | FxAdmission string admission_action
  | FxScreened screen_reason
  | FxSegmentUnscreened
  | FxNotSent

record 'mt fw_state =
  fw_registry :: registry
  fw_tenancy :: "'mt tenancy"
  fw_out :: "fw_effect list"

text \<open>What a task has at hand (\<^verbatim>\<open>TaskCtx\<close>), with the codecs it calls.\<close>

record ('x, 'mt) fw_ctx =
  fx_tenant :: string
  fx_policy :: "(dialogue_start \<Rightarrow> admission) option"
  fx_codecs :: "'x codecs"
  fx_sua :: "'x sua_codec"
  fx_isup :: "'mt isup_codec"
  fx_tcap :: decode_detailed
  fx_ops :: op_codes
  fx_args :: map_args
  fx_mgmt_decode :: "variant \<Rightarrow> bytes \<Rightarrow> mgmt_message option"
  fx_abort :: "bytes \<Rightarrow> bytes option"

definition put_out :: "fw_effect \<Rightarrow> 'mt fw_state \<Rightarrow> 'mt fw_state" where
  "put_out x st = st\<lparr>fw_out := fw_out st @ [x]\<rparr>"

definition M3UA_DATA_STREAM :: "16 word" where "M3UA_DATA_STREAM = 1"
definition SUA_DATA_STREAM :: "16 word" where "SUA_DATA_STREAM = 1"
definition PPID_M3UA :: u32 where "PPID_M3UA = 3"
definition PPID_SUA :: u32 where "PPID_SUA = 4"
definition SI_MANAGEMENT :: u8 where "SI_MANAGEMENT = 0"
definition SCCP_RETURN_ON_ERROR :: u8 where "SCCP_RETURN_ON_ERROR = 8"

section \<open>Egress\<close>

definition send_on_link :: "('x, 'mt) fw_ctx \<Rightarrow> string \<Rightarrow> msu \<Rightarrow> 'mt fw_state \<Rightarrow> 'mt fw_state" where
  "send_on_link ctx x m st =
     (case Option.bind (slot_of (fw_registry st) x) sl_link of
        None \<Rightarrow> put_out FxNotSent st
      | Some port \<Rightarrow>
          (case mtp3_msu (fx_codecs ctx) m of
             None \<Rightarrow> put_out FxNotSent st
           | Some raw \<Rightarrow>
               (case port_offer raw port of (port', ok) \<Rightarrow>
                  let st = st\<lparr>fw_registry := set_slot x (\<lambda>s. s\<lparr>sl_link := Some port'\<rparr>) (fw_registry st)\<rparr>
                  in if ok then st else put_out FxNotSent st)))"

definition no_egress :: "'mt fw_state \<Rightarrow> 'mt fw_state" where
  "no_egress st = put_out (FxDiscard DiscardNoEgress) st"

text \<open>What a management message becomes for one ASP of a server; nothing when M3UA has no message for it.\<close>

definition translated :: "u32 option \<Rightarrow> msu \<Rightarrow> mgmt_message option \<Rightarrow> assoc_slot \<Rightarrow> (handle \<Rightarrow> fw_effect) option" where
  "translated context m message s =
     (if sl_adaptation s \<noteq> M3ua then None
      else case message of
        Some (Tfc d status) \<Rightarrow>
          Some (\<lambda>h. FxScon h context (pc_value d) (if sl_role s = Server then None else Some (msu_dpc m))
            (if status \<noteq> 0 then Some status else None))
      | Some (Upu d user_part cause) \<Rightarrow>
          if sl_role s = Server then Some (\<lambda>h. FxDupu h context (pc_value d) cause user_part) else None
      | _ \<Rightarrow> None)"

definition management_for_server :: "('x, 'mt) fw_ctx \<Rightarrow> string \<Rightarrow> msu \<Rightarrow> 'mt fw_state \<Rightarrow> 'mt fw_state" where
  "management_for_server ctx name m st =
     (let r = fw_registry st;
          message = fx_mgmt_decode ctx (rg_variant r) (msu_payload m);
          server = server_index r name;
          context = map_option snd (Option.bind server (registry_server r));
          asps = (case server of Some i \<Rightarrow> active_asps r i | None \<Rightarrow> []);
          sends = List.map_filter (\<lambda>x. case slot_of r x of
                    None \<Rightarrow> None
                  | Some s \<Rightarrow> Option.bind (translated context m message s) (\<lambda>f. map_option f (sl_sender s))) asps
      in if sends = [] then put_out FxM3uaManagement st else fold put_out sends st)"

definition send_selected :: "('x, 'mt) fw_ctx \<Rightarrow> msu \<Rightarrow> selected \<Rightarrow> 'mt fw_state \<Rightarrow> 'mt fw_state" where
  "send_selected ctx m sel st =
     (case se_adaptation sel of
        M3ua \<Rightarrow> put_out (FxSend (se_assoc sel) (wrap_m3ua (fx_codecs ctx) m (se_routing_context sel)) M3UA_DATA_STREAM PPID_M3UA) st
      | Sua \<Rightarrow>
          (case wrap_sua (fx_codecs ctx) (fx_sua ctx) m (case se_routing_context sel of Some c \<Rightarrow> c | None \<Rightarrow> 0) of
             Some b \<Rightarrow> put_out (FxSend (se_assoc sel) b SUA_DATA_STREAM PPID_SUA) st
           | None \<Rightarrow> put_out FxNotSent st)
      | M2pa \<Rightarrow> put_out FxNotSent st)"

fun send_now :: "('x, 'mt) fw_ctx \<Rightarrow> destination \<Rightarrow> msu \<Rightarrow> 'mt fw_state \<Rightarrow> 'mt fw_state" where
  "send_now ctx (Linkset name) m st =
     (case select_link (fw_registry st) name (msu_sls m) of
        Some x \<Rightarrow> send_on_link ctx x m st
      | None \<Rightarrow> no_egress st)"
| "send_now ctx (ApplicationServer name) m st =
     (if msu_si m = SI_MANAGEMENT then management_for_server ctx name m st
      else
        let selected = select (fw_registry st) (ApplicationServer name) (msu_sls m)
        in if selected = [] then
             (case queue_if_pending name m (fw_registry st) of (r, queued) \<Rightarrow>
                let st = st\<lparr>fw_registry := r\<rparr> in if queued then st else no_egress st)
           else fold (send_selected ctx m) selected st)"

definition send_via :: "('x, 'mt) fw_ctx \<Rightarrow> destination \<Rightarrow> msu \<Rightarrow> 'mt fw_state \<Rightarrow> 'mt fw_state" where
  "send_via ctx via m st =
     (case hold_if_rerouting m (fw_registry st) of (r, held) \<Rightarrow>
        let st = st\<lparr>fw_registry := r\<rparr> in if held then st else send_now ctx via m st)"

definition send_reply :: "('x, 'mt) fw_ctx \<Rightarrow> string \<Rightarrow> msu \<Rightarrow> 'mt fw_state \<Rightarrow> 'mt fw_state" where
  "send_reply ctx x m st =
     (case slot_of (fw_registry st) x of
        None \<Rightarrow> put_out FxNotSent st
      | Some s \<Rightarrow>
          (case sl_sender s of
             None \<Rightarrow> put_out FxNotSent st
           | Some h \<Rightarrow>
               let rc = map_option fst (as_membership (fw_registry st) x)
               in (case sl_adaptation s of
                     M3ua \<Rightarrow> put_out (FxSend h (wrap_m3ua (fx_codecs ctx) m rc) 1 3) st
                   | M2pa \<Rightarrow> send_on_link ctx x m st
                   | Sua \<Rightarrow>
                       (case wrap_sua (fx_codecs ctx) (fx_sua ctx) m (case rc of Some c \<Rightarrow> c | None \<Rightarrow> 0) of
                          Some b \<Rightarrow> put_out (FxSend h b 1 4) st
                        | None \<Rightarrow> put_out FxNotSent st))))"

section \<open>Reading a message\<close>

fun selector_from_gt :: "global_title \<Rightarrow> gtt_selector" where
  "selector_from_gt (Gt0100 tt np _ nai d) = \<lparr>sel_digits = d, sel_gti = Some 4, sel_tt = Some tt, sel_np = Some np, sel_nai = Some nai\<rparr>"
| "selector_from_gt (Gt0011 tt np _ d) = \<lparr>sel_digits = d, sel_gti = Some 3, sel_tt = Some tt, sel_np = Some np, sel_nai = None\<rparr>"
| "selector_from_gt (Gt0010 tt d) = \<lparr>sel_digits = d, sel_gti = Some 2, sel_tt = Some tt, sel_np = None, sel_nai = None\<rparr>"
| "selector_from_gt (Gt0001 nai _ d) = \<lparr>sel_digits = d, sel_gti = Some 1, sel_tt = None, sel_np = None, sel_nai = Some nai\<rparr>"
| "selector_from_gt NoTitle = selector_from_digits []"

definition inbound_from_msu :: "'x codecs \<Rightarrow> msu \<Rightarrow> inbound" where
  "inbound_from_msu cd m =
     (let blank = \<lparr>in_dpc = msu_dpc m, in_cdpa = None, in_called_ssn = None, in_view = None, in_content_undecodable = False\<rparr>
      in if msu_si m \<noteq> SI_SCCP then blank
         else case cd_decode cd (msu_payload m) of
           None \<Rightarrow> blank
         | Some sccp \<Rightarrow>
             blank\<lparr>in_called_ssn := ad_ssn (un_called sccp),
                   in_cdpa := (if gt_digits (ad_title (un_called sccp)) \<noteq> None
                               then Some (selector_from_gt (ad_title (un_called sccp))) else None)\<rparr>)"

fun set_gt_digits :: "string \<Rightarrow> global_title \<Rightarrow> global_title option" where
  "set_gt_digits new (Gt0001 nai oe _) = Some (Gt0001 nai oe new)"
| "set_gt_digits new (Gt0010 tt _) = Some (Gt0010 tt new)"
| "set_gt_digits new (Gt0011 tt np es _) = Some (Gt0011 tt np es new)"
| "set_gt_digits new (Gt0100 tt np es nai _) = Some (Gt0100 tt np es nai new)"
| "set_gt_digits new NoTitle = None"

definition rewrite_called_gt :: "'x codecs \<Rightarrow> bytes \<Rightarrow> string \<Rightarrow> bytes option" where
  "rewrite_called_gt cd payload digits =
     (case cd_decode cd payload of
        None \<Rightarrow> None
      | Some msg \<Rightarrow>
          if un_kind msg \<in> {Udt, Xudt, Ludt} then
            (case set_gt_digits digits (ad_title (un_called msg)) of
               None \<Rightarrow> None
             | Some title \<Rightarrow> cd_encode cd (msg\<lparr>un_called := (un_called msg)\<lparr>ad_title := title\<rparr>\<rparr>))
          else None)"

definition set_hop_counter :: "u8 \<Rightarrow> 'x sccp_unit \<Rightarrow> 'x sccp_unit" where
  "set_hop_counter hop u = (if un_kind u \<in> {Udt, Udts} then u else u\<lparr>un_hop := hop\<rparr>)"

section \<open>Returns\<close>

definition return_on_error :: "'x sccp_unit \<Rightarrow> bool" where
  "return_on_error u \<longleftrightarrow> un_kind u \<in> {Udt, Xudt, Ludt} \<and> un_handling u = SCCP_RETURN_ON_ERROR"

definition sccp_return :: "'x codecs \<Rightarrow> msu \<Rightarrow> 'x sccp_unit \<Rightarrow> return_cause \<Rightarrow> u32 option \<Rightarrow> msu option" where
  "sccp_return cd m sccp cause our_pc =
     (if \<not> return_on_error sccp then None
      else
        let kind = (if un_kind sccp = Ludt then Ludts else if un_kind sccp = Xudt then Xudts else Udts)
        in map_option (\<lambda>payload. \<lparr>msu_opc = (case our_pc of Some pc \<Rightarrow> pc | None \<Rightarrow> msu_dpc m), msu_dpc = msu_opc m,
             msu_si = msu_si m, msu_ni = msu_ni m, msu_mp = msu_mp m, msu_sls = msu_sls m, msu_payload = payload\<rparr>)
             (cd_encode cd (cd_service cd kind cause (un_calling sccp) (un_called sccp) (un_data sccp))))"

definition return_undeliverable ::
  "('x, 'mt) fw_ctx \<Rightarrow> msu \<Rightarrow> return_cause \<Rightarrow> destination option \<Rightarrow> 'mt fw_state \<Rightarrow> 'mt fw_state" where
  "return_undeliverable ctx m cause src st =
     (if msu_si m \<noteq> SI_SCCP then st
      else case src of
        None \<Rightarrow> st
      | Some src \<Rightarrow>
          (case cd_decode (fx_codecs ctx) (msu_payload m) of
             None \<Rightarrow> st
           | Some sccp \<Rightarrow>
               (case sccp_return (fx_codecs ctx) m sccp cause (node_point_code (fx_tenant ctx) (fw_tenancy st)) of
                  None \<Rightarrow> st
                | Some ret \<Rightarrow> send_via ctx src ret st)))"

definition hop_counter_violated :: "'x sccp_unit \<Rightarrow> bool" where
  "hop_counter_violated u \<longleftrightarrow> \<not> ad_route_on_ssn (un_called u) \<and> un_hop u \<le> 1"

definition refuse_begin :: "('x, 'mt) fw_ctx \<Rightarrow> msu \<Rightarrow> bytes \<Rightarrow> msu option" where
  "refuse_begin ctx m otid =
     (case cd_decode (fx_codecs ctx) (msu_payload m) of
        None \<Rightarrow> None
      | Some u \<Rightarrow>
          if is_segment (unit_view u) then None
          else if un_kind u = Udt \<or> un_kind u = Xudt \<and> \<not> hop_counter_violated u then
            map_option (\<lambda>payload. \<lparr>msu_opc = msu_dpc m, msu_dpc = msu_opc m, msu_si = SI_SCCP, msu_ni = msu_ni m,
                msu_mp = 0, msu_sls = msu_sls m, msu_payload = payload\<rparr>)
              (Option.bind (fx_abort ctx otid)
                (\<lambda>tcap. cd_encode (fx_codecs ctx) (cd_unit (fx_codecs ctx) (un_kind u) (un_calling u) (un_called u) tcap)))
          else None)"

section \<open>Guards\<close>

definition is_reflection :: "destination option \<Rightarrow> destination \<Rightarrow> bool" where
  "is_reflection src via \<longleftrightarrow> src = Some via"

definition apply_isup_screen :: "'mt isup_codec \<Rightarrow> 'mt isup_screen \<Rightarrow> msu \<Rightarrow> 'mt fw_state \<Rightarrow> 'mt fw_state \<times> bool" where
  "apply_isup_screen codec rules m st =
     (let verdict = isup_screen_msu codec rules (msu_payload m);
          st = (case screened_reason verdict of Some reason \<Rightarrow> put_out (FxScreened reason) st | None \<Rightarrow> st)
      in (st, case verdict of ScreenedPass \<Rightarrow> False | PassUndecoded _ \<Rightarrow> False | BlockRule _ \<Rightarrow> True | BlockDefault \<Rightarrow> True
                | BlockUndecoded _ \<Rightarrow> True))"

definition hop_counter_guard ::
  "('x, 'mt) fw_ctx \<Rightarrow> msu \<Rightarrow> destination option \<Rightarrow> 'mt fw_state \<Rightarrow> 'mt fw_state \<times> bytes option" where
  "hop_counter_guard ctx m src st =
     (if msu_si m \<noteq> SI_SCCP then (st, Some (msu_payload m))
      else case cd_decode (fx_codecs ctx) (msu_payload m) of
        None \<Rightarrow> (st, Some (msu_payload m))
      | Some sccp \<Rightarrow>
          (case hop_counter sccp of
             None \<Rightarrow> (st, Some (msu_payload m))
           | Some hop \<Rightarrow>
               let remaining = (if hop = 0 then 0 else hop - 1)
               in if remaining \<noteq> 0 then
                    (st, Some (case cd_encode (fx_codecs ctx) (set_hop_counter remaining sccp) of Some b \<Rightarrow> b | None \<Rightarrow> msu_payload m))
                  else
                    let st = put_out (FxLoop HopCounterLoop) st
                    in (case src of
                          None \<Rightarrow> (st, None)
                        | Some src \<Rightarrow>
                            (case sccp_return (fx_codecs ctx) m sccp HopCounterViolation (node_point_code (fx_tenant ctx) (fw_tenancy st)) of
                               None \<Rightarrow> (st, None)
                             | Some ret \<Rightarrow> (send_via ctx src ret st, None)))))"

text \<open>A refusal carries the view of the message it refused; the message itself is decoded from the same payload.\<close>

definition refused_by_admission ::
  "('x, 'mt) fw_ctx \<Rightarrow> msu \<Rightarrow> string \<Rightarrow> destination option \<Rightarrow> bool \<Rightarrow> 'mt fw_state \<Rightarrow> 'mt fw_state \<times> bool" where
  "refused_by_admission ctx m assoc src here st =
     (case fx_policy ctx of
        None \<Rightarrow> (st, False)
      | Some policy \<Rightarrow>
          (case admission_check (\<lambda>b. map_option unit_view (cd_decode (fx_codecs ctx) b)) (fx_tcap ctx) policy m (fx_tenant ctx) here of
             GatePass \<Rightarrow> (st, False)
           | GateRefused refusal \<Rightarrow>
               let (st, action) =
                 (if here then
                    (case Option.bind (rf_otid refusal) (refuse_begin ctx m) of
                       Some abort \<Rightarrow> (send_reply ctx assoc abort st, AaAborted)
                     | None \<Rightarrow> (st, AaDiscarded))
                  else
                    (case (src, Option.bind (cd_decode (fx_codecs ctx) (msu_payload m)) (\<lambda>sccp.
                            sccp_return (fx_codecs ctx) m sccp (rc_return_cause (rf_cause refusal))
                              (node_point_code (fx_tenant ctx) (fw_tenancy st)))) of
                       (Some src, Some ret) \<Rightarrow> (send_via ctx src ret st, AaReturned)
                     | _ \<Rightarrow> (st, AaDiscarded)))
               in (put_out (FxAdmission (rc_reason (rf_cause refusal)) action) st, True)))"

section \<open>Dispatch\<close>

definition with_content :: "('x, 'mt) fw_ctx \<Rightarrow> msu \<Rightarrow> inbound \<Rightarrow> 'mt fw_state \<Rightarrow> 'mt fw_state \<times> inbound" where
  "with_content ctx m inb st =
     (if msu_si m = SI_SCCP \<and> tenant_has_content_rules (fx_tenant ctx) (fw_tenancy st) then
        (case cd_decode (fx_codecs ctx) (msu_payload m) of
           None \<Rightarrow> (st, inb)
         | Some sccp \<Rightarrow>
             (case screen (fx_tcap ctx) (fx_ops ctx) (fx_args ctx) (unit_view sccp) of
                ScreenView view \<Rightarrow> (st, inb\<lparr>in_view := Some view\<rparr>)
              | Undecodable \<Rightarrow> (st, inb\<lparr>in_content_undecodable := True\<rparr>)
              | Segmented \<Rightarrow> (put_out FxSegmentUnscreened st, inb)
              | NotApplicable \<Rightarrow> (st, inb)))
      else (st, inb))"

definition report :: "u32 \<Rightarrow> string \<Rightarrow> 'mt fw_state \<Rightarrow> 'mt fw_state" where
  "report dpc assoc st = fold (\<lambda>x. put_out (FxReport x)) (report_unroutable dpc assoc (fw_registry st)) st"

definition relay_transit ::
  "('x, 'mt) fw_ctx \<Rightarrow> msu \<Rightarrow> string \<Rightarrow> destination option \<Rightarrow> destination \<Rightarrow> 'mt fw_state \<Rightarrow> 'mt fw_state" where
  "relay_transit ctx m assoc src via st =
     (let (st, blocked) =
        (case (if msu_si m = SI_ISUP then router_isup_screen (fx_tenant ctx) (fw_tenancy st) else None) of
           None \<Rightarrow> (st, False)
         | Some rules \<Rightarrow> apply_isup_screen (fx_isup ctx) rules m st)
      in if blocked then st
         else if is_reflection src via then report (msu_dpc m) assoc (put_out (FxLoop RouteReflect) st)
         else
           (case refused_by_admission ctx m assoc src False st of (st, refused) \<Rightarrow>
              if refused then st else send_via ctx via m st))"

definition relay_translated ::
  "('x, 'mt) fw_ctx \<Rightarrow> msu \<Rightarrow> string \<Rightarrow> destination option \<Rightarrow> u32 \<Rightarrow> destination \<Rightarrow> string option \<Rightarrow> 'mt fw_state \<Rightarrow> 'mt fw_state" where
  "relay_translated ctx m assoc src dpc via rewrite st =
     (if is_reflection src via then put_out (FxLoop RouteReflect) st
      else
        (case refused_by_admission ctx m assoc src False st of (st, refused) \<Rightarrow>
           if refused then st
           else
             (case hop_counter_guard ctx m src st of
                (st, None) \<Rightarrow> st
              | (st, Some payload) \<Rightarrow>
                  let out = m\<lparr>msu_dpc := dpc, msu_payload := payload\<rparr>;
                      out = (case rewrite of
                               None \<Rightarrow> out
                             | Some gt \<Rightarrow>
                                 (case rewrite_called_gt (fx_codecs ctx) (msu_payload out) gt of
                                    Some rewritten \<Rightarrow> out\<lparr>msu_payload := rewritten\<rparr>
                                  | None \<Rightarrow> out))
                  in send_via ctx via out st)))"

definition act_on ::
  "('x, 'mt) fw_ctx \<Rightarrow> msu \<Rightarrow> string \<Rightarrow> destination option \<Rightarrow> route_decision \<Rightarrow> 'mt fw_state \<Rightarrow> 'mt fw_state" where
  "act_on ctx m assoc src d st =
     (case d of
        RdRoute via \<Rightarrow> relay_transit ctx m assoc src via st
      | RdRouteTo dpc ssn (Some via) rewrite \<Rightarrow> relay_translated ctx m assoc src dpc via rewrite st
      | RdRouteTo dpc ssn None rewrite \<Rightarrow> return_undeliverable ctx m MtpFailure src st
      | RdLocal \<Rightarrow>
          (case refused_by_admission ctx m assoc src True st of (st, refused) \<Rightarrow>
             if refused then st else put_out (FxLocal m assoc) st)
      | RdCrossTenant tenant dpc ssn conv \<Rightarrow> return_undeliverable ctx m SccpFailure src st
      | RdDrop reason \<Rightarrow>
          let transfer = (case node_point_code (fx_tenant ctx) (fw_tenancy st) of Some pc \<Rightarrow> pc \<noteq> msu_dpc m | None \<Rightarrow> False);
              st = (if transfer then report (msu_dpc m) assoc (put_out (FxDiscard DiscardNoRoute) st) else st)
          in return_undeliverable ctx m NoTranslationForAddress src st)"

definition dispatch :: "('x, 'mt) fw_ctx \<Rightarrow> msu \<Rightarrow> string \<Rightarrow> 'mt fw_state \<Rightarrow> 'mt fw_state" where
  "dispatch ctx m assoc st =
     (if node_point_code (fx_tenant ctx) (fw_tenancy st) = Some (msu_opc m) then put_out (FxLoop OwnOpc) st
      else
        let src = inbound_destination (fw_registry st) assoc
        in case with_content ctx m (inbound_from_msu (fx_codecs ctx) m) st of (st, inb) \<Rightarrow>
             (case route_for (cd_point_code (fx_codecs ctx)) (fx_tenant ctx) inb (msu_sls m) (fw_tenancy st) of (ten, d) \<Rightarrow>
                act_on ctx m assoc src d (st\<lparr>fw_tenancy := ten\<rparr>)))"

section \<open>Rerouting\<close>

definition release_one :: "('x, 'mt) fw_ctx \<Rightarrow> msu \<Rightarrow> 'mt fw_state \<Rightarrow> 'mt fw_state" where
  "release_one ctx m st =
     (case egress_for (cd_point_code (fx_codecs ctx)) (fx_tenant ctx) (msu_dpc m) (msu_sls m) None (fw_tenancy st) of
        Some via \<Rightarrow> send_now ctx via m st
      | None \<Rightarrow> put_out (FxDiscard DiscardNoRoute) st)"

text \<open>The loop of \<^verbatim>\<open>release_destination\<close>, with the number of rounds it may take.\<close>

fun release_rounds :: "('x, 'mt) fw_ctx \<Rightarrow> u32 \<Rightarrow> nat \<Rightarrow> 'mt fw_state \<Rightarrow> 'mt fw_state option" where
  "release_rounds ctx dpc 0 st = None"
| "release_rounds ctx dpc (Suc n) st =
     (case release_held dpc (fw_registry st) of
        (r, None) \<Rightarrow> Some (st\<lparr>fw_registry := r\<rparr>)
      | (r, Some batch) \<Rightarrow> release_rounds ctx dpc n (fold (release_one ctx) batch (st\<lparr>fw_registry := r\<rparr>)))"

definition reroute_msu :: "('x, 'mt) fw_ctx \<Rightarrow> bytes \<Rightarrow> string \<Rightarrow> 'mt fw_state \<Rightarrow> 'mt fw_state" where
  "reroute_msu ctx raw from_link st =
     (case cd_mtp3_decode (fx_codecs ctx) raw of
        None \<Rightarrow> put_out (FxDiscard DiscardNoAlternative) st
      | Some u \<Rightarrow>
          let m = msu_of_unit u;
              own = inbound_destination (fw_registry st) from_link;
              egress = (\<lambda>avoid. egress_for (cd_point_code (fx_codecs ctx)) (fx_tenant ctx) (msu_dpc m) (msu_sls m) avoid (fw_tenancy st));
              via = egress None;
              finish = (\<lambda>via. case via of Some via \<Rightarrow> send_via ctx via m st | None \<Rightarrow> put_out (FxDiscard DiscardNoAlternative) st)
          in if via \<noteq> None \<and> via = own then
               (case own of
                  Some (Linkset name) \<Rightarrow>
                    (case select_link_avoiding (fw_registry st) name (msu_sls m) (Some from_link) of
                       Some x \<Rightarrow>
                         (case hold_if_rerouting m (fw_registry st) of (r, held) \<Rightarrow>
                            let st = st\<lparr>fw_registry := r\<rparr> in if held then st else send_on_link ctx x m st)
                     | None \<Rightarrow> finish (egress own))
                | _ \<Rightarrow> finish (egress own))
             else finish via)"

end
