(* ===== verification/Registry_Correct.thy ===== *)
theory Registry_Correct
  imports Registry
begin

text \<open>
  What the registry promises its callers: which associations carry a message, where a selection code
  goes, that controlled rerouting loses and reorders nothing, and that a recomputation brings the
  router and network management exactly to the state of the slots.
\<close>

lemma entry_state_number [simp]: "entry_state (a\<lparr>ae_state := state_number st\<rparr>) = st"
  by (cases st) (simp_all add: entry_state_def)

section \<open>Selecting an association of a server\<close>

lemma map_filter_all: "(\<And>x. x \<in> set xs \<Longrightarrow> f x = Some (g x)) \<Longrightarrow> List.map_filter f xs = map g xs"
  by (induction xs) (simp_all add: List.map_filter_simps)

lemma carries_selected:
  assumes "entry_carries r a i"
  shows "\<exists>x. selected_of r c (ae_members a ! i) = Some x \<and> se_slot x = ae_members a ! i"
  using assms by (auto simp: entry_carries_def selected_of_def is_carrying_def split: option.splits if_splits)

lemma map_filter_selected:
  assumes "\<And>i. i \<in> set is \<Longrightarrow> entry_carries r a i"
  shows "map se_slot (List.map_filter (\<lambda>i. selected_of r c (ae_members a ! i)) is) = map (\<lambda>i. ae_members a ! i) is"
  using assms
proof (induction "is")
  case (Cons i "is")
  obtain x where "selected_of r c (ae_members a ! i) = Some x" "se_slot x = ae_members a ! i"
    using carries_selected Cons.prems by (metis list.set_intros(1))
  then show ?case using Cons by (simp add: List.map_filter_simps)
qed (simp add: List.map_filter_simps)

text \<open>
  A message for an Application Server goes to members that carry, and to exactly those its traffic
  mode says: in Override mode the first of them, in Loadshare mode the one its selection code falls
  on, in Broadcast mode all; to none exactly when none carries. A member that is chosen is never
  lost on the way for want of a live association.
\<close>

theorem select_server_exact:
  "map se_slot (select r (ApplicationServer name) sls) =
     (case find (\<lambda>a. ae_name a = name) (rg_servers r) of
        None \<Rightarrow> []
      | Some a \<Rightarrow>
          let live = filter (entry_carries r a) [0..<length (ae_members a)]
          in map (\<lambda>i. ae_members a ! i)
               (case ae_traffic_mode a of
                  Override \<Rightarrow> take 1 live
                | Loadshare \<Rightarrow> if live = [] then [] else [live ! (unat sls mod length live)]
                | Broadcast \<Rightarrow> live))"
proof (cases "find (\<lambda>a. ae_name a = name) (rg_servers r)")
  case (Some a)
  let ?n = "length (ae_members a)"
  let ?live = "filter (entry_carries r a) [0..<?n]"
  have live: "filter (\<lambda>i. map (entry_carries r a) [0..<?n] ! i) [0..<?n] = ?live"
    by (rule filter_cong) simp_all
  let ?chosen = "choose_members (ae_traffic_mode a) (map (entry_carries r a) [0..<?n]) sls"
  have chosen: "?chosen = (case ae_traffic_mode a of Override \<Rightarrow> take 1 ?live
      | Loadshare \<Rightarrow> if ?live = [] then [] else [?live ! (unat sls mod length ?live)] | Broadcast \<Rightarrow> ?live)"
    unfolding choose_members_def length_map length_upt diff_zero live Let_def
    by (cases "?live"; cases "ae_traffic_mode a") simp_all
  have "set ?chosen \<subseteq> set ?live"
  proof (cases "?live = []")
    case False
    then have "?live ! (unat sls mod length ?live) \<in> set ?live" by (intro nth_mem) simp
    then show ?thesis unfolding chosen using set_take_subset [of 1 ?live] by (cases "ae_traffic_mode a") simp_all
  qed (simp add: chosen split: traffic_mode.split)
  then have "entry_carries r a i" if "i \<in> set ?chosen" for i using that by auto
  from map_filter_selected [OF this] show ?thesis unfolding select.simps Some option.case chosen Let_def by simp
qed simp

section \<open>Selecting a link of a linkset\<close>

definition link_usable :: "registry \<Rightarrow> string option \<Rightarrow> string \<Rightarrow> bool" where
  "link_usable r avoid x \<longleftrightarrow> avoid \<noteq> Some x \<and> (case slot_of r x of Some s \<Rightarrow> slot_routable s | None \<Rightarrow> False)"

definition normal_link :: "linkset_entry \<Rightarrow> u8 \<Rightarrow> string" where
  "normal_link l sls = le_links l ! (unat sls div max (le_width l) 1 mod length (le_links l))"

text \<open>
  Each selection code has a normal link, fixed by the configuration, and keeps it while network
  management routes to it, whatever happens to the other links; otherwise the code goes to a link that
  is routed to, never to the one to be avoided, and it finds no link only when there is none.
\<close>

theorem select_link_stable:
  assumes "find (\<lambda>l. le_name l = name) (rg_linksets r) = Some l"
  shows "case select_link_avoiding r name sls avoid of
     Some x \<Rightarrow> x \<in> set (le_links l) \<and> link_usable r avoid x \<and>
       (if link_usable r avoid (normal_link l sls) then x = normal_link l sls else True)
   | None \<Rightarrow> \<not> (\<exists>x \<in> set (le_links l). link_usable r avoid x)"
proof (cases "le_links l = []")
  case False
  let ?left = "filter (link_usable r avoid) (le_links l)"
  let ?key = "unat sls div max (le_width l) 1"
  have eq: "select_link_avoiding r name sls avoid =
      (if link_usable r avoid (normal_link l sls) then Some (normal_link l sls)
       else if ?left = [] then None else Some (?left ! (?key mod length ?left)))"
    using assms False unfolding select_link_avoiding_def link_usable_def normal_link_def Let_def by simp
  have "normal_link l sls \<in> set (le_links l)" unfolding normal_link_def using False by (intro nth_mem) simp
  moreover have "?left ! (?key mod length ?left) \<in> set ?left" if "?left \<noteq> []" using that by (intro nth_mem) simp
  ultimately show ?thesis unfolding eq by (auto simp: filter_empty_conv)
qed (use assms in \<open>simp add: select_link_avoiding_def\<close>)

section \<open>Controlled rerouting\<close>

definition buffer_of :: "registry \<Rightarrow> u32 \<Rightarrow> msu list" where
  "buffer_of r dpc = (case bt_get dpc (rg_held r) of Some b \<Rightarrow> b | None \<Rightarrow> [])"

definition buffers_ok :: "registry \<Rightarrow> bool" where
  "buffers_ok r \<longleftrightarrow> rg_holding r = card (fst ` set (rg_held r)) \<and>
     (\<forall>d. length (buffer_of r d) \<le> rg_rerouting_buffer r)"

text \<open>
  What happens to the buffer of one destination: \<open>taken\<close> are the messages put into it, \<open>given\<close> those
  handed back. Network management holds a destination only when it is not held.
\<close>

inductive rerouting :: "registry \<Rightarrow> u32 \<Rightarrow> msu list \<Rightarrow> msu list \<Rightarrow> registry \<Rightarrow> bool" for r0 dpc where
  rerouting_start: "rerouting r0 dpc [] [] r0"
| rerouting_hold: "rerouting r0 dpc taken given r \<Longrightarrow> bt_get d (rg_held r) = None \<Longrightarrow>
    rerouting r0 dpc taken given (hold_destination d r)"
| rerouting_offer: "rerouting r0 dpc taken given r \<Longrightarrow>
    rerouting r0 dpc (taken @ (if msu_dpc m = dpc \<and> fst (hold_if_rerouting m r) \<noteq> r then [m] else [])) given
      (fst (hold_if_rerouting m r))"
| rerouting_release: "rerouting r0 dpc taken given r \<Longrightarrow>
    rerouting r0 dpc taken (given @ (if d = dpc then (case snd (release_held d r) of Some b \<Rightarrow> b | None \<Rightarrow> []) else []))
      (fst (release_held d r))"

lemma holding_zero: "buffers_ok r \<Longrightarrow> rg_holding r = 0 \<Longrightarrow> bt_get d (rg_held r) = None"
  using bt_get_dom [of d "rg_held r"] by (auto simp: buffers_ok_def)

lemma hold_destination_effect:
  assumes "buffers_ok r" and "bt_get d (rg_held r) = None"
  shows "buffers_ok (hold_destination d r) \<and> buffer_of (hold_destination d r) e = buffer_of r e"
proof -
  have "d \<notin> fst ` set (rg_held r)" using assms(2) bt_get_dom by metis
  then show ?thesis using assms by (simp add: buffers_ok_def hold_destination_def bt_insert_keys buffer_of_def Let_def)
qed

lemma hold_if_rerouting_effect:
  assumes "buffers_ok r"
  shows "buffers_ok (fst (hold_if_rerouting m r))"
    and "snd (hold_if_rerouting m r) = (bt_get (msu_dpc m) (rg_held r) \<noteq> None)"
    and "buffer_of (fst (hold_if_rerouting m r)) e =
      buffer_of r e @ (if msu_dpc m = e \<and> fst (hold_if_rerouting m r) \<noteq> r then [m] else [])"
proof -
  have "buffers_ok (fst (hold_if_rerouting m r)) \<and> snd (hold_if_rerouting m r) = (bt_get (msu_dpc m) (rg_held r) \<noteq> None) \<and>
      buffer_of (fst (hold_if_rerouting m r)) e =
      buffer_of r e @ (if msu_dpc m = e \<and> fst (hold_if_rerouting m r) \<noteq> r then [m] else [])"
  proof (cases "bt_get (msu_dpc m) (rg_held r)")
    case None
    then show ?thesis using assms by (simp add: hold_if_rerouting_def)
  next
    case (Some b)
    then have nz: "rg_holding r \<noteq> 0" using holding_zero [OF assms, of "msu_dpc m"] by auto
    have key: "insert (msu_dpc m) (fst ` set (rg_held r)) = fst ` set (rg_held r)"
      using Some bt_get_dom [of "msu_dpc m" "rg_held r"] by auto
    let ?r = "r\<lparr>rg_held := bt_insert (msu_dpc m) (b @ [m]) (rg_held r)\<rparr>"
    have "bt_get (msu_dpc m) (rg_held ?r) \<noteq> bt_get (msu_dpc m) (rg_held r)" using Some by simp
    then have "?r \<noteq> r" by metis
    then show ?thesis using assms Some nz
      by (auto simp: hold_if_rerouting_def buffers_ok_def bt_insert_keys key buffer_of_def)
  qed
  then show "buffers_ok (fst (hold_if_rerouting m r))" "snd (hold_if_rerouting m r) = (bt_get (msu_dpc m) (rg_held r) \<noteq> None)"
    "buffer_of (fst (hold_if_rerouting m r)) e =
      buffer_of r e @ (if msu_dpc m = e \<and> fst (hold_if_rerouting m r) \<noteq> r then [m] else [])"
    by blast+
qed

lemma release_held_effect:
  assumes "buffers_ok r"
  shows "buffers_ok (fst (release_held d r)) \<and>
    (case snd (release_held d r) of Some b \<Rightarrow> b | None \<Rightarrow> []) = buffer_of r d \<and>
    buffer_of (fst (release_held d r)) e = (if e = d then [] else buffer_of r e)"
proof (cases "bt_get d (rg_held r)")
  case None
  then show ?thesis using assms by (simp add: release_held_def buffer_of_def)
next
  case (Some b)
  then have key: "d \<in> fst ` set (rg_held r)" using bt_get_dom by (metis option.distinct(1))
  have "fst ` set (bt_remove d (rg_held r)) = fst ` set (rg_held r) - {d}" by (auto simp: bt_remove_def)
  then show ?thesis using assms Some key
    by (auto simp: release_held_def buffers_ok_def buffer_of_def bt_insert_keys insert_absorb)
qed

lemma rerouting_inv:
  assumes "rerouting r0 dpc taken given r" and "rg_held r0 = []" and "rg_holding r0 = 0"
  shows "buffers_ok r \<and> taken = given @ buffer_of r dpc"
  using assms
proof (induction rule: rerouting.induct)
  case rerouting_start
  then show ?case by (simp add: buffers_ok_def buffer_of_def)
next
  case (rerouting_hold taken given r d)
  then show ?case using hold_destination_effect by auto
next
  case (rerouting_offer taken given r m)
  then have "buffers_ok r" by blast
  then show ?case using rerouting_offer hold_if_rerouting_effect [of r m] by simp
next
  case (rerouting_release taken given r d)
  then have "buffers_ok r" by blast
  then show ?case using rerouting_release release_held_effect [of r d dpc] by auto
qed


section \<open>Recomputing availability\<close>

text \<open>The route state of the tenant a registry serves.\<close>

definition view_of :: "string \<Rightarrow> 'mt tenancy \<Rightarrow> route_state option" where
  "view_of tenant ten = map_option tr_route_state (bt_get tenant ten)"

lemma view_of_update: "view_of tenant (update_state tenant f ten) = map_option f (view_of tenant ten)"
  by (simp add: view_of_def update_state_def split: option.split)

lemma view_of_notes [simp]:
  "view_of t (note_as_up t n ten) = map_option (set_as_up n) (view_of t ten)"
  "view_of t (note_as_down t n ten) = map_option (set_as_down n) (view_of t ten)"
  "view_of t (note_linkset_up t n ten) = map_option (set_linkset_up n) (view_of t ten)"
  "view_of t (note_linkset_down t n ten) = map_option (set_linkset_down n) (view_of t ten)"
  by (simp_all add: note_as_up_def note_as_down_def note_linkset_up_def note_linkset_down_def view_of_update)

lemma as_up_simps [simp]:
  "is_as_up (set_as_up n s) m = (m = n \<or> is_as_up s m)" "is_as_up (set_as_down n s) m = (m \<noteq> n \<and> is_as_up s m)"
  "is_as_up (set_linkset_up n s) m = is_as_up s m" "is_as_up (set_linkset_down n s) m = is_as_up s m"
  "is_linkset_up (set_linkset_up n s) m = (m = n \<or> is_linkset_up s m)"
  "is_linkset_up (set_linkset_down n s) m = (m \<noteq> n \<and> is_linkset_up s m)"
  by (auto simp: is_as_up_def is_linkset_up_def set_as_up_def set_as_down_def set_linkset_up_def set_linkset_down_def)

definition same_slots :: "registry \<Rightarrow> registry \<Rightarrow> bool" where
  "same_slots r r' \<longleftrightarrow> rg_assocs r' = rg_assocs r \<and> rg_tenant r' = rg_tenant r \<and> rg_management r' = rg_management r \<and>
     rg_linksets r' = rg_linksets r \<and> length (rg_servers r') = length (rg_servers r)"

lemma available_same:
  assumes "rg_assocs r' = rg_assocs r"
  shows "server_available r' (a\<lparr>ae_up := b\<rparr>) = server_available r a" and "linkset_routed r' l = linkset_routed r l"
  using assms by (simp_all add: server_available_def linkset_routed_def slot_of_def entry_state_def)

definition server_changes :: "registry \<Rightarrow> nat \<Rightarrow> rg_effect list" where
  "server_changes r i =
     (let a = rg_servers r ! i; up = server_available r a in if ae_up a \<noteq> up then manage (MiServer i up) r else [])"

lemma recompute_servers:
  assumes "view_of (rg_tenant r) ten = Some st" and "distinct (map ae_name (rg_servers r))" and "k \<le> length (rg_servers r)"
  shows "case fold recompute_server [0..<k] (r, ten, []) of (r', ten', out) \<Rightarrow>
    same_slots r r' \<and> out = concat (map (server_changes r) [0..<k]) \<and>
    (\<forall>i < length (rg_servers r). rg_servers r' ! i =
       (rg_servers r ! i)\<lparr>ae_up := (if i < k then server_available r (rg_servers r ! i) else ae_up (rg_servers r ! i))\<rparr>) \<and>
    (\<exists>st'. view_of (rg_tenant r) ten' = Some st' \<and>
       (\<forall>i < k. is_as_up st' (ae_name (rg_servers r ! i)) = server_available r (rg_servers r ! i)))"
  using assms(3)
proof (induction k)
  case 0
  then show ?case using assms(1) by (simp add: same_slots_def)
next
  case (Suc k)
  obtain r' ten' out where f: "fold recompute_server [0..<k] (r, ten, []) = (r', ten', out)" by (metis prod_cases3)
  have k: "k < length (rg_servers r)" using Suc.prems by simp
  from Suc f have IH: "same_slots r r'" "out = concat (map (server_changes r) [0..<k])"
    "\<And>i. i < length (rg_servers r) \<Longrightarrow> rg_servers r' ! i =
       (rg_servers r ! i)\<lparr>ae_up := (if i < k then server_available r (rg_servers r ! i) else ae_up (rg_servers r ! i))\<rparr>"
    by simp_all
  obtain st' where st': "view_of (rg_tenant r) ten' = Some st'"
    "\<And>i. i < k \<Longrightarrow> is_as_up st' (ae_name (rg_servers r ! i)) = server_available r (rg_servers r ! i)"
    using Suc f by auto
  let ?a = "rg_servers r ! k" let ?up = "server_available r ?a"
  have a: "rg_servers r' ! k = ?a" using IH(3) [OF k] by simp
  have "rg_assocs r' = rg_assocs r" using IH(1) by (simp add: same_slots_def)
  from available_same(1) [OF this, where a = ?a and b = "ae_up ?a"] have up: "server_available r' ?a = ?up" by simp
  have t: "rg_tenant r' = rg_tenant r" "manage input r' = manage input r" for input
    using IH(1) by (simp_all add: same_slots_def manage_def)
  have names: "ae_name (rg_servers r ! i) \<noteq> ae_name ?a" if "i < k" for i
    using assms(2) that k by (auto simp: distinct_conv_nth)
  have step: "fold recompute_server [0..<Suc k] (r, ten, []) = recompute_server k (r', ten', out)" using f by simp
  define r2 where "r2 = set_server k (\<lambda>a. a\<lparr>ae_up := ?up\<rparr>) r'"
  define ten2 where "ten2 = (if ?up then note_as_up (rg_tenant r) (ae_name ?a) ten' else note_as_down (rg_tenant r) (ae_name ?a) ten')"
  have eq: "recompute_server k (r', ten', out) = (r2, ten2, out @ server_changes r k)"
    using up t by (simp add: recompute_server_def Let_def r2_def ten2_def server_changes_def a set_server_def)
  have "same_slots r r2" using IH(1) by (simp add: r2_def same_slots_def set_server_def)
  moreover have "rg_servers r2 ! i = (rg_servers r ! i)\<lparr>ae_up := (if i < Suc k then server_available r (rg_servers r ! i) else ae_up (rg_servers r ! i))\<rparr>"
    if "i < length (rg_servers r)" for i
    using that IH k by (cases "i = k") (simp_all add: r2_def set_server_def same_slots_def less_Suc_eq)
  moreover have "\<exists>st2. view_of (rg_tenant r) ten2 = Some st2 \<and>
      (\<forall>i < Suc k. is_as_up st2 (ae_name (rg_servers r ! i)) = server_available r (rg_servers r ! i))"
  proof (cases ?up)
    case True
    then show ?thesis using st' names by (auto simp: ten2_def less_Suc_eq)
  next
    case False
    then show ?thesis using st' names by (auto simp: ten2_def less_Suc_eq)
  qed
  ultimately show ?case unfolding step eq using IH(2) by simp
qed

lemma recompute_linksets:
  assumes "view_of (rg_tenant r) ten = Some st" and "distinct (map le_name ls)"
  shows "\<exists>st'. view_of (rg_tenant r) (fold (recompute_linkset r) ls ten) = Some st' \<and>
    (\<forall>l \<in> set ls. is_linkset_up st' (le_name l) = linkset_routed r l) \<and>
    (\<forall>n. n \<notin> le_name ` set ls \<longrightarrow> is_linkset_up st' n = is_linkset_up st n) \<and> (\<forall>n. is_as_up st' n = is_as_up st n)"
  using assms
proof (induction ls arbitrary: ten st)
  case (Cons l ls)
  define ten1 where "ten1 = recompute_linkset r l ten"
  define st1 where "st1 = (if linkset_routed r l then set_linkset_up (le_name l) st else set_linkset_down (le_name l) st)"
  have "view_of (rg_tenant r) ten1 = Some st1" using Cons.prems(1) by (simp add: ten1_def st1_def recompute_linkset_def)
  from Cons.IH [OF this] Cons.prems(2) obtain st' where st': "view_of (rg_tenant r) (fold (recompute_linkset r) ls ten1) = Some st'"
    "\<forall>l \<in> set ls. is_linkset_up st' (le_name l) = linkset_routed r l"
    "\<forall>n. n \<notin> le_name ` set ls \<longrightarrow> is_linkset_up st' n = is_linkset_up st1 n" "\<forall>n. is_as_up st' n = is_as_up st1 n" by auto
  have "is_linkset_up st' (le_name l) = linkset_routed r l" using st'(3) Cons.prems(2) by (auto simp: st1_def)
  then show ?case using st' by (auto simp: ten1_def st1_def)
qed auto

text \<open>
  C28: a recomputation brings everyone to the state of the slots. Afterwards the router counts an
  Application Server in service exactly when it is active or pending (one of its ASPs carries, for a
  server that is not of M3UA ASPs), and a linkset exactly when network management routes to one of
  its links; and network management was told of exactly the servers whose availability changed.
\<close>

theorem recompute_exact:
  assumes "bt_get (rg_tenant r) ten = Some rt" and "distinct (map ae_name (rg_servers r))" and "distinct (map le_name (rg_linksets r))"
  shows "case recompute r ten of (r', ten', out) \<Rightarrow>
    out = concat (map (server_changes r) [0..<length (rg_servers r)]) \<and>
    map ae_up (rg_servers r') = map (server_available r) (rg_servers r) \<and>
    (case bt_get (rg_tenant r) ten' of
       None \<Rightarrow> False
     | Some rt' \<Rightarrow>
         (\<forall>a \<in> set (rg_servers r). is_available (tr_route_state rt') (ApplicationServer (ae_name a)) = server_available r a) \<and>
         (\<forall>l \<in> set (rg_linksets r). is_available (tr_route_state rt') (Linkset (le_name l)) = linkset_routed r l))"
proof -
  have v: "view_of (rg_tenant r) ten = Some (tr_route_state rt)" using assms(1) by (simp add: view_of_def)
  obtain r' ten' out where f: "fold recompute_server [0..<length (rg_servers r)] (r, ten, []) = (r', ten', out)" by (metis prod_cases3)
  note S = recompute_servers [OF v assms(2) order_refl, unfolded f prod.case]
  obtain st where st: "view_of (rg_tenant r) ten' = Some st"
    "\<forall>i < length (rg_servers r). is_as_up st (ae_name (rg_servers r ! i)) = server_available r (rg_servers r ! i)" using S by blast
  have same: "rg_linksets r' = rg_linksets r" "rg_assocs r' = rg_assocs r" "rg_tenant r' = rg_tenant r" using S by (simp_all add: same_slots_def)
  then have lr: "recompute_linkset r' = recompute_linkset r" by (intro ext) (simp add: recompute_linkset_def available_same(2) [OF same(2)])
  obtain st' where st': "view_of (rg_tenant r) (fold (recompute_linkset r) (rg_linksets r) ten') = Some st'"
    "\<forall>l \<in> set (rg_linksets r). is_linkset_up st' (le_name l) = linkset_routed r l" "\<forall>n. is_as_up st' n = is_as_up st n"
    using recompute_linksets [OF st(1) assms(3)] by auto
  obtain rt' where rt': "bt_get (rg_tenant r) (fold (recompute_linkset r) (rg_linksets r) ten') = Some rt'" "tr_route_state rt' = st'"
    using st'(1) by (auto simp: view_of_def)
  have "map ae_up (rg_servers r') = map (server_available r) (rg_servers r)"
  proof (rule nth_equalityI)
    have "length (rg_servers r') = length (rg_servers r)" "\<forall>i < length (rg_servers r). ae_up (rg_servers r' ! i) = server_available r (rg_servers r ! i)"
      using S unfolding same_slots_def by simp_all
    then show "length (map ae_up (rg_servers r')) = length (map (server_available r) (rg_servers r))"
      "i < length (map ae_up (rg_servers r')) \<Longrightarrow> map ae_up (rg_servers r') ! i = map (server_available r) (rg_servers r) ! i" for i
      by simp_all
  qed
  moreover have "is_as_up st' (ae_name a) = server_available r a" if "a \<in> set (rg_servers r)" for a
    using st(2) st'(3) that by (auto simp: in_set_conv_nth)
  ultimately show ?thesis using S st'(2) rt' by (simp add: recompute_def f lr same)
qed

section \<open>An example\<close>

text \<open>A linkset of two links, the second of which is routed to, and a server of one ASP that carries.\<close>

definition sample_link_slot :: "string \<Rightarrow> bool \<Rightarrow> assoc_slot" where
  "sample_link_slot ident routable =
     slot_new ident M2pa (Some (port_set_routable routable (port_new
       \<lparr>lst_timers = link_timers_default, lst_proving = PvNormal, lst_tx_queue = 2, lst_restart = 1, lst_test = None, lst_own_pc = 1,
        lst_adjacent_pc = Some 2, lst_ni = 0, lst_slc = 0, lst_index = None\<rparr>))) Server"

definition sample_registry :: registry where
  "sample_registry =
     \<lparr>rg_tenant = ''default'', rg_variant = Itu,
      rg_assocs = [(''a'', sample_link_slot ''a'' False), (''b'', sample_link_slot ''b'' True),
                   (''p'', slot_set_active True (slot_set_sender 7 (slot_new ''p'' Sua None Server)))],
      rg_servers = [\<lparr>ae_name = ''as'', ae_traffic_mode = Loadshare, ae_routing_context = 1, ae_asps = [''p''], ae_members = [''p''],
        ae_up = False, ae_managed = False, ae_active = [False], ae_state = 0, ae_pending = [], ae_pending_limit = 4\<rparr>],
      rg_linksets = [\<lparr>le_name = ''ls'', le_links = [''a'', ''b''], le_width = 1\<rparr>], rg_links = [''a'', ''b''],
      rg_management = True, rg_layer = False, rg_restarting = False, rg_holding = 0, rg_held = [], rg_rerouting_buffer = 4,
      rg_destinations = []\<rparr>"

definition sample_msu :: msu where
  "sample_msu = \<lparr>msu_opc = 2, msu_dpc = 5, msu_si = 3, msu_ni = 0, msu_mp = 0, msu_sls = 0, msu_payload = []\<rparr>"

lemmas sample_registry_defs = sample_registry_def sample_link_slot_def slot_new_def port_set_routable_def port_new_def
  slot_set_active_def slot_set_sender_def slot_of_def bt_get_def

theorem select_link_stable_witness: "select_link_avoiding sample_registry ''ls'' 0 None = Some ''b''"
proof -
  let ?l = "\<lparr>le_name = ''ls'', le_links = [''a'', ''b''], le_width = 1\<rparr>"
  have "find (\<lambda>l. le_name l = ''ls'') (rg_linksets sample_registry) = Some ?l" by (simp add: sample_registry_def)
  from select_link_stable [OF this, where sls = 0 and avoid = None] show ?thesis
    by (auto simp: link_usable_def sample_registry_defs slot_routable_def split: option.splits)
qed


theorem recompute_exact_witness:
  "case recompute sample_registry [(''default'', sample_runtime)] of (r', ten', out) \<Rightarrow>
     out = [RgManage (MiServer 0 True)] \<and> map ae_up (rg_servers r') = [True]"
proof -
  have "bt_get (rg_tenant sample_registry) [(''default'', sample_runtime)] = Some sample_runtime"
    by (simp add: bt_get_def sample_registry_def)
  from recompute_exact [OF this] show ?thesis
    by (simp add: sample_registry_defs server_changes_def server_available_def is_carrying_def manage_def Let_def case_prod_beta)
qed

end
