(* ===== verification/Forward_Correct.thy ===== *)
theory Forward_Correct
  imports Forward Registry_Correct
begin

text \<open>
  What the message path promises: one message becomes one outcome, the guards that outcome has
  passed, the end of a loop of global title translations, the release of a rerouting buffer, and
  that a message a link hands back never returns to it.
\<close>

section \<open>Outcomes\<close>

text \<open>What becomes of a message: it is relayed, answered on the way it came, handed to the dialogues of this node, or nothing.\<close>

datatype outcome = Relay destination msu | Return destination msu | Reply msu | Deliver | Stop

fun carry_out :: "('x, 'mt) fw_ctx \<Rightarrow> msu \<Rightarrow> string \<Rightarrow> outcome \<Rightarrow> 'mt fw_state \<Rightarrow> 'mt fw_state" where
  "carry_out ctx m assoc (Relay via m') = send_via ctx via m'"
| "carry_out ctx m assoc (Return src r) = send_via ctx src r"
| "carry_out ctx m assoc (Reply r) = send_reply ctx assoc r"
| "carry_out ctx m assoc Deliver = put_out (FxLocal m assoc)"
| "carry_out ctx m assoc Stop = id"

text \<open>The counters and reports that go with an outcome.\<close>

fun is_note :: "fw_effect \<Rightarrow> bool" where
  "is_note (FxReport _) = True"
| "is_note (FxLoop _) = True"
| "is_note (FxDiscard d) = (d = DiscardNoRoute)"
| "is_note (FxAdmission _ _) = True"
| "is_note (FxScreened _) = True"
| "is_note FxSegmentUnscreened = True"
| "is_note _ = False"

definition add_out :: "fw_effect list \<Rightarrow> 'mt fw_state \<Rightarrow> 'mt fw_state" where
  "add_out xs st = st\<lparr>fw_out := fw_out st @ xs\<rparr>"

lemma add_out_simps [simp]:
  "add_out [] st = st"
  "add_out xs (add_out ys st) = add_out (ys @ xs) st"
  "fw_registry (add_out xs st) = fw_registry st"
  "fw_tenancy (add_out xs st) = fw_tenancy st"
  by (simp_all add: add_out_def)

lemma emit_add_out: "put_out x st = add_out [x] st"
  by (simp add: put_out_def add_out_def)

lemma report_add_out: "\<exists>xs. list_all is_note xs \<and> report dpc assoc st = add_out xs st"
proof -
  have "fold (\<lambda>x. put_out (FxReport x)) rs st = add_out (map FxReport rs) st" for rs and st :: "'a fw_state"
    by (induction rs arbitrary: st) (simp_all add: emit_add_out)
  then show ?thesis
    by (intro exI [of _ "map FxReport (report_unroutable dpc assoc (fw_registry st))"]) (simp add: report_def list_all_iff)
qed

text \<open>What the guards pass on: the refusal of the policy, and the payload after the hop counter.\<close>

definition refusal_of :: "('x, 'mt) fw_ctx \<Rightarrow> msu \<Rightarrow> bool \<Rightarrow> refusal option" where
  "refusal_of ctx m here =
     (case fx_policy ctx of
        None \<Rightarrow> None
      | Some policy \<Rightarrow>
          (case admission_check (\<lambda>b. map_option unit_view (cd_decode (fx_codecs ctx) b)) (fx_tcap ctx) policy m (fx_tenant ctx) here of
             GatePass \<Rightarrow> None | GateRefused r \<Rightarrow> Some r))"

text \<open>A return is a service message for the originator of a message that asked for it.\<close>

definition rightful_return :: "'x codecs \<Rightarrow> msu \<Rightarrow> msu \<Rightarrow> bool" where
  "rightful_return cd m r \<longleftrightarrow> msu_si m = SI_SCCP \<and> msu_dpc r = msu_opc m \<and> msu_sls r = msu_sls m \<and>
     (\<exists>u cause. cd_decode cd (msu_payload m) = Some u \<and> un_kind u \<in> {Udt, Xudt, Ludt} \<and> un_handling u = SCCP_RETURN_ON_ERROR \<and>
        cd_encode cd (cd_service cd (case un_kind u of Ludt \<Rightarrow> Ludts | Xudt \<Rightarrow> Xudts | _ \<Rightarrow> Udts) cause
          (un_calling u) (un_called u) (un_data u)) = Some (msu_payload r))"

text \<open>What the hop counter of a translated message is after a relay.\<close>

definition one_hop_less :: "'x codecs \<Rightarrow> bytes \<Rightarrow> bytes \<Rightarrow> bool" where
  "one_hop_less cd before after \<longleftrightarrow>
     (case cd_decode cd before of
        None \<Rightarrow> after = before
      | Some u \<Rightarrow>
          (case hop_counter u of
             None \<Rightarrow> after = before
           | Some h \<Rightarrow> 1 < h \<and> after = (case cd_encode cd (set_hop_counter (h - 1) u) of Some b \<Rightarrow> b | None \<Rightarrow> before)))"

definition translated_from :: "'x codecs \<Rightarrow> msu \<Rightarrow> u32 \<Rightarrow> string option \<Rightarrow> msu \<Rightarrow> bool" where
  "translated_from cd m dpc rewrite m' \<longleftrightarrow>
     (\<exists>payload. (if msu_si m = SI_SCCP then one_hop_less cd (msu_payload m) payload else payload = msu_payload m) \<and>
        m' = m\<lparr>msu_dpc := dpc, msu_payload :=
          (case Option.bind rewrite (rewrite_called_gt cd payload) of Some b \<Rightarrow> b | None \<Rightarrow> payload)\<rparr>)"

text \<open>What is true of an outcome for a message that came from \<open>src\<close>, given the decision of the router.\<close>

definition warranted ::
  "('x, 'mt) fw_ctx \<Rightarrow> msu \<Rightarrow> destination option \<Rightarrow> 'mt tenancy \<Rightarrow> route_decision \<Rightarrow> outcome \<Rightarrow> bool" where
  "warranted ctx m src ten d out =
     (case out of
        Relay via m' \<Rightarrow>
          src \<noteq> Some via \<and> refusal_of ctx m False = None \<and>
          (case d of
             RdRoute v \<Rightarrow> v = via \<and> m' = m \<and>
               (case (if msu_si m = SI_ISUP then router_isup_screen (fx_tenant ctx) ten else None) of
                  None \<Rightarrow> True | Some rules \<Rightarrow> isup_screen_msu (fx_isup ctx) rules (msu_payload m) \<in> {ScreenedPass} \<union> range PassUndecoded)
           | RdRouteTo dpc ssn v rewrite \<Rightarrow> v = Some via \<and> translated_from (fx_codecs ctx) m dpc rewrite m'
           | _ \<Rightarrow> False)
      | Return dest r \<Rightarrow> src = Some dest \<and> d \<noteq> RdLocal \<and> rightful_return (fx_codecs ctx) m r
      | Reply r \<Rightarrow> d = RdLocal \<and> (\<exists>rf otid. refusal_of ctx m True = Some rf \<and> rf_otid rf = Some otid \<and> refuse_begin ctx m otid = Some r)
      | Deliver \<Rightarrow> d = RdLocal \<and> refusal_of ctx m True = None
      | Stop \<Rightarrow> True)"

text \<open>An outcome carried out, with its notes before and after it.\<close>

definition comes_to ::
  "('x, 'mt) fw_ctx \<Rightarrow> msu \<Rightarrow> string \<Rightarrow> destination option \<Rightarrow> route_decision \<Rightarrow> 'mt fw_state \<Rightarrow> 'mt fw_state \<Rightarrow> bool" where
  "comes_to ctx m assoc src d st st' \<longleftrightarrow>
     (\<exists>out pre post. warranted ctx m src (fw_tenancy st) d out \<and> list_all is_note pre \<and> list_all is_note post \<and>
        st' = add_out post (carry_out ctx m assoc out (add_out pre st)))"

lemma comes_to_intro:
  assumes "warranted ctx m src (fw_tenancy st) d out" "list_all is_note pre" "list_all is_note post"
    "st' = add_out post (carry_out ctx m assoc out (add_out pre st))"
  shows "comes_to ctx m assoc src d st st'"
  using assms unfolding comes_to_def by blast

lemma comes_to_stop [intro]: "list_all is_note pre \<Longrightarrow> comes_to ctx m assoc src d st (add_out pre st)"
  by (rule comes_to_intro [where out = Stop and post = "[]"]) (simp_all add: warranted_def)

lemma comes_to_pre:
  assumes "comes_to ctx m assoc src d (add_out pre st) st'" "list_all is_note pre"
  shows "comes_to ctx m assoc src d st st'"
proof -
  obtain out pre' post where *: "warranted ctx m src (fw_tenancy st) d out" "list_all is_note pre'" "list_all is_note post"
      "st' = add_out post (carry_out ctx m assoc out (add_out pre' (add_out pre st)))"
    using assms(1) unfolding comes_to_def by auto
  then show ?thesis using assms(2) by (intro comes_to_intro [of ctx m src st d out "pre @ pre'" post]) simp_all
qed

lemma sccp_return_rightful:
  assumes "cd_decode cd (msu_payload m) = Some u" "msu_si m = SI_SCCP" "sccp_return cd m u cause our_pc = Some r"
  shows "rightful_return cd m r"
proof -
  have k: "un_kind u = Udt \<or> un_kind u = Xudt \<or> un_kind u = Ludt" "un_handling u = SCCP_RETURN_ON_ERROR"
    using assms(3) by (auto simp: sccp_return_def return_on_error_def split: if_splits)
  obtain payload where p: "cd_encode cd (cd_service cd (if un_kind u = Ludt then Ludts else if un_kind u = Xudt then Xudts else Udts)
      cause (un_calling u) (un_called u) (un_data u)) = Some payload" "msu_payload r = payload" "msu_dpc r = msu_opc m" "msu_sls r = msu_sls m"
    using assms(3) by (auto simp: sccp_return_def Let_def split: if_splits)
  show ?thesis unfolding rightful_return_def using assms(1,2) k p
    by (intro conjI exI [of _ u] exI [of _ cause]) auto
qed

lemma comes_to_return:
  assumes "cd_decode (fx_codecs ctx) (msu_payload m) = Some u" "msu_si m = SI_SCCP" "d \<noteq> RdLocal"
    "sccp_return (fx_codecs ctx) m u cause our_pc = Some r" "list_all is_note pre" "list_all is_note post"
  shows "comes_to ctx m assoc (Some src) d st (add_out post (send_via ctx src r (add_out pre st)))"
  by (rule comes_to_intro [where out = "Return src r" and pre = pre and post = post])
    (use assms sccp_return_rightful [OF assms(1,2,4)] in \<open>simp_all add: warranted_def\<close>)

lemma return_undeliverable_comes:
  assumes "d \<noteq> RdLocal"
  shows "comes_to ctx m assoc src d st (return_undeliverable ctx m cause src st)"
proof -
  have stop: "comes_to ctx m assoc src d st st" using comes_to_stop [of "[]"] by simp
  show ?thesis
  proof (cases "sccp_return (fx_codecs ctx) m (the (cd_decode (fx_codecs ctx) (msu_payload m))) cause
      (node_point_code (fx_tenant ctx) (fw_tenancy st))")
    case None
    then show ?thesis using stop by (auto simp: return_undeliverable_def split: option.split)
  next
    case (Some r)
    show ?thesis
    proof (cases "msu_si m = SI_SCCP \<and> src \<noteq> None \<and> cd_decode (fx_codecs ctx) (msu_payload m) \<noteq> None")
      case True
      then show ?thesis
        using Some comes_to_return [where pre = "[]" and post = "[]"] assms by (auto simp: return_undeliverable_def)
    next
      case False
      then show ?thesis using stop by (auto simp: return_undeliverable_def split: option.split)
    qed
  qed
qed

lemma refused_passes: "refused_by_admission ctx m assoc src here st = (st', False) \<Longrightarrow> st' = st \<and> refusal_of ctx m here = None"
  by (auto simp: refused_by_admission_def refusal_of_def Let_def split: option.splits gate.splits prod.splits if_splits)

lemma refused_decoded:
  assumes "refusal_of ctx m here = Some rf"
  shows "msu_si m = SI_SCCP \<and> cd_decode (fx_codecs ctx) (msu_payload m) \<noteq> None"
  using assms by (auto simp: refusal_of_def admission_check_def Let_def split: option.splits gate.splits if_splits)

lemma refused_comes:
  assumes "refused_by_admission ctx m assoc src here st = (st', True)" "here = (d = RdLocal)"
  shows "comes_to ctx m assoc src d st st'"
proof -
  obtain rf where rf: "refusal_of ctx m here = Some rf"
    using assms(1) by (auto simp: refused_by_admission_def refusal_of_def split: option.splits gate.splits)
  obtain u where u: "msu_si m = SI_SCCP" "cd_decode (fx_codecs ctx) (msu_payload m) = Some u" using refused_decoded [OF rf] by blast
  define tally where "tally = (\<lambda>a. FxAdmission (rc_reason (rf_cause rf)) a)"
  have tallied: "list_all is_note [tally a]" for a by (simp add: tally_def)
  define abort where "abort = Option.bind (rf_otid rf) (refuse_begin ctx m)"
  define ret where "ret = sccp_return (fx_codecs ctx) m u (rc_return_cause (rf_cause rf)) (node_point_code (fx_tenant ctx) (fw_tenancy st))"
  have st': "st' = (if here then (case abort of Some a \<Rightarrow> add_out [tally AaAborted] (send_reply ctx assoc a st) | None \<Rightarrow> add_out [tally AaDiscarded] st)
      else (case (src, ret) of (Some s, Some r) \<Rightarrow> add_out [tally AaReturned] (send_via ctx s r st) | _ \<Rightarrow> add_out [tally AaDiscarded] st))"
    using assms(1) rf u by (auto simp: refused_by_admission_def refusal_of_def abort_def ret_def tally_def emit_add_out
        split: option.splits gate.splits if_splits)
  show ?thesis
  proof (cases here)
    case True
    show ?thesis
    proof (cases abort)
      case (Some a)
      then have "warranted ctx m src (fw_tenancy st) d (Reply a)"
        using True assms(2) rf by (auto simp: warranted_def abort_def bind_eq_Some_conv)
      then show ?thesis using st' True Some tallied by (intro comes_to_intro [where out = "Reply a" and pre = "[]"]) simp_all
    qed (use st' True tallied comes_to_stop [of "[tally AaDiscarded]"] in simp)
  next
    case False
    show ?thesis
    proof (cases "\<exists>s r. src = Some s \<and> ret = Some r")
      case True
      then obtain s r where sr: "src = Some s" "ret = Some r" by blast
      then show ?thesis
        using st' \<open>\<not> here\<close> comes_to_return [OF u(2,1), of d _ _ r "[]" "[tally AaReturned]"] assms(2) tallied
        by (simp add: ret_def)
    next
      case False
      then have "st' = add_out [tally AaDiscarded] st" using st' \<open>\<not> here\<close> by (cases src; cases ret) simp_all
      then show ?thesis using tallied comes_to_stop [of "[tally AaDiscarded]"] by simp
    qed
  qed
qed

section \<open>Dispatch\<close>

lemma hop_left: "(if h = 0 then 0 else h - 1) \<noteq> (0 :: u8) \<longleftrightarrow> 1 < h"
  by (auto simp: word_less_nat_alt word_unat_eq_iff [of h])

lemma hop_guard_forward:
  assumes "hop_counter_guard ctx m src st = (st', Some payload)"
  shows "st' = st \<and> (if msu_si m = SI_SCCP then one_hop_less (fx_codecs ctx) (msu_payload m) payload else payload = msu_payload m)"
proof -
  show ?thesis
  proof (cases "cd_decode (fx_codecs ctx) (msu_payload m)")
    case None
    then show ?thesis using assms by (auto simp: hop_counter_guard_def one_hop_less_def split: if_splits)
  next
    case (Some u)
    show ?thesis
    proof (cases "hop_counter u")
      case None
      then show ?thesis using assms Some by (auto simp: hop_counter_guard_def one_hop_less_def split: if_splits)
    next
      case hop: (Some hop)
      show ?thesis
      proof (cases "1 < hop")
        case True
        then have "hop \<noteq> 0" "hop \<noteq> 1" by (auto simp: word_less_nat_alt)
        then show ?thesis using assms Some hop True
          by (auto simp: hop_counter_guard_def one_hop_less_def Let_def split: if_splits)
      next
        case False
        then have z: "(if hop = 0 then 0 else hop - 1) = 0" using hop_left [of hop] by blast
        show ?thesis using assms Some hop
          by (auto simp: hop_counter_guard_def z Let_def split: if_splits option.splits)
      qed
    qed
  qed
qed

lemma hop_guard_exhausted:
  assumes "hop_counter_guard ctx m src st = (st', None)" "d \<noteq> RdLocal"
  shows "comes_to ctx m assoc src d st st'"
proof -
  obtain u where u: "msu_si m = SI_SCCP" "cd_decode (fx_codecs ctx) (msu_payload m) = Some u"
    using assms(1) by (auto simp: hop_counter_guard_def split: if_splits option.splits)
  define ret where "ret = sccp_return (fx_codecs ctx) m u HopCounterViolation (node_point_code (fx_tenant ctx) (fw_tenancy st))"
  have "st' = (case (src, ret) of (Some s, Some r) \<Rightarrow> send_via ctx s r (add_out [FxLoop HopCounterLoop] st)
      | _ \<Rightarrow> add_out [FxLoop HopCounterLoop] st)"
    using assms(1) u by (auto simp: hop_counter_guard_def ret_def emit_add_out Let_def split: if_splits option.splits)
  then consider (ret) s r where "src = Some s" "ret = Some r" "st' = send_via ctx s r (add_out [FxLoop HopCounterLoop] st)"
    | (stop) "st' = add_out [FxLoop HopCounterLoop] st"
    by (auto split: option.splits)
  then show ?thesis
  proof cases
    case ret
    then show ?thesis using comes_to_return [OF u(2,1) assms(2), of _ _ r "[FxLoop HopCounterLoop]" "[]"] by (simp add: ret_def)
  qed (use comes_to_stop [of "[FxLoop HopCounterLoop]"] in simp)
qed

lemma relay_translated_comes:
  "comes_to ctx m assoc src (RdRouteTo dpc ssn (Some via) rewrite) st (relay_translated ctx m assoc src dpc via rewrite st)"
proof (cases "src = Some via")
  case True
  then show ?thesis using comes_to_stop [of "[FxLoop RouteReflect]"] by (simp add: relay_translated_def is_reflection_def emit_add_out)
next
  case False
  obtain st1 refused where r: "refused_by_admission ctx m assoc src False st = (st1, refused)" by force
  show ?thesis
  proof (cases refused)
    case True
    then show ?thesis using r False refused_comes [of ctx m assoc src False st st1] by (simp add: relay_translated_def is_reflection_def)
  next
    case passed: False
    then have st1: "st1 = st" and pass: "refusal_of ctx m False = None"
      using refused_passes [of ctx m assoc src False st st1] r by simp_all
    obtain st2 payload where h: "hop_counter_guard ctx m src st = (st2, payload)" by force
    show ?thesis
    proof (cases payload)
      case None
      then show ?thesis using r passed st1 h False hop_guard_exhausted [of ctx m src st st2]
        by (simp add: relay_translated_def is_reflection_def)
    next
      case (Some b)
      then have st2: "st2 = st" and less: "if msu_si m = SI_SCCP then one_hop_less (fx_codecs ctx) (msu_payload m) b else b = msu_payload m"
        using hop_guard_forward [of ctx m src st st2 b] h by simp_all
      define m' where "m' = m\<lparr>msu_dpc := dpc, msu_payload :=
          (case Option.bind rewrite (rewrite_called_gt (fx_codecs ctx) b) of Some b \<Rightarrow> b | None \<Rightarrow> b)\<rparr>"
      have "translated_from (fx_codecs ctx) m dpc rewrite m'" unfolding translated_from_def m'_def using less by blast
      then have "warranted ctx m src (fw_tenancy st) (RdRouteTo dpc ssn (Some via) rewrite) (Relay via m')"
        using False pass by (simp add: warranted_def)
      moreover have "relay_translated ctx m assoc src dpc via rewrite st = send_via ctx via m' st"
        using r passed st1 h Some st2 False
        by (auto simp: relay_translated_def is_reflection_def m'_def Let_def split: option.split)
      ultimately show ?thesis by (intro comes_to_intro [where out = "Relay via m'" and pre = "[]" and post = "[]"]) simp_all
    qed
  qed
qed

lemma isup_screen_noted:
  assumes "apply_isup_screen codec rules m st = (st', blocked)"
  shows "\<exists>xs. list_all is_note xs \<and> st' = add_out xs st"
    and "\<not> blocked \<Longrightarrow> isup_screen_msu codec rules (msu_payload m) \<in> {ScreenedPass} \<union> range PassUndecoded"
proof -
  let ?v = "isup_screen_msu codec rules (msu_payload m)"
  have "st' = add_out (case screened_reason ?v of Some reason \<Rightarrow> [FxScreened reason] | None \<Rightarrow> []) st"
    using assms by (auto simp: apply_isup_screen_def emit_add_out Let_def split: option.split)
  moreover have "list_all is_note (case screened_reason ?v of Some reason \<Rightarrow> [FxScreened reason] | None \<Rightarrow> [])" by (simp split: option.split)
  ultimately show "\<exists>xs. list_all is_note xs \<and> st' = add_out xs st" by blast
  show "?v \<in> {ScreenedPass} \<union> range PassUndecoded" if "\<not> blocked"
    using assms that by (cases ?v) (auto simp: apply_isup_screen_def Let_def)
qed

lemma relay_transit_comes: "comes_to ctx m assoc src (RdRoute via) st (relay_transit ctx m assoc src via st)"
proof -
  define scr where "scr = (if msu_si m = SI_ISUP then router_isup_screen (fx_tenant ctx) (fw_tenancy st) else None)"
  define res where "res = (case scr of None \<Rightarrow> (st, False) | Some rules \<Rightarrow> apply_isup_screen (fx_isup ctx) rules m st)"
  obtain st1 blocked where res1: "res = (st1, blocked)" by force
  obtain xs where xs: "list_all is_note xs" "st1 = add_out xs st"
  proof (cases scr)
    case None
    then show ?thesis using that [of "[]"] res1 by (simp add: res_def)
  next
    case (Some rules)
    then show ?thesis using isup_screen_noted(1) [of "fx_isup ctx" rules m st st1 blocked] res1 that by (auto simp: res_def)
  qed
  have passed: "case scr of None \<Rightarrow> True | Some rules \<Rightarrow> isup_screen_msu (fx_isup ctx) rules (msu_payload m) \<in> {ScreenedPass} \<union> range PassUndecoded"
    if "\<not> blocked"
  proof (cases scr)
    case (Some rules)
    then show ?thesis using isup_screen_noted(2) [of "fx_isup ctx" rules m st st1 blocked] res1 that by (simp add: res_def)
  qed simp
  have transit: "relay_transit ctx m assoc src via st =
      (if blocked then st1 else if src = Some via then report (msu_dpc m) assoc (put_out (FxLoop RouteReflect) st1)
       else case refused_by_admission ctx m assoc src False st1 of (st, refused) \<Rightarrow> if refused then st else send_via ctx via m st)"
    using res1 unfolding relay_transit_def res_def scr_def is_reflection_def by simp
  show ?thesis
  proof (cases "blocked \<or> src = Some via")
    case True
    have "\<exists>ys. list_all is_note ys \<and> relay_transit ctx m assoc src via st = add_out ys st"
    proof (cases blocked)
      case True
      then show ?thesis using transit xs by auto
    next
      case False
      obtain zs where "list_all is_note zs" "report (msu_dpc m) assoc (put_out (FxLoop RouteReflect) st1) = add_out zs (put_out (FxLoop RouteReflect) st1)"
        using report_add_out by blast
      then show ?thesis using True False transit xs by (intro exI [of _ "xs @ FxLoop RouteReflect # zs"]) (simp add: emit_add_out)
    qed
    then show ?thesis using comes_to_stop by force
  next
    case False
    obtain st2 refused where r: "refused_by_admission ctx m assoc src False st1 = (st2, refused)" by force
    have "comes_to ctx m assoc src (RdRoute via) st1 (relay_transit ctx m assoc src via st)"
    proof (cases refused)
      case True
      then show ?thesis using refused_comes [of ctx m assoc src False st1 st2] r transit False by simp
    next
      case pass: False
      then have "st2 = st1" "refusal_of ctx m False = None" using refused_passes [of ctx m assoc src False st1 st2] r by simp_all
      then have "warranted ctx m src (fw_tenancy st1) (RdRoute via) (Relay via m)"
        using False passed xs(2) by (simp add: warranted_def scr_def)
      then show ?thesis using transit r False pass \<open>st2 = st1\<close>
        by (intro comes_to_intro [where out = "Relay via m" and pre = "[]" and post = "[]"]) simp_all
    qed
    then show ?thesis using comes_to_pre xs by blast
  qed
qed

lemma act_on_comes: "comes_to ctx m assoc src d st (act_on ctx m assoc src d st)"
proof (cases d)
  case (RdRouteTo dpc ssn via rewrite)
  then show ?thesis using relay_translated_comes return_undeliverable_comes [of d ctx m assoc src st]
    by (cases via) (simp_all add: act_on_def)
next
  case RdLocal
  obtain st1 refused where r: "refused_by_admission ctx m assoc src True st = (st1, refused)" by force
  show ?thesis
  proof (cases refused)
    case True
    then show ?thesis using refused_comes [of ctx m assoc src True st st1 d] r RdLocal by (simp add: act_on_def)
  next
    case False
    then have "st1 = st" "refusal_of ctx m True = None" using refused_passes [of ctx m assoc src True st st1] r by simp_all
    then have "warranted ctx m src (fw_tenancy st) d Deliver" using RdLocal by (simp add: warranted_def)
    then show ?thesis using r False \<open>st1 = st\<close> RdLocal
      by (intro comes_to_intro [where out = Deliver and pre = "[]" and post = "[]"]) (simp_all add: act_on_def)
  qed
next
  case (RdDrop reason)
  define transfer where "transfer = (case node_point_code (fx_tenant ctx) (fw_tenancy st) of Some pc \<Rightarrow> pc \<noteq> msu_dpc m | None \<Rightarrow> False)"
  obtain xs where xs: "list_all is_note xs"
      "(if transfer then report (msu_dpc m) assoc (put_out (FxDiscard DiscardNoRoute) st) else st) = add_out xs st"
  proof (cases transfer)
    case True
    obtain zs where "list_all is_note zs" "report (msu_dpc m) assoc (put_out (FxDiscard DiscardNoRoute) st) = add_out zs (put_out (FxDiscard DiscardNoRoute) st)"
      using report_add_out by blast
    then show ?thesis using that [of "FxDiscard DiscardNoRoute # zs"] True by (simp add: emit_add_out)
  next
    case False
    then show ?thesis using that [of "[]"] by simp
  qed
  then have "act_on ctx m assoc src d st = return_undeliverable ctx m NoTranslationForAddress src (add_out xs st)"
    using RdDrop by (simp add: act_on_def transfer_def)
  moreover have "comes_to ctx m assoc src d (add_out xs st) (return_undeliverable ctx m NoTranslationForAddress src (add_out xs st))"
    using RdDrop by (intro return_undeliverable_comes) simp
  ultimately show ?thesis using comes_to_pre xs(1) by simp
qed (simp_all add: act_on_def relay_transit_comes return_undeliverable_comes)

lemma with_content_noted: "\<exists>xs. list_all is_note xs \<and> fst (with_content ctx m inb st) = add_out xs st"
proof -
  have "fst (with_content ctx m inb st) = add_out [] st \<or> fst (with_content ctx m inb st) = add_out [FxSegmentUnscreened] st"
    by (auto simp: with_content_def emit_add_out split: option.split screening.split)
  then show ?thesis
  proof
    assume "fst (with_content ctx m inb st) = add_out [FxSegmentUnscreened] st"
    then show ?thesis by (intro exI [of _ "[FxSegmentUnscreened]"]) simp
  qed (intro exI [of _ "[]"], simp)
qed


section \<open>Loops of translations\<close>

text \<open>A node translates \<open>m\<close> and passes \<open>m'\<close> on: what \<open>relay_translated\<close> sends after the hop counter guard.\<close>

definition passes_on :: "('x, 'mt) fw_ctx \<Rightarrow> msu \<Rightarrow> msu \<Rightarrow> bool" where
  "passes_on ctx m m' \<longleftrightarrow>
     (\<exists>src st st' payload dpc rewrite. hop_counter_guard ctx m src st = (st', Some payload) \<and>
        m' = m\<lparr>msu_dpc := dpc, msu_payload :=
          (case Option.bind rewrite (rewrite_called_gt (fx_codecs ctx) payload) of Some b \<Rightarrow> b | None \<Rightarrow> payload)\<rparr>)"

text \<open>\<open>n\<close> translations, one after the other, by any nodes that share the SCCP codec.\<close>

inductive hop_chain :: "('x, 'mt) fw_ctx itself \<Rightarrow> 'x codecs \<Rightarrow> nat \<Rightarrow> msu \<Rightarrow> msu \<Rightarrow> bool" for ty cd where
  chain_none: "hop_chain ty cd 0 m m"
| chain_step: "hop_chain ty cd n m m' \<Longrightarrow> fx_codecs (ctx :: ('x, 'mt) fw_ctx) = cd \<Longrightarrow> passes_on ctx m' m'' \<Longrightarrow>
    hop_chain ty cd (Suc n) m m''"

text \<open>
  What is relied on of the codec: a message just decoded can be encoded again with another hop
  counter, and decoding what was encoded gives back the hop counter.
\<close>

definition hop_kept :: "'x codecs \<Rightarrow> bool" where
  "hop_kept cd \<longleftrightarrow>
     (\<forall>b u h. cd_decode cd b = Some u \<longrightarrow> cd_encode cd (set_hop_counter h u) \<noteq> None) \<and>
     (\<forall>b u w b'. cd_decode cd b = Some u \<and> un_kind w = un_kind u \<and> cd_encode cd w = Some b' \<longrightarrow>
        (\<exists>v. cd_decode cd b' = Some v \<and> hop_counter v = hop_counter w))"

lemma hop_kept_encode: "hop_kept cd \<Longrightarrow> cd_decode cd b = Some u \<Longrightarrow> \<exists>b'. cd_encode cd (set_hop_counter h u) = Some b'"
  unfolding hop_kept_def by blast

lemma hop_kept_decode:
  "hop_kept cd \<Longrightarrow> cd_decode cd b = Some u \<Longrightarrow> un_kind w = un_kind u \<Longrightarrow> cd_encode cd w = Some b' \<Longrightarrow>
     \<exists>v. cd_decode cd b' = Some v \<and> hop_counter v = hop_counter w"
  unfolding hop_kept_def by blast

lemma rewrite_keeps_hop:
  assumes "hop_kept cd" "cd_decode cd payload = Some u" "rewrite_called_gt cd payload digits = Some b"
  shows "\<exists>v. cd_decode cd b = Some v \<and> hop_counter v = hop_counter u"
proof -
  obtain title where t: "cd_encode cd (u\<lparr>un_called := (un_called u)\<lparr>ad_title := title\<rparr>\<rparr>) = Some b"
    using assms(2,3) by (auto simp: rewrite_called_gt_def split: if_splits option.splits)
  have "hop_counter (u\<lparr>un_called := (un_called u)\<lparr>ad_title := title\<rparr>\<rparr>) = hop_counter u" by (simp add: hop_counter_def)
  then show ?thesis using hop_kept_decode [OF assms(1,2) _ t] by simp
qed

lemma passes_on_hop:
  assumes "hop_kept (fx_codecs ctx)" "passes_on ctx m m'" "msu_si m = SI_SCCP"
    "cd_decode (fx_codecs ctx) (msu_payload m) = Some u" "hop_counter u = Some h"
  shows "msu_si m' = SI_SCCP \<and> 1 < h \<and> (\<exists>v. cd_decode (fx_codecs ctx) (msu_payload m') = Some v \<and> hop_counter v = Some (h - 1))"
proof -
  obtain src st st' payload dpc rewrite where p: "hop_counter_guard ctx m src st = (st', Some payload)"
      "m' = m\<lparr>msu_dpc := dpc, msu_payload := (case Option.bind rewrite (rewrite_called_gt (fx_codecs ctx) payload) of Some b \<Rightarrow> b | None \<Rightarrow> payload)\<rparr>"
    using assms(2) unfolding passes_on_def by blast
  have less: "1 < h" "payload = (case cd_encode (fx_codecs ctx) (set_hop_counter (h - 1) u) of Some b \<Rightarrow> b | None \<Rightarrow> msu_payload m)"
    using hop_guard_forward [OF p(1)] assms(3,4,5) by (simp_all add: one_hop_less_def)
  obtain b where b: "cd_encode (fx_codecs ctx) (set_hop_counter (h - 1) u) = Some b" using hop_kept_encode [OF assms(1,4)] by blast
  have "hop_counter (set_hop_counter (h - 1) u) = Some (h - 1)" "un_kind (set_hop_counter (h - 1) u) = un_kind u"
    using assms(5) by (auto simp: hop_counter_def set_hop_counter_def split: if_splits)
  then obtain w where w: "cd_decode (fx_codecs ctx) payload = Some w" "hop_counter w = Some (h - 1)"
    using hop_kept_decode [OF assms(1,4) _ b] less(2) b by auto
  have "\<exists>v. cd_decode (fx_codecs ctx) (msu_payload m') = Some v \<and> hop_counter v = Some (h - 1)"
  proof (cases "Option.bind rewrite (rewrite_called_gt (fx_codecs ctx) payload)")
    case None
    then show ?thesis using p(2) w by simp
  next
    case (Some c)
    then obtain digits where "rewrite_called_gt (fx_codecs ctx) payload digits = Some c" by (auto simp: bind_eq_Some_conv)
    from rewrite_keeps_hop [OF assms(1) w(1) this] show ?thesis using p(2) Some w(2) by simp
  qed
  then show ?thesis using less(1) p(2) assms(3) by simp
qed

text \<open>
  C16: a loop of global title translations ends. A message that carries a hop counter \<open>h\<close> is passed on
  after translation at most \<open>h - 1\<close> times, whatever the nodes, their routes and the titles they
  rewrite; after \<open>n\<close> of them its counter is \<open>h - n\<close>, and it never leaves a node with a counter of zero.
\<close>

theorem hop_chain_bounded:
  assumes "hop_chain ty cd n m m'" "hop_kept cd" "msu_si m = SI_SCCP"
    "cd_decode cd (msu_payload m) = Some u" "hop_counter u = Some h"
  shows "n = 0 \<or> n < unat h \<and> (\<exists>v h'. cd_decode cd (msu_payload m') = Some v \<and> hop_counter v = Some h' \<and> unat h' = unat h - n)"
proof -
  have "msu_si m' = SI_SCCP \<and> (n = 0 \<or> n < unat h) \<and>
      (\<exists>v h'. cd_decode cd (msu_payload m') = Some v \<and> hop_counter v = Some h' \<and> unat h' = unat h - n)"
    using assms(1,3,4)
  proof (induction rule: hop_chain.induct)
    case (chain_step n m m' ctx m'')
    then obtain v h' where v: "msu_si m' = SI_SCCP" "cd_decode cd (msu_payload m') = Some v" "hop_counter v = Some h'"
        "unat h' = unat h - n" "n = 0 \<or> n < unat h" by blast
    have step: "msu_si m'' = SI_SCCP \<and> 1 < h' \<and> (\<exists>v. cd_decode cd (msu_payload m'') = Some v \<and> hop_counter v = Some (h' - 1))"
      using passes_on_hop [of ctx m' m'' v h'] chain_step.hyps(2,3) assms(2) v by simp
    then have "1 < unat h'" by (simp add: word_less_nat_alt)
    moreover have "unat (h' - 1) = unat h' - 1" using step by (simp add: unat_sub_if' word_less_nat_alt word_le_nat_alt)
    ultimately show ?case using step v(4,5) by auto
  qed (use assms(5) in auto)
  then show ?thesis by blast
qed

section \<open>Releasing a rerouting buffer\<close>

definition unheld :: "'mt fw_state \<Rightarrow> 'mt fw_state" where
  "unheld st = st\<lparr>fw_registry := (fw_registry st)\<lparr>rg_held := [], rg_holding := 0\<rparr>\<rparr>"

lemma unheld_reads [simp]:
  "slot_of (r\<lparr>rg_held := a, rg_holding := b\<rparr>) = slot_of r"
  "entry_carries (r\<lparr>rg_held := a, rg_holding := b\<rparr>) = entry_carries r"
  "select_link_avoiding (r\<lparr>rg_held := a, rg_holding := b\<rparr>) = select_link_avoiding r"
  "selected_of (r\<lparr>rg_held := a, rg_holding := b\<rparr>) = selected_of r"
  "server_index (r\<lparr>rg_held := a, rg_holding := b\<rparr>) = server_index r"
  "registry_server (r\<lparr>rg_held := a, rg_holding := b\<rparr>) = registry_server r"
  "active_asps (r\<lparr>rg_held := a, rg_holding := b\<rparr>) = active_asps r"
proof -
  show slot: "slot_of (r\<lparr>rg_held := a, rg_holding := b\<rparr>) = slot_of r" by (simp add: slot_of_def fun_eq_iff)
  show carries: "entry_carries (r\<lparr>rg_held := a, rg_holding := b\<rparr>) = entry_carries r"
    by (simp add: entry_carries_def slot fun_eq_iff)
  show "select_link_avoiding (r\<lparr>rg_held := a, rg_holding := b\<rparr>) = select_link_avoiding r"
    unfolding select_link_avoiding_def slot fun_eq_iff by simp
  show "selected_of (r\<lparr>rg_held := a, rg_holding := b\<rparr>) = selected_of r" by (simp add: selected_of_def slot fun_eq_iff)
  show "active_asps (r\<lparr>rg_held := a, rg_holding := b\<rparr>) = active_asps r" by (simp add: active_asps_def carries fun_eq_iff)
qed (simp_all add: server_index_def registry_server_def fun_eq_iff)

lemma unheld_fields [simp]:
  "fw_tenancy (unheld st) = fw_tenancy st" "unheld (put_out e st) = put_out e (unheld st)"
  "unheld (st\<lparr>fw_registry := set_slot x f r\<rparr>) = (unheld st)\<lparr>fw_registry := set_slot x f (r\<lparr>rg_held := [], rg_holding := 0\<rparr>)\<rparr>"
  "fw_registry (unheld st) = (fw_registry st)\<lparr>rg_held := [], rg_holding := 0\<rparr>"
  by (cases st, simp_all add: unheld_def put_out_def set_slot_def)+

lemma unheld_fold: "(\<And>x st. unheld (f x st) = f x (unheld st)) \<Longrightarrow> unheld (fold f xs st) = fold f xs (unheld st)"
  by (induction xs arbitrary: st) simp_all

lemma send_on_link_unheld: "unheld (send_on_link ctx x m st) = send_on_link ctx x m (unheld st)"
  by (simp add: send_on_link_def Let_def split: option.split prod.split)

lemma management_unheld: "unheld (management_for_server ctx name m st) = management_for_server ctx name m (unheld st)"
  by (simp add: management_for_server_def Let_def unheld_fold cong: option.case_cong)

lemma send_selected_unheld: "unheld (send_selected ctx m sel st) = send_selected ctx m sel (unheld st)"
  by (simp add: send_selected_def split: adaptation.split option.split)

lemma select_unheld: "select (r\<lparr>rg_held := a, rg_holding := b\<rparr>) (ApplicationServer name) sls = select r (ApplicationServer name) sls"
  by (simp split: option.split)

lemma queue_unheld:
  "queue_if_pending name m (r\<lparr>rg_held := a, rg_holding := b\<rparr>) =
     map_prod (\<lambda>r. r\<lparr>rg_held := a, rg_holding := b\<rparr>) id (queue_if_pending name m r)"
  by (simp add: queue_if_pending_def set_server_def Let_def split: option.split)

lemma send_now_unheld: "unheld (send_now ctx via m st) = send_now ctx via m (unheld st)"
proof (cases via)
  case (Linkset name)
  then show ?thesis by (simp add: select_link_def send_on_link_unheld no_egress_def split: option.split)
next
  case (ApplicationServer name)
  have queue: "unheld (st\<lparr>fw_registry := r\<rparr>) = (unheld st)\<lparr>fw_registry := r\<lparr>rg_held := [], rg_holding := 0\<rparr>\<rparr>" for r
    by (simp add: unheld_def)
  show ?thesis
    using ApplicationServer
    by (simp add: management_unheld select_unheld unheld_fold send_selected_unheld queue_unheld queue no_egress_def Let_def
        del: select.simps split: prod.split)
qed

lemma release_one_unheld: "unheld (release_one ctx m st) = release_one ctx m (unheld st)"
  by (simp add: release_one_def send_now_unheld split: option.split)

lemma set_slot_held [simp]: "rg_held (set_slot x f r) = rg_held r" "rg_holding (set_slot x f r) = rg_holding r"
  by (simp_all add: set_slot_def)

lemma emits_registry [simp]: "fw_registry (put_out x st) = fw_registry st" "fw_registry (fold put_out xs st) = fw_registry st"
proof -
  show "fw_registry (put_out x st) = fw_registry st" for x and st :: "'a fw_state" by (simp add: put_out_def)
  then show "fw_registry (fold put_out xs st) = fw_registry st" by (induction xs arbitrary: st) simp_all
qed

lemma send_selected_registry [simp]: "fw_registry (fold (send_selected ctx m) xs st) = fw_registry st"
  by (induction xs arbitrary: st) (simp_all add: send_selected_def split: adaptation.split option.split)

lemma management_registry [simp]: "fw_registry (management_for_server ctx name m st) = fw_registry st"
  by (simp add: management_for_server_def Let_def)

lemma send_now_held: "rg_held (fw_registry (send_now ctx via m st)) = rg_held (fw_registry st)"
  by (cases via)
    (auto simp: send_on_link_def no_egress_def queue_if_pending_def set_server_def Let_def split: option.split prod.split)

lemma release_one_held: "rg_held (fw_registry (release_one ctx m st)) = rg_held (fw_registry st)"
  by (simp add: release_one_def send_now_held split: option.split)

lemma unheld_buffers: "unheld (st\<lparr>fw_registry := (fw_registry st)\<lparr>rg_held := h\<rparr>\<rparr>) = unheld st"
  by (simp add: unheld_def)

lemma release_all_held: "rg_held (fw_registry (fold (release_one ctx) b st)) = rg_held (fw_registry st)"
  by (induction b arbitrary: st) (simp_all add: release_one_held)

lemma release_rounds_complete:
  "\<exists>st'. release_rounds ctx dpc (Suc (Suc n)) st = Some st' \<and>
     unheld st' = fold (release_one ctx) (buffer_of (fw_registry st) dpc) (unheld st) \<and>
     bt_get d (rg_held (fw_registry st')) = (if d = dpc then None else bt_get d (rg_held (fw_registry st)))"
proof (cases "bt_get dpc (rg_held (fw_registry st))")
  case None
  then show ?thesis by (auto simp: release_held_def buffer_of_def)
next
  case (Some b)
  let ?r = "fw_registry st"
  show ?thesis
  proof (cases "b = []")
    case True
    then show ?thesis using Some by (simp add: release_held_def buffer_of_def unheld_def)
  next
    case False
    let ?st1 = "fold (release_one ctx) b (st\<lparr>fw_registry := ?r\<lparr>rg_held := bt_insert dpc [] (rg_held ?r)\<rparr>\<rparr>)"
    have held: "rg_held (fw_registry ?st1) = bt_insert dpc [] (rg_held ?r)" by (simp add: release_all_held)
    have "release_rounds ctx dpc (Suc (Suc n)) st = release_rounds ctx dpc (Suc n) ?st1"
      using Some False by (simp add: release_held_def)
    also have "\<dots> = Some (?st1\<lparr>fw_registry := (fw_registry ?st1)\<lparr>rg_held := bt_remove dpc (rg_held (fw_registry ?st1)),
        rg_holding := rg_holding (fw_registry ?st1) - 1\<rparr>\<rparr>)"
      using held by (simp add: release_held_def)
    finally have run: "release_rounds ctx dpc (Suc (Suc n)) st = \<dots>" .
    have "unheld ?st1 = fold (release_one ctx) b (unheld st)"
      by (simp add: unheld_fold release_one_unheld unheld_buffers)
    then show ?thesis using run held Some by (simp add: buffer_of_def unheld_def)
  qed
qed


section \<open>Rerouting from a link\<close>

text \<open>What a link has been given to send, and its commands.\<close>

definition port_at :: "string \<Rightarrow> 'mt fw_state \<Rightarrow> link_port option" where
  "port_at x st = Option.bind (slot_of (fw_registry st) x) sl_link"

lemma send_on_link_port: "x \<noteq> y \<Longrightarrow> port_at x (send_on_link ctx y m st) = port_at x st"
  by (auto simp: port_at_def send_on_link_def slot_of_def set_slot_def put_out_def Let_def map_option.id [unfolded id_def] split: option.split prod.split)

lemma queue_port: "slot_of (fst (queue_if_pending name m r)) = slot_of r"
  by (rule ext) (simp add: queue_if_pending_def set_server_def slot_of_def Let_def split: option.split)

lemma hold_port: "slot_of (fst (hold_if_rerouting m r)) = slot_of r"
  by (rule ext) (simp add: hold_if_rerouting_def slot_of_def split: option.split)

text \<open>A link is in one linkset of the tenant, and in no Application Server.\<close>

definition in_one_linkset :: "registry \<Rightarrow> string \<Rightarrow> bool" where
  "in_one_linkset r x \<longleftrightarrow> list_all (\<lambda>l. x \<in> set (le_links l) \<longrightarrow> inbound_destination r x = Some (Linkset (le_name l))) (rg_linksets r)"

lemma select_link_member:
  assumes "select_link_avoiding r name sls avoid = Some x"
  shows "avoid \<noteq> Some x \<and> (\<exists>l \<in> set (rg_linksets r). le_name l = name \<and> x \<in> set (le_links l))"
proof -
  obtain l where l: "find (\<lambda>l. le_name l = name) (rg_linksets r) = Some l"
    using assms by (auto simp: select_link_avoiding_def split: option.splits)
  then have "l \<in> set (rg_linksets r)" "le_name l = name" by (auto simp: find_Some_iff)
  moreover define left where "left = filter (link_usable r avoid) (le_links l)"
  define k where "k = unat sls div max (le_width l) 1"
  have ne: "le_links l \<noteq> []" using assms l by (auto simp: select_link_avoiding_def)
  have "x = le_links l ! (k mod length (le_links l)) \<and> link_usable r avoid x \<or> left \<noteq> [] \<and> x = left ! (k mod length left)"
    using assms l ne unfolding select_link_avoiding_def link_usable_def left_def k_def Let_def by (auto split: if_splits)
  then have "x \<in> set (le_links l) \<and> link_usable r avoid x"
    using ne nth_mem [of "k mod length (le_links l)" "le_links l"] nth_mem [of "k mod length left" left]
    by (auto simp: left_def)
  ultimately show ?thesis by (auto simp: link_usable_def)
qed

lemma send_now_port:
  assumes "in_one_linkset (fw_registry st) x" "inbound_destination (fw_registry st) x \<noteq> Some via"
  shows "port_at x (send_now ctx via m st) = port_at x st"
proof (cases via)
  case (ApplicationServer name)
  obtain r queued where q: "queue_if_pending name m (fw_registry st) = (r, queued)" by force
  then have "slot_of r = slot_of (fw_registry st)" using queue_port [of name m "fw_registry st"] by simp
  then show ?thesis using ApplicationServer q by (simp add: no_egress_def port_at_def Let_def del: select.simps)
next
  case (Linkset name)
  show ?thesis
  proof (cases "select_link (fw_registry st) name (msu_sls m)")
    case None
    then show ?thesis using Linkset by (simp add: no_egress_def port_at_def)
  next
    case (Some y)
    have "y \<noteq> x"
    proof
      assume "y = x"
      then obtain l where "l \<in> set (rg_linksets (fw_registry st))" "le_name l = name" "x \<in> set (le_links l)"
        using select_link_member [of "fw_registry st" name "msu_sls m" None y] Some by (auto simp: select_link_def)
      then show False using assms Linkset by (auto simp: in_one_linkset_def list_all_iff)
    qed
    then show ?thesis using Linkset Some send_on_link_port [of x y] by simp
  qed
qed

lemma hold_tables:
  "rg_linksets (fst (hold_if_rerouting m r)) = rg_linksets r" "rg_servers (fst (hold_if_rerouting m r)) = rg_servers r"
  by (simp_all add: hold_if_rerouting_def split: option.split)

lemma send_via_port:
  assumes "in_one_linkset (fw_registry st) x" "inbound_destination (fw_registry st) x \<noteq> Some via"
  shows "port_at x (send_via ctx via m st) = port_at x st"
proof -
  obtain r held where h: "hold_if_rerouting m (fw_registry st) = (r, held)" by force
  then have r: "slot_of r = slot_of (fw_registry st)" "rg_linksets r = rg_linksets (fw_registry st)" "rg_servers r = rg_servers (fw_registry st)"
    using hold_port hold_tables by (metis fst_conv)+
  have "inbound_destination r = inbound_destination (fw_registry st)" by (rule ext) (simp only: inbound_destination_def r)
  then have "in_one_linkset r x" "inbound_destination r x \<noteq> Some via" using assms r(2) by (simp_all add: in_one_linkset_def)
  then have "port_at x (send_now ctx via m (st\<lparr>fw_registry := r\<rparr>)) = port_at x (st\<lparr>fw_registry := r\<rparr>)"
    using send_now_port [of "st\<lparr>fw_registry := r\<rparr>" x via ctx m] by simp
  then show ?thesis using h r(1) by (simp add: send_via_def port_at_def Let_def)
qed

lemma egress_for_avoids:
  assumes "tenancy_ok ten" "egress_for fv tenant dpc sls avoid ten = Some via"
  shows "avoid \<noteq> Some via"
  using assms resolve_avoiding_eligible
  by (fastforce simp: egress_for_def tenancy_ok_def route_eligible_def split: option.splits)

text \<open>
  C27: what a link hands back does not return to it. A message the task of a link could not send is
  sent by another link of its linkset, by another route, or discarded and counted; the link it came
  from is given nothing and no command, provided it is a member of one linkset only and the route
  tables are those the router keeps.
\<close>

theorem reroute_leaves_link:
  assumes "in_one_linkset (fw_registry st) x" and "tenancy_ok (fw_tenancy st)"
  shows "port_at x (reroute_msu ctx raw x st) = port_at x st"
proof (cases "cd_mtp3_decode (fx_codecs ctx) raw")
  case None
  then show ?thesis by (simp add: reroute_msu_def port_at_def)
next
  case (Some u)
  define m where "m = msu_of_unit u"
  define own where "own = inbound_destination (fw_registry st) x"
  define egress where "egress = (\<lambda>avoid. egress_for (cd_point_code (fx_codecs ctx)) (fx_tenant ctx) (msu_dpc m) (msu_sls m) avoid (fw_tenancy st))"
  define finish where "finish = (\<lambda>via. case via of Some via \<Rightarrow> send_via ctx via m st | None \<Rightarrow> put_out (FxDiscard DiscardNoAlternative) st)"
  have away: "port_at x (finish via) = port_at x st" if "via = None \<or> via \<noteq> own" for via
  proof (cases via)
    case (Some v)
    then show ?thesis using that send_via_port [OF assms(1), of v ctx m] by (auto simp: finish_def own_def)
  qed (simp add: finish_def port_at_def)
  have "egress own = None \<or> egress own \<noteq> own" if "own \<noteq> None"
    using egress_for_avoids [OF assms(2)] by (metis egress_def not_None_eq)
  then have other: "port_at x (finish (egress own)) = port_at x st" if "own \<noteq> None" using away that by blast
  have link: "port_at x (case hold_if_rerouting m (fw_registry st) of (r, held) \<Rightarrow>
      let st = st\<lparr>fw_registry := r\<rparr> in if held then st else send_on_link ctx y m st) = port_at x st"
    if "select_link_avoiding (fw_registry st) name (msu_sls m) (Some x) = Some y" for name y
  proof -
    have "x \<noteq> y" using select_link_member [OF that] by simp
    then show ?thesis using hold_port [of m "fw_registry st"]
      by (auto simp: send_on_link_port Let_def split: prod.split) (simp_all add: port_at_def)
  qed
  have run: "reroute_msu ctx raw x st =
      (if egress None \<noteq> None \<and> egress None = own then
         (case own of
            Some (Linkset name) \<Rightarrow>
              (case select_link_avoiding (fw_registry st) name (msu_sls m) (Some x) of
                 Some y \<Rightarrow> (case hold_if_rerouting m (fw_registry st) of (r, held) \<Rightarrow>
                    let st = st\<lparr>fw_registry := r\<rparr> in if held then st else send_on_link ctx y m st)
               | None \<Rightarrow> finish (egress own))
          | _ \<Rightarrow> finish (egress own))
       else finish (egress None))"
    unfolding reroute_msu_def Some option.case Let_def m_def own_def egress_def finish_def by (rule refl)
  show ?thesis
  proof (cases "egress None \<noteq> None \<and> egress None = own")
    case False
    then show ?thesis unfolding run using away [of "egress None"] by auto
  next
    case True
    then show ?thesis unfolding run using other link by (auto split: option.split destination.split)
  qed
qed

section \<open>An example\<close>

text \<open>The registry of \<open>sample_registry\<close>, with a route to point code 2 by its linkset.\<close>

definition sample_ctx :: "(unit, nat) fw_ctx" where
  "sample_ctx =
     \<lparr>fx_tenant = ''default'', fx_policy = None, fx_codecs = sample_codecs, fx_sua = sample_sua, fx_isup = sample_codec,
      fx_tcap = (\<lambda>_. Complete TcEnd), fx_ops = published_codes,
      fx_args = \<lparr>ma_update_location = Some, ma_cancel_location = (\<lambda>_. None), ma_purge_ms = Some, ma_send_authentication_info = Some,
        ma_ready_for_sm = Some, ma_provide_subscriber_info = Some, ma_mo_forward_sm = (\<lambda>_. None), ma_sri_sm = Some,
        ma_report_sm_delivery_status = Some\<rparr>,
      fx_mgmt_decode = (\<lambda>_ _. None), fx_abort = Some\<rparr>"

definition sample_fw :: "nat fw_state" where
  "sample_fw =
     \<lparr>fw_registry = sample_registry,
      fw_tenancy = [(''default'', sample_runtime\<lparr>
        tr_routes := \<lparr>rr_variant = Itu, rr_routes = [(2, [\<lparr>cand_dest = Linkset ''ls'', cand_priority = 1\<rparr>])]\<rparr>,
        tr_route_state := with_linksets_up [''ls'']\<rparr>)],
      fw_out = []\<rparr>"

theorem hop_chain_bounded_witness:
  "hop_chain TYPE((unit, nat) fw_ctx) sample_codecs 1 (sample_msu\<lparr>msu_payload := [3]\<rparr>) (sample_msu\<lparr>msu_dpc := 7, msu_payload := [2]\<rparr>) \<and>
   1 < unat (3 :: u8)"
proof -
  let ?m = "sample_msu\<lparr>msu_payload := [3]\<rparr>" and ?m' = "sample_msu\<lparr>msu_dpc := 7, msu_payload := [2]\<rparr>"
  have guard: "hop_counter_guard sample_ctx ?m None sample_fw = (sample_fw, Some [2])"
    by (simp add: hop_counter_guard_def sample_ctx_def sample_codecs_def sample_msu_def SI_SCCP_def hop_counter_def sample_unit_def
        set_hop_counter_def)
  have "passes_on sample_ctx ?m ?m'"
    unfolding passes_on_def
    by (intro exI [of _ None] exI [of _ sample_fw] exI [of _ "[2]"] exI [of _ 7] conjI, rule guard) simp
  then have chain: "hop_chain TYPE((unit, nat) fw_ctx) sample_codecs 1 ?m ?m'"
    using chain_step [OF chain_none, of sample_ctx sample_codecs ?m ?m'] by (simp add: sample_ctx_def)
  have "hop_kept sample_codecs"
    by (auto simp: hop_kept_def sample_codecs_def hop_counter_def sample_unit_def split: list.splits)
  from hop_chain_bounded [OF chain this, of "sample_unit Xudt 3" 3] chain show ?thesis
    by (simp add: sample_msu_def SI_SCCP_def sample_codecs_def hop_counter_def sample_unit_def)
qed

theorem reroute_leaves_link_witness:
  "in_one_linkset (fw_registry sample_fw) ''a'' \<and> tenancy_ok (fw_tenancy sample_fw) \<and>
   port_at ''a'' (reroute_msu sample_ctx [3, 0, 0, 0, 0, 1, 0, 0, 1] ''a'' sample_fw) = port_at ''a'' sample_fw"
proof -
  have "in_one_linkset (fw_registry sample_fw) ''a''"
    by (simp add: in_one_linkset_def sample_fw_def sample_registry_def inbound_destination_def)
  moreover have "tenancy_ok (fw_tenancy sample_fw)"
    by (auto simp: tenancy_ok_def sample_fw_def bt_get_def sample_runtime_def resolver_ok_def bt_ok_def split: if_splits)
  ultimately show ?thesis using reroute_leaves_link [of sample_fw "''a''" sample_ctx] by blast
qed

end
