(* ===== verification/Mgmt_Held.thy ===== *)
theory Mgmt_Held
  imports Mgmt_Reach Registry_Correct
begin

text \<open>
  Controlled rerouting as the caller of network management sees it: which destinations it is asked to
  hold and release. The machine holds a destination only when it is not held and releases only what
  is held, so the buffer of \<open>Registry\<close> is never replaced while it has messages in it.
\<close>

section \<open>What the caller holds\<close>

text \<open>The destinations held after an action; \<open>None\<close> once a held destination is held again, or one that is not is released.\<close>

fun hold_watch :: "mg_action \<Rightarrow> u32 set option \<Rightarrow> u32 set option" where
  "hold_watch (MaHoldDestination d) (Some H) = (if d \<in> H then None else Some (insert d H))"
| "hold_watch (MaReleaseDestination d) (Some H) = (if d \<in> H then Some (H - {d}) else None)"
| "hold_watch _ X = X"

definition holds :: "management \<Rightarrow> u32 set" where
  "holds m = {dpc. case dest_of m dpc of Some d \<Rightarrow> kd_holding d | None \<Rightarrow> False}"

definition is_mark :: "mg_action \<Rightarrow> bool" where
  "is_mark a \<longleftrightarrow> (case a of MaRoute _ _ _ \<Rightarrow> True | _ \<Rightarrow> False)"

text \<open>What an operation leaves as it is when it has no part in controlled rerouting.\<close>

definition held_view :: "u32 set \<Rightarrow> management \<Rightarrow> u32 set option \<times> (u32 \<Rightarrow> (bool \<times> mg_action list) option)" where
  "held_view H m = (fold hold_watch (mg_out m) (Some H), \<lambda>k. map_option (\<lambda>d. (kd_holding d, kd_deferred d)) (dest_of m k))"

lemma hold_watch_other:
  "(case a of MaHoldDestination _ \<Rightarrow> False | MaReleaseDestination _ \<Rightarrow> False | _ \<Rightarrow> True) \<Longrightarrow> hold_watch a X = X"
  by (cases a) auto

lemma held_view_push:
  "(case a of MaHoldDestination _ \<Rightarrow> False | MaReleaseDestination _ \<Rightarrow> False | _ \<Rightarrow> True) \<Longrightarrow> held_view H (push a m) = held_view H m"
  by (simp add: held_view_def push_def dest_of_def hold_watch_other)

lemma held_view_pushes [simp]:
  "held_view H (push (MaSend a b c p) m) = held_view H m" "held_view H (push (MaStart t n) m) = held_view H m"
  "held_view H (push (MaStop t) m) = held_view H m" "held_view H (push (MaHold l) m) = held_view H m"
  "held_view H (push (MaDivert l f) m) = held_view H m" "held_view H (push (MaOpen l) m) = held_view H m"
  "held_view H (push (MaFail l) m) = held_view H m" "held_view H (push (MaRoute d s st) m) = held_view H m"
  "held_view H (push (MaAccessibility d b1) m) = held_view H m" "held_view H (push (MaRestricted d b1) m) = held_view H m"
  "held_view H (push (MaRestarting b1) m) = held_view H m" "held_view H (push (MaCongestion d b) m) = held_view H m"
  "held_view H (push (MaNote pr sj) m) = held_view H m" "held_view H (push (MaIgnored c why) m) = held_view H m"
  by (simp_all add: held_view_push)

lemma held_view_updates [simp]:
  "held_view H (set_link l f m) = held_view H m" "held_view H (set_linkset s g m) = held_view H m" "held_view H (set_phase l p m) = held_view H m"
  "held_view H (m\<lparr>mg_guarded := G\<rparr>) = held_view H m" "held_view H (m\<lparr>mg_restarting := b\<rparr>) = held_view H m"
  "held_view H (m\<lparr>mg_restart_due := b\<rparr>) = held_view H m" "held_view H (m\<lparr>mg_isolated := b\<rparr>) = held_view H m"
  "held_view H (m\<lparr>mg_next_code := c\<rparr>) = held_view H m" "held_view H (m\<lparr>mg_servers := sv\<rparr>) = held_view H m"
  "held_view H (m\<lparr>mg_linksets := ks\<rparr>) = held_view H m"
  by (simp_all add: held_view_def dest_of_def set_link_def set_linkset_def set_phase_def)

lemma held_view_dest [simp]:
  "(\<And>d. kd_holding (f d) = kd_holding d) \<Longrightarrow> (\<And>d. kd_deferred (f d) = kd_deferred d) \<Longrightarrow> held_view H (set_dest dpc f m) = held_view H m"
  by (auto simp: held_view_def dest_of_def set_dest_def fun_eq_iff option.map_comp comp_def intro!: map_option_cong split: if_splits)

lemma held_view_dests [simp]:
  "(\<And>k d. kd_holding (f k d) = kd_holding d) \<Longrightarrow> (\<And>k d. kd_deferred (f k d) = kd_deferred d) \<Longrightarrow>
     held_view H (m\<lparr>mg_destinations := bt_map f (mg_destinations m)\<rparr>) = held_view H m"
  by (simp add: held_view_def dest_of_def option.map_comp comp_def)

lemma held_view_fold: "(\<And>x m. x \<in> set xs \<Longrightarrow> held_view H (f x m) = held_view H m) \<Longrightarrow> held_view H (fold f xs m) = held_view H m"
  by (induction xs arbitrary: m) simp_all

section \<open>Operations without a part in it\<close>

lemma held_view_if [simp]: "held_view H (if b then x else y) = (if b then held_view H x else held_view H y)"
  by simp

lemma held_mg_guard [simp]: "held_view H (mg_guard dpc m) = held_view H m"
  by (simp add: mg_guard_def Let_def held_view_fold split: option.split phase.split prod.split)

lemma held_mg_send [simp]: "held_view H (mg_send s slc message path m) = held_view H m"
  by (simp add: mg_send_def Let_def held_view_fold split: option.split phase.split prod.split)

lemma held_mg_tell [simp]: "held_view H (mg_tell s slc message m) = held_view H m"
  by (simp add: mg_tell_def Let_def held_view_fold split: option.split phase.split prod.split)

lemma held_mg_note [simp]: "held_view H (mg_note p sj m) = held_view H m"
  by (simp add: mg_note_def Let_def held_view_fold split: option.split phase.split prod.split)

lemma held_mg_ignored [simp]: "held_view H (mg_ignored message why m) = held_view H m"
  by (simp add: mg_ignored_def Let_def held_view_fold split: option.split phase.split prod.split)

lemma held_settle_destination [simp]: "held_view H (settle_destination dpc m) = held_view H m"
  by (simp add: settle_destination_def Let_def held_view_fold split: option.split phase.split prod.split)

lemma held_settle_tell [simp]: "held_view H (settle_tell fv s adjacent dpc m) = held_view H m"
  by (simp add: settle_tell_def Let_def held_view_fold split: option.split phase.split prod.split)

lemma held_mg_resync [simp]: "held_view H (mg_resync s m) = held_view H m"
  using held_view_dests [of "\<lambda>_ d. d\<lparr>kd_told := kd_told d - {s}\<rparr>" H "set_linkset s (\<lambda>k. k\<lparr>ks_synced := True\<rparr>) m"]
  by (simp add: mg_resync_def)

lemma held_settle_linkset [simp]: "held_view H (settle_linkset fv dpcs s m) = held_view H m"
  by (simp add: settle_linkset_def Let_def held_view_fold split: option.split phase.split prod.split)

lemma held_settle [simp]: "held_view H (settle fv m) = held_view H m"
  by (simp add: settle_def Let_def held_view_fold split: option.split phase.split prod.split)

lemma held_watch_isolation [simp]: "held_view H (watch_isolation m) = held_view H m"
  by (simp add: watch_isolation_def Let_def held_view_fold split: option.split phase.split prod.split)

lemma held_allow_routes_through [simp]: "held_view H (allow_routes_through s m) = held_view H m"
  by (simp add: allow_routes_through_def held_view_fold allow_routes_def held_view_dests [of "\<lambda>_. allow_routes s"])

lemma held_time_controlled_changeback [simp]: "held_view H (time_controlled_changeback l m) = held_view H m"
  by (simp add: time_controlled_changeback_def Let_def held_view_fold split: option.split phase.split prod.split)

lemma held_start_traffic [simp]: "held_view H (start_traffic fv l m) = held_view H m"
  by (simp add: start_traffic_def Let_def held_view_fold split: option.split phase.split prod.split)

lemma held_declare [simp]: "held_view H (fst (fold (declare_on s slc) ls (m, x))) = held_view H m"
  by (induction ls arbitrary: m x) (simp_all add: declare_on_def Let_def)

lemma held_changeback_declared [simp]: "held_view H (changeback_declared l carrying m) = held_view H m"
proof -
  obtain n ds where n: "fold (declare_on (linkset_at m l) (slc_at m l)) carrying (push (MaHold l) m, []) = (n, ds)" by force
  then have "held_view H n = held_view H (push (MaHold l) m)" using held_declare by (metis fst_conv)
  then show ?thesis using n by (simp add: changeback_declared_def)
qed

lemma held_adjacent_restarts [simp]: "held_view H (adjacent_restarts fv l m) = held_view H m"
  by (simp add: adjacent_restarts_def Let_def held_view_fold split: option.split phase.split prod.split)

lemma held_restore [simp]: "held_view H (restore fv l m) = held_view H m"
  by (simp add: restore_def Let_def held_view_fold split: option.split phase.split prod.split)

lemma held_finish_changeback [simp]: "held_view H (finish_changeback l how m) = held_view H m"
  by (simp add: finish_changeback_def Let_def held_view_fold split: option.split phase.split prod.split)

lemma held_open_waiting [simp]: "held_view H (open_waiting l m) = held_view H m"
  by (simp add: open_waiting_def Let_def held_view_fold split: option.split phase.split prod.split)

lemma held_allow_restart [simp]: "held_view H (allow_restart s m) = held_view H m"
  by (simp add: allow_restart_def Let_def held_view_fold split: option.split phase.split prod.split)

lemma held_end_restart [simp]: "held_view H (end_restart fv m) = held_view H m"
  by (simp add: end_restart_def Let_def held_view_fold split: option.split phase.split prod.split)

lemma held_restart_progress [simp]: "held_view H (restart_progress fv m) = held_view H m"
  by (simp add: restart_progress_def Let_def held_view_fold split: option.split phase.split prod.split)

lemma held_end_adjacent_restart [simp]: "held_view H (end_adjacent_restart fv s how m) = held_view H m"
  by (simp add: end_adjacent_restart_def Let_def held_view_fold split: option.split phase.split prod.split)

lemma held_traffic_restart_allowed [simp]: "held_view H (traffic_restart_allowed fv s m) = held_view H m"
  by (simp add: traffic_restart_allowed_def Let_def held_view_fold split: option.split phase.split prod.split)

lemma held_begin_restart [simp]: "held_view H (begin_restart m) = held_view H m"
  by (simp add: begin_restart_def Let_def held_view_fold split: option.split phase.split prod.split)

lemma held_link_up [simp]: "held_view H (link_up fv l m) = held_view H m"
  by (simp add: link_up_def Let_def held_view_fold split: option.split phase.split prod.split)

lemma held_begin_changeover [simp]: "held_view H (begin_changeover l m) = held_view H m"
  by (simp add: begin_changeover_def Let_def held_view_fold split: option.split phase.split prod.split)

lemma held_complete_changeover [simp]: "held_view H (complete_changeover fv l fsnc how m) = held_view H m"
  by (simp add: complete_changeover_def Let_def held_view_fold split: option.split phase.split prod.split)

lemma held_acknowledge_order [simp]: "held_view H (acknowledge_order l emergency m) = held_view H m"
  by (simp add: acknowledge_order_def Let_def held_view_fold split: option.split phase.split prod.split)

lemma held_link_down [simp]: "held_view H (link_down fv l bsnt m) = held_view H m"
  by (simp add: link_down_def Let_def held_view_fold split: option.split phase.split prod.split)

lemma held_changeover_order [simp]: "held_view H (changeover_order fv l fsnc emergency m) = held_view H m"
  by (simp add: changeover_order_def Let_def held_view_fold split: option.split phase.split prod.split)

lemma held_changeover_acknowledgement [simp]: "held_view H (changeover_acknowledgement fv l fsnc message m) = held_view H m"
  by (simp add: changeover_acknowledgement_def Let_def held_view_fold split: option.split phase.split prod.split)

lemma held_grant_inhibit [simp]: "held_view H (grant_inhibit l path m) = held_view H m"
  by (simp add: grant_inhibit_def Let_def held_view_fold split: option.split phase.split prod.split)

lemma held_lift_inhibit [simp]: "held_view H (lift_inhibit fv l path m) = held_view H m"
  by (simp add: lift_inhibit_def Let_def held_view_fold split: option.split phase.split prod.split)

lemma held_inhibit_message [simp]: "held_view H (inhibit_message fv l message m) = held_view H m"
  by (cases message) (simp_all add: inhibit_message_def Let_def)

lemma held_mark_route [simp]: "held_view H (mark_route dpc i status m) = held_view H m"
  by (simp add: mark_route_def Let_def held_view_fold split: option.split phase.split prod.split)

lemma held_route_set_test [simp]: "held_view H (route_set_test fv s dpc believes m) = held_view H m"
  by (simp add: route_set_test_def Let_def held_view_fold split: option.split phase.split prod.split)

lemma held_unroutable [simp]: "held_view H (unroutable fv dpc l m) = held_view H m"
  by (simp add: unroutable_def Let_def held_view_fold split: option.split phase.split prod.split)

lemma held_changeback_acknowledgement [simp]: "held_view H (changeback_acknowledgement l code m) = held_view H m"
  by (simp add: changeback_acknowledgement_def Let_def held_view_fold split: option.split phase.split prod.split)

lemma held_link_message [simp]: "held_view H (link_message fv l message m) = held_view H m"
  by (cases message) (simp_all add: link_message_def)

lemma held_repeat_changeback [simp]: "held_view H (repeat_changeback l m) = held_view H m"
  by (simp add: repeat_changeback_def Let_def held_view_fold split: option.split phase.split prod.split)

lemma held_repeat_uninhibit [simp]: "held_view H (repeat_uninhibit l force m) = held_view H m"
  by (simp add: repeat_uninhibit_def Let_def held_view_fold split: option.split phase.split prod.split)

lemma held_repeat_test [simp]: "held_view H (repeat_test fv dpc s m) = held_view H m"
  by (simp add: repeat_test_def Let_def held_view_fold split: option.split phase.split prod.split)

lemma held_test_inhibited [simp]: "held_view H (test_inhibited l m) = held_view H m"
  by (simp add: test_inhibited_def Let_def held_view_fold split: option.split phase.split prod.split)

lemma held_changeover_expired [simp]: "held_view H (changeover_expired fv l m) = held_view H m"
  by (simp add: changeover_expired_def Let_def held_view_fold split: option.split phase.split prod.split)

lemma held_changeback_expired [simp]: "held_view H (changeback_expired l m) = held_view H m"
  by (simp add: changeback_expired_def Let_def held_view_fold split: option.split phase.split prod.split)

section \<open>Controlled rerouting\<close>

definition held_sound :: "u32 set \<Rightarrow> management \<Rightarrow> bool" where
  "held_sound H m \<longleftrightarrow> fold hold_watch (mg_out m) (Some H) = Some (holds m) \<and>
     (\<forall>k d. dest_of m k = Some d \<longrightarrow> list_all is_mark (kd_deferred d))"

lemma held_sound_marks: "held_sound H m \<Longrightarrow> dest_of m k = Some d \<Longrightarrow> list_all is_mark (kd_deferred d)"
  by (simp add: held_sound_def)

lemma held_sound_view:
  assumes "held_view H m' = held_view H m" and "held_sound H m"
  shows "held_sound H m'"
proof -
  have out: "fold hold_watch (mg_out m') (Some H) = fold hold_watch (mg_out m) (Some H)" using assms(1) by (simp add: held_view_def)
  have dest: "map_option (\<lambda>d. (kd_holding d, kd_deferred d)) (dest_of m' k) = map_option (\<lambda>d. (kd_holding d, kd_deferred d)) (dest_of m k)" for k
    using assms(1) by (simp add: held_view_def fun_eq_iff)
  have "(case dest_of m' k of Some d \<Rightarrow> kd_holding d | None \<Rightarrow> False) = (case dest_of m k of Some d \<Rightarrow> kd_holding d | None \<Rightarrow> False)" for k
    using dest [of k] by (auto split: option.splits)
  then have "holds m' = holds m" by (simp add: holds_def)
  moreover have "list_all is_mark (kd_deferred d)" if "dest_of m' k = Some d" for k d
  proof -
    have "\<exists>e. dest_of m k = Some e \<and> kd_deferred e = kd_deferred d" using dest [of k] that by (cases "dest_of m k") auto
    then show ?thesis using held_sound_marks [OF assms(2)] by metis
  qed
  ultimately show ?thesis using out assms(2) by (simp add: held_sound_def)
qed

lemma held_sound_cong: "held_view H m' = held_view H m \<Longrightarrow> held_sound H m' = held_sound H m"
  using held_sound_view [of H m' m] held_sound_view [of H m m'] by argo

lemma dest_of_set [simp]: "dest_of (set_dest dpc f m) k = (if k = dpc then map_option f (dest_of m k) else dest_of m k)"
  by (auto simp: dest_of_def set_dest_def option.map_ident)

lemma holds_set:
  assumes "dest_of m dpc = Some d"
  shows "holds (set_dest dpc f m) = (if kd_holding (f d) then insert dpc (holds m) else holds m - {dpc})"
  using assms by (auto simp: holds_def split: if_splits option.splits)

lemma holds_push [simp]: "holds (push a m) = holds m" "dest_of (push a m) k = dest_of m k"
  by (simp_all add: holds_def push_def dest_of_def)

lemma fold_push: "fold push as m = m\<lparr>mg_out := mg_out m @ as\<rparr>"
  by (induction as arbitrary: m) (simp_all add: push_def)

lemma marks_watched: "list_all is_mark as \<Longrightarrow> fold hold_watch as X = X"
  by (induction as) (auto simp: is_mark_def hold_watch_other split: mg_action.splits)

lemma pushed_marks:
  assumes "list_all is_mark as"
  shows "held_view H (fold push as m) = held_view H m" "holds (fold push as m) = holds m" "dest_of (fold push as m) k = dest_of m k"
    "fold hold_watch (mg_out (fold push as m)) X = fold hold_watch (mg_out m) X"
  using marks_watched [OF assms] by (simp_all add: held_view_def holds_def dest_of_def fold_push)

lemma release_held_sound:
  assumes "held_sound H m" "dest_of m dpc = Some d" "kd_holding d" "list_all is_mark as"
  shows "held_sound H (push (MaReleaseDestination dpc) (fold push as (set_dest dpc (\<lambda>d. d\<lparr>kd_holding := False, kd_deferred := []\<rparr>) m)))"
proof -
  have in_H: "dpc \<in> holds m" using assms(2,3) by (simp add: holds_def)
  let ?m = "set_dest dpc (\<lambda>d. d\<lparr>kd_holding := False, kd_deferred := []\<rparr>) m"
  have "fold hold_watch (mg_out ?m) (Some H) = Some (holds m)" using assms(1) by (simp add: held_sound_def set_dest_def)
  then have "fold hold_watch (mg_out (push (MaReleaseDestination dpc) (fold push as ?m))) (Some H) = Some (holds m - {dpc})"
    using in_H pushed_marks(4) [OF assms(4)] by (simp add: push_def)
  moreover have "list_all is_mark (kd_deferred e)" if "dest_of ?m k = Some e" for k e
    using that assms(1) by (auto simp: held_sound_def split: if_splits)
  ultimately show ?thesis using holds_set [OF assms(2)] pushed_marks [OF assms(4)] by (simp add: held_sound_def)
qed

lemma release_destination_sound: "held_sound H m \<Longrightarrow> held_sound H (release_destination dpc m)"
  by (auto simp: release_destination_def release_held_sound held_sound_marks split: option.split)

lemma held_sound_note: "held_sound H (mg_note p sj m) = held_sound H m" "held_sound H (push (MaStart t n) m) = held_sound H m"
  by (rule held_sound_cong, simp)+

lemma forced_sound:
  assumes "held_sound H m" "dest_of m dpc = Some d'" "kd_holding d'" "list_all is_mark as" "is_mark mark"
  shows "held_sound H (push (MaReleaseDestination dpc) (push (MaStop (TmRerouting dpc)) (set_dest dpc (\<lambda>d. d\<lparr>kd_holding := False\<rparr>)
      (push mark (fold push as (set_dest dpc (\<lambda>d. d\<lparr>kd_deferred := []\<rparr>) m))))))" (is "held_sound H ?m")
proof -
  let ?n = "push (MaReleaseDestination dpc) (fold push (as @ [mark]) (set_dest dpc (\<lambda>d. d\<lparr>kd_holding := False, kd_deferred := []\<rparr>) m))"
  have "held_sound H ?n" using release_held_sound [OF assms(1,2,3), of "as @ [mark]"] assms(4,5) by simp
  moreover have "map_option (\<lambda>d. (kd_holding d, kd_deferred d)) (dest_of ?m k) = map_option (\<lambda>d. (kd_holding d, kd_deferred d)) (dest_of ?n k)" for k
    using pushed_marks(3) [of "as @ [mark]"] pushed_marks(3) [OF assms(4)] assms(4,5) by (simp add: option.map_comp comp_def)
  then have "held_view H ?m = held_view H ?n"
    using marks_watched [OF assms(4)] by (simp add: held_view_def fold_push push_def set_dest_def)
  ultimately show ?thesis using held_sound_view by blast
qed

lemma deferred_sound:
  assumes "held_sound H m" "dest_of m dpc = Some d" "list_all is_mark as" "(holding \<noteq> kd_holding d) = new" "new \<Longrightarrow> holding"
  shows "held_sound H ((if new then push (MaHoldDestination dpc) else id)
    (set_dest dpc (\<lambda>d. d\<lparr>kd_holding := holding, kd_deferred := kd_deferred d @ as\<rparr>) m))"
proof -
  let ?m = "set_dest dpc (\<lambda>d. d\<lparr>kd_holding := holding, kd_deferred := kd_deferred d @ as\<rparr>) m"
  have mem: "dpc \<in> holds m \<longleftrightarrow> kd_holding d" using assms(2) by (simp add: holds_def)
  have new: "holds ?m = (if holding then insert dpc (holds m) else holds m - {dpc})" using holds_set [OF assms(2)] by simp
  have out: "fold hold_watch (mg_out ?m) (Some H) = Some (holds m)" using assms(1) by (simp add: set_dest_def held_sound_def)
  have marks: "list_all is_mark (kd_deferred e)" if "dest_of ?m k = Some e" for k e
    using that assms(1,3) by (auto simp: held_sound_def split: if_splits)
  show ?thesis
  proof (cases new)
    case True
    then have "holding" "dpc \<notin> holds m" using assms(4,5) mem by auto
    then have "fold hold_watch (mg_out (push (MaHoldDestination dpc) ?m)) (Some H) = Some (holds ?m)" using out new by (simp add: push_def)
    then show ?thesis unfolding held_sound_def using True marks by simp
  next
    case False
    then have "holds ?m = holds m" using assms(4) mem new by (auto simp: insert_absorb)
    then show ?thesis unfolding held_sound_def using False marks out by simp
  qed
qed

lemma reroute_sound:
  assumes "held_sound H m" "dest_of m dpc = Some d'" "kd_holding d' = kd_holding d" "kd_deferred d' = kd_deferred d" "is_mark mark"
  shows "held_sound H (reroute dpc mark forced before after d m)"
proof -
  have marks: "list_all is_mark (kd_deferred d)" using held_sound_marks [OF assms(1,2)] assms(4) by simp
  have mark: "held_sound H (push mark n) = held_sound H n" for n
    using pushed_marks(1) [of "[mark]" H n] assms(5) by (intro held_sound_cong) simp
  show ?thesis
  proof (cases forced)
    case True
    have "held_sound H (fold push (kd_deferred d) (set_dest dpc (\<lambda>d. d\<lparr>kd_deferred := []\<rparr>) m))"
    proof -
      have "held_sound H (set_dest dpc (\<lambda>d. d\<lparr>kd_deferred := []\<rparr>) m)"
      proof -
        let ?m = "set_dest dpc (\<lambda>d. d\<lparr>kd_deferred := []\<rparr>) m"
        have "dpc \<in> holds m \<longleftrightarrow> kd_holding d'" using assms(2) by (simp add: holds_def)
        then have "holds ?m = holds m" using holds_set [OF assms(2), of "\<lambda>d. d\<lparr>kd_deferred := []\<rparr>"] by (auto simp: insert_absorb)
        moreover have "mg_out ?m = mg_out m" by (simp add: set_dest_def)
        moreover have "list_all is_mark (kd_deferred e)" if "dest_of ?m k = Some e" for k e
          using that held_sound_marks [OF assms(1)] by (auto split: if_splits)
        ultimately show ?thesis using assms(1) by (simp add: held_sound_def)
      qed
      then show ?thesis using held_sound_view pushed_marks(1) [OF marks] by blast
    qed
    then show ?thesis using True forced_sound [OF assms(1,2) _ marks assms(5)] assms(3) by (simp add: reroute_def held_sound_note mark Let_def)
  next
    case False
    show ?thesis
    proof (cases "kd_holding d")
      case True
      have "held_sound H (set_dest dpc (\<lambda>d. d\<lparr>kd_holding := True, kd_deferred := kd_deferred d @ [mark]\<rparr>) m)"
        using deferred_sound [OF assms(1,2), of "[mark]" True False] assms(3,5) True by simp
      moreover have "held_view H (set_dest dpc (\<lambda>d. d\<lparr>kd_deferred := kd_deferred d @ [mark]\<rparr>) m) =
          held_view H (set_dest dpc (\<lambda>d. d\<lparr>kd_holding := True, kd_deferred := kd_deferred d @ [mark]\<rparr>) m)"
        using assms(2,3) True by (auto simp: held_view_def fun_eq_iff)
      ultimately show ?thesis using False True held_sound_view by (simp add: reroute_def)
    next
      case free: False
      have "held_sound H (push (MaHoldDestination dpc) (set_dest dpc (\<lambda>d. d\<lparr>kd_holding := True, kd_deferred := kd_deferred d @ [mark]\<rparr>) m))"
        using deferred_sound [OF assms(1,2), of "[mark]" True True] assms(3,5) free by simp
      then show ?thesis using False free assms(1) by (simp add: reroute_def held_sound_note mark Let_def)
    qed
  qed
qed

lemma route_message_sound:
  assumes "held_sound H m"
  shows "held_sound H (route_message s dpc status message m)"
proof -
  have ignored: "held_sound H (mg_ignored message why m)" for why using held_sound_view [OF held_mg_ignored assms] .
  show ?thesis
  proof (cases "dest_of m dpc")
    case None
    then show ?thesis using ignored by (simp add: route_message_def)
  next
    case (Some d)
    show ?thesis
    proof (cases "position (\<lambda>r. kr_via r = ViaLinkset s) (kd_routes d)")
      case None
      then show ?thesis using Some ignored by (simp add: route_message_def)
    next
      case i: (Some i)
      let ?t = "\<lambda>m. if status = Allowed then push (MaStop (TmRouteSetTest dpc s)) m else push (MaStart (TmRouteSetTest dpc s) (mt_t10 (mg_timers m))) m"
      have "held_sound H (?t (mark_route dpc i status m))" using assms by (intro held_sound_view [of H "?t (mark_route dpc i status m)" m]) simp_all
      moreover have "dest_of (?t (mark_route dpc i status m)) dpc = Some (d\<lparr>kd_routes := (kd_routes d)[i := (kd_routes d ! i)\<lparr>kr_status := status\<rparr>]\<rparr>)"
        using Some by (simp add: mark_route_def)
      ultimately have "held_sound H (reroute dpc (MaRoute dpc s status) forced before after d (?t (mark_route dpc i status m)))" for forced before after
        by (rule reroute_sound) (simp_all add: is_mark_def)
      then show ?thesis using Some i assms by (simp add: route_message_def Let_def)
    qed
  qed
qed

lemma received_from_sound:
  assumes "held_sound H m"
  shows "held_sound H (received_from fv s slc message m)"
proof -
  have view: "held_view H (f m) = held_view H m \<Longrightarrow> held_sound H (f m)" for f using held_sound_view [OF _ assms] .
  show ?thesis
    using route_message_sound [OF assms] assms
    by (cases message) (auto simp: received_from_def view split: option.split)
qed

lemma mg_event_sound:
  assumes "held_sound H m"
  shows "held_sound H (mg_event fv input m)"
proof -
  have view: "held_view H m' = held_view H m \<Longrightarrow> held_sound H m'" for m' using held_sound_view [OF _ assms] .
  have "held_sound H (mg_received fv l opc slc message m)" for l opc slc message
    using received_from_sound [OF assms] assms by (cases message) (auto simp: mg_received_def view split: option.split)
  moreover have "held_sound H (mg_timeout fv t m)" for t
    using release_destination_sound [OF assms] assms by (cases t) (auto simp: view)
  ultimately show ?thesis using assms by (cases input) (auto simp: view)
qed

text \<open>A state between two events: what it defers are marks of routes.\<close>

definition defers_marks :: "management \<Rightarrow> bool" where
  "defers_marks m \<longleftrightarrow> mg_out m = [] \<and> (\<forall>k d. dest_of m k = Some d \<longrightarrow> list_all is_mark (kd_deferred d))"

lemma mg_handle_held:
  assumes "defers_marks m"
  shows "defers_marks (fst (mg_handle fv input m)) \<and>
    fold hold_watch (snd (mg_handle fv input m)) (Some (holds m)) = Some (holds (fst (mg_handle fv input m)))"
proof -
  have "held_sound (holds m) m" using assms by (simp add: held_sound_def defers_marks_def)
  then have ev: "held_sound (holds m) (mg_event fv input m)" by (rule mg_event_sound)
  have "held_sound (holds m) (watch_isolation (settle fv (mg_event fv input m)))" by (rule held_sound_view [OF _ ev]) simp
  then have "held_sound (holds m) (mg_process fv input m)" using ev by (simp add: mg_process_def Let_def)
  then show ?thesis by (auto simp: mg_handle_def Let_def held_sound_def defers_marks_def holds_def dest_of_def)
qed

lemma mg_new_held: "defers_marks (mg_new tp ts tfp_unknown)" "holds (mg_new tp ts tfp_unknown) = {}"
  by (auto simp: defers_marks_def holds_def mg_new_def dest_of_def mg_destination_new_def split: option.splits)

section \<open>A mark that comes too late\<close>

text \<open>Two linksets to the points 2 and 3, and a destination reached by both.\<close>

definition stale_topology :: topology where
  "stale_topology = \<lparr>tp_own_pc = 1,
     tp_linksets = [\<lparr>lss_name = ''A'', lss_adjacent = Some 2, lss_links = [0]\<rparr>, \<lparr>lss_name = ''B'', lss_adjacent = Some 3, lss_links = [1]\<rparr>],
     tp_links = [\<lparr>lks_name = ''a'', lks_linkset = 0, lks_slc = 0\<rparr>, \<lparr>lks_name = ''b'', lks_linkset = 1, lks_slc = 0\<rparr>], tp_servers = [],
     tp_routes = [(2, [\<lparr>rsp_via = ViaLinkset 0, rsp_priority = 0\<rparr>]), (3, [\<lparr>rsp_via = ViaLinkset 1, rsp_priority = 0\<rparr>]),
       (5, [\<lparr>rsp_via = ViaLinkset 0, rsp_priority = 1\<rparr>, \<lparr>rsp_via = ViaLinkset 1, rsp_priority = 1\<rparr>])]\<rparr>"

fun mg_replay :: "from_value \<Rightarrow> mg_input list \<Rightarrow> management \<Rightarrow> management \<times> mg_action list" where
  "mg_replay fv [] m = (m, [])"
| "mg_replay fv (e # es) m =
     (case mg_handle fv e m of (m, a) \<Rightarrow> case mg_replay fv es m of (m, b) \<Rightarrow> (m, a @ b))"

text \<open>
  Both links come into service and the restart ends; point 2 restricts the destination, which is held
  for T6; the link to it fails and returns, and with the changeover over, point 2 restarts; T6 runs
  out.
\<close>

definition stale_events :: "mg_input list" where
  "stale_events = [MiLinkUp 0, MiReceived 0 2 0 Tra, MiLinkUp 1, MiReceived 1 3 0 Tra,
     MiReceived 0 2 0 (Tfr \<lparr>pc_value = 5, pc_variant = Itu\<rparr>), MiLinkDown 0 0, MiLinkUp 0, MiTimeout (TmChangeover 0), MiTimeout (TmRerouting 5)]"

definition marks_of :: "u32 \<Rightarrow> linkset_id \<Rightarrow> mg_action list \<Rightarrow> route_status list" where
  "marks_of dpc s as = List.map_filter (\<lambda>a. case a of MaRoute d t st \<Rightarrow> if d = dpc \<and> t = s then Some st else None | _ \<Rightarrow> None) as"


end
