(* ===== verification/Mgmt_Runner.thy ===== *)
theory Mgmt_Runner
  imports Forward_Correct Mgmt_Held "HOL-Library.Product_Lexorder"
begin

text \<open>
  The task that runs network management (\<^verbatim>\<open>src/src/transport/management.rs\<close>): it hands the machine of
  \<open>Mtp3_Management\<close> its inputs, carries out what it asks for on the registry, the router and the links,
  and keeps a deadline for every timer it starts. An instant is a number of milliseconds, and one turn
  of the task reads the clock once.
\<close>

section \<open>The order of timers\<close>

text \<open>The derived order of the source: by variant in the order of declaration, then by its fields.\<close>

fun timer_rank :: "mg_timer \<Rightarrow> nat \<times> nat \<times> nat" where
  "timer_rank (TmChangeover l) = (0, l, 0)"
| "timer_rank (TmChangeback l) = (1, l, 0)"
| "timer_rank (TmRerouting dpc) = (2, unat dpc, 0)"
| "timer_rank (TmProhibited dpc) = (3, unat dpc, 0)"
| "timer_rank (TmRouteSetTest dpc s) = (4, unat dpc, s)"
| "timer_rank (TmUninhibit l) = (5, l, 0)"
| "timer_rank (TmForceUninhibit l) = (6, l, 0)"
| "timer_rank TmRestart = (7, 0, 0)"
| "timer_rank (TmRestartAllowed s) = (8, s, 0)"
| "timer_rank TmRestartOverall = (9, 0, 0)"
| "timer_rank (TmAdjacentRestart s) = (10, s, 0)"
| "timer_rank (TmInhibitTest l) = (11, l, 0)"
| "timer_rank TmIsolation = (12, 0, 0)"

lemma timer_rank_inj: "timer_rank t = timer_rank u \<longleftrightarrow> t = u"
  by (cases t; cases u) (simp_all add: word_unat_eq_iff)

instantiation mg_timer :: linorder
begin

definition less_eq_mg_timer :: "mg_timer \<Rightarrow> mg_timer \<Rightarrow> bool" where
  "less_eq_mg_timer t u \<longleftrightarrow> timer_rank t \<le> timer_rank u"

definition less_mg_timer :: "mg_timer \<Rightarrow> mg_timer \<Rightarrow> bool" where
  "less_mg_timer t u \<longleftrightarrow> timer_rank t < timer_rank u"

instance
proof
  fix t u v :: mg_timer
  show "t < u \<longleftrightarrow> t \<le> u \<and> \<not> u \<le> t" by (simp add: less_eq_mg_timer_def less_mg_timer_def less_le_not_le)
  show "t \<le> t" by (simp add: less_eq_mg_timer_def)
  show "t \<le> u \<Longrightarrow> u \<le> v \<Longrightarrow> t \<le> v" unfolding less_eq_mg_timer_def by (rule order_trans)
  show "t \<le> u \<Longrightarrow> u \<le> t \<Longrightarrow> t = u" unfolding less_eq_mg_timer_def timer_rank_inj [symmetric] by (rule order_antisym)
  show "t \<le> u \<or> u \<le> t" unfolding less_eq_mg_timer_def by (rule linear)
qed

end

section \<open>The task\<close>

record 'mt runtime =
  rt_machine :: management
  rt_fw :: "'mt fw_state"
  rt_deadlines :: "(mg_timer, nat) btree"
  rt_own_pc :: u32
  rt_ni :: u8

definition port_for :: "'mt fw_state \<Rightarrow> link_id \<Rightarrow> (string \<times> link_port) option" where
  "port_for st l =
     Option.bind (registry_link (fw_registry st) l) (\<lambda>s. map_option (\<lambda>p. (rg_links (fw_registry st) ! l, p)) (sl_link s))"

definition set_port :: "string \<Rightarrow> link_port \<Rightarrow> 'mt fw_state \<Rightarrow> 'mt fw_state" where
  "set_port x p st = st\<lparr>fw_registry := set_slot x (\<lambda>s. s\<lparr>sl_link := Some p\<rparr>) (fw_registry st)\<rparr>"

definition command_port :: "link_id \<Rightarrow> link_command \<Rightarrow> 'mt fw_state \<Rightarrow> 'mt fw_state" where
  "command_port l c st = (case port_for st l of None \<Rightarrow> st | Some (x, p) \<Rightarrow> set_port x (port_command c p) st)"

text \<open>The encoder of management messages (of the crate \<^verbatim>\<open>mtp3\<close>) is the parameter \<open>enc\<close>.\<close>

definition mg_transmit ::
  "('x, 'mt) fw_ctx \<Rightarrow> (mgmt_message \<Rightarrow> bytes option) \<Rightarrow> u32 \<Rightarrow> u8 \<Rightarrow> u32 \<Rightarrow> u8 \<Rightarrow> mgmt_message \<Rightarrow> mg_path \<Rightarrow> 'mt fw_state \<Rightarrow> 'mt fw_state" where
  "mg_transmit ctx enc own_pc ni dpc slc message path st =
     (case enc message of
        None \<Rightarrow> put_out (FxDiscard DiscardNoPath) st
      | Some payload \<Rightarrow>
          let m = \<lparr>msu_opc = own_pc, msu_dpc = dpc, msu_si = SI_MANAGEMENT, msu_ni = ni, msu_mp = 0, msu_sls = slc, msu_payload = payload\<rparr>
          in case mtp3_msu (fx_codecs ctx) m of
               None \<Rightarrow> put_out (FxDiscard DiscardNoPath) st
             | Some raw \<Rightarrow>
                 (case path of
                    PathLink l \<Rightarrow> command_port l (CmdDirect raw) st
                  | PathBehind l \<Rightarrow>
                      (case port_for st l of
                         None \<Rightarrow> st
                       | Some (x, p) \<Rightarrow>
                           (case port_offer raw p of (p', taken) \<Rightarrow>
                              if taken then set_port x p' st else put_out (FxDiscard DiscardNoPath) st))
                  | PathAdjacent s avoid \<Rightarrow>
                      let r = fw_registry st;
                          direct = find (\<lambda>x. case slot_of r x of
                                      None \<Rightarrow> False
                                    | Some slot \<Rightarrow> is_carrying slot \<and>
                                        (case sl_link slot of Some p \<Rightarrow> lst_index (lp_settings p) \<noteq> avoid | None \<Rightarrow> False)) (linkset_links r s)
                      in (case Option.bind direct (\<lambda>x. map_option (\<lambda>p. (x, p)) (Option.bind (slot_of r x) sl_link)) of
                            Some (x, p) \<Rightarrow> set_port x (port_command (CmdDirect raw) p) st
                          | None \<Rightarrow>
                              (case egress_for (cd_point_code (fx_codecs ctx)) (fx_tenant ctx) dpc slc
                                      (map_option Linkset (linkset_name r s)) (fw_tenancy st) of
                                 Some via \<Rightarrow> send_via ctx via m st
                               | None \<Rightarrow> put_out (FxDiscard DiscardNoPath) st))))"

definition report_change :: "destination_change \<Rightarrow> 'mt fw_state \<Rightarrow> 'mt fw_state" where
  "report_change c st = fold (\<lambda>x. put_out (FxReport x)) (announce c) st"

text \<open>What an action does to the registry, the router and the links.\<close>

definition act_outside ::
  "('x, 'mt) fw_ctx \<Rightarrow> (mgmt_message \<Rightarrow> bytes option) \<Rightarrow> u32 \<Rightarrow> u8 \<Rightarrow> mg_action \<Rightarrow> 'mt fw_state \<Rightarrow> 'mt fw_state" where
  "act_outside ctx enc own_pc ni a st =
     (case a of
        MaSend dpc slc message path \<Rightarrow> mg_transmit ctx enc own_pc ni dpc slc message path st
      | MaStart t after \<Rightarrow> st
      | MaStop t \<Rightarrow> st
      | MaHold l \<Rightarrow> command_port l (CmdHold True) st
      | MaOpen l \<Rightarrow> command_port l CmdOpen st
      | MaDivert l fsnc \<Rightarrow> command_port l (CmdDivert fsnc) st
      | MaFail l \<Rightarrow> command_port l CmdFail st
      | MaRoute dpc s status \<Rightarrow>
          (case linkset_name (fw_registry st) s of
             None \<Rightarrow> st
           | Some name \<Rightarrow> st\<lparr>fw_tenancy := note_route_status (fx_tenant ctx) dpc (Linkset name) status (fw_tenancy st)\<rparr>)
      | MaHoldDestination dpc \<Rightarrow> st\<lparr>fw_registry := hold_destination dpc (fw_registry st)\<rparr>
      | MaReleaseDestination dpc \<Rightarrow> (case release_rounds ctx dpc 2 st of Some st' \<Rightarrow> st' | None \<Rightarrow> st)
      | MaAccessibility dpc accessible \<Rightarrow> report_change (if accessible then ChAccessible dpc else ChInaccessible dpc) st
      | MaRestricted dpc restricted \<Rightarrow> report_change (if restricted then ChRestricted dpc else ChAccessible dpc) st
      | MaRestarting on \<Rightarrow> st\<lparr>fw_registry := set_restarting on (fw_registry st)\<rparr>
      | MaCongestion dpc status \<Rightarrow> report_change (ChCongested dpc status) st
      | MaNote procedure subject \<Rightarrow> st
      | MaIgnored message why \<Rightarrow> put_out (FxDiscard DiscardManagement) st)"

definition mg_perform ::
  "('x, 'mt) fw_ctx \<Rightarrow> (mgmt_message \<Rightarrow> bytes option) \<Rightarrow> nat \<Rightarrow> mg_action \<Rightarrow> 'mt runtime \<Rightarrow> 'mt runtime" where
  "mg_perform ctx enc now a rt =
     (let rt = rt\<lparr>rt_fw := act_outside ctx enc (rt_own_pc rt) (rt_ni rt) a (rt_fw rt)\<rparr>
      in case a of
           MaStart t after \<Rightarrow> rt\<lparr>rt_deadlines := bt_insert t (now + after) (rt_deadlines rt)\<rparr>
         | MaStop t \<Rightarrow> rt\<lparr>rt_deadlines := bt_remove t (rt_deadlines rt)\<rparr>
         | _ \<Rightarrow> rt)"

definition mg_feed ::
  "('x, 'mt) fw_ctx \<Rightarrow> (mgmt_message \<Rightarrow> bytes option) \<Rightarrow> nat \<Rightarrow> mg_input \<Rightarrow> 'mt runtime \<Rightarrow> 'mt runtime" where
  "mg_feed ctx enc now input rt =
     (case mg_handle (cd_point_code (fx_codecs ctx)) input (rt_machine rt) of (machine, actions) \<Rightarrow>
        fold (mg_perform ctx enc now) actions (rt\<lparr>rt_machine := machine\<rparr>))"

definition mg_due :: "nat \<Rightarrow> 'mt runtime \<Rightarrow> 'mt runtime \<times> mg_timer list" where
  "mg_due now rt =
     (let due = sort (map (\<lambda>(t, at). (at, t)) (filter (\<lambda>(t, at). at \<le> now) (rt_deadlines rt)))
      in (rt\<lparr>rt_deadlines := fold (\<lambda>(_, t). bt_remove t) due (rt_deadlines rt)\<rparr>, map snd due))"

text \<open>When the sleep of the loop ends; it never does when nothing is to be waited for.\<close>

definition mg_wake :: "'mt runtime \<Rightarrow> nat option" where
  "mg_wake rt = (if rt_deadlines rt = [] then None else Some (Min (set (map snd (rt_deadlines rt)))))"

definition mg_start :: "management \<Rightarrow> string \<Rightarrow> 'mt fw_state \<Rightarrow> 'mt runtime" where
  "mg_start machine tenant st =
     \<lparr>rt_machine = machine, rt_fw = st, rt_deadlines = [], rt_own_pc = tp_own_pc (mg_topology machine),
      rt_ni = node_network_indicator tenant (fw_tenancy st)\<rparr>"

datatype mg_event_at = Arrives mg_input nat | Wakes nat

text \<open>One turn of the loop: an input of either channel, or the timers that ran out, one after the other.\<close>

definition mg_turn :: "('x, 'mt) fw_ctx \<Rightarrow> (mgmt_message \<Rightarrow> bytes option) \<Rightarrow> mg_event_at \<Rightarrow> 'mt runtime \<Rightarrow> 'mt runtime" where
  "mg_turn ctx enc e rt =
     (case e of
        Arrives input now \<Rightarrow> mg_feed ctx enc now input rt
      | Wakes now \<Rightarrow> (case mg_due now rt of (rt, timers) \<Rightarrow> fold (\<lambda>t. mg_feed ctx enc now (MiTimeout t)) timers rt))"

section \<open>Deadlines\<close>

text \<open>
  What the task keeps to: the machine is managed for some set of observations \<open>A\<close>, and every timer
  in \<open>A\<close> has a deadline or is among \<open>pending\<close>, the timers taken out of the deadlines and not yet fed.
\<close>

definition clocked :: "from_value \<Rightarrow> mg_timer set \<Rightarrow> 'mt runtime \<Rightarrow> bool" where
  "clocked fv pending rt \<longleftrightarrow>
     (\<exists>A. managed fv (rt_machine rt) A \<and> (\<forall>t. Running t \<in> A \<longrightarrow> t \<in> fst ` set (rt_deadlines rt) \<or> t \<in> pending))"

lemma mg_perform_machine [simp]: "rt_machine (mg_perform ctx enc now a rt) = rt_machine rt"
  by (simp add: mg_perform_def Let_def split: mg_action.split)

lemma performed_machine [simp]: "rt_machine (fold (mg_perform ctx enc now) as rt) = rt_machine rt"
  by (induction as arbitrary: rt) simp_all

lemma bt_insert_dom: "fst ` set (bt_insert k v m) = insert k (fst ` set m)"
  by (induction k v m rule: bt_insert.induct) auto

lemma mg_perform_deadlines:
  "fst ` set (rt_deadlines (mg_perform ctx enc now a rt)) =
     (case a of MaStart t _ \<Rightarrow> insert t (fst ` set (rt_deadlines rt)) | MaStop t \<Rightarrow> fst ` set (rt_deadlines rt) - {t}
      | _ \<Rightarrow> fst ` set (rt_deadlines rt))"
  by (cases a) (auto simp: mg_perform_def Let_def bt_insert_dom bt_remove_def)

lemma performed_deadlines:
  assumes "\<forall>t. Running t \<in> A \<longrightarrow> t \<in> fst ` set (rt_deadlines rt) \<or> t \<in> pending"
  shows "\<forall>t. Running t \<in> fold watch as A \<longrightarrow> t \<in> fst ` set (rt_deadlines (fold (mg_perform ctx enc now) as rt)) \<or> t \<in> pending"
  using assms
proof (induction as arbitrary: A rt)
  case (Cons a as)
  have "\<forall>t. Running t \<in> watch a A \<longrightarrow> t \<in> fst ` set (rt_deadlines (mg_perform ctx enc now a rt)) \<or> t \<in> pending"
    using Cons.prems unfolding mg_perform_deadlines by (cases a) auto
  from Cons.IH [OF this] show ?case by simp
qed simp

lemma mg_feed_clocked:
  assumes "clocked (cd_point_code (fx_codecs ctx)) pending rt" and "\<And>t. input = MiTimeout t \<Longrightarrow> pending = insert t pending'"
    and "expires input = {} \<Longrightarrow> pending = pending'"
  shows "clocked (cd_point_code (fx_codecs ctx)) pending' (mg_feed ctx enc now input rt)"
proof -
  let ?fv = "cd_point_code (fx_codecs ctx)"
  obtain A where A: "managed ?fv (rt_machine rt) A" "\<forall>t. Running t \<in> A \<longrightarrow> t \<in> fst ` set (rt_deadlines rt) \<or> t \<in> pending"
    using assms(1) unfolding clocked_def by blast
  obtain m acts where h: "mg_handle ?fv input (rt_machine rt) = (m, acts)" by force
  have "managed ?fv m (fold watch acts (A - expires input))" using mg_handle_managed [OF A(1), of input] h by simp
  moreover have "\<forall>t. Running t \<in> A - expires input \<longrightarrow> t \<in> fst ` set (rt_deadlines (rt\<lparr>rt_machine := m\<rparr>)) \<or> t \<in> pending'"
    using A(2) assms(2,3) by (cases input) auto
  note performed_deadlines [OF this, of acts ctx enc now]
  ultimately show ?thesis by (auto simp: clocked_def mg_feed_def h)
qed

lemma mg_feeds_clocked:
  assumes "clocked (cd_point_code (fx_codecs ctx)) (set timers) rt"
  shows "clocked (cd_point_code (fx_codecs ctx)) {} (fold (\<lambda>t. mg_feed ctx enc now (MiTimeout t)) timers rt)"
  using assms
proof (induction timers arbitrary: rt)
  case (Cons t timers)
  have "clocked (cd_point_code (fx_codecs ctx)) (set timers) (mg_feed ctx enc now (MiTimeout t) rt)"
    by (rule mg_feed_clocked [OF Cons.prems]) auto
  from Cons.IH [OF this] show ?case by simp
qed simp

lemma mg_due_parts:
  assumes "mg_due now rt = (rt', timers)"
  shows "rt_machine rt' = rt_machine rt"
    and "set timers = fst ` {x \<in> set (rt_deadlines rt). snd x \<le> now}"
    and "rt_deadlines rt' = filter (\<lambda>x. fst x \<notin> set timers) (rt_deadlines rt)"
proof -
  have removed: "fold (\<lambda>(_, t). bt_remove t) xs m = filter (\<lambda>x. fst x \<notin> snd ` set xs) m" for xs :: "(nat \<times> mg_timer) list" and m
    by (induction xs arbitrary: m) (auto simp: bt_remove_def intro: filter_cong)
  let ?due = "sort (map (\<lambda>(t, at). (at, t)) (filter (\<lambda>(t, at). at \<le> now) (rt_deadlines rt)))"
  have t: "timers = map snd ?due" using assms by (auto simp: mg_due_def Let_def)
  show "rt_machine rt' = rt_machine rt" using assms by (auto simp: mg_due_def Let_def)
  show "set timers = fst ` {x \<in> set (rt_deadlines rt). snd x \<le> now}" unfolding t by force
  have "rt_deadlines rt' = fold (\<lambda>(_, t). bt_remove t) ?due (rt_deadlines rt)" using assms by (auto simp: mg_due_def Let_def)
  then show "rt_deadlines rt' = filter (\<lambda>x. fst x \<notin> set timers) (rt_deadlines rt)" unfolding removed t by simp
qed

lemma mg_turn_clocked:
  assumes "clocked (cd_point_code (fx_codecs ctx)) {} rt" and "\<And>t now. e \<noteq> Arrives (MiTimeout t) now"
  shows "clocked (cd_point_code (fx_codecs ctx)) {} (mg_turn ctx enc e rt)"
proof (cases e)
  case (Arrives input now)
  then have "input \<noteq> MiTimeout t" for t using assms(2) [of t now] by simp
  then show ?thesis using Arrives mg_feed_clocked [OF assms(1), of input "{}"] by (simp add: mg_turn_def)
next
  case (Wakes now)
  obtain rt' timers where d: "mg_due now rt = (rt', timers)" by force
  have "clocked (cd_point_code (fx_codecs ctx)) (set timers) rt'"
  proof -
    obtain A where A: "managed (cd_point_code (fx_codecs ctx)) (rt_machine rt) A" "\<And>t. Running t \<in> A \<Longrightarrow> t \<in> fst ` set (rt_deadlines rt)"
      using assms(1) unfolding clocked_def by blast
    then have "t \<in> fst ` set (rt_deadlines rt') \<or> t \<in> set timers" if "Running t \<in> A" for t
      using that unfolding mg_due_parts(3) [OF d] by force
    then show ?thesis unfolding clocked_def using A(1) mg_due_parts(1) [OF d] by metis
  qed
  from mg_feeds_clocked [OF this] show ?thesis using Wakes d by (simp add: mg_turn_def)
qed

text \<open>The turns of the task, from the machine of a tenant; a time-out is never put into its channels.\<close>

inductive mg_runs :: "('x, 'mt) fw_ctx \<Rightarrow> (mgmt_message \<Rightarrow> bytes option) \<Rightarrow> 'mt runtime \<Rightarrow> 'mt runtime \<Rightarrow> bool" for ctx enc rt0 where
  runs_start: "mg_runs ctx enc rt0 rt0"
| runs_arrives: "mg_runs ctx enc rt0 rt \<Longrightarrow> expires input = {} \<Longrightarrow> mg_runs ctx enc rt0 (mg_turn ctx enc (Arrives input now) rt)"
| runs_wakes: "mg_runs ctx enc rt0 rt \<Longrightarrow> mg_runs ctx enc rt0 (mg_turn ctx enc (Wakes now) rt)"

lemma mg_runs_clocked:
  assumes "mg_runs ctx enc rt0 rt" and "clocked (cd_point_code (fx_codecs ctx)) {} rt0"
  shows "clocked (cd_point_code (fx_codecs ctx)) {} rt"
  using assms(1)
proof (induction rule: mg_runs.induct)
  case (runs_arrives rt input now)
  then show ?case by (intro mg_turn_clocked) auto
qed (use assms(2) mg_turn_clocked in auto)

text \<open>
  C25: the task never loses the clock of a procedure. However inputs and time-outs follow each other
  (several timers running out in one turn, the time-out of one stopping or starting another of them),
  whenever the loop waits, each procedure in progress has a deadline among those it keeps, and it
  wakes at the earliest of them.
\<close>

theorem runner_keeps_clock:
  assumes "mg_runs ctx enc (mg_start (mg_new (topology_build fv t associations) ts tfp_unknown) tenant st) rt"
    and "fv = cd_point_code (fx_codecs ctx)" and "destinations_valid fv (topology_build fv t associations)"
    and "needed (rt_machine rt) timer"
  shows "case mg_wake rt of
      None \<Rightarrow> False
    | Some wake \<Rightarrow> \<exists>at. (timer, at) \<in> set (rt_deadlines rt) \<and> wake \<le> at"
proof -
  have "managed fv (mg_new (topology_build fv t associations) ts tfp_unknown) {}"
    by (rule mg_new_managed [OF topology_build_wf assms(3)])
  then have "clocked (cd_point_code (fx_codecs ctx)) {} (mg_start (mg_new (topology_build fv t associations) ts tfp_unknown) tenant st)"
    using assms(2) by (auto simp: clocked_def mg_start_def)
  from mg_runs_clocked [OF assms(1) this] obtain A where A: "managed fv (rt_machine rt) A" "\<forall>t. Running t \<in> A \<longrightarrow> t \<in> fst ` set (rt_deadlines rt)"
    unfolding clocked_def assms(2) by blast
  then have "timer \<in> fst ` set (rt_deadlines rt)" using fine_needed [OF _ assms(4)] unfolding managed_def by blast
  then obtain at where "(timer, at) \<in> set (rt_deadlines rt)" by force
  then show ?thesis by (force simp: mg_wake_def intro!: exI [of _ at] Min_le)
qed

text \<open>
  A wake-up hands out the timers whose deadline has passed, each once, the earliest first and
  those of one instant in the order of timers, and keeps exactly the deadlines still to come.
\<close>

theorem due_exact:
  assumes "bt_ok (rt_deadlines rt)"
  shows "case mg_due now rt of (rt', timers) \<Rightarrow>
    distinct timers \<and> set timers = fst ` {x \<in> set (rt_deadlines rt). snd x \<le> now} \<and>
    sorted (map (\<lambda>t. (the (bt_get t (rt_deadlines rt)), t)) timers) \<and>
    rt_deadlines rt' = filter (\<lambda>x. now < snd x) (rt_deadlines rt)"
proof -
  let ?dl = "rt_deadlines rt"
  let ?due = "sort (map (\<lambda>(t, at). (at, t)) (filter (\<lambda>(t, at). at \<le> now) ?dl))"
  obtain rt' timers where d: "mg_due now rt = (rt', timers)" by force
  have t: "timers = map snd ?due" using d by (auto simp: mg_due_def Let_def)
  have dist: "distinct (map fst ?dl)" using bt_ok_distinct [OF assms] .
  have get: "bt_get (fst x) ?dl = Some (snd x)" if "x \<in> set ?dl" for x
    using that dist by (simp add: bt_get_def)
  have "map (\<lambda>t. (the (bt_get t ?dl), t)) timers = map (\<lambda>x. (the (bt_get (snd x) ?dl), snd x)) ?due" unfolding t by simp
  also have "\<dots> = ?due"
  proof (rule map_idI)
    fix x
    assume "x \<in> set ?due"
    then have "(snd x, fst x) \<in> set ?dl" by auto
    then show "(the (bt_get (snd x) ?dl), snd x) = x" using get [of "(snd x, fst x)"] by simp
  qed
  finally have "sorted (map (\<lambda>t. (the (bt_get t ?dl), t)) timers)" by simp
  moreover have "mset timers = mset (map fst (filter (\<lambda>x. snd x \<le> now) ?dl))"
  proof -
    have "mset timers = image_mset snd (mset (map (\<lambda>(t, at). (at, t)) (filter (\<lambda>(t, at). at \<le> now) ?dl)))" unfolding t by simp
    also have "\<dots> = image_mset fst (mset (filter (\<lambda>x. snd x \<le> now) ?dl))"
      by (simp add: image_mset.compositionality comp_def case_prod_beta)
    finally show ?thesis by simp
  qed
  then have "distinct timers" using dist by (metis distinct_map_filter mset_eq_imp_distinct_iff)
  moreover have "fst x \<notin> set timers \<longleftrightarrow> now < snd x" if "x \<in> set ?dl" for x
  proof -
    have "y = x" if "y \<in> set ?dl" "fst y = fst x" for y
      using get [OF that(1)] get [OF \<open>x \<in> set ?dl\<close>] that(2) by (simp add: prod_eq_iff)
    then show ?thesis unfolding mg_due_parts(2) [OF d] using that by (force simp: not_le)
  qed
  then have "rt_deadlines rt' = filter (\<lambda>x. now < snd x) ?dl" unfolding mg_due_parts(3) [OF d] by (intro filter_cong) auto
  ultimately show ?thesis using d mg_due_parts(2) [OF d] by simp
qed

section \<open>Destinations held\<close>

definition held_keys :: "'mt fw_state \<Rightarrow> u32 set" where
  "held_keys st = fst ` set (rg_held (fw_registry st))"

lemma held_keys_put_out [simp]: "held_keys (put_out x st) = held_keys st"
  by (simp add: held_keys_def)

lemma held_keys_port [simp]: "held_keys (set_port x p st) = held_keys st" "held_keys (command_port l c st) = held_keys st"
proof -
  show port: "held_keys (set_port x p st) = held_keys st" for x p by (simp add: held_keys_def set_port_def)
  show "held_keys (command_port l c st) = held_keys st" by (simp add: command_port_def port split: option.split prod.split)
qed

lemma held_keys_send_via [simp]: "held_keys (send_via ctx via m st) = held_keys st"
proof -
  obtain r held where h: "hold_if_rerouting m (fw_registry st) = (r, held)" by force
  have "fst ` set (rg_held r) = held_keys st"
  proof (cases "bt_get (msu_dpc m) (rg_held (fw_registry st))")
    case None
    then show ?thesis using h by (auto simp: hold_if_rerouting_def held_keys_def split: if_splits)
  next
    case (Some b)
    then have "msu_dpc m \<in> held_keys st" using bt_get_dom [of "msu_dpc m" "rg_held (fw_registry st)"] by (simp add: held_keys_def)
    then have "fst ` set (bt_insert (msu_dpc m) (b @ [m]) (rg_held (fw_registry st))) = held_keys st"
      unfolding bt_insert_dom by (auto simp: held_keys_def)
    moreover have "r = fw_registry st \<or> r = (fw_registry st)\<lparr>rg_held := bt_insert (msu_dpc m) (b @ [m]) (rg_held (fw_registry st))\<rparr>"
      using h Some by (auto simp: hold_if_rerouting_def split: if_splits)
    ultimately show ?thesis by (elim disjE) (simp_all add: held_keys_def)
  qed
  then show ?thesis using h by (simp add: send_via_def Let_def) (simp add: held_keys_def send_now_held)
qed

lemma held_keys_report [simp]: "held_keys (report_change c st) = held_keys st"
  by (simp add: report_change_def announce_def)

lemma held_keys_transmit [simp]: "held_keys (mg_transmit ctx enc own ni dpc slc message path st) = held_keys st"
  by (simp add: mg_transmit_def Let_def split: option.split mg_path.split prod.split)

lemma held_keys_hold: "held_keys (st\<lparr>fw_registry := hold_destination dpc (fw_registry st)\<rparr>) = insert dpc (held_keys st)"
  by (simp add: held_keys_def hold_destination_def bt_insert_dom Let_def)

lemma held_keys_release:
  "held_keys (case release_rounds ctx dpc 2 st of Some st' \<Rightarrow> st' | None \<Rightarrow> st) = held_keys st - {dpc}"
proof -
  obtain st' where st': "release_rounds ctx dpc 2 st = Some st'"
    using release_rounds_complete [of ctx dpc 0 st] by (auto simp: numeral_2_eq_2)
  have "bt_get d (rg_held (fw_registry st')) = (if d = dpc then None else bt_get d (rg_held (fw_registry st)))" for d
    using release_rounds_complete [of ctx dpc 0 st d] st' by (simp add: numeral_2_eq_2 del: release_rounds.simps)
  then have "d \<in> held_keys st' \<longleftrightarrow> d \<in> held_keys st - {dpc}" for d
    unfolding held_keys_def using bt_get_dom by (metis DiffD1 DiffD2 DiffI insertCI singletonD)
  then show ?thesis using st' by auto
qed

lemma act_outside_held:
  "held_keys (act_outside ctx enc own ni a st) =
     (case a of MaHoldDestination d \<Rightarrow> insert d (held_keys st) | MaReleaseDestination d \<Rightarrow> held_keys st - {d} | _ \<Rightarrow> held_keys st)"
proof (cases a)
  case (MaReleaseDestination d)
  then show ?thesis using held_keys_release by (simp add: act_outside_def del: release_rounds.simps)
next
  case (MaRoute dpc s status)
  then show ?thesis by (simp add: act_outside_def held_keys_def split: option.split)
next
  case (MaRestarting on)
  then show ?thesis by (simp add: act_outside_def held_keys_def set_restarting_def)
qed (simp_all add: act_outside_def held_keys_hold)

lemma mg_perform_fw: "rt_fw (mg_perform ctx enc now a rt) = act_outside ctx enc (rt_own_pc rt) (rt_ni rt) a (rt_fw rt)"
  by (simp add: mg_perform_def Let_def split: mg_action.split)

lemma hold_watch_None: "fold hold_watch as None = None"
  by (induction as) simp_all

text \<open>Each hold action of a list finds its destination without a buffer.\<close>

definition holds_fresh :: "('x, 'mt) fw_ctx \<Rightarrow> (mgmt_message \<Rightarrow> bytes option) \<Rightarrow> nat \<Rightarrow> mg_action list \<Rightarrow> 'mt runtime \<Rightarrow> bool" where
  "holds_fresh ctx enc now as rt \<longleftrightarrow>
     (\<forall>xs d ys. as = xs @ MaHoldDestination d # ys \<longrightarrow>
        bt_get d (rg_held (fw_registry (rt_fw (fold (mg_perform ctx enc now) xs rt)))) = None)"

lemma performed_held:
  assumes "fold hold_watch as (Some (held_keys (rt_fw rt))) = Some H"
  shows "held_keys (rt_fw (fold (mg_perform ctx enc now) as rt)) = H \<and> holds_fresh ctx enc now as rt"
  using assms
proof (induction as arbitrary: rt)
  case (Cons a as)
  let ?rt = "mg_perform ctx enc now a rt"
  have "hold_watch a (Some (held_keys (rt_fw rt))) \<noteq> None" using Cons.prems hold_watch_None by (metis fold_simps(2) option.distinct(1))
  then have step: "hold_watch a (Some (held_keys (rt_fw rt))) = Some (held_keys (rt_fw ?rt))"
      and fresh: "\<And>d. a = MaHoldDestination d \<Longrightarrow> d \<notin> held_keys (rt_fw rt)"
    by (cases a; simp add: mg_perform_fw act_outside_held split: if_splits)+
  have IH: "held_keys (rt_fw (fold (mg_perform ctx enc now) as ?rt)) = H" "holds_fresh ctx enc now as ?rt"
    using Cons.IH [of ?rt] Cons.prems step by simp_all
  have "bt_get d (rg_held (fw_registry (rt_fw (fold (mg_perform ctx enc now) xs rt)))) = None"
    if "a # as = xs @ MaHoldDestination d # ys" for xs d ys
  proof (cases xs)
    case Nil
    then show ?thesis using that fresh bt_get_dom by (fastforce simp: held_keys_def)
  next
    case (Cons b bs)
    then show ?thesis using that IH(2) by (auto simp: holds_fresh_def)
  qed
  then show ?case using IH(1) by (simp add: holds_fresh_def)
qed (simp add: holds_fresh_def)

definition holds_agree :: "'mt runtime \<Rightarrow> bool" where
  "holds_agree rt \<longleftrightarrow> defers_marks (rt_machine rt) \<and> held_keys (rt_fw rt) = holds (rt_machine rt)"

lemma mg_feed_agrees:
  assumes "holds_agree rt" and "mg_handle (cd_point_code (fx_codecs ctx)) input (rt_machine rt) = (m, as)"
  shows "holds_agree (mg_feed ctx enc now input rt) \<and> holds_fresh ctx enc now as (rt\<lparr>rt_machine := m\<rparr>)"
proof -
  have "defers_marks m" "fold hold_watch as (Some (held_keys (rt_fw (rt\<lparr>rt_machine := m\<rparr>)))) = Some (holds m)"
    using assms mg_handle_held [of "rt_machine rt" "cd_point_code (fx_codecs ctx)" input] by (simp_all add: holds_agree_def)
  with performed_held [OF this(2), of ctx enc now] show ?thesis using assms(2) by (simp add: holds_agree_def mg_feed_def)
qed

lemma mg_feed_agree: "holds_agree rt \<Longrightarrow> holds_agree (mg_feed ctx enc now input rt)"
  using mg_feed_agrees [of rt ctx input] by (cases "mg_handle (cd_point_code (fx_codecs ctx)) input (rt_machine rt)") blast

lemma mg_feeds_agree: "holds_agree rt \<Longrightarrow> holds_agree (fold (\<lambda>t. mg_feed ctx enc now (MiTimeout t)) ts rt)"
  by (induction ts arbitrary: rt) (simp_all add: mg_feed_agree)

lemma mg_turn_agrees:
  assumes "holds_agree rt"
  shows "holds_agree (mg_turn ctx enc e rt)"
proof (cases e)
  case (Arrives input now)
  then show ?thesis using assms by (simp add: mg_turn_def mg_feed_agree)
next
  case (Wakes now)
  have "holds_agree (fst (mg_due now rt))" using assms by (simp add: holds_agree_def mg_due_def Let_def)
  then show ?thesis using Wakes mg_feeds_agree by (auto simp: mg_turn_def split: prod.split)
qed

text \<open>
  C26: network management and the rerouting buffers agree. Whenever the task waits, the registry has a
  buffer for exactly the destinations whose traffic the machine is rerouting; and a hold never meets a
  buffer that is there, which it would replace, so no message held is lost by it.
\<close>

theorem runner_holds_once:
  assumes "mg_runs ctx enc (mg_start (mg_new tp ts tfp_unknown) tenant st) rt" and "rg_held (fw_registry st) = []"
  shows "(bt_get d (rg_held (fw_registry (rt_fw rt))) \<noteq> None) = (case dest_of (rt_machine rt) d of Some k \<Rightarrow> kd_holding k | None \<Rightarrow> False) \<and>
    (case mg_handle (cd_point_code (fx_codecs ctx)) input (rt_machine rt) of (m, as) \<Rightarrow>
       holds_fresh ctx enc now as (rt\<lparr>rt_machine := m\<rparr>))"
proof -
  have "holds_agree (mg_start (mg_new tp ts tfp_unknown) tenant st)"
    using assms(2) mg_new_held by (simp add: holds_agree_def mg_start_def held_keys_def)
  with assms(1) have agree: "holds_agree rt" by (induction rule: mg_runs.induct) (simp_all add: mg_turn_agrees)
  then have "d \<in> held_keys (rt_fw rt) \<longleftrightarrow> d \<in> holds (rt_machine rt)" by (simp add: holds_agree_def)
  then have "(bt_get d (rg_held (fw_registry (rt_fw rt))) \<noteq> None) = (case dest_of (rt_machine rt) d of Some k \<Rightarrow> kd_holding k | None \<Rightarrow> False)"
    unfolding bt_get_dom held_keys_def holds_def by simp
  moreover obtain m as where h: "mg_handle (cd_point_code (fx_codecs ctx)) input (rt_machine rt) = (m, as)" by force
  ultimately show ?thesis using mg_feed_agrees [OF agree h, of enc now] h by simp
qed

section \<open>An example\<close>

text \<open>The first link of \<open>mgmt_sample_tenant\<close> comes into service at the instant 100.\<close>

definition runner_sample_ctx :: "(unit, nat) fw_ctx" where
  "runner_sample_ctx = sample_ctx\<lparr>fx_codecs := sample_codecs\<lparr>cd_point_code := mgmt_sample_codes\<rparr>\<rparr>"

definition runner_sample :: "nat runtime" where
  "runner_sample = mg_turn runner_sample_ctx (\<lambda>_. Some []) (Arrives (MiLinkUp 0) 100) (mg_start mgmt_sample_start ''default'' sample_fw)"

theorem runner_keeps_clock_witness: "\<exists>at. (TmRestart, at) \<in> set (rt_deadlines runner_sample)"
proof -
  let ?rt0 = "mg_start (mg_new (topology_build mgmt_sample_codes mgmt_sample_tenant mgmt_sample_assocs) mgmt_sample_timers True) ''default'' sample_fw"
  have codes: "mgmt_sample_codes = cd_point_code (fx_codecs runner_sample_ctx)" by (simp add: runner_sample_ctx_def)
  have runs: "mg_runs runner_sample_ctx (\<lambda>_. Some []) ?rt0 runner_sample"
    unfolding runner_sample_def mgmt_sample_start_def mgmt_sample_topology_def by (rule runs_arrives [OF runs_start]) simp
  have "rt_machine runner_sample = fst mgmt_sample_up"
    by (simp add: runner_sample_def mg_turn_def mg_feed_def mgmt_sample_up_def mg_start_def flip: codes split: prod.split)
  then have "needed (rt_machine runner_sample) TmRestart" using mgmt_sample_values(1) by simp
  from runner_keeps_clock [OF runs codes mgmt_sample_valid this] show ?thesis by (auto split: option.splits)
qed

theorem due_exact_witness:
  "let rt = (mg_start mgmt_sample_start ''default'' sample_fw)\<lparr>rt_deadlines := [(TmChangeover 0, 5), (TmRestart, 3), (TmIsolation, 9)]\<rparr>
   in bt_ok (rt_deadlines rt) \<and> set (snd (mg_due 5 rt)) = {TmRestart, TmChangeover 0}"
proof -
  let ?rt = "(mg_start mgmt_sample_start ''default'' sample_fw)\<lparr>rt_deadlines := [(TmChangeover 0, 5), (TmRestart, 3), (TmIsolation, 9)]\<rparr>"
  have "bt_ok (rt_deadlines ?rt)" by (simp add: bt_ok_def less_mg_timer_def)
  then show ?thesis using due_exact [of ?rt 5] by (auto simp: case_prod_beta image_iff)
qed

theorem runner_holds_once_witness: "bt_get 5 (rg_held (fw_registry (rt_fw runner_sample))) = None"
proof -
  have runs: "mg_runs runner_sample_ctx (\<lambda>_. Some []) (mg_start mgmt_sample_start ''default'' sample_fw) runner_sample"
    unfolding runner_sample_def by (rule runs_arrives [OF runs_start]) simp
  have "rt_machine runner_sample = fst mgmt_sample_up"
    by (simp add: runner_sample_def mg_turn_def mg_feed_def mgmt_sample_up_def mg_start_def runner_sample_ctx_def split: prod.split)
  moreover have "(case dest_of (fst mgmt_sample_up) 5 of Some k \<Rightarrow> kd_holding k | None \<Rightarrow> False) = False" by code_simp
  moreover have "rg_held (fw_registry sample_fw) = []" by (simp add: sample_fw_def sample_registry_def)
  ultimately show ?thesis
    using runner_holds_once [OF runs [unfolded mgmt_sample_start_def], where d = 5 and input = "MiLinkUp 0" and now = 0] by simp
qed

end
