(* ===== verification/M2pa_Runner.thy ===== *)
theory M2pa_Runner
  imports Mgmt_Runner M2pa_Changeover M2pa_Pair
begin

text \<open>
  The task of an M2PA link (\<^verbatim>\<open>src/src/transport/m2pa.rs\<close>): it joins the link of \<open>M2pa_Link\<close> and the link
  test of \<open>M2pa_Changeover\<close> to the association, to the clock and to level 3, and serves the queues of the
  link when it has no association.

  One turn of the task reads the clock once. Whether the kernel takes the \<open>n\<close>-th frame is a parameter.
  The task owns the link, its test, its deadlines and its traffic side; the registry and the router are
  shared, and what others do to them between two turns is a step of its own. The queues of the port are
  those of the registry. Log lines and the counters of messages sent and received are left out.
\<close>

section \<open>State and effects\<close>

datatype rx_discard = RxUndecodable | RxPpid | RxLinkTest

datatype link_test_result = TestSent | TestPassed | TestFailed

datatype retrieved = RetrievedResent | RetrievedConfirmed | RetrievedLinkTest

datatype link_drop = DropRestarting | DropManagement | DropBufferFull

datatype link_effect =
    LxSend octets u16
  | LxRxDiscard rx_discard
  | LxFailure failure
  | LxDiscard discard nat
  | LxTest link_test_result
  | LxRetrieved retrieved nat
  | LxDrop link_drop
  | LxReport rg_effect
  | LxHolding

text \<open>The messages of the signalling link test, and what the task calls of other crates.\<close>

datatype test_message = Sltm octets | Slta octets

record ('x, 'mt) link_env =
  le_ctx :: "('x, 'mt) fw_ctx"
  le_encode :: m2pa_encode
  le_decode :: m2pa_decode
  le_test_encode :: "test_message \<Rightarrow> bytes option"
  le_test_decode :: "bytes \<Rightarrow> test_message option"
  le_accepts :: "nat \<Rightarrow> bool"

text \<open>What a task that serves the queues of a link has, and with an association.\<close>

record 'mt link_task =
  lt_slot :: string
  lt_settings :: link_settings
  lt_traffic :: link_traffic
  lt_fw :: "'mt fw_state"
  lt_log :: "link_effect list"

record 'mt link_runner = "'mt link_task" +
  rn_link :: link
  rn_test :: "link_test option"
  rn_link_deadlines :: "link_timer \<Rightarrow> instant option"
  rn_test_deadlines :: "test_timer \<Rightarrow> instant option"
  rn_restart :: "instant option"
  rn_lost :: bool
  rn_available :: bool
  rn_attempts :: nat

definition test_timer_all :: "test_timer list" where
  "test_timer_all = [TtT1, TtT2]"

definition deadlines_earliest :: "('mt, 'a) link_runner_scheme \<Rightarrow> instant option" where
  "deadlines_earliest rn =
     (let all = List.map_filter id (map (rn_link_deadlines rn) link_timer_all @ map (rn_test_deadlines rn) test_timer_all @ [rn_restart rn])
      in if all = [] then None else Some (Min (set all)))"

definition log_out :: "link_effect \<Rightarrow> ('mt, 'a) link_task_scheme \<Rightarrow> ('mt, 'a) link_task_scheme" where
  "log_out x t = t\<lparr>lt_log := lt_log t @ [x]\<rparr>"

definition on_fw :: "('mt fw_state \<Rightarrow> 'mt fw_state) \<Rightarrow> ('mt, 'a) link_task_scheme \<Rightarrow> ('mt, 'a) link_task_scheme" where
  "on_fw f t = t\<lparr>lt_fw := f (lt_fw t)\<rparr>"

section \<open>The port of the link and level 3\<close>

definition update_port :: "string \<Rightarrow> (link_port \<Rightarrow> link_port) \<Rightarrow> 'mt fw_state \<Rightarrow> 'mt fw_state" where
  "update_port x f st = st\<lparr>fw_registry := set_slot x (\<lambda>s. s\<lparr>sl_link := map_option f (sl_link s)\<rparr>) (fw_registry st)\<rparr>"

definition recompute_fw :: "'mt fw_state \<Rightarrow> 'mt fw_state" where
  "recompute_fw st =
     (case recompute (fw_registry st) (fw_tenancy st) of (r, ten, out) \<Rightarrow>
        fold (\<lambda>x. put_out (FxReport x)) out (st\<lparr>fw_registry := r, fw_tenancy := ten\<rparr>))"

definition own_port :: "('mt, 'a) link_task_scheme \<Rightarrow> link_port option" where
  "own_port t = Option.bind (slot_of (fw_registry (lt_fw t)) (lt_slot t)) sl_link"

definition tell_level3 :: "mg_input \<Rightarrow> ('mt, 'a) link_task_scheme \<Rightarrow> ('mt, 'a) link_task_scheme" where
  "tell_level3 input t = fold (\<lambda>x. log_out (LxReport x)) (manage input (fw_registry (lt_fw t))) t"

definition lost_with_the_link :: "nat \<Rightarrow> ('mt, 'a) link_task_scheme \<Rightarrow> ('mt, 'a) link_task_scheme" where
  "lost_with_the_link n t = (if n > 0 then log_out (LxDiscard DcTxLostOnFailure n) t else t)"

definition buffer_full :: "('mt, 'a) link_task_scheme \<Rightarrow> ('mt, 'a) link_task_scheme" where
  "buffer_full t = log_out (LxDrop DropBufferFull) t"

definition route_to :: "string \<Rightarrow> bool \<Rightarrow> 'mt fw_state \<Rightarrow> 'mt fw_state" where
  "route_to x on st = recompute_fw (update_port x (port_set_routable on) st)"

definition link_hold :: "bool \<Rightarrow> ('mt, 'a) link_task_scheme \<Rightarrow> ('mt, 'a) link_task_scheme" where
  "link_hold notify t =
     (let t = on_fw (route_to (lt_slot t) True) (t\<lparr>lt_traffic := traffic_hold (lt_traffic t)\<rparr>)
      in if notify then log_out LxHolding t else t)"

definition divert_all :: "('x, 'mt) link_env \<Rightarrow> u32 option \<Rightarrow> ('mt, 'a) link_task_scheme \<Rightarrow> ('mt, 'a) link_task_scheme" where
  "divert_all env fsnc t =
     (case traffic_divert fsnc (lt_traffic t) of (traffic, d) \<Rightarrow>
        let t = t\<lparr>lt_traffic := traffic\<rparr>;
            t = log_out (LxRetrieved RetrievedResent (dv_resent d)) t;
            t = log_out (LxRetrieved RetrievedConfirmed (dv_confirmed d)) t;
            t = log_out (LxRetrieved RetrievedLinkTest (dv_link_tests d)) t;
            t = lost_with_the_link (dv_unconfirmed d) t;
            t = on_fw (fold (\<lambda>m. reroute_msu (le_ctx env) m (lt_slot t)) (dv_messages d)) t
        in on_fw (route_to (lt_slot t) False) t)"

section \<open>The link test\<close>

definition test_msu :: "('x, 'mt) link_env \<Rightarrow> link_settings \<Rightarrow> u32 \<Rightarrow> u8 \<Rightarrow> test_message \<Rightarrow> octets option" where
  "test_msu env s dpc slc message =
     (case itu_pc (fx_codecs (le_ctx env)) (lst_own_pc s) of
        None \<Rightarrow> None
      | Some opc \<Rightarrow>
          (case itu_pc (fx_codecs (le_ctx env)) dpc of
             None \<Rightarrow> None
           | Some dpc \<Rightarrow>
               (case le_test_encode env message of
                  None \<Rightarrow> None
                | Some data \<Rightarrow>
                    Some (cd_mtp3_encode (fx_codecs (le_ctx env)) \<lparr>mx_si = SI_LINK_TEST, mx_ni = lst_ni s, mx_mp = 0, mx_opc = opc,
                      mx_dpc = dpc, mx_sls = slc, mx_data = data\<rparr>))))"

text \<open>
  A runner with what its link asked for and nobody has carried out yet (\<^verbatim>\<open>more\<close>); an operation of the
  link adds to it.
\<close>

type_synonym 'mt busy_runner = "'mt link_runner \<times> action list"

definition on_link :: "(link \<Rightarrow> link \<times> action list) \<Rightarrow> 'mt busy_runner \<Rightarrow> 'mt busy_runner" where
  "on_link f = (\<lambda>(rn, later). case f (rn_link rn) of (l, acts) \<Rightarrow> (rn\<lparr>rn_link := l\<rparr>, later @ acts))"

definition on_runner :: "('mt link_runner \<Rightarrow> 'mt link_runner) \<Rightarrow> 'mt busy_runner \<Rightarrow> 'mt busy_runner" where
  "on_runner f = (\<lambda>(rn, later). (f rn, later))"

definition send_test :: "('x, 'mt) link_env \<Rightarrow> instant \<Rightarrow> 'mt busy_runner \<Rightarrow> 'mt busy_runner" where
  "send_test env now b =
     (let s = lt_settings (fst b)
      in case (lst_test s, lst_adjacent_pc s) of
           (Some test, Some adjacent) \<Rightarrow>
             (case test_msu env s adjacent (lst_slc s) (Sltm (lts_pattern test)) of
                None \<Rightarrow> b
              | Some msu \<Rightarrow> on_link (link_send (le_encode env) msu now) (on_runner (log_out (LxTest TestSent)) b))
         | _ \<Rightarrow> b)"

definition apply_test_action :: "('x, 'mt) link_env \<Rightarrow> instant \<Rightarrow> test_action \<Rightarrow> 'mt busy_runner \<Rightarrow> 'mt busy_runner" where
  "apply_test_action env now a b =
     (case a of
        TaSendTest \<Rightarrow> send_test env now b
      | TaStart t after \<Rightarrow> on_runner (\<lambda>rn. rn\<lparr>rn_test_deadlines := (rn_test_deadlines rn)(t := Some (now + after))\<rparr>) b
      | TaStop t \<Rightarrow> on_runner (\<lambda>rn. rn\<lparr>rn_test_deadlines := (rn_test_deadlines rn)(t := None)\<rparr>) b
      | TaAvailable \<Rightarrow> on_runner (log_out (LxTest TestPassed)) b
      | TaAttemptFailed \<Rightarrow> on_runner (log_out (LxTest TestFailed)) b
      | TaFailed \<Rightarrow> on_link (link_fail (le_encode env) FlLinkTest) b)"

definition apply_test :: "('x, 'mt) link_env \<Rightarrow> instant \<Rightarrow> test_action list \<Rightarrow> 'mt busy_runner \<Rightarrow> 'mt busy_runner" where
  "apply_test env now acts b = fold (apply_test_action env now) acts b"

text \<open>An operation of the test, when the link has one, and what it asks for.\<close>

definition on_test ::
  "('x, 'mt) link_env \<Rightarrow> instant \<Rightarrow> (link_test \<Rightarrow> link_test \<times> test_action list) \<Rightarrow> 'mt busy_runner \<Rightarrow> 'mt busy_runner" where
  "on_test env now f b =
     (case rn_test (fst b) of
        None \<Rightarrow> b
      | Some test \<Rightarrow> (case f test of (test', out) \<Rightarrow> apply_test env now out (on_runner (\<lambda>rn. rn\<lparr>rn_test := Some test'\<rparr>) b)))"

definition link_test_message :: "('x, 'mt) link_env \<Rightarrow> instant \<Rightarrow> mtp3_unit \<Rightarrow> 'mt busy_runner \<Rightarrow> 'mt busy_runner" where
  "link_test_message env now m b =
     (let rn = fst b; s = lt_settings rn; refuse = on_runner (log_out (LxRxDiscard RxLinkTest)) b
      in case le_test_decode env (mx_data m) of
           None \<Rightarrow> on_runner (log_out (LxRxDiscard RxUndecodable)) b
         | Some message \<Rightarrow>
             if pc_value (mx_dpc m) \<noteq> lst_own_pc s then refuse
             else
               (case message of
                  Sltm pattern \<Rightarrow>
                    (case test_msu env s (pc_value (mx_opc m)) (mx_sls m) (Slta pattern) of
                       None \<Rightarrow> b
                     | Some reply \<Rightarrow>
                         if mx_sls m = lst_slc s then on_link (link_send (le_encode env) reply now) b
                         else
                           let r = fw_registry (lt_fw rn)
                           in (case Option.bind (link_by_slc r (lt_slot rn) (mx_sls m))
                                      (\<lambda>x. map_option (\<lambda>p. x) (Option.bind (slot_of r x) sl_link)) of
                                 Some x \<Rightarrow> on_runner (on_fw (update_port x (port_command (CmdDirect reply)))) b
                               | None \<Rightarrow> refuse))
                | Slta pattern \<Rightarrow>
                    (case rn_test rn of
                       None \<Rightarrow> refuse
                     | Some test \<Rightarrow>
                         if \<not> test_is_waiting test then refuse
                         else
                           let expected = map_option lts_pattern (lst_test s);
                               correct = (mx_sls m = lst_slc s \<and> Some (pc_value (mx_opc m)) = lst_adjacent_pc s \<and> Some pattern = expected)
                           in on_test env now (test_acknowledged correct) b)))"

section \<open>Messages received\<close>

definition management_message :: "('x, 'mt) link_env \<Rightarrow> mtp3_unit \<Rightarrow> 'mt link_runner \<Rightarrow> 'mt link_runner" where
  "management_message env m rn =
     (case fx_mgmt_decode (le_ctx env) Itu (mx_data m) of
        None \<Rightarrow> log_out (LxRxDiscard RxUndecodable) rn
      | Some message \<Rightarrow>
          (case lst_index (lt_settings rn) of
             Some l \<Rightarrow> tell_level3 (MiReceived l (pc_value (mx_opc m)) (mx_sls m) message) rn
           | None \<Rightarrow> log_out (LxDrop DropManagement) rn))"

definition link_deliver :: "('x, 'mt) link_env \<Rightarrow> instant \<Rightarrow> octets \<Rightarrow> 'mt busy_runner \<Rightarrow> 'mt busy_runner" where
  "link_deliver env now raw b =
     (case cd_mtp3_decode (fx_codecs (le_ctx env)) raw of
        None \<Rightarrow> on_runner (log_out (LxRxDiscard RxUndecodable)) b
      | Some m \<Rightarrow>
          if mx_si m = SI_LINK_TEST then link_test_message env now m b
          else if mx_si m = SI_MANAGEMENT \<and> pc_value (mx_dpc m) = lst_own_pc (lt_settings (fst b))
          then on_runner (management_message env m) b
          else if rg_restarting (fw_registry (lt_fw (fst b))) then on_runner (log_out (LxDrop DropRestarting)) b
          else on_runner (\<lambda>rn. on_fw (dispatch (le_ctx env) (msu_of_unit m) (lt_slot rn)) rn) b)"

section \<open>Carrying out what the link asks for\<close>

definition apply_one :: "('x, 'mt) link_env \<Rightarrow> instant \<Rightarrow> action \<Rightarrow> 'mt busy_runner \<Rightarrow> 'mt busy_runner" where
  "apply_one env now a b =
     (case a of
        AcSend frame stream si \<Rightarrow>
          if rn_lost (fst b) then b
          else
            let b' = on_runner (\<lambda>rn. rn\<lparr>rn_attempts := Suc (rn_attempts rn)\<rparr>) b
            in if le_accepts env (rn_attempts (fst b)) then on_runner (log_out (LxSend frame stream)) b'
               else on_link (link_fail (le_encode env) FlAssociation) (on_runner (\<lambda>rn. rn\<lparr>rn_lost := True\<rparr>) b')
      | AcDeliver msu \<Rightarrow> link_deliver env now msu b
      | AcStart t after \<Rightarrow> on_runner (\<lambda>rn. rn\<lparr>rn_link_deadlines := (rn_link_deadlines rn)(t := Some (now + after))\<rparr>) b
      | AcStop t \<Rightarrow> on_runner (\<lambda>rn. rn\<lparr>rn_link_deadlines := (rn_link_deadlines rn)(t := None)\<rparr>) b
      | AcInService \<Rightarrow> on_test env now test_begin b
      | AcOutOfService reason \<Rightarrow>
          on_runner (\<lambda>rn. rn\<lparr>rn_restart := Some (now + lst_restart (lt_settings rn))\<rparr>)
            (on_test env now test_stop (on_runner (log_out (LxFailure reason)) b))
      | AcRemoteProcessorOutage on \<Rightarrow> b
      | AcDiscarded reason n \<Rightarrow> on_runner (log_out (LxDiscard reason n)) b)"

text \<open>The two loops of \<^verbatim>\<open>apply\<close>, with the number of passes they may make.\<close>

fun apply_batches :: "('x, 'mt) link_env \<Rightarrow> instant \<Rightarrow> nat \<Rightarrow> action list \<Rightarrow> 'mt link_runner \<Rightarrow> 'mt link_runner option" where
  "apply_batches env now n [] rn = Some rn"
| "apply_batches env now 0 batch rn = None"
| "apply_batches env now (Suc n) batch rn =
     (case fold (apply_one env now) batch (rn, []) of (rn, later) \<Rightarrow> apply_batches env now n later rn)"

fun apply_rounds :: "('x, 'mt) link_env \<Rightarrow> instant \<Rightarrow> nat \<Rightarrow> action list \<Rightarrow> 'mt link_runner \<Rightarrow> 'mt link_runner option" where
  "apply_rounds env now 0 acts rn = None"
| "apply_rounds env now (Suc n) acts rn =
     (case apply_batches env now (Suc n) acts rn of
        None \<Rightarrow> None
      | Some rn \<Rightarrow>
          (case on_link (flush_ack (le_encode env)) (rn, []) of (rn, acts) \<Rightarrow>
             if acts = [] then Some rn else apply_rounds env now n acts rn))"

definition refresh_availability :: "'mt link_runner \<Rightarrow> 'mt link_runner" where
  "refresh_availability rn =
     (let aligned = is_aligned (rn_link rn);
          tested = (case rn_test rn of Some test \<Rightarrow> te_available test | None \<Rightarrow> True);
          available = (lk_state (rn_link rn) = LsInService \<and> tested \<and> \<not> rn_lost rn);
          realigned = (case own_port rn of Some p \<Rightarrow> lp_aligned p \<noteq> aligned | None \<Rightarrow> False);
          rn = on_fw (update_port (lt_slot rn) (\<lambda>p. fst (port_set_aligned aligned p))) rn
      in if available = rn_available rn then (if realigned then on_fw recompute_fw rn else rn)
         else
           let rn = rn\<lparr>rn_available := available\<rparr>;
               rn = on_fw (\<lambda>st. st\<lparr>fw_registry := set_slot (lt_slot rn) (slot_set_active available) (fw_registry st)\<rparr>) rn;
               rn = (if available then (case lst_index (lt_settings rn) of Some l \<Rightarrow> tell_level3 (MiLinkUp l) rn | None \<Rightarrow> rn)
                     else
                       let bsnt = link_bsnt (rn_link rn)
                       in (case link_detach (rn_link rn) of (l, left) \<Rightarrow>
                           case traffic_failed left (lt_traffic rn) of (traffic, lost) \<Rightarrow>
                             let rn = lost_with_the_link lost (rn\<lparr>rn_link := l, lt_traffic := traffic\<rparr>)
                             in (case lst_index (lt_settings rn) of Some l \<Rightarrow> tell_level3 (MiLinkDown l bsnt) rn | None \<Rightarrow> rn)))
           in on_fw recompute_fw rn)"

definition link_perform :: "('x, 'mt) link_env \<Rightarrow> instant \<Rightarrow> 'mt busy_runner \<Rightarrow> 'mt link_runner" where
  "link_perform env now b =
     (case apply_rounds env now 3 (snd b) (fst b) of Some rn \<Rightarrow> refresh_availability rn | None \<Rightarrow> fst b)"

section \<open>What wakes the task\<close>

definition task_received :: "('x, 'mt) link_env \<Rightarrow> instant \<Rightarrow> octets \<Rightarrow> u32 \<Rightarrow> 'mt link_runner \<Rightarrow> 'mt link_runner" where
  "task_received env now data ppid rn =
     (if ppid \<noteq> PPID_M2PA then log_out (LxRxDiscard RxPpid) rn
      else
        let rn = (if le_decode env data = None then log_out (LxRxDiscard RxUndecodable) rn else rn)
        in link_perform env now (on_link (link_received (le_encode env) (le_decode env) ppid data now) (rn, [])))"

definition can_send :: "'mt link_runner \<Rightarrow> bool" where
  "can_send rn \<longleftrightarrow> is_aligned (rn_link rn) \<and> \<not> rn_lost rn"

definition task_carry :: "('x, 'mt) link_env \<Rightarrow> instant \<Rightarrow> octets \<Rightarrow> 'mt link_runner \<Rightarrow> 'mt link_runner" where
  "task_carry env now msu rn =
     (case traffic_offer msu (can_send rn) (lt_traffic rn) of (traffic, offer) \<Rightarrow>
        let rn = rn\<lparr>lt_traffic := traffic\<rparr>
        in case offer of
             OfSend msu \<Rightarrow> link_perform env now (on_link (link_send (le_encode env) msu now) (rn, []))
           | OfHeld \<Rightarrow> rn
           | OfDivert msu \<Rightarrow> on_fw (reroute_msu (le_ctx env) msu (lt_slot rn)) rn
           | OfFull \<Rightarrow> buffer_full rn)"

definition offer_buffered :: "('x, 'mt) link_env \<Rightarrow> instant \<Rightarrow> bool \<Rightarrow> octets \<Rightarrow> 'mt busy_runner \<Rightarrow> 'mt busy_runner" where
  "offer_buffered env now sendable msu b =
     (case traffic_offer msu sendable (lt_traffic (fst b)) of (traffic, offer) \<Rightarrow>
        let b = on_runner (\<lambda>rn. rn\<lparr>lt_traffic := traffic\<rparr>) b
        in case offer of
             OfSend msu \<Rightarrow> on_link (link_send (le_encode env) msu now) b
           | OfFull \<Rightarrow> on_runner buffer_full b
           | OfHeld \<Rightarrow> b
           | OfDivert _ \<Rightarrow> b)"

definition command_actions :: "('x, 'mt) link_env \<Rightarrow> instant \<Rightarrow> link_command \<Rightarrow> 'mt link_runner \<Rightarrow> 'mt busy_runner" where
  "command_actions env now c rn =
     (case c of
        CmdHold notify \<Rightarrow> (link_hold notify rn, [])
      | CmdDivert fsnc \<Rightarrow> (divert_all env fsnc rn, [])
      | CmdOpen \<Rightarrow>
          (case traffic_open (lt_traffic rn) of (traffic, buffered, lost) \<Rightarrow>
             let rn = lost_with_the_link lost (on_fw (route_to (lt_slot rn) True) (rn\<lparr>lt_traffic := traffic\<rparr>))
             in fold (offer_buffered env now (can_send rn)) buffered (rn, []))
      | CmdFail \<Rightarrow> on_link (link_fail (le_encode env) FlStopped) (rn, [])
      | CmdDirect msu \<Rightarrow> on_link (link_send (le_encode env) msu now) (rn, []))"

definition task_command :: "('x, 'mt) link_env \<Rightarrow> instant \<Rightarrow> link_command \<Rightarrow> 'mt link_runner \<Rightarrow> 'mt link_runner" where
  "task_command env now c rn = link_perform env now (command_actions env now c rn)"

definition due :: "instant \<Rightarrow> instant option \<Rightarrow> bool" where
  "due now deadline = (case deadline of Some at \<Rightarrow> at \<le> now | None \<Rightarrow> False)"

definition fire_link :: "('x, 'mt) link_env \<Rightarrow> instant \<Rightarrow> link_timer \<Rightarrow> 'mt busy_runner \<Rightarrow> 'mt busy_runner" where
  "fire_link env now t b =
     (if due now (rn_link_deadlines (fst b) t)
      then on_link (link_timeout (le_encode env) t now)
        (on_runner (\<lambda>rn. rn\<lparr>rn_link_deadlines := (rn_link_deadlines rn)(t := None)\<rparr>) b)
      else b)"

definition fire_test :: "('x, 'mt) link_env \<Rightarrow> instant \<Rightarrow> test_timer \<Rightarrow> 'mt busy_runner \<Rightarrow> 'mt busy_runner" where
  "fire_test env now t b =
     (if due now (rn_test_deadlines (fst b) t)
      then on_test env now (test_timeout t)
        (on_runner (\<lambda>rn. rn\<lparr>rn_test_deadlines := (rn_test_deadlines rn)(t := None)\<rparr>) b)
      else b)"

definition fire_restart :: "('x, 'mt) link_env \<Rightarrow> instant \<Rightarrow> 'mt busy_runner \<Rightarrow> 'mt busy_runner" where
  "fire_restart env now b =
     (if due now (rn_restart (fst b)) then on_link (link_start (le_encode env)) (on_runner (\<lambda>rn. rn\<lparr>rn_restart := None\<rparr>) b) else b)"

definition task_fire :: "('x, 'mt) link_env \<Rightarrow> instant \<Rightarrow> 'mt link_runner \<Rightarrow> 'mt link_runner" where
  "task_fire env now rn =
     link_perform env now (fire_restart env now (fold (fire_test env now) test_timer_all (fold (fire_link env now) link_timer_all (rn, []))))"

section \<open>The loop\<close>

text \<open>What comes first out of a queue of the port, and what the task does about it.\<close>

datatype link_wake = WkReceived octets u32 | WkClosed | WkCommand | WkMessage | WkTimer

definition task_take :: "(link_port \<Rightarrow> link_port) \<Rightarrow> ('mt, 'a) link_task_scheme \<Rightarrow> ('mt, 'a) link_task_scheme" where
  "task_take f t = on_fw (update_port (lt_slot t) f) t"

definition link_turn :: "('x, 'mt) link_env \<Rightarrow> instant \<Rightarrow> link_wake \<Rightarrow> 'mt link_runner \<Rightarrow> 'mt link_runner" where
  "link_turn env now w rn =
     (case w of
        WkReceived data ppid \<Rightarrow> task_received env now data ppid rn
      | WkClosed \<Rightarrow> rn\<lparr>rn_lost := True\<rparr>
      | WkCommand \<Rightarrow>
          (case map_option lp_commands (own_port rn) of
             Some (c # cs) \<Rightarrow> task_command env now c (task_take (\<lambda>p. p\<lparr>lp_commands := tl (lp_commands p)\<rparr>) rn)
           | _ \<Rightarrow> rn)
      | WkMessage \<Rightarrow>
          (case map_option (\<lambda>p. (lp_tx p, lp_commands p)) (own_port rn) of
             Some (msu # msus, cs) \<Rightarrow>
               task_carry env now msu (fold (task_command env now) cs
                 (task_take (\<lambda>p. p\<lparr>lp_tx := tl (lp_tx p), lp_commands := []\<rparr>) rn))
           | _ \<Rightarrow> rn)
      | WkTimer \<Rightarrow> task_fire env now rn)"

definition link_runner_new :: "string \<Rightarrow> link_port \<Rightarrow> link_traffic \<Rightarrow> 'mt fw_state \<Rightarrow> 'mt link_runner" where
  "link_runner_new x port traffic st =
     (let s = lp_settings port
      in \<lparr>lt_slot = x, lt_settings = s, lt_traffic = traffic, lt_fw = st, lt_log = [],
          rn_link = link_new (lst_timers s) (lst_proving s) (lst_tx_queue s),
          rn_test = map_option (\<lambda>t. test_new (lts_t1 t) (lts_t2 t)) (lst_test s),
          rn_link_deadlines = (\<lambda>_. None), rn_test_deadlines = (\<lambda>_. None), rn_restart = None, rn_lost = False,
          rn_available = False, rn_attempts = 0\<rparr>)"

text \<open>The start of \<^verbatim>\<open>run_link\<close>, up to its loop; nothing for a slot that is no link.\<close>

definition run_link :: "('x, 'mt) link_env \<Rightarrow> instant \<Rightarrow> string \<Rightarrow> link_traffic \<Rightarrow> 'mt fw_state \<Rightarrow> 'mt link_runner option" where
  "run_link env now x traffic st =
     map_option (\<lambda>port.
       link_perform env now (on_link (link_start (le_encode env))
         (on_link (link_established (le_encode env)) (link_runner_new x port traffic st, []))))
       (Option.bind (slot_of (fw_registry st) x) sl_link)"

text \<open>What follows the loop, when the association is gone, another took the link over, or the node stops.\<close>

definition finish_link :: "('x, 'mt) link_env \<Rightarrow> instant \<Rightarrow> bool \<Rightarrow> 'mt link_runner \<Rightarrow> 'mt link_runner" where
  "finish_link env now taken_over rn =
     (let reason = (if rn_lost rn then FlAssociation else FlStopped);
          rn = link_perform env now (on_link (link_fail (le_encode env) reason) (rn, []));
          rn = rn\<lparr>rn_link_deadlines := (\<lambda>_. None), rn_test_deadlines := (\<lambda>_. None), rn_restart := None\<rparr>;
          lost = snd (link_abandon (rn_link rn));
          rn = rn\<lparr>rn_link := fst (link_abandon (rn_link rn))\<rparr>;
          rn = (if lost > 0 then log_out (LxDiscard DcTxLostOnFailure lost) rn else rn)
      in on_fw (\<lambda>st. recompute_fw
           (let st = update_port (lt_slot rn) (\<lambda>p. fst (port_set_aligned False p)) st
            in st\<lparr>fw_registry := set_slot (lt_slot rn)
                 (\<lambda>s. let s = slot_set_active False s in if taken_over then s else slot_clear_sender s) (fw_registry st)\<rparr>)) rn)"

section \<open>A link without an association\<close>

definition idle_command :: "('x, 'mt) link_env \<Rightarrow> link_command \<Rightarrow> 'mt link_task \<Rightarrow> 'mt link_task" where
  "idle_command env c t =
     (case c of
        CmdHold notify \<Rightarrow> link_hold notify t
      | CmdDivert fsnc \<Rightarrow> divert_all env fsnc t
      | CmdOpen \<Rightarrow> link_hold False t
      | CmdFail \<Rightarrow> t
      | CmdDirect _ \<Rightarrow> log_out (LxDiscard DcTxNotInService 1) t)"

datatype idle_wake = IdleCommand | IdleMessage

definition idle_turn :: "('x, 'mt) link_env \<Rightarrow> idle_wake \<Rightarrow> 'mt link_task \<Rightarrow> 'mt link_task" where
  "idle_turn env w t =
     (case w of
        IdleCommand \<Rightarrow>
          (case map_option lp_commands (own_port t) of
             Some (c # cs) \<Rightarrow> idle_command env c (task_take (\<lambda>p. p\<lparr>lp_commands := tl (lp_commands p)\<rparr>) t)
           | _ \<Rightarrow> t)
      | IdleMessage \<Rightarrow>
          (case map_option (\<lambda>p. (lp_tx p, lp_commands p)) (own_port t) of
             Some (msu # msus, cs) \<Rightarrow>
               let t = fold (idle_command env) cs (task_take (\<lambda>p. p\<lparr>lp_tx := tl (lp_tx p), lp_commands := []\<rparr>) t)
               in (case traffic_offer msu False (lt_traffic t) of (traffic, offer) \<Rightarrow>
                     let t = t\<lparr>lt_traffic := traffic\<rparr>
                     in case offer of
                          OfDivert msu \<Rightarrow> on_fw (reroute_msu (le_ctx env) msu (lt_slot t)) t
                        | OfFull \<Rightarrow> buffer_full t
                        | _ \<Rightarrow> t)
           | _ \<Rightarrow> t))"

end
