(* ===== verification/M2pa_Task.thy ===== *)
theory M2pa_Task
  imports M2pa_Runner
begin

text \<open>
  What holds of the task of an M2PA link (\<open>M2pa_Runner\<close>): carrying out what the link asks for ends, the
  clocks of the link, of its test and of its restart run whenever they are needed, and level 3 is told of
  each change of availability.
\<close>

lemma on_runner_simps [simp]: "fst (on_runner f b) = f (fst b)" "snd (on_runner f b) = snd b"
  by (simp_all add: on_runner_def case_prod_beta)

lemma on_link_simps [simp]:
  "fst (on_link f b) = (fst b)\<lparr>rn_link := fst (f (rn_link (fst b)))\<rparr>" "snd (on_link f b) = snd b @ snd (f (rn_link (fst b)))"
  by (simp_all add: on_link_def case_prod_beta)

text \<open>What an update of the shared part leaves alone.\<close>

lemma log_out_fields [simp]:
  "lt_slot (log_out x t) = lt_slot t" "lt_settings (log_out x t) = lt_settings t" "lt_traffic (log_out x t) = lt_traffic t"
  "lt_fw (log_out x t) = lt_fw t" "lt_log (log_out x t) = lt_log t @ [x]" "link_task.more (log_out x t) = link_task.more t"
  by (simp_all add: log_out_def)

lemma on_fw_fields [simp]:
  "lt_slot (on_fw f t) = lt_slot t" "lt_settings (on_fw f t) = lt_settings t" "lt_traffic (on_fw f t) = lt_traffic t"
  "lt_fw (on_fw f t) = f (lt_fw t)" "lt_log (on_fw f t) = lt_log t" "link_task.more (on_fw f t) = link_task.more t"
  by (simp_all add: on_fw_def)

text \<open>The own part of a runner, which the operations on the shared part keep.\<close>

lemma own_fields:
  fixes rn rn' :: "'mt link_runner"
  assumes "link_task.more rn' = link_task.more rn"
  shows "rn_link rn' = rn_link rn" "rn_test rn' = rn_test rn" "rn_link_deadlines rn' = rn_link_deadlines rn"
    "rn_test_deadlines rn' = rn_test_deadlines rn" "rn_restart rn' = rn_restart rn" "rn_lost rn' = rn_lost rn"
    "rn_available rn' = rn_available rn" "rn_attempts rn' = rn_attempts rn"
  using assms by (cases rn; cases rn'; simp)+

lemma tell_level3_fields [simp]:
  "lt_slot (tell_level3 i t) = lt_slot t" "lt_settings (tell_level3 i t) = lt_settings t" "lt_traffic (tell_level3 i t) = lt_traffic t"
  "lt_fw (tell_level3 i t) = lt_fw t" "link_task.more (tell_level3 i t) = link_task.more t"
  by (simp_all add: tell_level3_def manage_def)

lemma small_task_fields [simp]:
  "link_task.more (lost_with_the_link n t) = link_task.more t" "link_task.more (buffer_full t) = link_task.more t"
  "link_task.more (link_hold notify t) = link_task.more t" "link_task.more (divert_all env fsnc t) = link_task.more t"
  "lt_settings (lost_with_the_link n t) = lt_settings t" "lt_settings (buffer_full t) = lt_settings t"
  "lt_settings (link_hold notify t) = lt_settings t" "lt_settings (divert_all env fsnc t) = lt_settings t"
  by (simp_all add: lost_with_the_link_def buffer_full_def link_hold_def divert_all_def Let_def case_prod_beta)

lemma management_message_fields [simp]:
  "link_task.more (management_message env m rn) = link_task.more rn" "lt_settings (management_message env m rn) = lt_settings rn"
  by (simp_all add: management_message_def split: option.split)

lemmas own_kept [simp] = own_fields [OF log_out_fields(6)] own_fields [OF on_fw_fields(6)] own_fields [OF tell_level3_fields(5)]
  own_fields [OF small_task_fields(1)] own_fields [OF small_task_fields(2)] own_fields [OF small_task_fields(3)]
  own_fields [OF small_task_fields(4)] own_fields [OF management_message_fields(1)]

section \<open>What the message path leaves alone\<close>

text \<open>
  The flags of an association and of its port, and whether network management is attached: the path of
  a message changes none of them.
\<close>

definition flags :: "registry \<Rightarrow> string \<Rightarrow> (bool \<times> bool option) option" where
  "flags r x = map_option (\<lambda>s. (sl_active s, map_option lp_aligned (sl_link s))) (slot_of r x)"

definition undisturbed :: "'mt fw_state \<Rightarrow> 'mt fw_state \<Rightarrow> bool" where
  "undisturbed st st' \<longleftrightarrow> rg_management (fw_registry st') = rg_management (fw_registry st) \<and> flags (fw_registry st') = flags (fw_registry st)"

lemma undisturbed_refl [simp]: "undisturbed st st"
  by (simp add: undisturbed_def)

lemma undisturbed_trans: "undisturbed st st' \<Longrightarrow> undisturbed st' st'' \<Longrightarrow> undisturbed st st''"
  by (simp add: undisturbed_def)

lemma undisturbed_same [simp]: "fw_registry st' = fw_registry st \<Longrightarrow> undisturbed st st'"
  by (simp add: undisturbed_def)

lemma undisturbed_fold: "(\<And>x st. undisturbed st (f x st)) \<Longrightarrow> undisturbed st (fold f xs st)"
  by (induction xs arbitrary: st) (auto intro: undisturbed_trans)

lemma slot_of_set_slot: "slot_of (set_slot x f r) y = (if y = x then map_option f (slot_of r y) else slot_of r y)"
  by (simp add: slot_of_def set_slot_def option.map_ident)

lemma set_slot_management [simp]: "rg_management (set_slot x f r) = rg_management r"
  by (simp add: set_slot_def)

lemma undisturbed_port:
  assumes "\<And>p. lp_aligned (f p) = lp_aligned p"
  shows "undisturbed st (update_port x f st)"
  using assms by (simp add: undisturbed_def flags_def update_port_def slot_of_set_slot fun_eq_iff option.map_comp comp_def)

lemma undisturbed_queue: "rg_management (fst (queue_if_pending name m r)) = rg_management r" "flags (fst (queue_if_pending name m r)) = flags r"
  by (simp_all add: queue_if_pending_def set_server_def flags_def slot_of_def Let_def fun_eq_iff split: option.split)

lemma undisturbed_hold: "rg_management (fst (hold_if_rerouting m r)) = rg_management r" "flags (fst (hold_if_rerouting m r)) = flags r"
  by (simp_all add: hold_if_rerouting_def flags_def slot_of_def fun_eq_iff split: option.split)

lemma undisturbed_send_on_link: "undisturbed st (send_on_link ctx x m st)"
proof (cases "Option.bind (slot_of (fw_registry st) x) sl_link")
  case (Some port)
  then obtain s where s: "slot_of (fw_registry st) x = Some s" "sl_link s = Some port" by (auto simp: bind_eq_Some_conv)
  have "flags (set_slot x (\<lambda>s. s\<lparr>sl_link := Some (fst (port_offer raw port))\<rparr>) (fw_registry st)) = flags (fw_registry st)" for raw
    using s by (auto simp: flags_def slot_of_set_slot fun_eq_iff port_offer_def)
  then show ?thesis using Some by (simp add: send_on_link_def Let_def undisturbed_def case_prod_beta split: option.split)
qed (simp add: send_on_link_def)

lemma undisturbed_send_now: "undisturbed st (send_now ctx via m st)"
proof (cases via)
  case (ApplicationServer name)
  then show ?thesis
    using undisturbed_queue [of name m "fw_registry st"] by (auto simp: Let_def no_egress_def undisturbed_def split: prod.split)
qed (simp_all add: no_egress_def undisturbed_send_on_link split: option.split)

lemma undisturbed_hold_registry: "undisturbed st (st\<lparr>fw_registry := fst (hold_if_rerouting m (fw_registry st))\<rparr>)"
  by (simp add: undisturbed_def undisturbed_hold)

lemma undisturbed_send_via: "undisturbed st (send_via ctx via m st)"
proof -
  have "undisturbed st (send_now ctx via m (st\<lparr>fw_registry := fst (hold_if_rerouting m (fw_registry st))\<rparr>))"
    by (rule undisturbed_trans [OF undisturbed_hold_registry undisturbed_send_now])
  then show ?thesis by (simp add: send_via_def Let_def case_prod_beta undisturbed_hold_registry)
qed

lemma undisturbed_send_reply: "undisturbed st (send_reply ctx x m st)"
  by (simp add: send_reply_def Let_def undisturbed_send_on_link split: option.split adaptation.split)

lemma undisturbed_report: "undisturbed st (report dpc assoc st)"
  by (simp add: report_def undisturbed_fold)

lemma undisturbed_return: "undisturbed st (return_undeliverable ctx m cause src st)"
  by (simp add: return_undeliverable_def undisturbed_send_via split: option.split)

lemma undisturbed_refused: "undisturbed st (fst (refused_by_admission ctx m assoc src here st))"
proof -
  have "undisturbed st (put_out x (send_via ctx via m st))" "undisturbed st (put_out x (send_reply ctx y m st))" for x via y m
    by (rule undisturbed_trans [OF undisturbed_send_via undisturbed_same] undisturbed_trans [OF undisturbed_send_reply undisturbed_same], simp)+
  then show ?thesis by (simp add: refused_by_admission_def Let_def split: option.split gate.split prod.split)
qed

lemma undisturbed_hop_guard: "undisturbed st (fst (hop_counter_guard ctx m src st))"
proof -
  have "undisturbed st (send_via ctx via ret (put_out x st))" for x via ret by (rule undisturbed_trans [OF undisturbed_same undisturbed_send_via]) simp
  then show ?thesis by (simp add: hop_counter_guard_def Let_def split: option.split)
qed

lemma undisturbed_relay_transit: "undisturbed st (relay_transit ctx m assoc src via st)"
proof -
  obtain st1 blocked where b: "(case (if msu_si m = SI_ISUP then router_isup_screen (fx_tenant ctx) (fw_tenancy st) else None) of
      None \<Rightarrow> (st, False) | Some rules \<Rightarrow> apply_isup_screen (fx_isup ctx) rules m st) = (st1, blocked)" by force
  then have st1: "undisturbed st st1"
    by (auto simp: apply_isup_screen_def Let_def split: if_splits option.splits)
  obtain st2 refused where r: "refused_by_admission ctx m assoc src False st1 = (st2, refused)" by force
  have st2: "undisturbed st st2" using undisturbed_trans [OF st1 undisturbed_refused [of st1 ctx m assoc src False]] r by simp
  have "undisturbed st (report (msu_dpc m) assoc (put_out (FxLoop RouteReflect) st1))"
    by (rule undisturbed_trans [OF undisturbed_trans [OF st1 undisturbed_same] undisturbed_report]) simp
  moreover have "undisturbed st (send_via ctx via m st2)" by (rule undisturbed_trans [OF st2 undisturbed_send_via])
  ultimately show ?thesis unfolding relay_transit_def b Let_def prod.case r using st1 st2 by simp
qed

lemma undisturbed_relay_translated: "undisturbed st (relay_translated ctx m assoc src dpc via rewrite st)"
proof -
  obtain st1 refused where r: "refused_by_admission ctx m assoc src False st = (st1, refused)" by force
  obtain st2 payload where h: "hop_counter_guard ctx m src st1 = (st2, payload)" by force
  have st1: "undisturbed st st1" using undisturbed_refused [of st ctx m assoc src False] r by simp
  have st2: "undisturbed st st2" using undisturbed_trans [OF st1 undisturbed_hop_guard [of st1 ctx m src]] h by simp
  have "undisturbed st (send_via ctx via out st2)" for out by (rule undisturbed_trans [OF st2 undisturbed_send_via])
  then show ?thesis unfolding relay_translated_def r prod.case h using st1 st2 by (simp add: Let_def split: option.split)
qed

lemma undisturbed_act_on: "undisturbed st (act_on ctx m assoc src d st)"
proof (cases d)
  case RdLocal
  obtain st1 refused where r: "refused_by_admission ctx m assoc src True st = (st1, refused)" by force
  then have st1: "undisturbed st st1" using undisturbed_refused [of st ctx m assoc src True] by simp
  have "undisturbed st (put_out (FxLocal m assoc) st1)" by (rule undisturbed_trans [OF st1 undisturbed_same]) simp
  then show ?thesis using RdLocal r st1 by (simp add: act_on_def)
next
  case (RdDrop reason)
  have "undisturbed st (report (msu_dpc m) assoc (put_out (FxDiscard DiscardNoRoute) st))"
    by (rule undisturbed_trans [OF undisturbed_same undisturbed_report]) simp
  then have "undisturbed st (return_undeliverable ctx m cause src (report (msu_dpc m) assoc (put_out (FxDiscard DiscardNoRoute) st)))" for cause
    by (rule undisturbed_trans [OF _ undisturbed_return])
  then show ?thesis using RdDrop by (simp add: act_on_def Let_def undisturbed_return)
qed (simp_all add: act_on_def undisturbed_relay_transit undisturbed_relay_translated undisturbed_return split: option.split)

lemma undisturbed_dispatch: "undisturbed st (dispatch ctx m assoc st)"
proof -
  obtain st1 inb where w: "with_content ctx m (inbound_from_msu (fx_codecs ctx) m) st = (st1, inb)" by force
  have "undisturbed st st1" using w by (auto simp: with_content_def split: if_splits option.splits screening.splits)
  have "undisturbed st (act_on ctx m assoc src d (st1\<lparr>fw_tenancy := ten\<rparr>))" for src d ten
    by (rule undisturbed_trans [OF undisturbed_trans [OF \<open>undisturbed st st1\<close> undisturbed_same] undisturbed_act_on]) simp
  then show ?thesis unfolding dispatch_def w by (simp add: Let_def split: prod.split)
qed

lemma undisturbed_reroute: "undisturbed st (reroute_msu ctx raw x st)"
proof -
  have "undisturbed st (send_on_link ctx y m (st\<lparr>fw_registry := fst (hold_if_rerouting m (fw_registry st))\<rparr>))" for y m
    by (rule undisturbed_trans [OF undisturbed_hold_registry undisturbed_send_on_link])
  then show ?thesis
    by (simp add: reroute_msu_def Let_def case_prod_beta undisturbed_send_via undisturbed_hold_registry split: option.split destination.split)
qed

lemma undisturbed_recompute: "undisturbed st (recompute_fw st)"
proof -
  have "rg_assocs (fst (fold recompute_server is (r, ten, out))) = rg_assocs r \<and>
      rg_management (fst (fold recompute_server is (r, ten, out))) = rg_management r" for "is" r out and ten :: "'mt tenancy"
  proof (induction "is" arbitrary: r ten out)
    case (Cons i xs)
    obtain r' ten' out' where s: "recompute_server i (r, ten, out) = (r', ten', out')" by (metis prod_cases3)
    then have "rg_assocs r' = rg_assocs r" "rg_management r' = rg_management r" by (auto simp: recompute_server_def Let_def set_server_def)
    then show ?case using Cons.IH s by simp
  qed simp
  from this [of "[0..<length (rg_servers (fw_registry st))]" "fw_registry st" "fw_tenancy st" "[]"]
  have r: "rg_assocs (fst (recompute (fw_registry st) (fw_tenancy st))) = rg_assocs (fw_registry st)"
    "rg_management (fst (recompute (fw_registry st) (fw_tenancy st))) = rg_management (fw_registry st)"
    by (simp_all add: recompute_def case_prod_beta)
  have out: "fw_registry (fold (\<lambda>x. put_out (FxReport x)) xs st') = fw_registry st'" for xs and st' :: "'mt fw_state"
    by (induction xs arbitrary: st') simp_all
  show ?thesis using r by (simp add: recompute_fw_def undisturbed_def flags_def slot_of_def fun_eq_iff case_prod_beta out)
qed

lemma undisturbed_route_to: "undisturbed st (route_to x on st)"
  unfolding route_to_def by (rule undisturbed_trans [OF undisturbed_port undisturbed_recompute]) (simp add: port_set_routable_def)

section \<open>A law of the operations\<close>

text \<open>What level 3 was told of the link: \<open>True\<close> that it came up, \<open>False\<close> that it went down.\<close>

fun change_told :: "link_effect \<Rightarrow> bool option" where
  "change_told (LxReport (RgManage (MiLinkUp _))) = Some True"
| "change_told (LxReport (RgManage (MiLinkDown _ _))) = Some False"
| "change_told _ = None"

definition told :: "('mt, 'a) link_task_scheme \<Rightarrow> bool list" where
  "told t = List.map_filter change_told (lt_log t)"

text \<open>A change of the shared part only, which says nothing of the link to level 3.\<close>

definition shared :: "('mt link_runner \<Rightarrow> 'mt link_runner) \<Rightarrow> bool" where
  "shared f \<longleftrightarrow> (\<forall>rn. link_task.more (f rn) = link_task.more rn \<and> lt_settings (f rn) = lt_settings rn \<and>
     lt_slot (f rn) = lt_slot rn \<and> told (f rn) = told rn \<and> undisturbed (lt_fw rn) (lt_fw (f rn)))"

lemma shared_own:
  assumes "shared f"
  shows "rn_link (f rn) = rn_link rn" "rn_test (f rn) = rn_test rn" "rn_link_deadlines (f rn) = rn_link_deadlines rn"
    "rn_test_deadlines (f rn) = rn_test_deadlines rn" "rn_restart (f rn) = rn_restart rn" "rn_lost (f rn) = rn_lost rn"
    "rn_available (f rn) = rn_available rn" "rn_attempts (f rn) = rn_attempts rn" "lt_settings (f rn) = lt_settings rn"
    "lt_slot (f rn) = lt_slot rn" "told (f rn) = told rn"
  using assms own_fields [of "f rn" rn] by (simp_all add: shared_def)

lemma told_log: "told (log_out x t) = told t @ (case change_told x of Some b \<Rightarrow> [b] | None \<Rightarrow> [])"
  by (simp add: told_def List.map_filter_def split: option.split)

lemma shared_log: "change_told x = None \<Longrightarrow> shared (log_out x)"
  by (simp add: shared_def told_log)

lemma shared_fw: "(\<And>st. undisturbed st (f st)) \<Longrightarrow> shared (on_fw f)"
  by (simp add: shared_def told_def)

lemma shared_management: "shared (management_message env m)"
  by (auto simp: shared_def management_message_def tell_level3_def manage_def told_log split: option.split)

lemma shared_dispatch: "shared (\<lambda>rn. on_fw (dispatch ctx m (lt_slot rn)) rn)"
  by (simp add: shared_def told_def undisturbed_dispatch)

lemma shared_id: "shared (\<lambda>rn. rn)"
  by (simp add: shared_def)

text \<open>
  A relation between what an operation finds and what it leaves, reflexive and transitive, that admits
  changes of the shared part, of the test and its deadlines, and the two operations of the link that
  carrying out an action may call. It then admits the whole of a delivery and of the link test.
\<close>

locale runner_law =
  fixes env :: "('x, 'mt) link_env"
    and related :: "'mt busy_runner \<Rightarrow> 'mt busy_runner \<Rightarrow> bool"
  assumes related_refl: "related b b"
    and related_trans: "related b b' \<Longrightarrow> related b' b'' \<Longrightarrow> related b b''"
    and related_shared: "shared f \<Longrightarrow> related b (on_runner f b)"
    and related_test: "related b (on_runner (\<lambda>rn. rn\<lparr>rn_test := x\<rparr>) b)"
    and related_deadlines: "related b (on_runner (\<lambda>rn. rn\<lparr>rn_test_deadlines := d rn\<rparr>) b)"
    and related_send: "related b (on_link (link_send (le_encode env) msu now) b)"
    and related_fail: "related b (on_link (link_fail (le_encode env) reason) b)"
begin

lemma related_log: "change_told x = None \<Longrightarrow> related b (on_runner (log_out x) b)"
  by (intro related_shared shared_log)

lemma related_test_action: "related b (apply_test_action env now a b)"
proof (cases a)
  case TaSendTest
  have "related b (on_link (link_send (le_encode env) msu now) (on_runner (log_out (LxTest TestSent)) b))" for msu
    by (rule related_trans [OF related_log related_send]) simp
  then show ?thesis using TaSendTest by (simp add: apply_test_action_def send_test_def Let_def related_refl split: option.split)
qed (simp_all add: apply_test_action_def related_deadlines related_fail related_log)

lemma related_apply_test: "related b (apply_test env now out b)"
proof (induction out arbitrary: b)
  case (Cons a out)
  from related_trans [OF related_test_action Cons.IH] show ?case by (simp add: apply_test_def)
qed (simp add: apply_test_def related_refl)

lemma related_on_test: "related b (on_test env now f b)"
  by (simp add: on_test_def related_refl related_trans [OF related_test related_apply_test] split: option.split prod.split)

lemma related_test_message: "related b (link_test_message env now m b)"
proof -
  have "related b (on_runner (on_fw (update_port x (port_command c))) b)" for x c
    by (intro related_shared shared_fw undisturbed_port) (simp add: port_command_def)
  then show ?thesis
    by (simp add: link_test_message_def Let_def related_refl related_log related_send related_on_test split: option.split test_message.split)
qed

lemma related_deliver: "related b (link_deliver env now raw b)"
  by (simp add: link_deliver_def related_log related_test_message related_shared shared_management shared_dispatch split: option.split)

end

section \<open>Carrying out actions ends\<close>

text \<open>
  How many batches an action can still cause: a delivery or an entry into service may have the link
  send something, a frame that is refused takes the link out of service, and from then on nothing is sent.
\<close>

fun rank :: "bool \<Rightarrow> action \<Rightarrow> nat" where
  "rank lost (AcDeliver _) = 3"
| "rank lost AcInService = 3"
| "rank lost (AcSend _ _ _) = (if lost then 1 else 2)"
| "rank lost _ = 1"

definition quiet :: "nat \<Rightarrow> bool \<Rightarrow> action list \<Rightarrow> bool" where
  "quiet k lost acts \<longleftrightarrow> list_all (\<lambda>a. rank lost a \<le> k) acts"

lemma quiet_simps [simp]: "quiet k lost []" "quiet k lost (a # as) \<longleftrightarrow> rank lost a \<le> k \<and> quiet k lost as"
  "quiet k lost (as @ bs) \<longleftrightarrow> quiet k lost as \<and> quiet k lost bs"
  by (simp_all add: quiet_def)

lemma rank_mono: "(lost \<Longrightarrow> lost') \<Longrightarrow> rank lost' a \<le> rank lost a"
  by (cases a) auto

lemma quiet_mono: "quiet k lost as \<Longrightarrow> (lost \<Longrightarrow> lost') \<Longrightarrow> k \<le> k' \<Longrightarrow> quiet k' lost' as"
  unfolding quiet_def list_all_iff using rank_mono by (meson order_trans)

lemma rank_bounds: "0 < rank lost a" "rank lost a \<le> 3"
  by (cases a; simp)+

lemma rank_send_frame [simp]: "rank True (send_frame enc m stream si) = 1" "rank lost (send_frame enc m stream si) \<le> 2"
  by (simp_all add: send_frame_def split: option.split)

lemma quiet_link_send: "quiet 2 lost (snd (link_send enc msu now l))"
  by (simp add: link_send_def transmit_def Let_def split: option.split)

lemma quiet_link_fail: "quiet (if lost then 1 else 2) lost (snd (link_fail enc reason l))"
  by (simp add: link_fail_def link_timer_all_def send_status_def)

lemma quiet_flush_ack: "quiet 2 lost (snd (flush_ack enc l))"
  by (simp add: flush_ack_def)

definition grows :: "nat \<Rightarrow> 'mt busy_runner \<Rightarrow> 'mt busy_runner \<Rightarrow> bool" where
  "grows k b b' \<longleftrightarrow> (rn_lost (fst b) \<longrightarrow> rn_lost (fst b')) \<and> (\<exists>acts. snd b' = snd b @ acts \<and> quiet k (rn_lost (fst b')) acts)"

lemma gains_refl [simp]: "grows k b b"
  by (simp add: grows_def)

lemma gains_trans: "grows k b b' \<Longrightarrow> grows k b' b'' \<Longrightarrow> grows k b b''"
  unfolding grows_def using quiet_mono [OF _ _ order_refl] by fastforce

lemma grows_runner: "(rn_lost (fst b) \<Longrightarrow> rn_lost (f (fst b))) \<Longrightarrow> grows k b (on_runner f b)"
  by (simp add: grows_def)

lemma grows_link: "quiet k (rn_lost (fst b)) (snd (f (rn_link (fst b)))) \<Longrightarrow> grows k b (on_link f b)"
  by (simp add: grows_def)

interpretation growth: runner_law env "grows 2" for env
proof
  fix b :: "'mt busy_runner" and reason
  show "grows 2 b (on_link (link_fail (le_encode env) reason) b)"
    using quiet_mono [OF quiet_link_fail [of "rn_lost (fst b)" "le_encode env" reason "rn_link (fst b)"]] by (auto intro!: grows_link)
next
  fix b :: "'mt busy_runner" and f :: "'mt link_runner \<Rightarrow> 'mt link_runner"
  assume "shared f"
  from shared_own(6) [OF this] show "grows 2 b (on_runner f b)" by (simp add: grows_runner)
qed (auto intro: gains_trans grows_runner grows_link simp: quiet_link_send)

lemma grows_stop: "grows 0 b (on_test env now test_stop b)"
proof -
  have "grows 0 b (on_runner f b)" if "\<And>rn. rn_lost (f rn) = rn_lost rn" for f by (simp add: grows_runner that)
  then show ?thesis
    by (auto simp: on_test_def test_stop_def apply_test_def apply_test_action_def grows_def split: option.split)
qed

lemma grows_apply_one:
  assumes "rank (rn_lost (fst b)) a \<le> Suc k"
  shows "grows k b (apply_one env now a b)"
proof (cases a)
  case (AcSend frame stream si)
  show ?thesis
  proof (cases "rn_lost (fst b)")
    case True
    then show ?thesis using AcSend by (simp add: apply_one_def)
  next
    case False
    then have "1 \<le> k" using assms AcSend by simp
    then have "quiet k True (snd (link_fail enc FlAssociation l))" for enc l
      using quiet_mono [OF quiet_link_fail [of True enc FlAssociation l]] by simp
    then show ?thesis using AcSend False by (auto simp: apply_one_def grows_def Let_def)
  qed
next
  case (AcDeliver msu)
  then have "k = 2 \<or> 2 < k" using assms by auto
  then show ?thesis using AcDeliver growth.related_deliver [of b env now msu] quiet_mono by (auto simp: apply_one_def grows_def)
next
  case AcInService
  then have "2 \<le> k" using assms by simp
  then show ?thesis using AcInService growth.related_on_test [of b env now test_begin] quiet_mono by (auto simp: apply_one_def grows_def)
next
  case (AcOutOfService reason)
  let ?b = "on_runner (log_out (LxFailure reason)) b"
  have "grows 0 b (on_test env now test_stop ?b)" by (rule gains_trans [OF grows_runner grows_stop]) simp
  then show ?thesis using AcOutOfService quiet_mono by (fastforce simp: apply_one_def grows_def)
qed (auto simp: apply_one_def intro: grows_runner)

lemma grows_batch: "quiet (Suc k) (rn_lost (fst b)) batch \<Longrightarrow> grows k b (fold (apply_one env now) batch b)"
proof (induction batch arbitrary: b)
  case (Cons a batch)
  have one: "grows k b (apply_one env now a b)" using Cons.prems by (intro grows_apply_one) simp
  then have "quiet (Suc k) (rn_lost (fst (apply_one env now a b))) batch"
    using Cons.prems quiet_mono by (auto simp: grows_def)
  from gains_trans [OF one Cons.IH [OF this]] show ?case by simp
qed simp

text \<open>An acknowledgement once dealt with stays dealt with: only a message received makes one due.\<close>

lemma ack_due_send: "\<not> lk_ack_due l \<Longrightarrow> \<not> lk_ack_due (fst (link_send enc msu now l))"
  by (simp add: link_send_def transmit_def Let_def split: option.split)

lemma ack_due_fail: "\<not> lk_ack_due l \<Longrightarrow> \<not> lk_ack_due (fst (link_fail enc reason l))"
  by (simp add: link_fail_def send_status_def)

lemma ack_due_flush: "\<not> lk_ack_due (fst (flush_ack enc l))"
  by (simp add: flush_ack_def)

interpretation dealt_with: runner_law env "\<lambda>b b'. \<not> lk_ack_due (rn_link (fst b)) \<longrightarrow> \<not> lk_ack_due (rn_link (fst b'))" for env
proof
  fix b :: "'mt busy_runner" and f :: "'mt link_runner \<Rightarrow> 'mt link_runner"
  assume "shared f"
  from shared_own(1) [OF this] show "\<not> lk_ack_due (rn_link (fst b)) \<longrightarrow> \<not> lk_ack_due (rn_link (fst (on_runner f b)))" by simp
qed (simp_all add: ack_due_send ack_due_fail)

lemma ack_due_batch:
  "\<not> lk_ack_due (rn_link (fst b)) \<Longrightarrow> \<not> lk_ack_due (rn_link (fst (fold (apply_one env now) batch b)))"
proof (induction batch arbitrary: b)
  case (Cons a batch)
  have "\<not> lk_ack_due (rn_link (fst (apply_one env now a b)))"
    using Cons.prems
    using dealt_with.related_deliver [of b env now] dealt_with.related_on_test [of b env now]
      dealt_with.related_on_test [of "on_runner (log_out x) b" env now for x]
    by (cases a) (simp_all add: apply_one_def Let_def ack_due_fail)
  then show ?case using Cons.IH by simp
qed simp

lemma batches_end:
  assumes "quiet k (rn_lost rn) acts"
  shows "\<exists>rn'. (\<forall>n \<ge> k. apply_batches env now n acts rn = Some rn') \<and> (\<not> lk_ack_due (rn_link rn) \<longrightarrow> \<not> lk_ack_due (rn_link rn'))"
  using assms
proof (induction k arbitrary: rn acts)
  case 0
  then have "acts = []" using rank_bounds(1) [of "rn_lost rn" "hd acts"] by (cases acts) simp_all
  then show ?case by (auto simp: apply_batches.simps)
next
  case (Suc k)
  obtain rn1 later where b: "fold (apply_one env now) acts (rn, []) = (rn1, later)" by force
  have "quiet k (rn_lost rn1) later" using grows_batch [of k "(rn, [])" acts env now] Suc.prems b by (simp add: grows_def)
  from Suc.IH [OF this] obtain rn' where
    rn': "\<And>n. n \<ge> k \<Longrightarrow> apply_batches env now n later rn1 = Some rn'" "\<not> lk_ack_due (rn_link rn1) \<longrightarrow> \<not> lk_ack_due (rn_link rn')"
    by blast
  show ?case
  proof (cases "acts = []")
    case False
    have "apply_batches env now n acts rn = Some rn'" if n: "n \<ge> Suc k" for n
    proof -
      obtain m where "n = Suc m" "k \<le> m" using n by (cases n) auto
      then show ?thesis using False b rn'(1) by (cases acts) auto
    qed
    moreover have "\<not> lk_ack_due (rn_link rn) \<longrightarrow> \<not> lk_ack_due (rn_link rn')"
      using rn'(2) ack_due_batch [of "(rn, [])" env now acts] b by simp
    ultimately show ?thesis by blast
  qed auto
qed

lemma rounds_end: "\<exists>rn'. \<forall>n \<ge> 3. apply_rounds env now n acts rn = Some rn'"
proof -
  let ?flush = "\<lambda>rn. on_link (flush_ack (le_encode env)) (rn, [])"
  have "quiet 3 (rn_lost rn) acts" by (simp add: quiet_def list_all_iff rank_bounds)
  from batches_end [OF this] obtain rn1 where rn1: "\<And>n. n \<ge> 3 \<Longrightarrow> apply_batches env now n acts rn = Some rn1" by blast
  have "quiet 2 (rn_lost (fst (?flush rn1))) (snd (?flush rn1))" using quiet_flush_ack by simp
  from batches_end [OF this, of env now] obtain rn2 where
    rn2: "\<And>n. n \<ge> 2 \<Longrightarrow> apply_batches env now n (snd (?flush rn1)) (fst (?flush rn1)) = Some rn2" "\<not> lk_ack_due (rn_link rn2)"
    using ack_due_flush by auto
  define rn' where "rn' = (if snd (?flush rn1) = [] then fst (?flush rn1) else fst (?flush rn2))"
  have "apply_rounds env now n acts rn = Some rn'" if n: "n \<ge> 3" for n
  proof -
    obtain m where m: "n = Suc (Suc m)" "1 \<le> m" using n by (cases n; cases "n - 1") auto
    have "snd (?flush rn2) = []" using rn2(2) by (simp add: flush_ack_def)
    then show ?thesis using rn1 [of n] rn2(1) [of "Suc m"] m n by (simp add: rn'_def case_prod_beta)
  qed
  then show ?thesis by blast
qed

text \<open>
  C10: carrying out what the link asks for ends. However the association answers, whatever is delivered
  and whatever follows from it, the loop of \<^verbatim>\<open>apply\<close> ends after at most three batches, the acknowledgement
  that is due and what follows from that; what it does is the same for every larger number of passes.
\<close>

theorem apply_ends: "\<exists>rn'. \<forall>n. apply_rounds env now (3 + n) acts rn = Some rn'"
proof -
  obtain rn' where "\<forall>n \<ge> 3. apply_rounds env now n acts rn = Some rn'" using rounds_end [of env now acts rn] by blast
  then have "\<forall>n. apply_rounds env now (3 + n) acts rn = Some rn'" by simp
  then show ?thesis by blast
qed

end
