(* ===== verification/M2pa_Runs.thy ===== *)
theory M2pa_Runs
  imports M2pa_Task
begin

text \<open>
  Every run of the task of an M2PA link: whenever it waits, the timers its link, its link test and its
  restart call for have a deadline, and the registry and level 3 know the state of the link.
\<close>

section \<open>The link and its timers\<close>

lemma guarded_mono: "guarded l A \<Longrightarrow> A \<subseteq> B \<Longrightarrow> lk_state l \<noteq> LsOutOfService \<Longrightarrow> guarded l B"
  by (auto simp: guarded_def split: link_state.splits if_splits)

lemma arm_mono: "A \<subseteq> B \<Longrightarrow> arm a A \<subseteq> arm a B"
  by (cases a) auto

lemma arms_mono: "A \<subseteq> B \<Longrightarrow> arms acts A \<subseteq> arms acts B"
  by (induction acts arbitrary: A B) (simp_all add: arm_mono)

lemma arms_without: "arms acts (D - {t}) = arms acts D \<or> arms acts (D - {t}) = arms acts D - {t}"
proof (induction acts arbitrary: D)
  case (Cons a acts)
  have "arm a (D - {t}) = arm a D \<or> arm a (D - {t}) = arm a D - {t}" by (cases a) auto
  then show ?case using Cons.IH [of "arm a D"] by (elim disjE) simp_all
qed simp

text \<open>A time-out that a later action has overtaken finds its timer armed again; the link stays guarded.\<close>

lemma stale_timeout_guarded:
  assumes "link_ok l" and "guarded l A"
  shows "guarded (fst (link_timeout enc t now l)) (arms (snd (link_timeout enc t now l)) A)"
proof (cases "t \<in> A")
  case False
  then show ?thesis using link_timeout_guarded [OF assms, of enc t now] by simp
next
  case True
  let ?l = "link_timeout enc t now l"
  have s: "lk_state l \<noteq> LsOutOfService" using True assms(2) by (auto simp: guarded_def)
  show ?thesis
  proof (cases "lk_state (fst ?l) = LsOutOfService")
    case False
    then show ?thesis using guarded_mono [OF link_timeout_guarded [OF assms] arms_mono [of "A - {t}" A]] by blast
  next
    case True
    then have "\<exists>reason. ?l = link_fail enc reason l"
      using s by (cases t; cases "lk_state l")
        (auto simp: link_timeout_def enter_service_def send_status_def start_timer_def arm_t7_def split: if_splits list.splits)
    then show ?thesis using link_fail_guarded [OF s] by auto
  qed
qed

lemma overtaken_timeout_guarded:
  assumes "link_ok l" and "guarded l (arms acts D)"
  shows "guarded (fst (link_timeout enc t now l)) (arms (snd (link_timeout enc t now l)) (arms acts (D - {t})))"
  using arms_without [of acts D t] link_timeout_guarded [OF assms] stale_timeout_guarded [OF assms] by metis

text \<open>Announcements that the link went out of service.\<close>

fun is_oos :: "action \<Rightarrow> bool" where
  "is_oos (AcOutOfService _) = True"
| "is_oos _ = False"

definition oos :: "action list \<Rightarrow> nat" where
  "oos acts = length (filter is_oos acts)"

lemma oos_simps [simp]: "oos [] = 0" "oos (a # acts) = (if is_oos a then Suc (oos acts) else oos acts)" "oos (as @ bs) = oos as + oos bs"
  by (simp_all add: oos_def)

lemma oos_indications: "oos (indications acts) = oos acts"
proof (induction acts)
  case (Cons a acts)
  then show ?case by (cases a) simp_all
qed simp

definition down :: "link \<Rightarrow> nat" where
  "down l = of_bool (lk_state l = LsOutOfService)"

lemma down_counts:
  assumes "q703_step s inds s'" and "s = LsOutOfService \<Longrightarrow> s' = LsOutOfService"
  shows "of_bool (s = LsOutOfService) + oos inds = (of_bool (s' = LsOutOfService) :: nat)"
  using assms by (cases rule: q703_step.cases) auto

text \<open>An operation of the link that keeps it well formed and guarded and announces when it goes out of service.\<close>

definition steady :: "(link \<Rightarrow> link \<times> action list) \<Rightarrow> link \<Rightarrow> bool" where
  "steady f l \<longleftrightarrow> (\<forall>A. link_ok l \<longrightarrow> guarded l A \<longrightarrow>
     link_ok (fst (f l)) \<and> guarded (fst (f l)) (arms (snd (f l)) A) \<and> down (fst (f l)) = down l + oos (snd (f l)))"

lemma steady_by_refinement:
  assumes "refines l (f l)" and "lk_state l = LsOutOfService \<Longrightarrow> lk_state (fst (f l)) = LsOutOfService"
    and "\<And>A. link_ok l \<Longrightarrow> guarded l A \<Longrightarrow> link_ok (fst (f l)) \<and> guarded (fst (f l)) (arms (snd (f l)) A)"
  shows "steady f l"
  using assms(3) down_counts [OF assms(1) [unfolded refines_def] assms(2)] by (auto simp: steady_def down_def oos_indications)

lemma steady_send: "steady (link_send enc msu now) l"
  by (rule steady_by_refinement) (simp_all add: link_send_ok link_send_guarded, auto simp: refines_def link_send_def q703_stay)

lemma fail_guarded: "guarded l A \<Longrightarrow> guarded (fst (link_fail enc reason l)) (arms (snd (link_fail enc reason l)) A)"
  using link_fail_guarded [of l enc reason A] by (cases "lk_state l = LsOutOfService") (simp_all add: link_fail_def)

lemma steady_fail: "steady (link_fail enc reason) l"
  by (rule steady_by_refinement) (simp_all add: link_fail_refines link_fail_ok fail_guarded, simp add: link_fail_def)

lemma steady_flush: "steady (flush_ack enc) l"
  by (rule steady_by_refinement) (auto simp: refines_def flush_ack_def q703_stay guarded_def split: link_state.splits)

lemma steady_status: "length (lk_unacked l) \<le> WINDOW \<Longrightarrow> steady (on_status enc status bsn now) l"
  by (rule steady_by_refinement) (simp_all add: on_status_refines on_status_ok on_status_guarded, simp add: on_status_def)

lemma steady_data: "length (lk_unacked l) \<le> WINDOW \<Longrightarrow> steady (on_data enc bsn fsn message now) l"
  by (rule steady_by_refinement)
    (simp_all add: on_data_refines on_data_ok on_data_guarded, simp add: on_data_def is_aligned_def)

lemma steady_received: "length (lk_unacked l) \<le> WINDOW \<Longrightarrow> steady (link_received enc dec ppid data now) l"
  using steady_status steady_data by (auto simp: link_received_def steady_def split: option.split rx_message.split)

section \<open>The clocks of the runner\<close>

definition armed :: "'mt link_runner \<Rightarrow> link_timer set" where
  "armed rn = {t. rn_link_deadlines rn t \<noteq> None}"

definition test_armed :: "'mt link_runner \<Rightarrow> test_timer set" where
  "test_armed rn = {t. rn_test_deadlines rn t \<noteq> None}"

text \<open>
  With the actions \<open>p\<close> of the current batch and those its link asked for since still to be carried out:
  the link is guarded once they are, and its restart has a deadline or is announced exactly while it
  is out of service.
\<close>

definition link_clocked :: "action list \<Rightarrow> 'mt busy_runner \<Rightarrow> bool" where
  "link_clocked p b \<longleftrightarrow> link_ok (rn_link (fst b)) \<and> guarded (rn_link (fst b)) (arms (p @ snd b) (armed (fst b))) \<and>
     of_bool (rn_restart (fst b) \<noteq> None) + oos (p @ snd b) = down (rn_link (fst b))"

definition test_clock_runs :: "link_test option \<Rightarrow> test_timer set \<Rightarrow> bool" where
  "test_clock_runs x A \<longleftrightarrow> (case x of None \<Rightarrow> A = {} | Some test \<Rightarrow> test_clock_ok test A)"

definition test_clocked :: "'mt link_runner \<Rightarrow> bool" where
  "test_clocked rn \<longleftrightarrow> test_clock_runs (rn_test rn) (test_armed rn)"

lemma link_clocked_runner:
  "rn_link (f (fst b)) = rn_link (fst b) \<Longrightarrow> rn_link_deadlines (f (fst b)) = rn_link_deadlines (fst b) \<Longrightarrow>
   rn_restart (f (fst b)) = rn_restart (fst b) \<Longrightarrow> link_clocked p (on_runner f b) = link_clocked p b"
  by (simp add: link_clocked_def armed_def)

lemma armed_update [simp]:
  "armed (rn\<lparr>rn_link := l\<rparr>) = armed rn"
  "armed (rn\<lparr>rn_link_deadlines := (rn_link_deadlines rn)(t := Some at)\<rparr>) = insert t (armed rn)"
  "armed (rn\<lparr>rn_link_deadlines := (rn_link_deadlines rn)(t := None)\<rparr>) = armed rn - {t}"
  by (auto simp: armed_def)

lemma link_clocked_link:
  assumes "steady f (rn_link (fst b))" and "link_clocked p b"
  shows "link_clocked p (on_link f b)"
proof -
  let ?l = "rn_link (fst b)" and ?A = "arms (p @ snd b) (armed (fst b))"
  have b: "link_ok ?l" "guarded ?l ?A" "of_bool (rn_restart (fst b) \<noteq> None) + oos (p @ snd b) = down ?l"
    using assms(2) by (simp_all only: link_clocked_def)
  then have "link_ok (fst (f ?l))" "guarded (fst (f ?l)) (arms (snd (f ?l)) ?A)" "down (fst (f ?l)) = down ?l + oos (snd (f ?l))"
    using assms(1) unfolding steady_def by blast+
  then show ?thesis using b(3) by (simp add: link_clocked_def)
qed

interpretation clocks: runner_law env "\<lambda>b b'. link_clocked p b \<longrightarrow> link_clocked p b'" for env p
proof
  fix b :: "'mt busy_runner" and f :: "'mt link_runner \<Rightarrow> 'mt link_runner"
  assume "shared f"
  from shared_own [OF this] show "link_clocked p b \<longrightarrow> link_clocked p (on_runner f b)" by (simp add: link_clocked_runner)
qed (simp_all add: link_clocked_runner link_clocked_link steady_send steady_fail)

lemma restart_scheduled:
  assumes "link_clocked (AcOutOfService reason # rest) b"
  shows "link_clocked rest (on_runner (\<lambda>rn. rn\<lparr>rn_restart := Some (at rn)\<rparr>) b)"
proof -
  have "down (rn_link (fst b)) \<le> 1" by (simp add: down_def)
  then have "1 + oos (rest @ snd b) = down (rn_link (fst b))" using assms by (simp add: link_clocked_def)
  then show ?thesis using assms by (simp add: link_clocked_def armed_def)
qed

lemma apply_one_clocked:
  assumes "link_clocked (a # rest) b"
  shows "link_clocked rest (apply_one env now a b)"
proof (cases a)
  case (AcSend frame stream si)
  then have b: "link_clocked rest b" using assms by (simp add: link_clocked_def)
  have "link_clocked rest (on_link (link_fail enc FlAssociation) (on_runner (\<lambda>rn. rn\<lparr>rn_lost := True\<rparr>)
      (on_runner (\<lambda>rn. rn\<lparr>rn_attempts := n rn\<rparr>) b)))" for enc n
    using b by (intro link_clocked_link) (simp_all add: steady_fail link_clocked_runner)
  then show ?thesis using AcSend b by (simp add: apply_one_def Let_def link_clocked_runner)
next
  case (AcDeliver msu)
  then have "link_clocked rest b" using assms by (simp add: link_clocked_def)
  then show ?thesis using AcDeliver clocks.related_deliver [of rest b] by (simp add: apply_one_def)
next
  case (AcStart t after)
  then show ?thesis using assms by (simp add: apply_one_def link_clocked_def)
next
  case (AcStop t)
  then show ?thesis using assms by (simp add: apply_one_def link_clocked_def)
next
  case AcInService
  then have "link_clocked rest b" using assms by (simp add: link_clocked_def)
  then show ?thesis using AcInService clocks.related_on_test [of rest b] by (simp add: apply_one_def)
next
  case (AcOutOfService reason)
  let ?b = "on_test env now test_stop (on_runner (log_out (LxFailure reason)) b)"
  have "link_clocked (a # rest) (on_runner (log_out (LxFailure reason)) b)" using assms by (simp add: link_clocked_runner)
  then have "link_clocked (a # rest) ?b" using clocks.related_on_test by blast
  then show ?thesis using AcOutOfService restart_scheduled [of reason rest ?b] by (simp add: apply_one_def)
qed (use assms in \<open>simp_all add: apply_one_def link_clocked_def armed_def\<close>)


lemma test_armed_update [simp]:
  "test_armed (rn\<lparr>rn_link := l\<rparr>) = test_armed rn" "test_armed (rn\<lparr>rn_test := x\<rparr>) = test_armed rn"
  "test_armed (rn\<lparr>rn_test_deadlines := (rn_test_deadlines rn)(t := Some at)\<rparr>) = insert t (test_armed rn)"
  "test_armed (rn\<lparr>rn_test_deadlines := (rn_test_deadlines rn)(t := None)\<rparr>) = test_armed rn - {t}"
  by (auto simp: test_armed_def)

lemma test_action_armed:
  "rn_test (fst (apply_test_action env now a b)) = rn_test (fst b) \<and>
   test_armed (fst (apply_test_action env now a b)) = test_arm a (test_armed (fst b))"
  by (cases a) (auto simp: apply_test_action_def send_test_def Let_def test_armed_def split: option.split)

lemma apply_test_armed:
  "rn_test (fst (apply_test env now out b)) = rn_test (fst b) \<and>
   test_armed (fst (apply_test env now out b)) = fold test_arm out (test_armed (fst b))"
  by (induction out arbitrary: b) (simp_all add: apply_test_def test_action_armed)

lemma on_test_clocked:
  assumes "rn_test (fst b) = Some test" and "test_clock_ok test A" and "expired e \<subseteq> A" and "test_armed (fst b) = A - expired e"
  shows "test_clocked (fst (on_test env now (test_apply e) b))"
proof -
  obtain test' out where e: "test_apply e test = (test', out)" by force
  have "test_clock_ok test' (fold test_arm out (A - expired e))" using test_clock.keeps [OF assms(2) _ assms(3)] e by simp
  then show ?thesis using assms(1,4) e
    by (simp add: on_test_def test_clocked_def test_clock_runs_def apply_test_armed)
qed

lemma on_test_now:
  assumes "test_clocked (fst b)" and "expired e = {}"
  shows "test_clocked (fst (on_test env now (test_apply e) b))"
proof (cases "rn_test (fst b)")
  case (Some test)
  then show ?thesis using on_test_clocked [OF Some, of "test_armed (fst b)" e] assms
    by (simp add: test_clocked_def test_clock_runs_def)
qed (use assms in \<open>simp add: on_test_def\<close>)

lemma on_test_events:
  assumes "test_clocked (fst b)"
  shows "test_clocked (fst (on_test env now test_begin b))" "test_clocked (fst (on_test env now test_stop b))"
    "test_clocked (fst (on_test env now (test_acknowledged c) b))"
proof -
  have "test_apply TeBegin = test_begin" "test_apply TeStop = test_stop" "test_apply (TeAcknowledged c) = test_acknowledged c"
    by (simp_all add: fun_eq_iff)
  then show "test_clocked (fst (on_test env now test_begin b))" "test_clocked (fst (on_test env now test_stop b))"
    "test_clocked (fst (on_test env now (test_acknowledged c) b))"
    using on_test_now [OF assms, of _ env now] by (metis expired.simps(2-4))+
qed

lemma test_clocked_frame [simp]:
  "test_clocked (log_out x rn) = test_clocked rn" "test_clocked (on_fw f rn) = test_clocked rn"
  "test_clocked (management_message env m rn) = test_clocked rn" "test_clocked (rn\<lparr>rn_link := l\<rparr>) = test_clocked rn"
  "test_clocked (tell_level3 i rn) = test_clocked rn" "test_clocked (lost_with_the_link n rn) = test_clocked rn"
  "test_clocked (rn\<lparr>lt_traffic := tf\<rparr>) = test_clocked rn" "test_clocked (rn\<lparr>rn_available := v\<rparr>) = test_clocked rn"
  by (simp_all add: test_clocked_def test_armed_def)

lemma deliver_test_clocked: "test_clocked (fst b) \<Longrightarrow> test_clocked (fst (link_deliver env now raw b))"
proof -
  assume c: "test_clocked (fst b)"
  have "test_clocked (fst (link_test_message env now m b))" for m
    using c by (simp add: link_test_message_def Let_def on_test_events(3) split: option.split test_message.split)
  then show ?thesis using c by (simp add: link_deliver_def split: option.split)
qed

lemma apply_one_test_clocked:
  assumes "test_clocked (fst b)"
  shows "test_clocked (fst (apply_one env now a b))"
proof (cases a)
  case (AcOutOfService reason)
  have "test_clocked (fst (on_runner (log_out (LxFailure reason)) b))" using assms by (simp add: test_clocked_def test_armed_def)
  from on_test_events(2) [OF this, of env now] show ?thesis using AcOutOfService by (simp add: apply_one_def test_clocked_def test_armed_def)
next
  case (AcDeliver msu)
  then show ?thesis using assms deliver_test_clocked by (simp add: apply_one_def)
next
  case AcInService
  then show ?thesis using assms on_test_events(1) by (simp add: apply_one_def)
qed (use assms in \<open>simp_all add: apply_one_def Let_def test_clocked_def test_armed_def\<close>)

text \<open>Both clocks, while a batch is carried out.\<close>

definition clocked_runner :: "action list \<Rightarrow> 'mt busy_runner \<Rightarrow> bool" where
  "clocked_runner p b \<longleftrightarrow> link_clocked p b \<and> test_clocked (fst b)"

lemma batch_clocked: "clocked_runner batch b \<Longrightarrow> clocked_runner [] (fold (apply_one env now) batch b)"
proof (induction batch arbitrary: b)
  case (Cons a batch)
  then have "clocked_runner batch (apply_one env now a b)"
    by (simp add: clocked_runner_def apply_one_clocked apply_one_test_clocked)
  then show ?case using Cons.IH by simp
qed simp

lemma clocked_pending: "clocked_runner p (rn, q) = clocked_runner [] (rn, p @ q)"
  by (simp add: clocked_runner_def link_clocked_def)

lemma batches_clocked:
  "clocked_runner [] (rn, acts) \<Longrightarrow> apply_batches env now n acts rn = Some rn' \<Longrightarrow> clocked_runner [] (rn', [])"
proof (induction env now n acts rn rule: apply_batches.induct)
  case (3 env now n a acts rn)
  obtain rn1 later where b: "fold (apply_one env now) (a # acts) (rn, []) = (rn1, later)" by force
  have "clocked_runner [] (rn1, later)"
    using batch_clocked [of "a # acts" "(rn, [])" env now] 3 b by (simp add: clocked_pending [of "a # acts"])
  then show ?case using 3 b by simp
qed simp_all

lemma flush_clocked: "clocked_runner [] b \<Longrightarrow> clocked_runner [] (on_link (flush_ack enc) b)"
  by (simp add: clocked_runner_def link_clocked_link steady_flush test_clocked_def test_armed_def)

lemma rounds_clocked:
  "clocked_runner [] (rn, acts) \<Longrightarrow> apply_rounds env now n acts rn = Some rn' \<Longrightarrow> clocked_runner [] (rn', [])"
proof (induction n arbitrary: acts rn)
  case (Suc n)
  then obtain rn1 where rn1: "apply_batches env now (Suc n) acts rn = Some rn1" by (auto split: option.splits)
  obtain rn2 acts2 where f: "on_link (flush_ack (le_encode env)) (rn1, []) = (rn2, acts2)" by force
  have "clocked_runner [] (rn2, acts2)" using flush_clocked [OF batches_clocked [OF Suc.prems(1) rn1]] f by metis
  then show ?case using Suc rn1 f by (auto split: if_splits)
qed simp


lemma refresh_own:
  "rn_link (refresh_availability rn) = rn_link rn \<or> rn_link (refresh_availability rn) = (rn_link rn)\<lparr>lk_retrievable := None\<rparr>"
  "rn_link_deadlines (refresh_availability rn) = rn_link_deadlines rn" "rn_restart (refresh_availability rn) = rn_restart rn"
  "rn_lost (refresh_availability rn) = rn_lost rn" "test_clocked (refresh_availability rn) = test_clocked rn"
  "rn_test (refresh_availability rn) = rn_test rn"
  by (auto simp: refresh_availability_def Let_def link_detach_def split: option.split prod.split)

lemma refresh_clocked:
  assumes "clocked_runner [] (rn, [])"
  shows "clocked_runner [] (refresh_availability rn, [])"
proof -
  have "armed (refresh_availability rn) = armed rn" by (simp add: armed_def refresh_own)
  moreover have "down ((rn_link rn)\<lparr>lk_retrievable := None\<rparr>) = down (rn_link rn)" by (simp add: down_def)
  ultimately show ?thesis
    using assms refresh_own(1) [of rn] by (auto simp: clocked_runner_def link_clocked_def refresh_own(2-5) link_ok_emptied)
qed

lemma perform_clocked:
  assumes "clocked_runner [] b"
  shows "clocked_runner [] (link_perform env now b, [])"
proof -
  obtain rn' where rn': "apply_rounds env now 3 (snd b) (fst b) = Some rn'" using rounds_end [of env now "snd b" "fst b"] by blast
  have "clocked_runner [] (rn', [])" using assms by (intro rounds_clocked [OF _ rn']) simp
  then show ?thesis using rn' by (simp add: link_perform_def refresh_clocked)
qed

lemma clocked_link: "steady f (rn_link (fst b)) \<Longrightarrow> clocked_runner [] b \<Longrightarrow> clocked_runner [] (on_link f b)"
  by (simp add: clocked_runner_def link_clocked_link)

lemma clocked_shared:
  assumes "link_task.more (f (fst b)) = link_task.more (fst b)" and "clocked_runner [] b"
  shows "clocked_runner [] (on_runner f b)"
  using assms(2) own_fields [OF assms(1)] by (simp add: clocked_runner_def link_clocked_runner test_clocked_def test_armed_def)

lemma clocked_task:
  fixes rn rn' :: "'mt link_runner"
  assumes "link_task.more rn' = link_task.more rn" and "clocked_runner [] (rn, [])"
  shows "clocked_runner [] (rn', [])"
  using clocked_shared [of "\<lambda>_. rn'" "(rn, [])"] assms by (simp add: on_runner_def)

lemma received_clocked:
  assumes "clocked_runner [] (rn, [])" and "length (lk_unacked (rn_link rn)) \<le> WINDOW"
  shows "clocked_runner [] (task_received env now data ppid rn, [])"
proof -
  have logged: "clocked_runner [] (log_out x rn, [])" for x by (rule clocked_task [OF _ assms(1)]) simp
  let ?rn = "if le_decode env data = None then log_out (LxRxDiscard RxUndecodable) rn else rn"
  have "clocked_runner [] (link_perform env now (on_link (link_received (le_encode env) (le_decode env) ppid data now) (?rn, [])), [])"
    using assms logged steady_received [OF assms(2)] by (intro perform_clocked clocked_link) simp_all
  then show ?thesis unfolding task_received_def Let_def using logged by (simp only: split: if_split) blast
qed

lemma carry_clocked:
  assumes "clocked_runner [] (rn, [])"
  shows "clocked_runner [] (task_carry env now msu rn, [])"
proof -
  obtain traffic offer where o: "traffic_offer msu (can_send rn) (lt_traffic rn) = (traffic, offer)" by force
  let ?rn = "rn\<lparr>lt_traffic := traffic\<rparr>"
  have rn: "clocked_runner [] (?rn, [])" by (rule clocked_task [OF _ assms]) simp
  have "clocked_runner [] (link_perform env now (on_link (link_send (le_encode env) m now) (?rn, [])), [])" for m
    by (intro perform_clocked clocked_link steady_send rn)
  moreover have "clocked_runner [] (on_fw f ?rn, [])" "clocked_runner [] (buffer_full ?rn, [])" for f
    by (rule clocked_task [OF _ rn], simp)+
  ultimately show ?thesis using rn by (simp add: task_carry_def o Let_def split: offer.split)
qed

lemma offer_clocked:
  assumes "clocked_runner [] b"
  shows "clocked_runner [] (offer_buffered env now sendable msu b)"
proof -
  obtain traffic offer where o: "traffic_offer msu sendable (lt_traffic (fst b)) = (traffic, offer)" by force
  let ?b = "on_runner (\<lambda>rn. rn\<lparr>lt_traffic := traffic\<rparr>) b"
  have b: "clocked_runner [] ?b" by (rule clocked_shared [OF _ assms]) simp
  have "clocked_runner [] (on_link (link_send (le_encode env) m now) ?b)" for m by (intro clocked_link steady_send b)
  moreover have "clocked_runner [] (on_runner buffer_full ?b)" by (rule clocked_shared [OF _ b]) simp
  ultimately show ?thesis using b by (simp add: offer_buffered_def o Let_def split: offer.split)
qed

lemma command_clocked:
  assumes "clocked_runner [] (rn, [])"
  shows "clocked_runner [] (task_command env now c rn, [])"
proof -
  have offers: "clocked_runner [] (fold (offer_buffered env now sendable) ms b)" if "clocked_runner [] b" for sendable ms b
    using that by (induction ms arbitrary: b) (simp_all add: offer_clocked)
  have "clocked_runner [] (command_actions env now c rn)"
  proof (cases c)
    case CmdOpen
    have "clocked_runner [] (lost_with_the_link n (on_fw f (rn\<lparr>lt_traffic := tf\<rparr>)), [])" for n f tf
      by (rule clocked_task [OF _ assms]) simp
    then show ?thesis using CmdOpen offers by (simp add: command_actions_def Let_def split: prod.split)
  next
    case (CmdHold notify)
    have "clocked_runner [] (link_hold notify rn, [])" by (rule clocked_task [OF _ assms]) simp
    then show ?thesis using CmdHold by (simp add: command_actions_def)
  next
    case (CmdDivert fsnc)
    have "clocked_runner [] (divert_all env fsnc rn, [])" by (rule clocked_task [OF _ assms]) simp
    then show ?thesis using CmdDivert by (simp add: command_actions_def)
  qed (simp_all add: command_actions_def assms clocked_link steady_fail steady_send)
  then show ?thesis unfolding task_command_def by (rule perform_clocked)
qed

lemma fire_link_clocked:
  assumes "clocked_runner [] b"
  shows "clocked_runner [] (fire_link env now t b)"
proof -
  let ?l = "rn_link (fst b)" and ?to = "link_timeout (le_encode env) t now (rn_link (fst b))"
  have b: "link_ok ?l" "guarded ?l (arms (snd b) (armed (fst b)))" "of_bool (rn_restart (fst b) \<noteq> None) + oos (snd b) = down ?l"
    using assms by (simp_all add: clocked_runner_def link_clocked_def)
  have "lk_state ?l = LsOutOfService \<Longrightarrow> lk_state (fst ?to) = LsOutOfService" by (cases t) (simp_all add: link_timeout_def)
  with down_counts [OF link_timeout_refines [unfolded refines_def]] have "down (fst ?to) = down ?l + oos (snd ?to)"
    by (simp add: down_def oos_indications)
  then show ?thesis
    using assms b overtaken_timeout_guarded [OF b(1,2), of "le_encode env" t now] link_timeout_ok [OF b(1)]
    by (simp add: fire_link_def clocked_runner_def link_clocked_def test_clocked_def test_armed_def)
qed

lemma fire_test_clocked:
  assumes "clocked_runner [] b"
  shows "clocked_runner [] (fire_test env now t b)"
proof (cases "due now (rn_test_deadlines (fst b) t)")
  case True
  let ?b = "on_runner (\<lambda>rn. rn\<lparr>rn_test_deadlines := (rn_test_deadlines rn)(t := None)\<rparr>) b"
  have link: "link_clocked [] (on_test env now (test_timeout t) ?b)"
    using assms clocks.related_on_test [of "[]" ?b] by (simp add: clocked_runner_def link_clocked_runner)
  have t: "t \<in> test_armed (fst b)" using True by (auto simp: due_def test_armed_def split: option.splits)
  then obtain test where test: "rn_test (fst b) = Some test" "test_clock_ok test (test_armed (fst b))"
    using assms by (auto simp: clocked_runner_def test_clocked_def test_clock_runs_def split: option.splits)
  have "test_apply (TeTimeout t) = test_timeout t" by (simp add: fun_eq_iff)
  then have "test_clocked (fst (on_test env now (test_timeout t) ?b))"
    using on_test_clocked [of ?b test "test_armed (fst b)" "TeTimeout t"] test t by simp
  then show ?thesis using True link by (simp add: fire_test_def clocked_runner_def)
qed (use assms in \<open>simp add: fire_test_def\<close>)

lemma start_guarded:
  "lk_state l = LsOutOfService \<Longrightarrow> guarded (fst (link_start enc l)) (arms (snd (link_start enc l)) A) \<and>
   oos (snd (link_start enc l)) = 0 \<and> down (fst (link_start enc l)) = 0"
  by (simp add: link_start_def link_abandon_def send_status_def start_timer_def guarded_def down_def send_frame_def split: option.split)

lemma fire_restart_clocked:
  assumes "clocked_runner [] b"
  shows "clocked_runner [] (fire_restart env now b)"
proof (cases "due now (rn_restart (fst b))")
  case True
  then have "rn_restart (fst b) \<noteq> None" by (auto simp: due_def split: option.splits)
  moreover have "down (rn_link (fst b)) \<le> 1" by (simp add: down_def)
  ultimately have o: "oos (snd b) = 0" "down (rn_link (fst b)) = 1" using assms by (auto simp: clocked_runner_def link_clocked_def)
  then have "lk_state (rn_link (fst b)) = LsOutOfService" by (simp add: down_def of_bool_def split: if_splits)
  from start_guarded [OF this] show ?thesis
    using True assms o(1)
    by (simp add: fire_restart_def clocked_runner_def link_clocked_def link_start_ok armed_def test_clocked_def test_armed_def)
qed (use assms in \<open>simp add: fire_restart_def\<close>)

lemma fire_clocked:
  assumes "clocked_runner [] (rn, [])"
  shows "clocked_runner [] (task_fire env now rn, [])"
proof -
  have "clocked_runner [] (fold (fire_link env now) ts b)" if "clocked_runner [] b" for ts b
    using that by (induction ts arbitrary: b) (simp_all add: fire_link_clocked)
  moreover have "clocked_runner [] (fold (fire_test env now) ts b)" if "clocked_runner [] b" for ts b
    using that by (induction ts arbitrary: b) (simp_all add: fire_test_clocked)
  ultimately show ?thesis unfolding task_fire_def using assms by (intro perform_clocked fire_restart_clocked) blast
qed

lemma turn_clocked:
  assumes "clocked_runner [] (rn, [])" and "length (lk_unacked (rn_link rn)) \<le> WINDOW"
  shows "clocked_runner [] (link_turn env now w rn, [])"
proof -
  have taken: "clocked_runner [] (task_take f rn, [])" for f
    by (rule clocked_task [OF _ assms(1)]) (simp add: task_take_def)
  have commands: "clocked_runner [] (fold (task_command env now) cs rn', [])" if "clocked_runner [] (rn', [])" for cs rn'
    using that by (induction cs arbitrary: rn') (simp_all add: command_clocked)
  have "clocked_runner [] (rn\<lparr>rn_lost := True\<rparr>, [])"
    using assms(1) by (simp add: clocked_runner_def link_clocked_def armed_def test_clocked_def test_armed_def)
  then show ?thesis
    using assms taken
    by (auto simp: link_turn_def received_clocked fire_clocked
      intro!: carry_clocked commands command_clocked split: link_wake.split option.split list.split)
qed


section \<open>What level 3 and the registry know\<close>

text \<open>What the link is to level 3.\<close>

definition serving :: "'mt link_runner \<Rightarrow> bool" where
  "serving rn \<longleftrightarrow> lk_state (rn_link rn) = LsInService \<and> (case rn_test rn of Some test \<Rightarrow> te_available test | None \<Rightarrow> True) \<and> \<not> rn_lost rn"

text \<open>
  The reports the task made so far alternate, the first that the link came up, and the last says
  whether it counts the link as available; the slot of the registry says the same.
\<close>

definition alternates :: "bool list \<Rightarrow> bool" where
  "alternates xs \<longleftrightarrow> xs = map even [0..<length xs]"

lemma alternates_Nil [simp]: "alternates []"
  by (simp add: alternates_def)

lemma alternates_snoc: "alternates xs \<Longrightarrow> b = even (length xs) \<Longrightarrow> alternates (xs @ [b])"
  by (simp add: alternates_def)

definition told_ok :: "'mt link_runner \<Rightarrow> bool" where
  "told_ok rn \<longleftrightarrow> rg_management (fw_registry (lt_fw rn)) \<and> lst_index (lt_settings rn) \<noteq> None \<and>
     alternates (told rn) \<and> rn_available rn = odd (length (told rn)) \<and>
     (\<exists>a. flags (fw_registry (lt_fw rn)) (lt_slot rn) = Some (rn_available rn, Some a))"

definition quietly :: "'mt link_runner \<Rightarrow> 'mt link_runner \<Rightarrow> bool" where
  "quietly rn rn' \<longleftrightarrow> lt_slot rn' = lt_slot rn \<and> lt_settings rn' = lt_settings rn \<and> rn_available rn' = rn_available rn \<and>
     told rn' = told rn \<and> undisturbed (lt_fw rn) (lt_fw rn')"

lemma quietly_refl [simp]: "quietly rn rn"
  by (simp add: quietly_def)

lemma quietly_trans: "quietly rn rn' \<Longrightarrow> quietly rn' rn'' \<Longrightarrow> quietly rn rn''"
  using undisturbed_trans by (auto simp: quietly_def)

lemma quietly_shared: "shared f \<Longrightarrow> quietly rn (f rn)"
  using shared_own [of f rn] by (simp add: quietly_def shared_def)

lemma quietly_told: "quietly rn rn' \<Longrightarrow> told_ok rn \<Longrightarrow> told_ok rn'"
  by (auto simp: quietly_def told_ok_def undisturbed_def)

lemma quietly_own [simp]:
  "quietly rn (rn\<lparr>rn_link := l\<rparr>)" "quietly rn (rn\<lparr>rn_test := x\<rparr>)" "quietly rn (rn\<lparr>rn_test_deadlines := d\<rparr>)"
  "quietly rn (rn\<lparr>rn_link_deadlines := e\<rparr>)" "quietly rn (rn\<lparr>rn_restart := r\<rparr>)" "quietly rn (rn\<lparr>rn_lost := lost\<rparr>)"
  "quietly rn (rn\<lparr>rn_attempts := n\<rparr>)" "quietly rn (rn\<lparr>lt_traffic := tf\<rparr>)"
  by (simp_all add: quietly_def told_def)

lemma quietly_log: "change_told x = None \<Longrightarrow> quietly rn (log_out x rn)"
  by (rule quietly_shared) (rule shared_log)

lemma quietly_fw: "(\<And>st. undisturbed st (f st)) \<Longrightarrow> quietly rn (on_fw f rn)"
  by (rule quietly_shared) (rule shared_fw)

interpretation hush: runner_law env "\<lambda>b b'. quietly (fst b) (fst b')" for env
proof
  fix b b' b'' :: "'mt busy_runner"
  assume "quietly (fst b) (fst b')" and "quietly (fst b') (fst b'')"
  then show "quietly (fst b) (fst b'')" by (rule quietly_trans)
next
  fix b :: "'mt busy_runner" and f :: "'mt link_runner \<Rightarrow> 'mt link_runner"
  assume "shared f"
  then show "quietly (fst b) (fst (on_runner f b))" by (simp only: on_runner_simps quietly_shared)
qed simp_all

lemma apply_one_quietly: "quietly (fst b) (fst (apply_one env now a b))"
proof (cases a)
  case (AcSend frame stream si)
  let ?rn = "(fst b)\<lparr>rn_attempts := Suc (rn_attempts (fst b))\<rparr>"
  have "quietly (fst b) ?rn" by simp
  moreover have "quietly ?rn (log_out (LxSend frame stream) ?rn)" by (rule quietly_log) simp
  moreover have "quietly ?rn (?rn\<lparr>rn_lost := True, rn_link := l\<rparr>)" for l by (rule quietly_trans [of _ "?rn\<lparr>rn_lost := True\<rparr>"]) simp_all
  ultimately have "quietly (fst b) (log_out (LxSend frame stream) ?rn)" "quietly (fst b) (?rn\<lparr>rn_lost := True, rn_link := l\<rparr>)" for l
    using quietly_trans by blast+
  then show ?thesis using AcSend by (simp add: apply_one_def Let_def)
next
  case (AcOutOfService reason)
  let ?b = "on_runner (log_out (LxFailure reason)) b"
  have "quietly (fst b) (fst ?b)" by (simp add: quietly_log)
  moreover have "quietly (fst ?b) (fst (on_test env now test_stop ?b))" by (rule hush.related_on_test)
  ultimately have "quietly (fst b) (fst (on_test env now test_stop ?b))" by (rule quietly_trans)
  from quietly_trans [OF this quietly_own(5)] show ?thesis using AcOutOfService by (simp add: apply_one_def)
qed (simp_all add: apply_one_def hush.related_deliver hush.related_on_test quietly_log)

lemma batch_quietly: "quietly (fst b) (fst (fold (apply_one env now) batch b))"
proof (induction batch arbitrary: b)
  case (Cons a batch)
  from quietly_trans [OF apply_one_quietly Cons.IH] show ?case by simp
qed simp

lemma batches_quietly: "apply_batches env now n acts rn = Some rn' \<Longrightarrow> quietly rn rn'"
proof (induction env now n acts rn rule: apply_batches.induct)
  case (3 env now n a acts rn)
  obtain rn1 later where b: "fold (apply_one env now) (a # acts) (rn, []) = (rn1, later)" by force
  then have "quietly rn rn1" using batch_quietly [of "(rn, [])" env now "a # acts"] by simp
  moreover have "quietly rn1 rn'" using 3 b by simp
  ultimately show ?case by (rule quietly_trans)
qed simp_all

lemma rounds_quietly: "apply_rounds env now n acts rn = Some rn' \<Longrightarrow> quietly rn rn'"
proof (induction n arbitrary: acts rn)
  case (Suc n)
  then obtain rn1 where rn1: "apply_batches env now (Suc n) acts rn = Some rn1" by (auto split: option.splits)
  let ?f = "on_link (flush_ack (le_encode env)) (rn1, [])"
  have "quietly rn (fst ?f)" using quietly_trans [OF batches_quietly [OF rn1]] by simp
  moreover have "quietly (fst ?f) rn'" using Suc rn1 by (auto simp: case_prod_beta split: if_splits)
  ultimately show ?case by (rule quietly_trans)
qed simp

section \<open>Availability\<close>

text \<open>What holds whenever the task waits.\<close>

definition settled :: "'mt link_runner \<Rightarrow> bool" where
  "settled rn \<longleftrightarrow> told_ok rn \<and> rn_available rn = serving rn \<and>
     flags (fw_registry (lt_fw rn)) (lt_slot rn) = Some (rn_available rn, Some (is_aligned (rn_link rn)))"

definition waits_ok :: "'mt link_runner \<Rightarrow> bool" where
  "waits_ok rn \<longleftrightarrow> told_ok rn \<and> (\<not> rn_lost rn \<longrightarrow> settled rn)"

lemma settled_waits: "settled rn \<Longrightarrow> waits_ok rn"
  by (simp add: waits_ok_def settled_def)

lemma flags_aligned:
  "flags (fw_registry (update_port x (\<lambda>p. fst (port_set_aligned on p)) st)) x =
     map_option (\<lambda>(active, aligned). (active, map_option (\<lambda>_. on) aligned)) (flags (fw_registry st) x)"
  by (simp add: flags_def update_port_def slot_of_set_slot port_set_aligned_def option.map_comp comp_def)

lemma flags_active:
  "flags (set_slot x (slot_set_active on) r) x = map_option (\<lambda>(_, aligned). (on, aligned)) (flags r x)"
  by (simp add: flags_def slot_of_set_slot slot_set_active_def option.map_comp comp_def)

lemma update_port_management [simp]: "rg_management (fw_registry (update_port x f st)) = rg_management (fw_registry st)"
  by (simp add: update_port_def)


lemma told_level3: "rg_management (fw_registry (lt_fw t)) \<Longrightarrow> told (tell_level3 i t) = told t @ (case change_told (LxReport (RgManage i)) of Some b \<Rightarrow> [b] | None \<Rightarrow> [])"
  by (simp add: tell_level3_def manage_def told_log)

lemma settled_recompute:
  assumes "settled rn"
  shows "settled (on_fw recompute_fw rn)"
proof -
  have "told_ok rn" using assms by (simp add: settled_def)
  then have "told_ok (on_fw recompute_fw rn)" by (rule quietly_told [OF quietly_fw [OF undisturbed_recompute]])
  then show ?thesis using assms undisturbed_recompute [of "lt_fw rn"] by (simp add: settled_def serving_def undisturbed_def)
qed

lemma settled_changed:
  assumes "told_ok rn" and "serving rn \<noteq> rn_available rn"
    and "told rn' = told rn @ [serving rn]" "lt_settings rn' = lt_settings rn" "lt_slot rn' = lt_slot rn"
    and "rn_link rn' = rn_link rn \<or> rn_link rn' = (rn_link rn)\<lparr>lk_retrievable := None\<rparr>"
    and "rn_test rn' = rn_test rn" "rn_lost rn' = rn_lost rn" "rn_available rn' = serving rn"
    and "rg_management (fw_registry (lt_fw rn'))"
    and "flags (fw_registry (lt_fw rn')) (lt_slot rn) = Some (serving rn, Some (is_aligned (rn_link rn)))"
  shows "settled (on_fw recompute_fw rn')"
proof (rule settled_recompute)
  have "alternates (told rn')" "odd (length (told rn')) = serving rn"
    using assms(1-3) alternates_snoc [of "told rn" "serving rn"] by (auto simp: told_ok_def)
  moreover have "serving rn' = serving rn" "is_aligned (rn_link rn') = is_aligned (rn_link rn)"
    using assms(6-8) by (auto simp: serving_def is_aligned_def)
  ultimately show "settled rn'" using assms by (simp add: settled_def told_ok_def)
qed

lemma lost_with_fields [simp]: "lt_fw (lost_with_the_link n t) = lt_fw t" "lt_slot (lost_with_the_link n t) = lt_slot t"
  "told (lost_with_the_link n t) = told t"
  by (simp_all add: lost_with_the_link_def told_log)

lemma refresh_settles:
  assumes "told_ok rn"
  shows "settled (refresh_availability rn)"
proof -
  define aligned where "aligned = is_aligned (rn_link rn)"
  define rn1 where "rn1 = on_fw (update_port (lt_slot rn) (\<lambda>p. fst (port_set_aligned aligned p))) rn"
  define rn2 where "rn2 = on_fw (\<lambda>st. st\<lparr>fw_registry := set_slot (lt_slot rn) (slot_set_active (serving rn)) (fw_registry st)\<rparr>)
    (rn1\<lparr>rn_available := serving rn\<rparr>)"
  obtain a l where a: "flags (fw_registry (lt_fw rn)) (lt_slot rn) = Some (rn_available rn, Some a)" and l: "lst_index (lt_settings rn) = Some l"
    using assms unfolding told_ok_def by blast
  have f1: "flags (fw_registry (lt_fw rn1)) (lt_slot rn) = Some (rn_available rn, Some aligned)"
    using a by (simp add: rn1_def flags_aligned)
  have f2: "flags (fw_registry (lt_fw rn2)) (lt_slot rn) = Some (serving rn, Some aligned)" using f1 by (simp add: rn2_def flags_active)
  have o2: "rg_management (fw_registry (lt_fw rn2))" "told rn2 = told rn" "lt_settings rn2 = lt_settings rn" "lt_slot rn2 = lt_slot rn"
      "rn_link rn2 = rn_link rn" "rn_test rn2 = rn_test rn" "rn_lost rn2 = rn_lost rn" "rn_available rn2 = serving rn"
    using assms by (simp_all add: rn2_def rn1_def told_ok_def told_def)
  have tested: "(lk_state (rn_link rn) = LsInService \<and> (case rn_test rn of Some test \<Rightarrow> te_available test | None \<Rightarrow> True) \<and> \<not> rn_lost rn) = serving rn"
    by (simp add: serving_def)
  consider (same) "serving rn = rn_available rn" | (up) "serving rn" "\<not> rn_available rn" | (down) "\<not> serving rn" "rn_available rn" by blast
  then show ?thesis
  proof cases
    case same
    have "serving rn1 = serving rn" by (simp add: serving_def rn1_def)
    then have "settled rn1" using assms f1 same by (auto simp: settled_def told_ok_def aligned_def rn1_def told_def)
    then have "settled rn1" "settled (on_fw recompute_fw rn1)" by (simp_all add: settled_recompute)
    then show ?thesis unfolding refresh_availability_def Let_def tested using same by (simp add: aligned_def rn1_def)
  next
    case up
    have "refresh_availability rn = on_fw recompute_fw (tell_level3 (MiLinkUp l) rn2)"
      unfolding refresh_availability_def Let_def tested using up l o2(3) by (simp add: rn1_def rn2_def aligned_def)
    moreover have "settled (on_fw recompute_fw (tell_level3 (MiLinkUp l) rn2))"
      by (rule settled_changed [OF assms]) (use up o2 f2 in \<open>simp_all add: told_level3 aligned_def\<close>)
    ultimately show ?thesis by simp
  next
    case down
    obtain tf lost where tf: "traffic_failed (lk_retrievable (rn_link rn)) (lt_traffic rn) = (tf, lost)" by force
    define rn3 where "rn3 = tell_level3 (MiLinkDown l (link_bsnt (rn_link rn)))
      (lost_with_the_link lost (rn2\<lparr>rn_link := (rn_link rn)\<lparr>lk_retrievable := None\<rparr>, lt_traffic := tf\<rparr>))"
    have "refresh_availability rn = on_fw recompute_fw rn3"
      unfolding refresh_availability_def Let_def tested using down l o2(3)
      by (simp add: rn1_def rn2_def rn3_def aligned_def link_detach_def tf)
    moreover have "told (rn2\<lparr>rn_link := x, lt_traffic := tf\<rparr>) = told rn" for x using o2(2) by (simp add: told_def)
    then have "settled (on_fw recompute_fw rn3)"
      by (intro settled_changed [OF assms]) (use down o2 f2 in \<open>simp_all add: rn3_def told_level3 aligned_def\<close>)
    ultimately show ?thesis by simp
  qed
qed

lemma perform_settles:
  assumes "told_ok (fst b)"
  shows "settled (link_perform env now b)"
proof -
  obtain rn' where rn': "apply_rounds env now 3 (snd b) (fst b) = Some rn'" using rounds_end [of env now "snd b" "fst b"] by blast
  have "told_ok rn'" using assms quietly_told [OF rounds_quietly [OF rn']] by simp
  then show ?thesis using rn' by (simp add: link_perform_def refresh_settles)
qed

lemmas perform_waits = settled_waits [OF perform_settles]


section \<open>Runs\<close>

text \<open>
  The task waits, then does one turn; between two turns others change the shared state, but not the
  flags of this slot, and network management stays attached. The window of numbers is not exceeded.
\<close>

inductive link_runs :: "('x, 'mt) link_env \<Rightarrow> 'mt link_runner \<Rightarrow> 'mt link_runner \<Rightarrow> bool" for env rn0 where
  link_runs_start: "link_runs env rn0 rn0"
| link_runs_turn: "link_runs env rn0 rn \<Longrightarrow> \<not> rn_lost rn \<Longrightarrow> length (lk_unacked (rn_link rn)) \<le> WINDOW \<Longrightarrow>
    link_runs env rn0 (link_turn env now w rn)"
| link_runs_others: "link_runs env rn0 rn \<Longrightarrow> (rg_management (fw_registry (lt_fw rn)) \<Longrightarrow> rg_management (fw_registry st)) \<Longrightarrow>
    flags (fw_registry st) (lt_slot rn) = flags (fw_registry (lt_fw rn)) (lt_slot rn) \<Longrightarrow> link_runs env rn0 (rn\<lparr>lt_fw := st\<rparr>)"

lemma waits_shared:
  assumes "link_task.more rn' = link_task.more rn" and "quietly rn rn'" and "waits_ok rn"
  shows "waits_ok rn'"
proof -
  have "serving rn' = serving rn" using own_fields [OF assms(1)] by (simp add: serving_def)
  then show ?thesis
    using assms(2,3) quietly_told [OF assms(2)] own_fields [OF assms(1)] by (auto simp: waits_ok_def settled_def quietly_def undisturbed_def)
qed

lemma quietly_hold: "quietly rn (link_hold notify rn)"
proof -
  let ?rn = "on_fw (route_to (lt_slot rn) True) (rn\<lparr>lt_traffic := traffic_hold (lt_traffic rn)\<rparr>)"
  have "quietly rn ?rn" by (rule quietly_trans [OF quietly_own(8) quietly_fw [OF undisturbed_route_to]])
  moreover have "quietly ?rn (log_out LxHolding ?rn)" by (rule quietly_log) simp
  ultimately show ?thesis using quietly_trans by (auto simp: link_hold_def Let_def)
qed

lemma quietly_lost: "quietly rn (lost_with_the_link n rn)"
  by (simp add: lost_with_the_link_def quietly_log)

lemma quietly_divert: "quietly rn (divert_all env fsnc rn)"
proof -
  obtain tf d where td: "traffic_divert fsnc (lt_traffic rn) = (tf, d)" by force
  have log: "quietly rn t \<Longrightarrow> quietly rn (log_out (LxRetrieved r n) t)" for r n t by (erule quietly_trans) (simp add: quietly_log)
  have lost: "quietly rn t \<Longrightarrow> quietly rn (lost_with_the_link n t)" for n t by (erule quietly_trans) (rule quietly_lost)
  have fw: "quietly rn t \<Longrightarrow> quietly rn (on_fw (fold (\<lambda>m. reroute_msu ctx m x) ms) t)" for t ms x and ctx :: "('b, 'a) fw_ctx"
    by (erule quietly_trans) (intro quietly_fw undisturbed_fold undisturbed_reroute)
  have route: "quietly rn t \<Longrightarrow> quietly rn (on_fw (route_to x on) t)" for t x on
    by (erule quietly_trans) (intro quietly_fw undisturbed_route_to)
  show ?thesis unfolding divert_all_def td prod.case Let_def by (intro route fw lost log quietly_own)
qed

lemma told_offers: "told_ok (fst b) \<Longrightarrow> told_ok (fst (fold (offer_buffered env now sendable) ms b))"
proof (induction ms arbitrary: b)
  case (Cons m ms)
  have "quietly rn (buffer_full (rn\<lparr>lt_traffic := tf\<rparr>))" for rn :: "'a link_runner" and tf
    unfolding buffer_full_def by (rule quietly_trans [OF quietly_own(8) quietly_log]) simp
  moreover have "quietly rn (rn\<lparr>lt_traffic := tf, rn_link := l\<rparr>)" for rn :: "'a link_runner" and tf l
    by (rule quietly_trans [OF quietly_own(8) quietly_own(1)])
  ultimately have "quietly (fst b) (fst (offer_buffered env now sendable m b))"
    by (simp add: offer_buffered_def Let_def split: prod.split offer.split)
  from Cons.IH [OF quietly_told [OF this Cons.prems]] show ?case by simp
qed simp

lemma command_waits:
  assumes "told_ok rn"
  shows "waits_ok (task_command env now c rn)"
proof -
  have "told_ok (fst (command_actions env now c rn))"
  proof (cases c)
    case CmdOpen
    have "quietly rn (lost_with_the_link n (on_fw (route_to x True) (rn\<lparr>lt_traffic := tf\<rparr>)))" for n x tf
      by (rule quietly_trans [OF quietly_trans [OF quietly_own(8) quietly_fw [OF undisturbed_route_to]] quietly_lost])
    from quietly_told [OF this assms] show ?thesis using CmdOpen
      by (simp add: command_actions_def Let_def told_offers split: prod.split)
  qed (use assms quietly_told [OF quietly_hold assms] quietly_told [OF quietly_divert assms] quietly_told [OF quietly_own(1) assms] in
      \<open>simp_all add: command_actions_def\<close>)
  then show ?thesis unfolding task_command_def by (rule perform_waits)
qed

lemma waits_told: "waits_ok rn \<Longrightarrow> told_ok rn"
  by (simp add: waits_ok_def)


lemma received_waits:
  assumes "waits_ok rn"
  shows "waits_ok (task_received env now data ppid rn)"
proof -
  have log: "quietly rn (log_out (LxRxDiscard x) rn)" for x by (rule quietly_log) simp
  have "waits_ok (log_out (LxRxDiscard x) rn)" for x by (rule waits_shared [OF _ log assms]) simp
  moreover have "waits_ok (link_perform env now (on_link f (rn, [])))" "waits_ok (link_perform env now (on_link f (log_out (LxRxDiscard x) rn, [])))" for f x
    using quietly_told [OF log] waits_told [OF assms] by (auto intro!: perform_waits quietly_told [OF quietly_own(1)])
  ultimately show ?thesis by (simp add: task_received_def Let_def)
qed

lemma carry_waits:
  assumes "waits_ok rn"
  shows "waits_ok (task_carry env now msu rn)"
proof -
  obtain traffic offer where o: "traffic_offer msu (can_send rn) (lt_traffic rn) = (traffic, offer)" by force
  let ?rn = "rn\<lparr>lt_traffic := traffic\<rparr>"
  have rn: "waits_ok ?rn" by (rule waits_shared [OF _ quietly_own(8) assms]) simp
  have "waits_ok (link_perform env now (on_link f (?rn, [])))" for f
    using waits_told [OF rn] by (intro perform_waits) (simp add: quietly_told [OF quietly_own(1)])
  moreover have "waits_ok (on_fw (reroute_msu ctx m x) ?rn)" for m x and ctx :: "('b, 'a) fw_ctx"
    by (rule waits_shared [OF _ quietly_fw [OF undisturbed_reroute] rn]) simp
  moreover have "waits_ok (buffer_full ?rn)"
    unfolding buffer_full_def by (rule waits_shared [OF _ quietly_log rn]) simp_all
  ultimately show ?thesis using rn by (simp add: task_carry_def o Let_def split: offer.split)
qed

lemma fire_waits:
  assumes "waits_ok rn"
  shows "waits_ok (task_fire env now rn)"
proof -
  have "quietly (fst b) (fst (fire_link env now t b))" for b :: "'a busy_runner" and t
    by (simp add: fire_link_def quietly_trans [OF quietly_own(4) quietly_own(1)])
  then have links: "quietly (fst b) (fst (fold (fire_link env now) ts b))" for b :: "'a busy_runner" and ts
  proof (induction ts arbitrary: b)
    case (Cons t ts)
    from quietly_trans [OF Cons.prems Cons.IH [OF Cons.prems]] show ?case by simp
  qed simp
  have "quietly (fst b) (fst (fire_test env now t b))" for b :: "'a busy_runner" and t
  proof -
    let ?b = "on_runner (\<lambda>rn. rn\<lparr>rn_test_deadlines := (rn_test_deadlines rn)(t := None)\<rparr>) b"
    have "quietly (fst b) (fst ?b)" by simp
    from quietly_trans [OF this hush.related_on_test [where env = env and now = now and f = "test_timeout t"]] show ?thesis by (simp add: fire_test_def)
  qed
  then have tests: "quietly (fst b) (fst (fold (fire_test env now) ts b))" for b :: "'a busy_runner" and ts
  proof (induction ts arbitrary: b)
    case (Cons t ts)
    from quietly_trans [OF Cons.prems Cons.IH [OF Cons.prems]] show ?case by simp
  qed simp
  have restart: "quietly (fst b) (fst (fire_restart env now b))" for b :: "'a busy_runner"
    by (simp add: fire_restart_def quietly_trans [OF quietly_own(5) quietly_own(1)])
  let ?b = "fold (fire_link env now) link_timer_all (rn, [])"
  have "quietly rn (fst ?b)" using links [of "(rn, [])" link_timer_all] by simp
  from quietly_trans [OF quietly_trans [OF this tests [of ?b test_timer_all]] restart]
  have "told_ok (fst (fire_restart env now (fold (fire_test env now) test_timer_all ?b)))"
    by (rule quietly_told) (rule waits_told [OF assms])
  then show ?thesis unfolding task_fire_def by (rule perform_waits)
qed

lemma turn_waits:
  assumes "waits_ok rn"
  shows "waits_ok (link_turn env now w rn)"
proof -
  have take: "waits_ok (task_take f rn)" if "\<And>p. lp_aligned (f p) = lp_aligned p" for f
    unfolding task_take_def using that by (intro waits_shared [OF _ quietly_fw assms] undisturbed_port) simp_all
  have commands: "waits_ok (fold (task_command env now) cs rn')" if "waits_ok rn'" for cs rn'
    using that by (induction cs arbitrary: rn') (simp_all add: command_waits waits_told)
  have "waits_ok (rn\<lparr>rn_lost := True\<rparr>)" using quietly_told [OF quietly_own(6) waits_told [OF assms]] by (simp add: waits_ok_def)
  then show ?thesis
    using assms
    by (auto simp: link_turn_def received_waits fire_waits
      intro!: carry_waits commands command_waits waits_told take split: link_wake.split option.split list.split)
qed


text \<open>Nothing the task does while it carries out actions brings a link that is out of service back.\<close>

interpretation stays: runner_law env "\<lambda>b b'. lk_state (rn_link (fst b)) = LsOutOfService \<longrightarrow> lk_state (rn_link (fst b')) = LsOutOfService" for env
proof
  fix b :: "'mt busy_runner" and f :: "'mt link_runner \<Rightarrow> 'mt link_runner"
  assume "shared f"
  from shared_own(1) [OF this] show "lk_state (rn_link (fst b)) = LsOutOfService \<longrightarrow> lk_state (rn_link (fst (on_runner f b))) = LsOutOfService" by simp
qed (simp_all add: link_send_def link_fail_def)

lemma batch_stays:
  "lk_state (rn_link (fst b)) = LsOutOfService \<Longrightarrow> lk_state (rn_link (fst (fold (apply_one env now) batch b))) = LsOutOfService"
proof (induction batch arbitrary: b)
  case (Cons a batch)
  have "lk_state (rn_link (fst (apply_one env now a b))) = LsOutOfService"
    using Cons.prems stays.related_deliver [of b env now] stays.related_on_test [of b env now]
      stays.related_on_test [of "on_runner (log_out x) b" env now for x]
    by (cases a) (simp_all add: apply_one_def Let_def link_fail_def)
  then show ?case using Cons.IH by simp
qed simp

lemma batches_stay:
  "apply_batches env now k acts rn = Some rn' \<Longrightarrow> lk_state (rn_link rn) = LsOutOfService \<Longrightarrow> lk_state (rn_link rn') = LsOutOfService"
proof (induction env now k acts rn rule: apply_batches.induct)
  case (3 env now k a acts rn)
  obtain rn1 later where b: "fold (apply_one env now) (a # acts) (rn, []) = (rn1, later)" by force
  then show ?case using 3 batch_stays [of "(rn, [])" env now "a # acts"] by simp
qed simp_all

lemma rounds_stay:
  "apply_rounds env now n acts rn = Some rn' \<Longrightarrow> lk_state (rn_link rn) = LsOutOfService \<Longrightarrow> lk_state (rn_link rn') = LsOutOfService"
proof (induction n arbitrary: acts rn)
  case (Suc n)
  obtain rn1 where rn1: "apply_batches env now (Suc n) acts rn = Some rn1" using Suc.prems by (auto split: option.splits)
  have "lk_state (fst (flush_ack (le_encode env) (rn_link rn1))) = LsOutOfService"
    using batches_stay [OF rn1] Suc.prems by (simp add: flush_ack_def)
  then show ?case using Suc rn1 by (auto simp: case_prod_beta split: if_splits)
qed simp

lemma failed_not_serving:
  assumes "told_ok rn"
  shows "even (length (told (link_perform env now (on_link (link_fail enc reason) (rn, []))))) \<and>
    alternates (told (link_perform env now (on_link (link_fail enc reason) (rn, []))))"
proof -
  let ?b = "on_link (link_fail enc reason) (rn, [])"
  have settled: "settled (link_perform env now ?b)" using quietly_told [OF quietly_own(1) assms] by (intro perform_settles) simp
  obtain rn' where rn': "apply_rounds env now 3 (snd ?b) (fst ?b) = Some rn'" using rounds_end [of env now "snd ?b" "fst ?b"] by blast
  have "lk_state (rn_link (fst ?b)) = LsOutOfService" by (simp add: link_fail_def send_status_def)
  from rounds_stay [OF rn' this] have "lk_state (rn_link (refresh_availability rn')) = LsOutOfService" using refresh_own(1) [of rn'] by auto
  then have "\<not> serving (link_perform env now ?b)" using rn' by (simp add: link_perform_def serving_def)
  then show ?thesis using settled by (auto simp: settled_def told_ok_def)
qed

lemma run_link_start:
  assumes "run_link env now x traffic st = Some rn"
  obtains port where "slot_of (fw_registry st) x \<noteq> None" "Option.bind (slot_of (fw_registry st) x) sl_link = Some port"
    "rn = link_perform env now (on_link (link_start (le_encode env)) (on_link (link_established (le_encode env)) (link_runner_new x port traffic st, [])))"
  using assms by (auto simp: run_link_def bind_eq_Some_conv)

lemma start_clocked:
  assumes "run_link env now x traffic st = Some rn"
  shows "clocked_runner [] (rn, [])"
proof -
  obtain port where rn: "rn = link_perform env now (on_link (link_start (le_encode env)) (on_link (link_established (le_encode env)) (link_runner_new x port traffic st, [])))"
    using run_link_start [OF assms] .
  let ?new = "link_runner_new x port traffic st" and ?enc = "le_encode env"
  let ?l = "rn_link ?new"
  have new: "link_ok ?l" "lk_state ?l = LsOutOfService" "rn_restart ?new = None" "armed ?new = {}" "test_clocked ?new"
    by (simp_all add: link_runner_new_def Let_def link_new_ok armed_def test_clocked_def test_clock_runs_def test_armed_def test_clock_ok_def
      test_new_def split: option.split) (simp add: link_new_def)
  have est: "fst (link_established ?enc ?l) = ?l" "arms (snd (link_established ?enc ?l)) A = A" "oos (snd (link_established ?enc ?l)) = 0" for A
    by (simp_all add: link_established_def send_status_def) (simp add: send_frame_def split: option.split)
  have "clocked_runner [] (on_link (link_start ?enc) (on_link (link_established ?enc) (?new, [])))"
    using new est start_guarded [OF new(2), of ?enc "{}"] link_start_ok [OF new(1), of ?enc]
    by (simp add: clocked_runner_def link_clocked_def)
  then show ?thesis unfolding rn by (rule perform_clocked)
qed

lemma start_waits:
  assumes "run_link env now x traffic st = Some rn" and "rg_management (fw_registry st)"
    and "\<exists>s port. slot_of (fw_registry st) x = Some s \<and> \<not> sl_active s \<and> sl_link s = Some port \<and> lst_index (lp_settings port) \<noteq> None"
  shows "waits_ok rn"
proof -
  obtain port where port: "Option.bind (slot_of (fw_registry st) x) sl_link = Some port"
      and rn: "rn = link_perform env now (on_link (link_start (le_encode env)) (on_link (link_established (le_encode env)) (link_runner_new x port traffic st, [])))"
    using run_link_start [OF assms(1)] .
  have "told_ok (link_runner_new x port traffic st)"
    using assms(2,3) port by (auto simp: told_ok_def link_runner_new_def Let_def told_def List.map_filter_def flags_def)
  then show ?thesis unfolding rn by (intro perform_waits) (simp add: quietly_told [OF quietly_own(1)])
qed

lemma runs_clocked: "link_runs env rn0 rn \<Longrightarrow> clocked_runner [] (rn0, []) \<Longrightarrow> clocked_runner [] (rn, [])"
proof (induction rule: link_runs.induct)
  case (link_runs_others rn st)
  from clocked_task [OF _ link_runs_others.IH [OF link_runs_others.prems], of "rn\<lparr>lt_fw := st\<rparr>"] show ?case by simp
qed (simp_all add: turn_clocked)

lemma runs_waits: "link_runs env rn0 rn \<Longrightarrow> waits_ok rn0 \<Longrightarrow> waits_ok rn"
proof (induction rule: link_runs.induct)
  case (link_runs_others rn st)
  then have "waits_ok rn" by simp
  moreover have "told (rn\<lparr>lt_fw := st\<rparr>) = told rn" "serving (rn\<lparr>lt_fw := st\<rparr>) = serving rn" by (simp_all add: told_def serving_def)
  ultimately show ?case using link_runs_others.hyps(2,3) by (auto simp: waits_ok_def settled_def told_ok_def)
qed (simp_all add: turn_waits)

lemma some_deadline:
  "rn_link_deadlines rn t \<noteq> None \<or> rn_test_deadlines rn u \<noteq> None \<or> rn_restart rn \<noteq> None \<Longrightarrow> deadlines_earliest rn \<noteq> None"
  by (cases t; cases u) (auto simp: deadlines_earliest_def Let_def List.map_filter_def link_timer_all_def test_timer_all_def)

text \<open>
  C8: the task of a link never waits without the clock it needs. Whatever the far end, the association,
  level 3 and the clock do: whenever the task waits, the timer of the state the link is in has a
  deadline; a link test that waits for its answer has T1 and one that passed has T2; and the link has
  a deadline for its restart exactly while it is out of service. So while the link is not in service
  the task wakes by itself, and a link that fails is aligned again.
\<close>

theorem link_task_clocked:
  assumes "run_link env now x traffic st = Some rn0" and "link_runs env rn0 rn"
  shows "guarded (rn_link rn) {t. rn_link_deadlines rn t \<noteq> None} \<and>
    (case rn_test rn of
       None \<Rightarrow> \<forall>t. rn_test_deadlines rn t = None
     | Some test \<Rightarrow> {t. rn_test_deadlines rn t \<noteq> None} =
         (case te_state test of TsIdle \<Rightarrow> {} | TsFirst \<Rightarrow> {TtT1} | TsSecond \<Rightarrow> {TtT1} | TsPassed \<Rightarrow> {TtT2})) \<and>
    (rn_restart rn \<noteq> None) = (lk_state (rn_link rn) = LsOutOfService) \<and>
    (is_aligned (rn_link rn) \<or> deadlines_earliest rn \<noteq> None)"
proof -
  have c: "clocked_runner [] (rn, [])" by (rule runs_clocked [OF assms(2) start_clocked [OF assms(1)]])
  then have guarded: "guarded (rn_link rn) {t. rn_link_deadlines rn t \<noteq> None}"
    and restart: "(rn_restart rn \<noteq> None) = (lk_state (rn_link rn) = LsOutOfService)"
    by (simp_all add: clocked_runner_def link_clocked_def armed_def down_def of_bool_eq_iff)
  have "is_aligned (rn_link rn) \<or> (\<exists>t. rn_link_deadlines rn t \<noteq> None) \<or> rn_restart rn \<noteq> None"
    using guarded restart by (cases "lk_state (rn_link rn)") (auto simp: guarded_def is_aligned_def)
  then have "is_aligned (rn_link rn) \<or> deadlines_earliest rn \<noteq> None" using some_deadline by blast
  with guarded restart show ?thesis
    using c by (auto simp: clocked_runner_def test_clocked_def test_clock_runs_def test_armed_def test_clock_ok_def split: option.splits)
qed

text \<open>
  C9: level 3 and the registry know the state of a link. In every run of the task with network management
  attached, from a slot that was not active: the reports the task makes are that the link came up, that
  it went down, and so on in turn; whenever the task waits, the last report was that it came up exactly
  when level 2 is in service and the link test, if there is one, has passed; and the slot is active, and
  the port aligned, exactly then. Once the task has ended, the last report is not that the link is up.
\<close>

theorem link_task_tells:
  assumes "run_link env now x traffic st = Some rn0" and "link_runs env rn0 rn" and "rg_management (fw_registry st)"
    and "\<exists>s port. slot_of (fw_registry st) x = Some s \<and> \<not> sl_active s \<and> sl_link s = Some port \<and> lst_index (lp_settings port) \<noteq> None"
  shows "alternates (told rn) \<and>
    (\<not> rn_lost rn \<longrightarrow> odd (length (told rn)) = serving rn \<and>
       flags (fw_registry (lt_fw rn)) (lt_slot rn) = Some (serving rn, Some (is_aligned (rn_link rn)))) \<and>
    alternates (told (finish_link env now' taken_over rn)) \<and> even (length (told (finish_link env now' taken_over rn)))"
proof -
  have w: "waits_ok rn" by (rule runs_waits [OF assms(2) start_waits [OF assms(1,3,4)]])
  let ?fin = "link_perform env now' (on_link (link_fail (le_encode env) (if rn_lost rn then FlAssociation else FlStopped)) (rn, []))"
  have "told (finish_link env now' taken_over rn) = told ?fin"
    by (simp add: finish_link_def Let_def told_def List.map_filter_def)
  moreover have "even (length (told ?fin)) \<and> alternates (told ?fin)" by (rule failed_not_serving [OF waits_told [OF w]])
  ultimately show ?thesis using w by (auto simp: waits_ok_def settled_def told_ok_def)
qed


section \<open>A link that is stranded\<close>

text \<open>A slot with a link test, in the registry of \<open>sample_registry\<close>, and an environment whose frames are one octet.\<close>

definition task_port :: link_port where
  "task_port = port_new \<lparr>lst_timers = link_timers_default, lst_proving = PvNormal, lst_tx_queue = 2, lst_restart = 1,
     lst_test = Some \<lparr>lts_t1 = 5, lts_t2 = 60, lts_pattern = [1]\<rparr>, lst_own_pc = 1, lst_adjacent_pc = Some 2, lst_ni = 0, lst_slc = 0,
     lst_index = Some 0\<rparr>"

definition task_fw :: "nat fw_state" where
  "task_fw = sample_fw\<lparr>fw_registry := set_slot ''a'' (\<lambda>s. s\<lparr>sl_link := Some task_port\<rparr>) sample_registry\<rparr>"

definition octet_status :: "u8 \<Rightarrow> link_status" where
  "octet_status x = (if x = 1 then StAlignment else if x = 2 then StProvingNormal else if x = 3 then StReady
     else if x = 4 then StProcessorOutage else if x = 5 then StProcessorRecovered else StOutOfService)"

definition task_env :: "(unit, nat) link_env" where
  "task_env = \<lparr>le_ctx = sample_ctx, le_encode = (\<lambda>_. Some []),
     le_decode = (\<lambda>b. case b of [x] \<Rightarrow> Some (RxLinkStatus SEQ_MASK (octet_status x)) | _ \<Rightarrow> None),
     le_test_encode = (\<lambda>_. Some [1]), le_test_decode = (\<lambda>_. None), le_accepts = (\<lambda>_. True)\<rparr>"

definition task_start :: "nat link_runner" where
  "task_start = the (run_link task_env 0 ''a'' (traffic_new 2) task_fw)"

text \<open>Actions that only send and set timers, on an association that takes every frame.\<close>

fun plain :: "action \<Rightarrow> bool" where
  "plain (AcDeliver _) = False"
| "plain AcInService = False"
| "plain (AcOutOfService _) = False"
| "plain _ = True"

fun deadline_step :: "instant \<Rightarrow> action \<Rightarrow> (link_timer \<Rightarrow> instant option) \<Rightarrow> link_timer \<Rightarrow> instant option" where
  "deadline_step now (AcStart t after) d = d(t := Some (now + after))"
| "deadline_step now (AcStop t) d = d(t := None)"
| "deadline_step now _ d = d"

definition own :: "'mt link_runner \<Rightarrow> link \<times> link_test option \<times> (link_timer \<Rightarrow> instant option) \<times> (test_timer \<Rightarrow> instant option) \<times> instant option \<times> bool \<times> bool" where
  "own rn = (rn_link rn, rn_test rn, rn_link_deadlines rn, rn_test_deadlines rn, rn_restart rn, rn_lost rn, rn_available rn)"

lemma batch_plain:
  assumes "\<And>n. le_accepts env n" and "list_all plain acts" and "own (fst b) = (l, test, d, e, r, False, v)"
  shows "own (fst (fold (apply_one env now) acts b)) = (l, test, fold (deadline_step now) acts d, e, r, False, v) \<and>
    snd (fold (apply_one env now) acts b) = snd b"
  using assms(2,3)
proof (induction acts arbitrary: b d)
  case (Cons a acts)
  have "own (fst (apply_one env now a b)) = (l, test, deadline_step now a d, e, r, False, v) \<and> snd (apply_one env now a b) = snd b"
    using Cons.prems assms(1) by (cases a) (auto simp: apply_one_def own_def Let_def)
  then show ?case using Cons by simp
qed simp

lemma perform_plain:
  assumes "\<And>n. le_accepts env n" and "list_all plain acts" and "own rn = (l, test, d, e, r, False, False)" and "\<not> lk_ack_due l"
    and "lk_state l \<noteq> LsInService \<or> (\<exists>t. test = Some t \<and> \<not> te_available t)"
  shows "own (link_perform env now (rn, acts)) = (l, test, fold (deadline_step now) acts d, e, r, False, False)"
proof -
  let ?b = "fold (apply_one env now) acts (rn, [])"
  have b: "own (fst ?b) = (l, test, fold (deadline_step now) acts d, e, r, False, False)" "snd ?b = []"
    using batch_plain [OF assms(1,2), where b = "(rn, [])" and v = False and now = now] assms(3) by simp_all
  have same: "l\<lparr>lk_ack_due := False\<rparr> = l" using assms(4) by (cases l) simp
  have "apply_batches env now 3 acts rn = Some (fst ?b)" using b(2) by (cases acts) (simp_all add: numeral_3_eq_3 case_prod_beta)
  moreover have "rn_link (fst ?b) = l" using b(1) by (simp add: own_def)
  moreover have "(fst ?b)\<lparr>rn_link := l\<rparr> = fst ?b" using b(1) by (cases "fst ?b") (auto simp: own_def)
  ultimately have "apply_rounds env now 3 acts rn = Some (fst ?b)"
    using assms(4) same by (simp add: numeral_3_eq_3 on_link_def flush_ack_def)
  moreover have "own (refresh_availability (fst ?b)) = own (fst ?b)"
    using b(1) assms(5) by (auto simp: own_def refresh_availability_def Let_def)
  ultimately show ?thesis using b(1) by (simp add: link_perform_def)
qed


definition stage_link :: "link_state \<Rightarrow> link" where
  "stage_link s = (link_new link_timers_default PvNormal 2)\<lparr>lk_state := s\<rparr>"

definition stage_test :: link_test where
  "stage_test = test_new 5 60"

definition stage :: "link_state \<Rightarrow> (link_timer \<Rightarrow> instant option) \<Rightarrow> nat link_runner \<Rightarrow> bool" where
  "stage s d rn \<longleftrightarrow> own rn = (stage_link s, Some stage_test, d, (\<lambda>_. None), None, False, False)"

lemma stage_perform:
  assumes "own rn = (stage_link s, Some stage_test, d, (\<lambda>_. None), None, False, False)" and "list_all plain acts"
  shows "stage s (fold (deadline_step now) acts d) (link_perform task_env now (rn, acts))"
  unfolding stage_def using assms
  by (intro perform_plain) (simp_all add: task_env_def stage_link_def link_new_def stage_test_def test_new_def)

lemma stage_received:
  assumes "stage s d rn" and "link_received (le_encode task_env) (le_decode task_env) 5 [x] now (stage_link s) = (stage_link s', acts)"
    and "list_all plain acts" and "fold (deadline_step now) acts d = d'"
  shows "stage s' d' (link_turn task_env now (WkReceived [x] 5) rn)"
proof -
  have l: "rn_link rn = stage_link s" using assms(1) by (simp add: stage_def own_def)
  have "own (rn\<lparr>rn_link := stage_link s'\<rparr>) = (stage_link s', Some stage_test, d, (\<lambda>_. None), None, False, False)"
    using assms(1) by (simp add: stage_def own_def)
  note stage_perform [OF this assms(3), of now]
  moreover have "le_decode task_env [x] \<noteq> None" by (simp add: task_env_def)
  ultimately show ?thesis
    using assms(2,4) l by (auto simp: link_turn_def task_received_def PPID_M2PA_def on_link_def)
qed

lemmas stage_defs = stage_link_def link_new_def task_env_def link_received_def PPID_M2PA_def octet_status_def on_status_def to_aligned_def
  to_proving_def to_outage_def on_recovered_def send_status_def start_timer_def send_frame_def proving_status_def link_t4_def
  acknowledge_def seq_distance_def link_timers_default_def flush_unsent_Nil

lemma task_slot: "slot_of (fw_registry task_fw) ''a'' = Some ((sample_link_slot ''a'' False)\<lparr>sl_link := Some task_port\<rparr>)"
proof -
  have "slot_of sample_registry ''a'' = Some (sample_link_slot ''a'' False)" by (simp add: slot_of_def bt_get_def sample_registry_def)
  then show ?thesis by (simp add: task_fw_def slot_of_set_slot)
qed

lemma stage_start: "run_link task_env 0 ''a'' (traffic_new 2) task_fw = Some task_start" "stage LsNotAligned ((\<lambda>_. None)(LtT2 := Some 30000)) task_start"
proof -
  let ?rn = "link_runner_new ''a'' task_port (traffic_new 2) task_fw"
  let ?acts = "[AcSend [] STATUS_STREAM None, AcSend [] STATUS_STREAM None, AcStart LtT2 30000]"
  have slot: "Option.bind (slot_of (fw_registry task_fw) ''a'') sl_link = Some task_port" by (simp add: task_slot)
  then show "run_link task_env 0 ''a'' (traffic_new 2) task_fw = Some task_start" by (simp add: task_start_def run_link_def)
  then have "task_start = link_perform task_env 0 (on_link (link_start (le_encode task_env)) (on_link (link_established (le_encode task_env)) (?rn, [])))"
    using slot by (simp add: run_link_def)
  moreover have "on_link (link_start (le_encode task_env)) (on_link (link_established (le_encode task_env)) (?rn, [])) =
      (?rn\<lparr>rn_link := stage_link LsNotAligned\<rparr>, ?acts)"
    by (simp add: on_link_def link_runner_new_def task_port_def port_new_def link_established_def link_start_def link_abandon_def stage_defs)
  moreover have "own (?rn\<lparr>rn_link := stage_link LsNotAligned\<rparr>) = (stage_link LsNotAligned, Some stage_test, (\<lambda>_. None), (\<lambda>_. None), None, False, False)"
    by (simp add: own_def link_runner_new_def task_port_def port_new_def stage_test_def)
  ultimately show "stage LsNotAligned ((\<lambda>_. None)(LtT2 := Some 30000)) task_start"
    using stage_perform [of "?rn\<lparr>rn_link := stage_link LsNotAligned\<rparr>" LsNotAligned "\<lambda>_. None" ?acts 0] by simp
qed

definition proving_deadlines :: "link_timer \<Rightarrow> instant option" where
  "proving_deadlines = (\<lambda>_. None)(LtT4 := Some 8220, LtProving := Some 120)"

lemma stage_proved:
  assumes "stage LsProving proving_deadlines rn"
  shows "stage LsAlignedReady ((\<lambda>_. None)(LtT1 := Some 53220)) (link_turn task_env 8220 WkTimer rn)"
proof -
  let ?acts = "[AcStop LtProving, AcSend [] STATUS_STREAM None, AcStart LtT1 45000]"
  define rn' where "rn' = rn\<lparr>rn_link_deadlines := (\<lambda>_. None), rn_link := stage_link LsAlignedReady\<rparr>"
  have none: "proving_deadlines(LtT4 := None, LtProving := None) = (\<lambda>_. None)" by (simp add: proving_deadlines_def fun_eq_iff)
  have own: "rn_link rn = stage_link LsProving" "rn_link_deadlines rn = proving_deadlines" "rn_test_deadlines rn = (\<lambda>_. None)" "rn_restart rn = None"
    using assms by (simp_all add: stage_def own_def)
  have t4: "link_timeout (le_encode task_env) LtT4 8220 (stage_link LsProving) = (stage_link LsAlignedReady, ?acts)"
    by (simp add: link_timeout_def stage_defs)
  have stale: "link_timeout (le_encode task_env) LtProving 8220 (stage_link LsAlignedReady) = (stage_link LsAlignedReady, [])"
    by (simp add: link_timeout_def stage_link_def)
  have "fold (fire_link task_env 8220) link_timer_all (rn, []) = (rn', ?acts)"
    using own by (simp add: link_timer_all_def fire_link_def due_def on_link_def on_runner_def proving_deadlines_def t4 stale rn'_def
      none [unfolded proving_deadlines_def])
  then have "link_turn task_env 8220 WkTimer rn = link_perform task_env 8220 (rn', ?acts)"
    using own by (simp add: link_turn_def task_fire_def test_timer_all_def fire_test_def fire_restart_def due_def rn'_def)
  moreover have "own rn' = (stage_link LsAlignedReady, Some stage_test, (\<lambda>_. None), (\<lambda>_. None), None, False, False)"
    using assms by (simp add: rn'_def stage_def own_def)
  ultimately show ?thesis using stage_perform [of rn' LsAlignedReady "\<lambda>_. None" ?acts 8220] by (simp add: fun_upd_def)
qed

lemma stage_run:
  assumes "link_runs task_env task_start rn" and "stage s d rn"
  shows "link_runs task_env task_start (link_turn task_env now w rn)"
  using assms by (intro link_runs_turn) (auto simp: stage_def own_def stage_link_def link_new_def)



theorem link_task_clocked_witness: "rn_restart task_start = None \<and> deadlines_earliest task_start \<noteq> None"
proof -
  have "lk_state (rn_link task_start) = LsNotAligned" using stage_start(2) by (simp add: stage_def own_def stage_link_def)
  then show ?thesis using link_task_clocked [OF stage_start(1) link_runs_start] by (simp add: is_aligned_def)
qed

theorem link_task_tells_witness: "even (length (told (finish_link task_env 5 False task_start)))"
proof -
  have "\<exists>s port. slot_of (fw_registry task_fw) ''a'' = Some s \<and> \<not> sl_active s \<and> sl_link s = Some port \<and> lst_index (lp_settings port) \<noteq> None"
    unfolding task_slot by (simp add: sample_link_slot_def slot_new_def task_port_def port_new_def)
  moreover have "rg_management (fw_registry task_fw)" by (simp add: task_fw_def sample_registry_def)
  ultimately show ?thesis using link_task_tells [OF stage_start(1) link_runs_start] by blast
qed

end
