(* ===== verification/Dialogue_Core.thy ===== *)
theory Dialogue_Core
  imports Forward
begin

text \<open>
  One TCAP dialogue (\<^verbatim>\<open>src/src/dialogue.rs\<close>): the handle a termination handler stages components on and
  flushes as messages, and the component sub-layer that checks what the peer sends. The crates \<^verbatim>\<open>tcap\<close> and
  \<^verbatim>\<open>sccp\<close> are the parameter \<open>dlg_codec\<close>; the type variable \<open>'dp\<close> is the dialogue portion, which the program
  builds with constructors of \<^verbatim>\<open>tcap\<close> and reads through \<^verbatim>\<open>dialogue_pdu\<close>. Invoke identifiers are integers from
  \<open>-128\<close> to \<open>127\<close>, operation codes signed 64-bit integers that no arithmetic is done on. A handler is
  what it does in each of its callbacks, a \<open>turn\<close>; the texts of errors and log lines are left out.
\<close>

section \<open>Components and messages\<close>

type_synonym tid = bytes
type_synonym invoke_id = int

datatype dialogue_role = Responder | Initiator

datatype operation_class = ClassOne | ClassTwo | ClassThree | ClassFour

definition class_from_number :: "u8 \<Rightarrow> operation_class option" where
  "class_from_number n =
     (if n = 1 then Some ClassOne else if n = 2 then Some ClassTwo else if n = 3 then Some ClassThree
      else if n = 4 then Some ClassFour else None)"

definition class_number :: "operation_class \<Rightarrow> u8" where
  "class_number c = (case c of ClassOne \<Rightarrow> 1 | ClassTwo \<Rightarrow> 2 | ClassThree \<Rightarrow> 3 | ClassFour \<Rightarrow> 4)"

definition reports_success :: "operation_class \<Rightarrow> bool" where
  "reports_success c \<longleftrightarrow> c = ClassOne \<or> c = ClassThree"

definition reports_failure :: "operation_class \<Rightarrow> bool" where
  "reports_failure c \<longleftrightarrow> c = ClassOne \<or> c = ClassTwo"

datatype dialogue_error = DeClosed | DeNoInvokeId | DeNoPeerTransaction | DeNothingSent | DeEncode | DeSccp | DeArgument

text \<open>The problem codes of \<^verbatim>\<open>tcap\<close> by the names the program uses.\<close>

datatype invoke_problem = UnrecognizedLinkedId | MistypedArgument | OtherInvokeProblem int
datatype result_problem = ResultUnrecognizedInvokeId | ReturnResultUnexpected | MistypedResult | OtherResultProblem int
datatype error_problem = ErrorUnrecognizedInvokeId | ReturnErrorUnexpected | MistypedError | OtherErrorProblem int

datatype reject_problem =
    GeneralProblem int
  | InvokeProblem invoke_problem
  | ReturnResultProblem result_problem
  | ReturnErrorProblem error_problem

record reject =
  rj_invoke_id :: "invoke_id option"
  rj_problem :: reject_problem

datatype error_code = ErLocal int | ErGlobal

text \<open>An invoke has its identifier, the linked one, the operation and the parameter.\<close>

datatype component =
    CpInvoke invoke_id "invoke_id option" operation_code "bytes option"
  | CpResultLast invoke_id "(operation_code \<times> bytes option) option"
  | CpResultNotLast invoke_id "(operation_code \<times> bytes option) option"
  | CpError invoke_id error_code "bytes option"
  | CpReject reject

datatype peer_component =
    PcInvoke invoke_id int "bytes option"
  | PcResult invoke_id "int option" "bytes option"
  | PcError invoke_id int
  | PcReject "invoke_id option" reject_problem
  | PcLocalReject "invoke_id option" reject_problem

definition mistyped_parameter :: "peer_component \<Rightarrow> (invoke_id option \<times> reject_problem) option" where
  "mistyped_parameter c =
     (case c of
        PcInvoke i _ _ \<Rightarrow> Some (Some i, InvokeProblem MistypedArgument)
      | PcResult i _ _ \<Rightarrow> Some (Some i, ReturnResultProblem MistypedResult)
      | PcError i _ \<Rightarrow> Some (Some i, ReturnErrorProblem MistypedError)
      | PcReject _ _ \<Rightarrow> None
      | PcLocalReject _ _ \<Rightarrow> None)"

record incoming_op =
  io_operation_code :: int
  io_invoke_id :: invoke_id
  io_argument :: "bytes option"
  io_application_context :: "u32 list option"
  io_called_ssn :: u8
  io_calling_gt :: "string option"
  io_called_gt :: "string option"
  io_further :: "peer_component list"

record peer_turn =
  pt_is_end :: bool
  pt_components :: "peer_component list"

record invoke_timeout =
  it_invoke_id :: invoke_id
  it_operation_code :: int
  it_class :: operation_class

datatype user_abort = UaNoInformation | UaDialogueServiceUser | UaContextNotSupported | UaDialogueRefused | UaUserDefined

datatype peer_abort = PaProvider int | PaAbnormalDialogue | PaNoCommonDialoguePortion | PaUser user_abort

definition is_provider :: "peer_abort \<Rightarrow> bool" where
  "is_provider a \<longleftrightarrow> (case a of PaUser _ \<Rightarrow> False | _ \<Rightarrow> True)"

datatype close_reason =
    CrEnded
  | CrPeerEnded
  | CrAborted
  | CrPeerAbort peer_abort
  | CrProviderAbort int bool
  | CrAbnormalDialogue bool
  | CrInvokeTimeout invoke_id int
  | CrIdleTimeout
  | CrNoAnswer
  | CrNotSent

record dialogue_closed =
  dc_otid :: tid
  dc_dtid :: tid
  dc_role :: dialogue_role
  dc_reason :: close_reason

datatype 'dp abort_reason = ReasonPAbort int | ReasonUAbort 'dp

record 'dp tcap_abort =
  ab_dtid :: tid
  ab_reason :: "'dp abort_reason option"

datatype 'dp tcap_pdu =
    MsgBegin tid "'dp option" "component list option"
  | MsgContinue tid tid "'dp option" "component list option"
  | MsgEnd tid "'dp option" "component list option"
  | MsgAbort "'dp tcap_abort"
  | MsgUnidirectional

text \<open>What can be read of a dialogue portion.\<close>

datatype protocol_version = Version1 | OtherVersion

datatype diagnostic = ProviderNoCommonDialoguePortion | OtherProviderDiagnostic | UserContextNotSupported | OtherUserDiagnostic

datatype portion_pdu = PduAarq protocol_version "u32 list" | PduAbrtUser | PduAbrtProvider | PduAare diagnostic | PduOther

text \<open>A damaged message: where the fault is, what can be read, and what \<^verbatim>\<open>reject\<close> and \<^verbatim>\<open>abort\<close> of the problem give.\<close>

datatype fault = FaultComponent "invoke_id option" int | FaultTransaction int | FaultDialogue

record 'dp decode_problem =
  pb_fault :: fault
  pb_partial :: "'dp tcap_pdu option"
  pb_dtid :: "tid option"
  pb_reject :: "reject option"
  pb_abort :: "'dp tcap_abort option"

datatype 'dp decoded = DecodedComplete "'dp tcap_pdu" | DecodedProblem "'dp decode_problem"

text \<open>
  \<open>dk_detailed\<close> and \<open>dk_decode\<close> are \<^verbatim>\<open>tcap::decode_detailed\<close> and \<^verbatim>\<open>tcap::decode\<close>; \<open>dk_pdu\<close> is \<^verbatim>\<open>dialogue_pdu\<close>,
  \<open>None\<close> its error; \<open>dk_aarq\<close> and \<open>dk_aare\<close> give nothing for arcs that are no object identifier.
\<close>

record ('x, 'dp) dlg_codec =
  dk_sccp :: "'x codecs"
  dk_detailed :: "bytes \<Rightarrow> 'dp decoded"
  dk_decode :: "bytes \<Rightarrow> 'dp tcap_pdu option"
  dk_encode :: "'dp tcap_pdu \<Rightarrow> bytes option"
  dk_pdu :: "'dp \<Rightarrow> portion_pdu option option"
  dk_aarq :: "u32 list \<Rightarrow> 'dp option"
  dk_aare :: "u32 list \<Rightarrow> 'dp option"
  dk_abrt_user :: 'dp
  dk_abnormal_dialogue :: 'dp
  dk_no_common :: "u32 list \<Rightarrow> 'dp"
  dk_resource_limitation :: int
  dk_unrecognized_tid :: int

section \<open>Sending\<close>

datatype unitdata_form = FormUdt | FormXudt

record 'x addressing =
  ax_called :: "'x address"
  ax_calling :: "'x address"
  ax_opc :: u32
  ax_dpc :: u32
  ax_ni :: u8
  ax_sls :: u8
  ax_form :: unitdata_form

definition addressing_reverse :: "'x sccp_unit \<Rightarrow> msu \<Rightarrow> unitdata_form \<Rightarrow> 'x addressing" where
  "addressing_reverse u m form = \<lparr>ax_called = un_calling u, ax_calling = un_called u, ax_opc = msu_dpc m, ax_dpc = msu_opc m,
     ax_ni = msu_ni m, ax_sls = msu_sls m, ax_form = form\<rparr>"

definition wrap_msu :: "('x, 'dp) dlg_codec \<Rightarrow> 'dp tcap_pdu \<Rightarrow> 'x addressing \<Rightarrow> dialogue_error + msu" where
  "wrap_msu dk msg a =
     (case dk_encode dk msg of
        None \<Rightarrow> Inl DeEncode
      | Some tcap \<Rightarrow>
          (case cd_encode (dk_sccp dk)
                  (cd_unit (dk_sccp dk) (case ax_form a of FormUdt \<Rightarrow> Udt | FormXudt \<Rightarrow> Xudt) (ax_called a) (ax_calling a) tcap) of
             None \<Rightarrow> Inl DeSccp
           | Some sccp \<Rightarrow> Inr \<lparr>msu_opc = ax_opc a, msu_dpc = ax_dpc a, msu_si = SI_SCCP, msu_ni = ax_ni a, msu_mp = 0,
                 msu_sls = ax_sls a, msu_payload = sccp\<rparr>))"

definition send_abort :: "('x, 'dp) dlg_codec \<Rightarrow> 'dp tcap_abort \<Rightarrow> 'x addressing \<Rightarrow> msu list" where
  "send_abort dk abort a = (case wrap_msu dk (MsgAbort abort) a of Inr m \<Rightarrow> [m] | Inl _ \<Rightarrow> [])"

section \<open>The dialogue\<close>

record tcap_settings =
  ts_invoke_timer_ms :: u64
  ts_dialogue_timer_ms :: u64
  ts_max_dialogues :: nat

definition tcap_settings_default :: tcap_settings where
  "tcap_settings_default = \<lparr>ts_invoke_timer_ms = 15000, ts_dialogue_timer_ms = 30000, ts_max_dialogues = 100000\<rparr>"

record outstanding =
  ou_id :: invoke_id
  ou_op :: int
  ou_class :: operation_class
  ou_timeout :: duration
  ou_deadline :: "instant option"

record 'x dialogue =
  dg_role :: dialogue_role
  dg_our_tid :: tid
  dg_peer_tid :: tid
  dg_ac :: "u32 list"
  dg_reply_invoke_id :: invoke_id
  dg_next_invoke_id :: invoke_id
  dg_first_flush_done :: bool
  dg_aare_pending :: bool
  dg_closed :: "close_reason option"
  dg_addressing :: "'x addressing"
  dg_pending :: "component list"
  dg_staged :: "outstanding list"
  dg_outstanding :: "outstanding list"
  dg_rejects :: "reject list"
  dg_out :: "msu list"
  dg_send_error :: "dialogue_error option"
  dg_default_invoke_timeout :: duration
  dg_idle_timeout :: "duration option"

definition dialogue_new ::
  "dialogue_role \<Rightarrow> tid \<Rightarrow> tid \<Rightarrow> u32 list \<Rightarrow> invoke_id \<Rightarrow> 'x addressing \<Rightarrow> tcap_settings \<Rightarrow> 'x dialogue" where
  "dialogue_new role our_tid peer_tid ac reply_id a ts =
     \<lparr>dg_role = role, dg_our_tid = our_tid, dg_peer_tid = peer_tid, dg_ac = ac, dg_reply_invoke_id = reply_id,
      dg_next_invoke_id = 1, dg_first_flush_done = False, dg_aare_pending = (role = Responder \<and> ac \<noteq> []), dg_closed = None,
      dg_addressing = a, dg_pending = [], dg_staged = [], dg_outstanding = [], dg_rejects = [], dg_out = [],
      dg_send_error = None, dg_default_invoke_timeout = unat (ts_invoke_timer_ms ts),
      dg_idle_timeout = (if 0 < ts_dialogue_timer_ms ts then Some (unat (ts_dialogue_timer_ms ts)) else None)\<rparr>"

definition is_closed :: "'x dialogue \<Rightarrow> bool" where
  "is_closed d \<longleftrightarrow> dg_closed d \<noteq> None"

definition is_initiator :: "'x dialogue \<Rightarrow> bool" where
  "is_initiator d \<longleftrightarrow> dg_role d = Initiator"

definition outstanding_invokes :: "'x dialogue \<Rightarrow> (invoke_id \<times> int) list" where
  "outstanding_invokes d = map (\<lambda>q. (ou_id q, ou_op q)) (dg_outstanding d)"

definition set_idle_timeout :: "duration option \<Rightarrow> 'x dialogue \<Rightarrow> 'x dialogue" where
  "set_idle_timeout t d = d\<lparr>dg_idle_timeout := t\<rparr>"

text \<open>The identifiers in the order they are tried: the ring of the non-negative ones, then the negative ones.\<close>

definition id_in_use :: "'x dialogue \<Rightarrow> invoke_id \<Rightarrow> bool" where
  "id_in_use d i \<longleftrightarrow> i \<in> ou_id ` set (dg_outstanding d) \<or> i \<in> ou_id ` set (dg_staged d)"

definition id_order :: "invoke_id \<Rightarrow> invoke_id list" where
  "id_order next = map (\<lambda>k. (max next 0 + int k) mod 128) [0..<128] @ map (\<lambda>k. - int k) [1..<129]"

definition allocate_invoke_id :: "'x dialogue \<Rightarrow> ('x dialogue \<times> invoke_id) option" where
  "allocate_invoke_id d =
     map_option (\<lambda>i. (if 0 \<le> i then d\<lparr>dg_next_invoke_id := (i + 1) mod 128\<rparr> else d, i))
       (find (\<lambda>i. \<not> id_in_use d i) (id_order (dg_next_invoke_id d)))"

definition invoke_with ::
  "int \<Rightarrow> bytes option \<Rightarrow> operation_class \<Rightarrow> duration option \<Rightarrow> 'x dialogue \<Rightarrow> 'x dialogue \<times> (dialogue_error + invoke_id)" where
  "invoke_with op arg class timeout d =
     (if dg_closed d \<noteq> None then (d, Inl DeClosed)
      else case allocate_invoke_id d of
        None \<Rightarrow> (d, Inl DeNoInvokeId)
      | Some (d, i) \<Rightarrow>
          (d\<lparr>dg_pending := dg_pending d @ [CpInvoke i None (OpLocal op) arg],
             dg_staged := dg_staged d @ [\<lparr>ou_id = i, ou_op = op, ou_class = class,
               ou_timeout = (case timeout of Some t \<Rightarrow> t | None \<Rightarrow> dg_default_invoke_timeout d), ou_deadline = None\<rparr>]\<rparr>, Inr i))"

definition reply_to :: "invoke_id \<Rightarrow> int \<Rightarrow> bytes option \<Rightarrow> 'x dialogue \<Rightarrow> 'x dialogue" where
  "reply_to i op result d =
     d\<lparr>dg_pending := dg_pending d @ [CpResultLast i (map_option (\<lambda>p. (OpLocal op, Some p)) result)]\<rparr>"

definition reply :: "int \<Rightarrow> bytes option \<Rightarrow> 'x dialogue \<Rightarrow> 'x dialogue" where
  "reply op result d = reply_to (dg_reply_invoke_id d) op result d"

definition return_error :: "invoke_id \<Rightarrow> int \<Rightarrow> 'x dialogue \<Rightarrow> 'x dialogue" where
  "return_error i code d = d\<lparr>dg_pending := dg_pending d @ [CpError i (ErLocal code) None]\<rparr>"

definition dialogue_reject :: "invoke_id option \<Rightarrow> reject_problem \<Rightarrow> 'x dialogue \<Rightarrow> 'x dialogue" where
  "dialogue_reject i problem d = d\<lparr>dg_pending := dg_pending d @ [CpReject \<lparr>rj_invoke_id = i, rj_problem = problem\<rparr>]\<rparr>"

definition discard_staged :: "'x dialogue \<Rightarrow> 'x dialogue" where
  "discard_staged d = d\<lparr>dg_pending := [], dg_staged := []\<rparr>"

definition dialogue_fail :: "dialogue_error \<Rightarrow> 'x dialogue \<Rightarrow> 'x dialogue" where
  "dialogue_fail e d = (if dg_send_error d = None then d\<lparr>dg_send_error := Some e\<rparr> else d)"

definition dialogue_emit ::
  "('x, 'dp) dlg_codec \<Rightarrow> 'dp tcap_pdu \<Rightarrow> 'x dialogue \<Rightarrow> 'x dialogue \<times> dialogue_error option" where
  "dialogue_emit dk msg d =
     (case wrap_msu dk msg (dg_addressing d) of
        Inr m \<Rightarrow> (d\<lparr>dg_out := dg_out d @ [m]\<rparr>, None)
      | Inl e \<Rightarrow> (dialogue_fail e d, Some e))"

definition u_abort :: "tid \<Rightarrow> 'dp option \<Rightarrow> 'dp tcap_abort" where
  "u_abort t information = \<lparr>ab_dtid = t, ab_reason = map_option ReasonUAbort information\<rparr>"

definition p_abort :: "tid \<Rightarrow> int \<Rightarrow> 'dp tcap_abort" where
  "p_abort t cause = \<lparr>ab_dtid = t, ab_reason = Some (ReasonPAbort cause)\<rparr>"

definition abort_as ::
  "('x, 'dp) dlg_codec \<Rightarrow> close_reason \<Rightarrow> 'x dialogue \<Rightarrow> 'x dialogue \<times> dialogue_error option" where
  "abort_as dk reason d =
     (if dg_closed d \<noteq> None then (d, Some DeClosed)
      else
        let d = d\<lparr>dg_pending := [], dg_staged := [], dg_outstanding := [], dg_rejects := [], dg_closed := Some reason\<rparr>
        in if dg_peer_tid d = [] then (d, None)
           else dialogue_emit dk (MsgAbort (u_abort (dg_peer_tid d) (if dg_ac d \<noteq> [] then Some (dk_abrt_user dk) else None))) d)"

text \<open>The message a flush sends.\<close>

definition flush_message :: "('x, 'dp) dlg_codec \<Rightarrow> bool \<Rightarrow> 'x dialogue \<Rightarrow> 'dp tcap_pdu" where
  "flush_message dk closing d =
     (let opening = (dg_role d = Initiator \<and> \<not> dg_first_flush_done d);
          comps = map CpReject (dg_rejects d) @ dg_pending d;
          comps = (if comps = [] then None else Some comps);
          dp = (if opening then dk_aarq dk (dg_ac d) else if dg_aare_pending d then dk_aare dk (dg_ac d) else None)
      in if opening then MsgBegin (dg_our_tid d) dp comps
         else if closing then MsgEnd (dg_peer_tid d) dp comps
         else MsgContinue (dg_our_tid d) (dg_peer_tid d) dp comps)"

definition flush ::
  "('x, 'dp) dlg_codec \<Rightarrow> instant \<Rightarrow> bool \<Rightarrow> 'x dialogue \<Rightarrow> 'x dialogue \<times> dialogue_error option" where
  "flush dk clock closing d =
     (if dg_closed d \<noteq> None then (d, Some DeClosed)
      else if \<not> (dg_role d = Initiator \<and> \<not> dg_first_flush_done d) \<and> dg_peer_tid d = [] then
        (dialogue_fail DeNoPeerTransaction d, Some DeNoPeerTransaction)
      else
        (case dialogue_emit dk (flush_message dk closing d) (d\<lparr>dg_pending := [], dg_staged := []\<rparr>) of
           (d', Some e) \<Rightarrow> (d', Some e)
         | (d', None) \<Rightarrow>
             let d' = d'\<lparr>dg_rejects := [], dg_aare_pending := False, dg_first_flush_done := True\<rparr>
             in (if closing then d'\<lparr>dg_outstanding := [], dg_closed := Some CrEnded\<rparr>
                 else d'\<lparr>dg_outstanding := dg_outstanding d' @
                   map (\<lambda>q. q\<lparr>ou_deadline := Some (clock + ou_timeout q)\<rparr>) (dg_staged d)\<rparr>, None)))"

definition closed_event :: "close_reason \<Rightarrow> 'x dialogue \<Rightarrow> dialogue_closed" where
  "closed_event reason d = \<lparr>dc_otid = dg_our_tid d, dc_dtid = dg_peer_tid d, dc_role = dg_role d, dc_reason = reason\<rparr>"

section \<open>What a handler does in a callback\<close>

text \<open>
  A handler acts on a dialogue only through its methods, and may go on as their results tell it. Its
  callback is a tree of calls, \<open>TurnLook\<close> reading what the accessors give.
\<close>

record dialogue_view =
  dv_otid :: tid
  dv_dtid :: tid
  dv_application_context :: "u32 list"
  dv_closed :: bool
  dv_initiator :: bool
  dv_outstanding :: "(invoke_id \<times> int) list"
  dv_idle_timeout :: "duration option"

datatype turn =
    TurnOver
  | TurnLook "dialogue_view \<Rightarrow> turn"
  | TurnInvoke int "bytes option" operation_class "duration option" "dialogue_error + invoke_id \<Rightarrow> turn"
  | TurnReply int "bytes option" turn
  | TurnReplyTo invoke_id int "bytes option" turn
  | TurnError invoke_id int turn
  | TurnReject "invoke_id option" reject_problem turn
  | TurnDiscard turn
  | TurnIdle "duration option" turn
  | TurnSend "dialogue_error option \<Rightarrow> turn"
  | TurnEnd "dialogue_error option \<Rightarrow> turn"
  | TurnAbort "dialogue_error option \<Rightarrow> turn"

definition look :: "'x dialogue \<Rightarrow> dialogue_view" where
  "look d = \<lparr>dv_otid = dg_our_tid d, dv_dtid = dg_peer_tid d, dv_application_context = dg_ac d, dv_closed = is_closed d,
     dv_initiator = is_initiator d, dv_outstanding = outstanding_invokes d, dv_idle_timeout = dg_idle_timeout d\<rparr>"

primrec play :: "('x, 'dp) dlg_codec \<Rightarrow> instant \<Rightarrow> turn \<Rightarrow> 'x dialogue \<Rightarrow> 'x dialogue" where
  "play dk clock TurnOver = (\<lambda>d. d)"
| "play dk clock (TurnLook f) = (\<lambda>d. play dk clock (f (look d)) d)"
| "play dk clock (TurnInvoke op arg class timeout f) =
     (\<lambda>d. let (d', r) = invoke_with op arg class timeout d in play dk clock (f r) d')"
| "play dk clock (TurnReply op result t) = (\<lambda>d. play dk clock t (reply op result d))"
| "play dk clock (TurnReplyTo i op result t) = (\<lambda>d. play dk clock t (reply_to i op result d))"
| "play dk clock (TurnError i code t) = (\<lambda>d. play dk clock t (return_error i code d))"
| "play dk clock (TurnReject i problem t) = (\<lambda>d. play dk clock t (dialogue_reject i problem d))"
| "play dk clock (TurnDiscard t) = (\<lambda>d. play dk clock t (discard_staged d))"
| "play dk clock (TurnIdle timeout t) = (\<lambda>d. play dk clock t (set_idle_timeout timeout d))"
| "play dk clock (TurnSend f) = (\<lambda>d. let (d', r) = flush dk clock False d in play dk clock (f r) d')"
| "play dk clock (TurnEnd f) = (\<lambda>d. let (d', r) = flush dk clock True d in play dk clock (f r) d')"
| "play dk clock (TurnAbort f) = (\<lambda>d. let (d', r) = abort_as dk CrAborted d in play dk clock (f r) d')"

datatype callback = OnBegin incoming_op | OnStart | OnContinue peer_turn | OnInvokeTimeout invoke_timeout

text \<open>The callbacks a handler need not give: nothing, and the abort of a class 1 operation that timed out.\<close>

definition default_turn :: "callback \<Rightarrow> turn" where
  "default_turn c = (case c of OnInvokeTimeout t \<Rightarrow> if it_class t = ClassOne then TurnAbort (\<lambda>_. TurnOver) else TurnOver | _ \<Rightarrow> TurnOver)"

section \<open>The component sub-layer\<close>

definition local_op :: "operation_code \<Rightarrow> int" where
  "local_op c = (case c of OpLocal v \<Rightarrow> v | OpGlobal \<Rightarrow> -1)"

definition remove_nth :: "nat \<Rightarrow> 'a list \<Rightarrow> 'a list" where
  "remove_nth i xs = take i xs @ drop (Suc i) xs"

definition receive_result ::
  "bool \<Rightarrow> invoke_id \<Rightarrow> (operation_code \<times> bytes option) option \<Rightarrow> 'x dialogue \<Rightarrow> 'x dialogue \<times> (reject + peer_component)" where
  "receive_result final i result d =
     (case position (\<lambda>q. ou_id q = i) (dg_outstanding d) of
        None \<Rightarrow> (d, Inl \<lparr>rj_invoke_id = Some i, rj_problem = ReturnResultProblem ResultUnrecognizedInvokeId\<rparr>)
      | Some k \<Rightarrow>
          if \<not> reports_success (ou_class (dg_outstanding d ! k)) then
            (d\<lparr>dg_outstanding := remove_nth k (dg_outstanding d)\<rparr>,
             Inl \<lparr>rj_invoke_id = Some i, rj_problem = ReturnResultProblem ReturnResultUnexpected\<rparr>)
          else
            (if final then d\<lparr>dg_outstanding := remove_nth k (dg_outstanding d)\<rparr> else d,
             Inr (PcResult i (map_option (\<lambda>r. local_op (fst r)) result) (Option.bind result snd))))"

definition receive_error :: "invoke_id \<Rightarrow> error_code \<Rightarrow> 'x dialogue \<Rightarrow> 'x dialogue \<times> (reject + peer_component)" where
  "receive_error i code d =
     (case position (\<lambda>q. ou_id q = i) (dg_outstanding d) of
        None \<Rightarrow> (d, Inl \<lparr>rj_invoke_id = Some i, rj_problem = ReturnErrorProblem ErrorUnrecognizedInvokeId\<rparr>)
      | Some k \<Rightarrow>
          let d' = d\<lparr>dg_outstanding := remove_nth k (dg_outstanding d)\<rparr>
          in if \<not> reports_failure (ou_class (dg_outstanding d ! k)) then
               (d', Inl \<lparr>rj_invoke_id = Some i, rj_problem = ReturnErrorProblem ReturnErrorUnexpected\<rparr>)
             else (d', Inr (PcError i (case code of ErLocal v \<Rightarrow> v | ErGlobal \<Rightarrow> -1))))"

definition receive_reject :: "reject \<Rightarrow> 'x dialogue \<Rightarrow> 'x dialogue \<times> (reject + peer_component)" where
  "receive_reject rj d =
     (let ours = (case rj_problem rj of GeneralProblem _ \<Rightarrow> True | InvokeProblem _ \<Rightarrow> True | _ \<Rightarrow> False)
      in ((case rj_invoke_id rj of
             Some i \<Rightarrow> if ours then d\<lparr>dg_outstanding := filter (\<lambda>q. ou_id q \<noteq> i) (dg_outstanding d)\<rparr> else d
           | None \<Rightarrow> d),
          Inr (PcReject (rj_invoke_id rj) (rj_problem rj))))"

definition receive_verdict :: "component \<Rightarrow> 'x dialogue \<Rightarrow> 'x dialogue \<times> (reject + peer_component)" where
  "receive_verdict c d =
     (case c of
        CpInvoke i linked op param \<Rightarrow>
          (d, case linked of
                Some l \<Rightarrow>
                  if l \<in> ou_id ` set (dg_outstanding d) then Inr (PcInvoke i (local_op op) param)
                  else Inl \<lparr>rj_invoke_id = Some i, rj_problem = InvokeProblem UnrecognizedLinkedId\<rparr>
              | None \<Rightarrow> Inr (PcInvoke i (local_op op) param))
      | CpResultLast i result \<Rightarrow> receive_result True i result d
      | CpResultNotLast i result \<Rightarrow> receive_result False i result d
      | CpError i code _ \<Rightarrow> receive_error i code d
      | CpReject rj \<Rightarrow> receive_reject rj d)"

definition receive_component :: "bool \<Rightarrow> component \<Rightarrow> 'x dialogue \<Rightarrow> 'x dialogue \<times> peer_component" where
  "receive_component is_end c d =
     (case receive_verdict c d of
        (d, Inr pc) \<Rightarrow> (d, pc)
      | (d, Inl rj) \<Rightarrow> (if is_end then d else d\<lparr>dg_rejects := dg_rejects d @ [rj]\<rparr>, PcLocalReject (rj_invoke_id rj) (rj_problem rj)))"

primrec receive_components :: "bool \<Rightarrow> component list \<Rightarrow> 'x dialogue \<Rightarrow> 'x dialogue \<times> peer_component list" where
  "receive_components is_end [] d = (d, [])"
| "receive_components is_end (c # cs) d =
     (case receive_component is_end c d of (d, pc) \<Rightarrow>
        case receive_components is_end cs d of (d, pcs) \<Rightarrow> (d, pc # pcs))"

text \<open>A component the decoder could not read.\<close>

record rejected =
  rd_invoke_id :: "invoke_id option"
  rd_problem :: reject_problem
  rd_reject :: "reject option"

definition rejected_stage :: "bool \<Rightarrow> rejected \<Rightarrow> 'x dialogue \<Rightarrow> 'x dialogue \<times> peer_component" where
  "rejected_stage is_end r d =
     ((case rd_reject r of
         Some rj \<Rightarrow> if is_end then d else d\<lparr>dg_rejects := dg_rejects d @ [rj]\<rparr>
       | None \<Rightarrow> d),
      PcLocalReject (rd_invoke_id r) (rd_problem r))"

definition receive_all :: "bool \<Rightarrow> component list \<Rightarrow> rejected option \<Rightarrow> 'x dialogue \<Rightarrow> 'x dialogue \<times> peer_component list" where
  "receive_all is_end cs rejected d =
     (case receive_components is_end cs d of (d, pcs) \<Rightarrow>
        (case rejected of
           None \<Rightarrow> (d, pcs)
         | Some r \<Rightarrow> (case rejected_stage is_end r d of (d, pc) \<Rightarrow> (d, pcs @ [pc]))))"

definition classify_abort :: "('x, 'dp) dlg_codec \<Rightarrow> 'dp tcap_abort \<Rightarrow> peer_abort" where
  "classify_abort dk a =
     (case ab_reason a of
        None \<Rightarrow> PaUser UaNoInformation
      | Some (ReasonPAbort cause) \<Rightarrow> PaProvider cause
      | Some (ReasonUAbort portion) \<Rightarrow>
          (case dk_pdu dk portion of
             Some (Some PduAbrtUser) \<Rightarrow> PaUser UaDialogueServiceUser
           | Some (Some PduAbrtProvider) \<Rightarrow> PaAbnormalDialogue
           | Some (Some (PduAare diag)) \<Rightarrow>
               (case diag of
                  ProviderNoCommonDialoguePortion \<Rightarrow> PaNoCommonDialoguePortion
                | OtherProviderDiagnostic \<Rightarrow> PaAbnormalDialogue
                | UserContextNotSupported \<Rightarrow> PaUser UaContextNotSupported
                | OtherUserDiagnostic \<Rightarrow> PaUser UaDialogueRefused)
           | Some _ \<Rightarrow> PaUser UaUserDefined
           | None \<Rightarrow> PaAbnormalDialogue))"

end
