(* ===== verification/Dialogue_Engine.thy ===== *)
theory Dialogue_Engine
  imports Dialogue_Core
begin

unbundle bit_operations_syntax

text \<open>
  The engine that terminates TCAP dialogues (\<^verbatim>\<open>DialogueEngine\<close> of \<^verbatim>\<open>src/src/dialogue.rs\<close>): the table of open
  dialogues, what is done with a message that terminates here, the dialogues this node opens, and the
  timers. A handler is a number, and \<open>behaviour\<close> says what it does when it is called; since that is an
  argument of every operation, a handler may keep a state of its own. Each operation is one step and
  reads the clock once; the calls of handlers, what they are told at the end, the gauge of open
  dialogues and the discards are logged in order, the other counters are left out.
\<close>

section \<open>State\<close>

datatype tcap_discard = Undecodable | UnknownTransaction

datatype dialogue_event =
    EvCall nat tid callback
  | EvTold nat dialogue_closed
  | EvOpened
  | EvReleased
  | EvDiscard tcap_discard
  | EvNotUnitdata
  | EvHopLoop

record 'x drecord =
  dr_handler :: nat
  dr_dialogue :: "'x dialogue"
  dr_ingress :: string
  dr_last_activity :: instant
  dr_claimed :: bool

record 'x engine =
  en_config :: tcap_settings
  en_handlers :: "u8 \<times> int \<Rightarrow> nat option"
  en_fallback :: "u8 \<times> int \<Rightarrow> nat option"
  en_dialogues :: "(tid, 'x drecord) btree"
  en_tid_counter :: u32
  en_log :: "dialogue_event list"

type_synonym behaviour = "nat \<Rightarrow> tid \<Rightarrow> callback \<Rightarrow> turn"

definition engine_new :: "tcap_settings \<Rightarrow> 'x engine" where
  "engine_new ts = \<lparr>en_config = ts, en_handlers = Map.empty, en_fallback = Map.empty, en_dialogues = [], en_tid_counter = 0, en_log = []\<rparr>"

definition register_handler :: "u8 \<Rightarrow> int \<Rightarrow> nat \<Rightarrow> 'x engine \<Rightarrow> 'x engine" where
  "register_handler ssn op h e = e\<lparr>en_handlers := (en_handlers e)((ssn, op) \<mapsto> h)\<rparr>"

definition register_fallback :: "u8 \<Rightarrow> int \<Rightarrow> nat \<Rightarrow> 'x engine \<Rightarrow> 'x engine" where
  "register_fallback ssn op h e = e\<lparr>en_fallback := (en_fallback e)((ssn, op) \<mapsto> h)\<rparr>"

definition open_dialogues :: "'x engine \<Rightarrow> nat" where
  "open_dialogues e = length (en_dialogues e)"

definition logged :: "dialogue_event \<Rightarrow> 'x engine \<Rightarrow> 'x engine" where
  "logged ev e = e\<lparr>en_log := en_log e @ [ev]\<rparr>"

definition be_bytes :: "u32 \<Rightarrow> bytes" where
  "be_bytes w = [ucast (drop_bit 24 w), ucast (drop_bit 16 w), ucast (drop_bit 8 w), ucast w]"

definition alloc_tid :: "'x engine \<Rightarrow> 'x engine \<times> tid" where
  "alloc_tid e = (let n = en_tid_counter e + 1 in (e\<lparr>en_tid_counter := n\<rparr>, be_bytes (n OR 0x80000000)))"

definition take_dialogue :: "tid \<Rightarrow> 'x engine \<Rightarrow> ('x engine \<times> 'x drecord) option" where
  "take_dialogue t e =
     map_option (\<lambda>rec. (logged EvReleased (e\<lparr>en_dialogues := bt_remove t (en_dialogues e)\<rparr>), rec)) (bt_get t (en_dialogues e))"

definition store_dialogue :: "'x dialogue \<Rightarrow> nat \<Rightarrow> string \<Rightarrow> instant \<Rightarrow> 'x engine \<Rightarrow> 'x engine" where
  "store_dialogue d h ingress at e =
     logged EvOpened (e\<lparr>en_dialogues := bt_insert (dg_our_tid d)
       \<lparr>dr_handler = h, dr_dialogue = d, dr_ingress = ingress, dr_last_activity = at, dr_claimed = False\<rparr> (en_dialogues e)\<rparr>)"

definition tell_closed :: "nat \<Rightarrow> close_reason \<Rightarrow> 'x dialogue \<Rightarrow> 'x engine \<Rightarrow> 'x engine" where
  "tell_closed h reason d e = logged (EvTold h (closed_event reason d)) e"

text \<open>One callback: the handler acts on the dialogue, the engine is not held meanwhile.\<close>

definition call_handler ::
  "('x, 'dp) dlg_codec \<Rightarrow> behaviour \<Rightarrow> instant \<Rightarrow> nat \<Rightarrow> callback \<Rightarrow> 'x dialogue \<Rightarrow> 'x engine \<Rightarrow> 'x engine \<times> 'x dialogue" where
  "call_handler dk bh clock h c d e = (logged (EvCall h (dg_our_tid d) c) e, play dk clock (bh h (dg_our_tid d) c) d)"

section \<open>The end of a turn\<close>

datatype turn_kind = TurnOfBegin | TurnOfContinue | TurnOfTimer

definition unanswered :: "('x, 'dp) dlg_codec \<Rightarrow> turn_kind \<Rightarrow> 'x dialogue \<Rightarrow> 'x dialogue" where
  "unanswered dk kind d =
     (if kind = TurnOfBegin \<and> dg_closed d = None \<and> dg_out d = [] then fst (abort_as dk CrNoAnswer d) else d)"

definition finish_turn ::
  "('x, 'dp) dlg_codec \<Rightarrow> instant \<Rightarrow> 'x dialogue \<Rightarrow> nat \<Rightarrow> string \<Rightarrow> turn_kind \<Rightarrow> instant \<Rightarrow> 'x engine \<Rightarrow> 'x engine \<times> msu list" where
  "finish_turn dk clock d h ingress kind last_activity e =
     (let d = unanswered dk kind d;
          frames = dg_out d;
          d = d\<lparr>dg_send_error := None, dg_out := []\<rparr>
      in (case dg_closed d of
            Some reason \<Rightarrow> tell_closed h reason d e
          | None \<Rightarrow> store_dialogue d h ingress (if kind = TurnOfTimer \<and> frames = [] then last_activity else clock) e,
          frames))"

section \<open>Messages from the peer\<close>

text \<open>The application context a Begin offers, or the abort its dialogue portion is answered with.\<close>

definition offered_context :: "('x, 'dp) dlg_codec \<Rightarrow> tid \<Rightarrow> 'dp option \<Rightarrow> 'dp tcap_abort + u32 list option" where
  "offered_context dk peer_tid dp =
     (case map_option (dk_pdu dk) dp of
        None \<Rightarrow> Inr None
      | Some (Some None) \<Rightarrow> Inr None
      | Some (Some (Some (PduAarq version ac))) \<Rightarrow>
          if version \<noteq> Version1 then Inl (u_abort peer_tid (Some (dk_no_common dk ac))) else Inr (Some ac)
      | Some _ \<Rightarrow> Inl (u_abort peer_tid (Some (dk_abnormal_dialogue dk))))"

definition is_local_invoke :: "peer_component \<Rightarrow> bool" where
  "is_local_invoke c \<longleftrightarrow> (case c of PcInvoke _ op _ \<Rightarrow> 0 \<le> op | _ \<Rightarrow> False)"

definition handler_for :: "u8 \<Rightarrow> int \<Rightarrow> 'x engine \<Rightarrow> nat option" where
  "handler_for ssn op e = (case en_handlers e (ssn, op) of Some h \<Rightarrow> Some h | None \<Rightarrow> en_fallback e (ssn, op))"

text \<open>A Begin with no one to hand it to: ended when a Reject is to be sent, aborted otherwise.\<close>

definition decline :: "('x, 'dp) dlg_codec \<Rightarrow> instant \<Rightarrow> bool \<Rightarrow> 'x dialogue \<Rightarrow> msu list" where
  "decline dk clock ending d = dg_out (fst (if ending then flush dk clock True d else abort_as dk CrAborted d))"

definition engine_on_begin ::
  "('x, 'dp) dlg_codec \<Rightarrow> behaviour \<Rightarrow> instant \<Rightarrow> tid \<Rightarrow> 'dp option \<Rightarrow> component list option \<Rightarrow> rejected option \<Rightarrow>
   'x addressing \<Rightarrow> 'x sccp_unit \<Rightarrow> string \<Rightarrow> 'x engine \<Rightarrow> 'x engine \<times> msu list" where
  "engine_on_begin dk bh clock peer_tid dp comps rejected back u ingress e =
     (if ts_max_dialogues (en_config e) \<le> length (en_dialogues e) then
        (e, send_abort dk (p_abort peer_tid (dk_resource_limitation dk)) back)
      else case offered_context dk peer_tid dp of
        Inl abort \<Rightarrow> (e, send_abort dk abort back)
      | Inr ac \<Rightarrow>
          (case alloc_tid e of (e, our_tid) \<Rightarrow>
             let ssn = (case ad_ssn (un_called u) of Some s \<Rightarrow> s | None \<Rightarrow> 0);
                 d = dialogue_new Responder our_tid peer_tid (case ac of Some arcs \<Rightarrow> arcs | None \<Rightarrow> []) 0 back (en_config e)
             in (case receive_all False (case comps of Some cs \<Rightarrow> cs | None \<Rightarrow> []) rejected d of (d, pcs) \<Rightarrow>
                   (case position is_local_invoke pcs of
                      None \<Rightarrow> (e, decline dk clock (dg_rejects d \<noteq> []) d)
                    | Some k \<Rightarrow>
                        (case pcs ! k of
                           PcInvoke i op arg \<Rightarrow>
                             let d = d\<lparr>dg_reply_invoke_id := i\<rparr>
                             in (case handler_for ssn op e of
                                   None \<Rightarrow> (e, decline dk clock False d)
                                 | Some h \<Rightarrow>
                                     (case call_handler dk bh clock h (OnBegin \<lparr>io_operation_code = op, io_invoke_id = i,
                                          io_argument = arg, io_application_context = ac, io_called_ssn = ssn,
                                          io_calling_gt = gt_digits (ad_title (un_calling u)),
                                          io_called_gt = gt_digits (ad_title (un_called u)),
                                          io_further = remove_nth k pcs\<rparr>) d e of (e, d) \<Rightarrow>
                                        finish_turn dk clock d h ingress TurnOfBegin clock e))
                         | _ \<Rightarrow> (e, []))))))"

definition engine_on_turn ::
  "('x, 'dp) dlg_codec \<Rightarrow> behaviour \<Rightarrow> instant \<Rightarrow> tid \<Rightarrow> tid option \<Rightarrow> component list \<Rightarrow> rejected option \<Rightarrow> bool \<Rightarrow>
   'x addressing \<Rightarrow> 'x engine \<Rightarrow> 'x engine \<times> msu list" where
  "engine_on_turn dk bh clock our_tid peer_otid comps rejected is_end back e =
     (case take_dialogue our_tid e of
        None \<Rightarrow>
          (case peer_otid of
             Some otid \<Rightarrow> (e, send_abort dk (p_abort otid (dk_unrecognized_tid dk)) back)
           | None \<Rightarrow> (logged (EvDiscard UnknownTransaction) e, []))
      | Some (e, rec) \<Rightarrow>
          let d = dr_dialogue rec;
              d = (case peer_otid of
                     Some otid \<Rightarrow> if dg_peer_tid d = [] then d\<lparr>dg_peer_tid := otid\<rparr> else d
                   | None \<Rightarrow> d)
          in (case receive_all is_end comps rejected d of (d, pcs) \<Rightarrow>
                if is_end then
                  let d = d\<lparr>dg_outstanding := [], dg_rejects := [], dg_closed := Some CrPeerEnded\<rparr>
                  in (case call_handler dk bh clock (dr_handler rec) (OnContinue \<lparr>pt_is_end = True, pt_components = pcs\<rparr>) d e of
                        (e, d) \<Rightarrow> (tell_closed (dr_handler rec) CrPeerEnded d e, []))
                else
                  (case call_handler dk bh clock (dr_handler rec) (OnContinue \<lparr>pt_is_end = False, pt_components = pcs\<rparr>) d e of
                     (e, d) \<Rightarrow> finish_turn dk clock d (dr_handler rec) (dr_ingress rec) TurnOfContinue clock e)))"

definition engine_on_abort :: "('x, 'dp) dlg_codec \<Rightarrow> 'dp tcap_abort \<Rightarrow> 'x engine \<Rightarrow> 'x engine" where
  "engine_on_abort dk abort e =
     (case take_dialogue (ab_dtid abort) e of
        None \<Rightarrow> logged (EvDiscard UnknownTransaction) e
      | Some (e, rec) \<Rightarrow> tell_closed (dr_handler rec) (CrPeerAbort (classify_abort dk abort)) (dr_dialogue rec) e)"

definition engine_on_message ::
  "('x, 'dp) dlg_codec \<Rightarrow> behaviour \<Rightarrow> instant \<Rightarrow> 'dp tcap_pdu \<Rightarrow> rejected option \<Rightarrow> 'x addressing \<Rightarrow> 'x sccp_unit \<Rightarrow> string \<Rightarrow>
   'x engine \<Rightarrow> 'x engine \<times> msu list" where
  "engine_on_message dk bh clock msg rejected back u ingress e =
     (case msg of
        MsgBegin otid dp comps \<Rightarrow> engine_on_begin dk bh clock otid dp comps rejected back u ingress e
      | MsgContinue otid dtid _ comps \<Rightarrow>
          engine_on_turn dk bh clock dtid (Some otid) (case comps of Some cs \<Rightarrow> cs | None \<Rightarrow> []) rejected False back e
      | MsgEnd dtid _ comps \<Rightarrow>
          engine_on_turn dk bh clock dtid None (case comps of Some cs \<Rightarrow> cs | None \<Rightarrow> []) rejected True back e
      | MsgAbort abort \<Rightarrow> (engine_on_abort dk abort e, [])
      | MsgUnidirectional \<Rightarrow> (e, []))"

definition engine_on_problem ::
  "('x, 'dp) dlg_codec \<Rightarrow> behaviour \<Rightarrow> instant \<Rightarrow> 'dp decode_problem \<Rightarrow> 'x addressing \<Rightarrow> 'x sccp_unit \<Rightarrow> string \<Rightarrow>
   'x engine \<Rightarrow> 'x engine \<times> msu list" where
  "engine_on_problem dk bh clock problem back u ingress e =
     (case pb_fault problem of
        FaultComponent i general \<Rightarrow>
          (case pb_partial problem of
             Some part \<Rightarrow>
               engine_on_message dk bh clock part
                 (Some \<lparr>rd_invoke_id = i, rd_problem = GeneralProblem general, rd_reject = pb_reject problem\<rparr>) back u ingress e
           | None \<Rightarrow> (logged (EvDiscard Undecodable) e, []))
      | fault \<Rightarrow>
          (case (case pb_abort problem of
                   Some abort \<Rightarrow> (e, send_abort dk abort back)
                 | None \<Rightarrow> (logged (EvDiscard Undecodable) e, [])) of (e, frames) \<Rightarrow>
             (case Option.bind (pb_dtid problem) (\<lambda>t. take_dialogue t e) of
                None \<Rightarrow> (e, frames)
              | Some (e, rec) \<Rightarrow>
                  (tell_closed (dr_handler rec)
                     (case fault of FaultTransaction cause \<Rightarrow> CrProviderAbort cause (frames \<noteq> [])
                        | _ \<Rightarrow> CrAbnormalDialogue (frames \<noteq> []))
                     (dr_dialogue rec) e, frames))))"

definition deliver ::
  "('x, 'dp) dlg_codec \<Rightarrow> behaviour \<Rightarrow> instant \<Rightarrow> msu \<Rightarrow> string \<Rightarrow> 'x engine \<Rightarrow> 'x engine \<times> msu list" where
  "deliver dk bh clock m ingress e =
     (if msu_si m \<noteq> SI_SCCP then (logged EvNotUnitdata e, [])
      else case cd_decode (dk_sccp dk) (msu_payload m) of
        None \<Rightarrow> (logged EvNotUnitdata e, [])
      | Some u \<Rightarrow>
          if un_kind u \<notin> {Udt, Xudt} \<or> un_kind u = Xudt \<and> is_segment (unit_view u) then (logged EvNotUnitdata e, [])
          else if un_kind u = Xudt \<and> hop_counter_violated u then
            (logged EvHopLoop e, case sccp_return (dk_sccp dk) m u HopCounterViolation None of Some ret \<Rightarrow> [ret] | None \<Rightarrow> [])
          else
            let back = addressing_reverse u m (if un_kind u = Udt then FormUdt else FormXudt)
            in (case dk_detailed dk (un_data u) of
                  DecodedComplete msg \<Rightarrow> engine_on_message dk bh clock msg None back u ingress e
                | DecodedProblem problem \<Rightarrow> engine_on_problem dk bh clock problem back u ingress e))"

section \<open>Dialogues this node opens\<close>

record 'x outgoing_begin =
  ob_application_context :: "u32 list"
  ob_called :: "'x address"
  ob_calling :: "'x address"
  ob_opc :: u32
  ob_dpc :: u32
  ob_ni :: u8
  ob_sls :: u8
  ob_ingress :: string

definition engine_begin ::
  "('x, 'dp) dlg_codec \<Rightarrow> behaviour \<Rightarrow> instant \<Rightarrow> 'x outgoing_begin \<Rightarrow> nat \<Rightarrow> 'x engine \<Rightarrow>
   'x engine \<times> (dialogue_error + tid \<times> msu list)" where
  "engine_begin dk bh clock req h e =
     (case alloc_tid e of (e, our_tid) \<Rightarrow>
        let a = \<lparr>ax_called = ob_called req, ax_calling = ob_calling req, ax_opc = ob_opc req, ax_dpc = ob_dpc req,
              ax_ni = ob_ni req, ax_sls = ob_sls req, ax_form = FormUdt\<rparr>;
            d = dialogue_new Initiator our_tid [] (ob_application_context req) 0 a (en_config e)
        in (case call_handler dk bh clock h OnStart d e of (e, d) \<Rightarrow>
              let frames = dg_out d;
                  d = d\<lparr>dg_out := []\<rparr>;
                  error = (case dg_send_error d of Some x \<Rightarrow> x | None \<Rightarrow> DeNothingSent)
              in (case dg_closed d of
                    Some reason \<Rightarrow> (tell_closed h reason d e, Inl error)
                  | None \<Rightarrow>
                      if frames = [] then (tell_closed h CrNotSent (d\<lparr>dg_send_error := None\<rparr>) e, Inl error)
                      else (store_dialogue d h (ob_ingress req) clock e, Inr (our_tid, frames)))))"

section \<open>Timers\<close>

definition invoke_due :: "instant \<Rightarrow> outstanding \<Rightarrow> bool" where
  "invoke_due now q \<longleftrightarrow> (case ou_deadline q of Some at \<Rightarrow> at \<le> now | None \<Rightarrow> False)"

definition idle_expired :: "instant \<Rightarrow> 'x drecord \<Rightarrow> bool" where
  "idle_expired now rec \<longleftrightarrow>
     (case dg_idle_timeout (dr_dialogue rec) of Some idle \<Rightarrow> idle \<le> now - dr_last_activity rec | None \<Rightarrow> False)"

definition timers_due :: "instant \<Rightarrow> 'x drecord \<Rightarrow> bool" where
  "timers_due now rec \<longleftrightarrow> list_ex (invoke_due now) (dg_outstanding (dr_dialogue rec)) \<or> idle_expired now rec"

definition claim_expired :: "instant \<Rightarrow> 'x engine \<Rightarrow> 'x engine \<times> tid list" where
  "claim_expired now e =
     (let due = (\<lambda>rec. \<not> dr_claimed rec \<and> timers_due now rec)
      in (e\<lparr>en_dialogues := bt_map (\<lambda>_ rec. if due rec then rec\<lparr>dr_claimed := True\<rparr> else rec) (en_dialogues e)\<rparr>,
          map fst (filter (\<lambda>(_, rec). due rec) (en_dialogues e))))"

definition unclaim :: "tid \<Rightarrow> 'x engine \<Rightarrow> 'x engine" where
  "unclaim t e = e\<lparr>en_dialogues := bt_map (\<lambda>k rec. if k = t then rec\<lparr>dr_claimed := False\<rparr> else rec) (en_dialogues e)\<rparr>"

definition release_claim :: "tid \<Rightarrow> 'x engine \<Rightarrow> 'x engine" where
  "release_claim t e = unclaim t e"

primrec expire_invokes ::
  "('x, 'dp) dlg_codec \<Rightarrow> behaviour \<Rightarrow> instant \<Rightarrow> nat \<Rightarrow> outstanding list \<Rightarrow> 'x dialogue \<Rightarrow> 'x engine \<Rightarrow> 'x engine \<times> 'x dialogue" where
  "expire_invokes dk bh clock h [] d e = (e, d)"
| "expire_invokes dk bh clock h (q # qs) d e =
     (if dg_closed d \<noteq> None then (e, d)
      else if ou_class q = ClassFour then expire_invokes dk bh clock h qs d e
      else
        (case call_handler dk bh clock h (OnInvokeTimeout \<lparr>it_invoke_id = ou_id q, it_operation_code = ou_op q, it_class = ou_class q\<rparr>) d e of
           (e, d) \<Rightarrow>
             expire_invokes dk bh clock h qs
               (if dg_closed d = Some CrAborted then d\<lparr>dg_closed := Some (CrInvokeTimeout (ou_id q) (ou_op q))\<rparr> else d) e))"

definition expire ::
  "('x, 'dp) dlg_codec \<Rightarrow> behaviour \<Rightarrow> instant \<Rightarrow> instant \<Rightarrow> tid \<Rightarrow> 'x engine \<Rightarrow> 'x engine \<times> (string \<times> msu) list" where
  "expire dk bh clock now t e =
     (case bt_get t (en_dialogues e) of
        None \<Rightarrow> (e, [])
      | Some rec \<Rightarrow>
          if \<not> timers_due now rec then (unclaim t e, [])
          else
            let e = logged EvReleased (e\<lparr>en_dialogues := bt_remove t (en_dialogues e)\<rparr>);
                d = dr_dialogue rec;
                expired = filter (invoke_due now) (dg_outstanding d);
                d = d\<lparr>dg_outstanding := filter (\<lambda>q. \<not> invoke_due now q) (dg_outstanding d)\<rparr>
            in (case expire_invokes dk bh clock (dr_handler rec) expired d e of (e, d) \<Rightarrow>
                  let d = (if dg_closed d = None \<and> idle_expired now rec then fst (abort_as dk CrIdleTimeout d) else d)
                  in (case finish_turn dk clock d (dr_handler rec) (dr_ingress rec) TurnOfTimer (dr_last_activity rec) e of
                        (e, frames) \<Rightarrow> (e, map (Pair (dr_ingress rec)) frames))))"

primrec expire_all ::
  "('x, 'dp) dlg_codec \<Rightarrow> behaviour \<Rightarrow> instant \<Rightarrow> instant \<Rightarrow> tid list \<Rightarrow> 'x engine \<Rightarrow> 'x engine \<times> (string \<times> msu) list" where
  "expire_all dk bh clock now [] e = (e, [])"
| "expire_all dk bh clock now (t # ts) e =
     (case expire dk bh clock now t e of (e, out) \<Rightarrow> case expire_all dk bh clock now ts e of (e, rest) \<Rightarrow> (e, out @ rest))"

definition sweep :: "('x, 'dp) dlg_codec \<Rightarrow> behaviour \<Rightarrow> instant \<Rightarrow> instant \<Rightarrow> 'x engine \<Rightarrow> 'x engine \<times> (string \<times> msu) list" where
  "sweep dk bh clock now e = (case claim_expired now e of (e, ts) \<Rightarrow> expire_all dk bh clock now ts e)"

section \<open>Lanes\<close>

definition tid_lane :: "tid \<Rightarrow> u64" where
  "tid_lane t = fold (\<lambda>b h. (h XOR ucast b) * 0x00000100000001b3) t 0xcbf29ce484222325"

definition dialogue_lane :: "('x, 'dp) dlg_codec \<Rightarrow> msu \<Rightarrow> u64" where
  "dialogue_lane dk m =
     (if msu_si m \<noteq> SI_SCCP then 0
      else case cd_decode (dk_sccp dk) (msu_payload m) of
        None \<Rightarrow> 0
      | Some u \<Rightarrow>
          if un_kind u \<notin> {Udt, Xudt} then 0
          else
            (case dk_decode dk (un_data u) of
               Some (MsgBegin otid _ _) \<Rightarrow> tid_lane otid
             | Some (MsgContinue _ dtid _ _) \<Rightarrow> tid_lane dtid
             | Some (MsgEnd dtid _ _) \<Rightarrow> tid_lane dtid
             | Some (MsgAbort abort) \<Rightarrow> tid_lane (ab_dtid abort)
             | _ \<Rightarrow> 0))"

definition DIALOGUE_LANES :: u64 where "DIALOGUE_LANES = 32"

end
