(* ===== verification/Dialogue_Correct.thy ===== *)
theory Dialogue_Correct
  imports Dialogue_Engine "HOL-Library.Sublist"
begin

text \<open>
  What a dialogue promises, whatever its handler does: the locale \<open>dialogue_law\<close> carries a property of
  dialogues over every callback once each method keeps it. It gives the identifiers and timers of the
  operations in progress, the identity of the dialogue, and the answer to a Begin.
\<close>

section \<open>What every method keeps, every callback keeps\<close>

locale dialogue_law =
  fixes law :: "'x dialogue \<Rightarrow> bool" and dk :: "('x, 'dp) dlg_codec" and clock :: instant
  assumes law_invoke: "law d \<Longrightarrow> law (fst (invoke_with op arg c t d))"
    and law_pending: "law d \<Longrightarrow> law (d\<lparr>dg_pending := p\<rparr>)"
    and law_discard: "law d \<Longrightarrow> law (discard_staged d)"
    and law_idle: "law d \<Longrightarrow> law (set_idle_timeout t d)"
    and law_flush: "law d \<Longrightarrow> law (fst (flush dk clock b d))"
    and law_abort: "law d \<Longrightarrow> law (fst (abort_as dk CrAborted d))"
begin

lemma law_play: "law d \<Longrightarrow> law (play dk clock t d)"
proof (induction t arbitrary: d)
  case (TurnInvoke op arg c timeout f)
  show ?case using TurnInvoke.IH [OF rangeI] law_invoke [OF TurnInvoke.prems, of op arg c timeout] by (simp add: case_prod_beta)
next
  case (TurnSend f)
  show ?case using TurnSend.IH [OF rangeI] law_flush [OF TurnSend.prems] by (simp add: case_prod_beta)
next
  case (TurnEnd f)
  show ?case using TurnEnd.IH [OF rangeI] law_flush [OF TurnEnd.prems] by (simp add: case_prod_beta)
next
  case (TurnAbort f)
  show ?case using TurnAbort.IH [OF rangeI] law_abort [OF TurnAbort.prems] by (simp add: case_prod_beta)
next
  case (TurnLook f)
  show ?case using TurnLook.IH [OF rangeI TurnLook.prems] by simp
qed (simp_all add: reply_def reply_to_def return_error_def dialogue_reject_def law_pending law_discard law_idle)

end

section \<open>Identity\<close>

text \<open>What no method changes.\<close>

definition same_party :: "'x dialogue \<Rightarrow> 'x dialogue \<Rightarrow> bool" where
  "same_party d0 d \<longleftrightarrow> dg_our_tid d = dg_our_tid d0 \<and> dg_role d = dg_role d0 \<and> dg_peer_tid d = dg_peer_tid d0 \<and>
     dg_addressing d = dg_addressing d0 \<and> (dg_closed d0 = None \<or> dg_closed d = dg_closed d0)"

lemma allocate_fields:
  "allocate_invoke_id d = Some (d', i) \<Longrightarrow> \<exists>n. d' = d\<lparr>dg_next_invoke_id := n\<rparr>"
  by (auto simp: allocate_invoke_id_def split: if_splits intro: exI [of _ "dg_next_invoke_id d"])

lemma emit_fields:
  "fst (dialogue_emit dk msg d) =
     (case wrap_msu dk msg (dg_addressing d) of Inr m \<Rightarrow> d\<lparr>dg_out := dg_out d @ [m]\<rparr> | Inl e \<Rightarrow> dialogue_fail e d)"
  "snd (dialogue_emit dk msg d) = (case wrap_msu dk msg (dg_addressing d) of Inr m \<Rightarrow> None | Inl e \<Rightarrow> Some e)"
  by (simp_all add: dialogue_emit_def split: sum.splits)

lemmas method_defs = invoke_with_def discard_staged_def set_idle_timeout_def flush_def abort_as_def dialogue_emit_def dialogue_fail_def

interpretation party: dialogue_law "same_party d0" dk clock for d0 :: "'x dialogue" and dk :: "('x, 'dp) dlg_codec" and clock
proof
  fix d :: "'x dialogue" assume "same_party d0 d"
  then show "same_party d0 (fst (invoke_with op arg c t d))" for op arg c t
    by (auto simp: same_party_def invoke_with_def dest!: allocate_fields split: option.splits)
qed (auto simp: same_party_def method_defs Let_def split: sum.splits)

section \<open>Operations in progress\<close>

text \<open>No two operations share an identifier, and each that was sent has its invocation timer.\<close>

definition operation_ids :: "'x dialogue \<Rightarrow> invoke_id list" where
  "operation_ids d = map ou_id (dg_outstanding d @ dg_staged d)"

definition operations_ok :: "'x dialogue \<Rightarrow> bool" where
  "operations_ok d \<longleftrightarrow> distinct (operation_ids d) \<and> set (operation_ids d) \<subseteq> {-128..127} \<and>
     list_all (\<lambda>q. ou_deadline q \<noteq> None) (dg_outstanding d)"

lemma id_in_use_iff: "id_in_use d i \<longleftrightarrow> i \<in> set (operation_ids d)"
  by (auto simp: id_in_use_def operation_ids_def)

lemma shifted_residue:
  fixes i s :: int
  assumes "0 \<le> i" "i < 128"
  shows "\<exists>k<128. (s + int k) mod 128 = i"
proof (intro exI conjI)
  let ?k = "nat ((i - s) mod 128)"
  show "?k < 128" by simp
  have "(s + int ?k) mod 128 = (s + (i - s)) mod 128" by (simp add: mod_add_right_eq)
  then show "(s + int ?k) mod 128 = i" using assms by simp
qed

lemma id_order_set: "set (id_order next) = {-128..127}"
proof
  show "set (id_order next) \<subseteq> {-128..127}"
  proof
    fix i assume "i \<in> set (id_order next)"
    then consider k where "i = (max next 0 + int k) mod 128" | k where "1 \<le> k" "k < 129" "i = - int k" by (auto simp: id_order_def)
    then show "i \<in> {-128..127}"
    proof cases
      case 1
      have "0 \<le> i" "i < 128" unfolding 1 by simp_all
      then show ?thesis by simp
    qed auto
  qed
  show "{-128..127} \<subseteq> set (id_order next)"
  proof
    fix i :: int assume i: "i \<in> {-128..127}"
    show "i \<in> set (id_order next)"
    proof (cases "0 \<le> i")
      case True
      then obtain k where "k < 128" "(max next 0 + int k) mod 128 = i" using shifted_residue [of i "max next 0"] i by auto
      then have "i \<in> (\<lambda>k. (max next 0 + int k) mod 128) ` {0..<128}" by force
      then show ?thesis by (simp add: id_order_def)
    next
      case False
      then have "i = - int (nat (- i))" "nat (- i) \<in> {1..<129}" using i by auto
      then show ?thesis unfolding id_order_def by (metis UnCI image_eqI set_append set_map set_upt)
    qed
  qed
qed

lemma allocate_fresh:
  assumes "allocate_invoke_id d = Some (d', i)"
  shows "i \<in> {-128..127}" "i \<notin> set (operation_ids d)"
    "dg_outstanding d' = dg_outstanding d" "dg_staged d' = dg_staged d" "dg_pending d' = dg_pending d"
    "dg_default_invoke_timeout d' = dg_default_invoke_timeout d"
proof -
  from assms have "find (\<lambda>i. \<not> id_in_use d i) (id_order (dg_next_invoke_id d)) = Some i"
    by (auto simp: allocate_invoke_id_def)
  then have "i \<in> set (id_order (dg_next_invoke_id d))" "\<not> id_in_use d i" by (auto simp: find_Some_iff)
  then show "i \<in> {-128..127}" "i \<notin> set (operation_ids d)" unfolding id_order_set id_in_use_iff by blast+
qed (use allocate_fields [OF assms] in auto)

lemma invoke_operations:
  assumes "operations_ok d"
  shows "operations_ok (fst (invoke_with op arg c t d))"
proof (cases "dg_closed d \<noteq> None \<or> allocate_invoke_id d = None")
  case True
  then show ?thesis using assms by (auto simp: invoke_with_def)
next
  case False
  then obtain d' i where alloc: "allocate_invoke_id d = Some (d', i)" "dg_closed d = None" by auto
  note fresh = allocate_fresh [OF alloc(1)]
  have "operation_ids (fst (invoke_with op arg c t d)) = operation_ids d @ [i]"
    and "dg_outstanding (fst (invoke_with op arg c t d)) = dg_outstanding d"
    using fresh(3,4) alloc by (simp_all add: invoke_with_def operation_ids_def)
  then show ?thesis using assms fresh(1,2) by (simp add: operations_ok_def)
qed

interpretation operations: dialogue_law operations_ok dk clock for dk :: "('x, 'dp) dlg_codec" and clock
proof (unfold_locales, goal_cases)
  case (1 d op arg c t)
  then show ?case by (rule invoke_operations)
qed (auto simp: operations_ok_def operation_ids_def method_defs Let_def list_all_iff comp_def split: sum.splits)

section \<open>What the component sub-layer changes\<close>

lemma subseq_remove_nth [simp]: "subseq (remove_nth k xs) xs"
proof -
  have "subseq (tl ys) ys" for ys :: "'a list" by (cases ys) (auto intro: list_emb_Cons)
  from this [of "drop k xs"] have "subseq (drop (Suc k) xs) (drop k xs)" by (simp add: drop_Suc drop_tl)
  then have "subseq (take k xs @ drop (Suc k) xs) (take k xs @ drop k xs)" by (intro list_emb_append_mono) simp_all
  then show ?thesis by (simp add: remove_nth_def)
qed

lemma subseq_distinct: "subseq xs ys \<Longrightarrow> distinct ys \<Longrightarrow> distinct xs"
  by (induction rule: list_emb.induct) (auto dest: list_emb_set)

text \<open>\<open>trimmed d d'\<close>: of the dialogue only operations in progress were dropped and Rejects stored.\<close>

definition trimmed :: "'x dialogue \<Rightarrow> 'x dialogue \<Rightarrow> bool" where
  "trimmed d d' \<longleftrightarrow> (\<exists>qs rs. subseq qs (dg_outstanding d) \<and> d' = d\<lparr>dg_outstanding := qs, dg_rejects := dg_rejects d @ rs\<rparr>)"

lemma trimmed_refl: "trimmed d d"
  unfolding trimmed_def by (rule exI [of _ "dg_outstanding d"], rule exI [of _ "[]"]) simp

lemma trimmed_trans: "trimmed d1 d2 \<Longrightarrow> trimmed d2 d3 \<Longrightarrow> trimmed d1 d3"
  unfolding trimmed_def
proof (elim exE conjE, goal_cases)
  case (1 qs qs' rs rs')
  then have "subseq qs' (dg_outstanding d1)" "d3 = d1\<lparr>dg_outstanding := qs', dg_rejects := dg_rejects d1 @ (rs @ rs')\<rparr>"
    using subseq_order.trans [of qs' qs] by simp_all
  then show ?case by blast
qed

lemma trimmed_outstanding: "subseq qs (dg_outstanding d) \<Longrightarrow> trimmed d (d\<lparr>dg_outstanding := qs\<rparr>)"
  unfolding trimmed_def by (rule exI [of _ qs], rule exI [of _ "[]"]) simp

lemma trimmed_rejects: "trimmed d (d\<lparr>dg_rejects := dg_rejects d @ rs\<rparr>)"
  unfolding trimmed_def by (rule exI [of _ "dg_outstanding d"], rule exI [of _ rs]) simp

lemma verdict_trimmed: "trimmed d (fst (receive_verdict c d))"
  by (auto simp: receive_verdict_def receive_result_def receive_error_def receive_reject_def Let_def trimmed_refl
      split: component.split option.split intro!: trimmed_outstanding)

lemma receive_component_trimmed: "trimmed d (fst (receive_component is_end c d))"
  using verdict_trimmed [of d c] trimmed_trans [OF _ trimmed_rejects]
  by (auto simp: receive_component_def split: prod.split sum.split)

lemma receive_components_trimmed: "trimmed d (fst (receive_components is_end cs d))"
proof (induction cs arbitrary: d)
  case (Cons c cs)
  show ?case using trimmed_trans [OF receive_component_trimmed Cons.IH] by (auto simp: case_prod_beta)
qed (simp add: trimmed_refl)

lemma receive_all_trimmed: "trimmed d (fst (receive_all is_end cs rejected d))"
proof -
  have "trimmed d (fst (rejected_stage is_end r d))" for r and d :: "'x dialogue"
    by (auto simp: rejected_stage_def trimmed_refl trimmed_rejects split: option.split)
  then show ?thesis using receive_components_trimmed [of d is_end cs] trimmed_trans
    by (fastforce simp: receive_all_def case_prod_beta split: option.split)
qed

lemma trimmed_operations: "trimmed d d' \<Longrightarrow> operations_ok d \<Longrightarrow> operations_ok d'"
proof -
  assume "trimmed d d'" and ok: "operations_ok d"
  then obtain qs where qs: "subseq qs (dg_outstanding d)" "dg_outstanding d' = qs" "dg_staged d' = dg_staged d"
    by (auto simp: trimmed_def)
  then have "subseq (operation_ids d') (operation_ids d)"
    by (auto simp: operation_ids_def simp del: map_append intro!: subseq_map list_emb_append_mono)
  then have "distinct (operation_ids d')" "set (operation_ids d') \<subseteq> set (operation_ids d)"
    using subseq_distinct ok by (auto simp: operations_ok_def dest: list_emb_set)
  moreover have "set (dg_outstanding d') \<subseteq> set (dg_outstanding d)" using qs(1,2) by (auto dest: list_emb_set)
  ultimately show ?thesis using ok by (auto simp: operations_ok_def list_all_iff)
qed

lemma trimmed_party: "trimmed d d' \<Longrightarrow> same_party d0 d' = same_party d0 d"
  by (auto simp: trimmed_def same_party_def)

section \<open>Every Begin is answered\<close>

text \<open>
  \<open>answerable\<close>: towards this peer an Abort can be encoded, and an End with Rejects alone.
  \<open>answering\<close>: what is sent goes to the peer, and a dialogue that was closed was closed by a message.
\<close>

definition answerable :: "('x, 'dp) dlg_codec \<Rightarrow> 'x addressing \<Rightarrow> bool" where
  "answerable dk back \<longleftrightarrow> (\<forall>a. \<exists>m. wrap_msu dk (MsgAbort a) back = Inr m) \<and>
     (\<forall>t dp rs. \<exists>m. wrap_msu dk (MsgEnd t dp (Some (map CpReject rs))) back = Inr m)"

definition addressed :: "'x addressing \<Rightarrow> msu \<Rightarrow> bool" where
  "addressed back m \<longleftrightarrow> msu_opc m = ax_opc back \<and> msu_dpc m = ax_dpc back \<and> msu_si m = SI_SCCP"

definition answering :: "'x addressing \<Rightarrow> 'x dialogue \<Rightarrow> bool" where
  "answering back d \<longleftrightarrow> dg_peer_tid d \<noteq> [] \<and> dg_addressing d = back \<and> list_all (addressed back) (dg_out d) \<and>
     (dg_closed d = None \<or> dg_out d \<noteq> [])"

lemma wrap_addressed: "wrap_msu dk msg back = Inr m \<Longrightarrow> addressed back m"
  by (auto simp: wrap_msu_def addressed_def split: option.splits)

lemma send_abort_answers:
  "answerable dk back \<Longrightarrow> send_abort dk a back \<noteq> [] \<and> list_all (addressed back) (send_abort dk a back)"
  unfolding answerable_def send_abort_def
  by (drule conjunct1, drule spec [of _ a]) (auto dest: wrap_addressed)

lemma abort_answers:
  assumes "answerable dk back" "answering back d"
  shows "answering back (fst (abort_as dk reason d))"
    "dg_closed d = None \<Longrightarrow> dg_out (fst (abort_as dk reason d)) \<noteq> []"
proof -
  define a where "a = u_abort (dg_peer_tid d) (if dg_ac d \<noteq> [] then Some (dk_abrt_user dk) else None)"
  obtain m where m: "wrap_msu dk (MsgAbort a) back = Inr m" using assms(1) unfolding answerable_def by blast
  show "answering back (fst (abort_as dk reason d))" "dg_closed d = None \<Longrightarrow> dg_out (fst (abort_as dk reason d)) \<noteq> []"
    using assms(2) m wrap_addressed [OF m] by (simp_all add: abort_as_def answering_def dialogue_emit_def Let_def a_def [symmetric])
qed

interpretation answers: dialogue_law "\<lambda>d. answerable dk ad \<longrightarrow> answering ad d" dk clock
  for dk :: "('x, 'dp) dlg_codec" and ad and clock
proof (unfold_locales, goal_cases)
  case (1 d op arg c t)
  then show ?case by (auto simp: invoke_with_def answering_def dest!: allocate_fields split: option.splits)
next
  case (5 d b)
  then show ?case
    by (auto simp: flush_def answering_def dialogue_emit_def dialogue_fail_def Let_def dest: wrap_addressed split: sum.splits)
next
  case (6 d)
  then show ?case using abort_answers(1) by blast
qed (auto simp: answering_def discard_staged_def set_idle_timeout_def)

lemma finish_begin_answers:
  assumes "answerable dk back" "answering back d"
  shows "snd (finish_turn dk clock d h ingress TurnOfBegin at e) \<noteq> [] \<and>
    list_all (addressed back) (snd (finish_turn dk clock d h ingress TurnOfBegin at e))"
proof -
  have "answering back (unanswered dk TurnOfBegin d)" "dg_out (unanswered dk TurnOfBegin d) \<noteq> []"
    using assms abort_answers [OF assms, of CrNoAnswer] by (auto simp: unanswered_def answering_def)
  then show ?thesis by (simp add: finish_turn_def Let_def answering_def)
qed

lemma decline_answers:
  assumes "answerable dk back" "answering back d" "dg_closed d = None" "dg_role d = Responder" "dg_pending d = []"
    "ending \<longrightarrow> dg_rejects d \<noteq> []"
  shows "decline dk clock ending d \<noteq> [] \<and> list_all (addressed back) (decline dk clock ending d)"
proof (cases ending)
  case False
  then show ?thesis using assms(3) abort_answers [OF assms(1,2), of CrAborted] by (simp add: decline_def answering_def)
next
  case True
  define dp where "dp = (if dg_aare_pending d then dk_aare dk (dg_ac d) else None)"
  have "flush_message dk True d = MsgEnd (dg_peer_tid d) dp (Some (map CpReject (dg_rejects d)))"
    using assms(4-6) True by (simp add: flush_message_def dp_def)
  moreover obtain m where "wrap_msu dk (MsgEnd (dg_peer_tid d) dp (Some (map CpReject (dg_rejects d)))) back = Inr m"
    using assms(1) unfolding answerable_def by blast
  ultimately show ?thesis using True assms(2-4) wrap_addressed
    by (fastforce simp: decline_def flush_def answering_def dialogue_emit_def)
qed

text \<open>A dialogue a Begin opened, before its handler is called.\<close>

definition newly_begun :: "tid \<Rightarrow> tid \<Rightarrow> 'x addressing \<Rightarrow> 'x dialogue \<Rightarrow> bool" where
  "newly_begun our_tid peer_tid back d \<longleftrightarrow> dg_our_tid d = our_tid \<and> dg_peer_tid d = peer_tid \<and> dg_addressing d = back \<and>
     dg_role d = Responder \<and> dg_closed d = None \<and> dg_pending d = [] \<and> dg_out d = [] \<and> operations_ok d"

lemma received_newly_begun:
  assumes "receive_all False cs rejected (dialogue_new Responder our_tid peer_tid ac 0 back ts) = (d, pcs)"
  shows "newly_begun our_tid peer_tid back (d\<lparr>dg_reply_invoke_id := i\<rparr>)" "newly_begun our_tid peer_tid back d"
proof -
  let ?d0 = "dialogue_new Responder our_tid peer_tid ac 0 back ts"
  have trim: "trimmed ?d0 d" using receive_all_trimmed [of ?d0 False cs rejected] assms by simp
  have "operations_ok ?d0" by (simp add: operations_ok_def operation_ids_def dialogue_new_def)
  from trimmed_operations [OF trim this] trim
  show "newly_begun our_tid peer_tid back d" "newly_begun our_tid peer_tid back (d\<lparr>dg_reply_invoke_id := i\<rparr>)"
    by (auto simp: newly_begun_def trimmed_def dialogue_new_def operations_ok_def operation_ids_def)
qed

text \<open>What becomes of a Begin: refused, declined, or given to a handler.\<close>

lemma begin_cases:
  obtains (refused) a where "engine_on_begin dk bh clock peer_tid dp comps rejected back u ingress e = (e, send_abort dk a back)"
  | (declined) d ending where "engine_on_begin dk bh clock peer_tid dp comps rejected back u ingress e =
        (fst (alloc_tid e), decline dk clock ending d)"
      "newly_begun (snd (alloc_tid e)) peer_tid back d" "ending \<longrightarrow> dg_rejects d \<noteq> []"
  | (served) d h op where "engine_on_begin dk bh clock peer_tid dp comps rejected back u ingress e =
        finish_turn dk clock (play dk clock (bh h (dg_our_tid d) (OnBegin op)) d) h ingress TurnOfBegin clock
          (logged (EvCall h (dg_our_tid d) (OnBegin op)) (fst (alloc_tid e)))"
      "newly_begun (snd (alloc_tid e)) peer_tid back d" "length (en_dialogues e) < ts_max_dialogues (en_config e)"
proof (cases "ts_max_dialogues (en_config e) \<le> length (en_dialogues e)")
  case True
  then show ?thesis by (intro refused) (simp add: engine_on_begin_def)
next
  case room: False
  show ?thesis
  proof (cases "offered_context dk peer_tid dp")
    case (Inl a)
    with room show ?thesis by (intro refused) (simp add: engine_on_begin_def)
  next
    case (Inr ac)
    define arcs where "arcs = (case ac of Some arcs \<Rightarrow> arcs | None \<Rightarrow> [])"
    define cs where "cs = (case comps of Some cs \<Rightarrow> cs | None \<Rightarrow> [])"
    define ssn where "ssn = (case ad_ssn (un_called u) of Some s \<Rightarrow> s | None \<Rightarrow> 0)"
    obtain e1 our_tid where alloc: "alloc_tid e = (e1, our_tid)" by (cases "alloc_tid e")
    obtain d pcs where recv: "receive_all False cs rejected (dialogue_new Responder our_tid peer_tid arcs 0 back (en_config e1)) = (d, pcs)"
      by (cases "receive_all False cs rejected (dialogue_new Responder our_tid peer_tid arcs 0 back (en_config e1))")
    note d = received_newly_begun [OF recv]
    note unfolded = engine_on_begin_def room Inr alloc arcs_def [symmetric] cs_def [symmetric] ssn_def [symmetric] Let_def recv
    show ?thesis
    proof (cases "position is_local_invoke pcs")
      case None
      then show ?thesis using d(2) by (intro declined [of "dg_rejects d \<noteq> []" d]) (simp_all add: unfolded)
    next
      case (Some k)
      then have "is_local_invoke (pcs ! k)" by (simp add: position_Some)
      then obtain i op arg where invoke: "pcs ! k = PcInvoke i op arg" by (cases "pcs ! k") (auto simp: is_local_invoke_def)
      show ?thesis
      proof (cases "handler_for ssn op e1")
        case None
        then show ?thesis using \<open>position is_local_invoke pcs = Some k\<close> invoke d(1) [of i]
          by (intro declined [of False "d\<lparr>dg_reply_invoke_id := i\<rparr>"]) (simp_all add: unfolded)
      next
        case (Some h)
        then show ?thesis using \<open>position is_local_invoke pcs = Some k\<close> invoke d(1) [of i] room
          by (intro served [where d = "d\<lparr>dg_reply_invoke_id := i\<rparr>" and h = h and
               op = "\<lparr>io_operation_code = op, io_invoke_id = i, io_argument = arg, io_application_context = ac, io_called_ssn = ssn,
                 io_calling_gt = gt_digits (ad_title (un_calling u)), io_called_gt = gt_digits (ad_title (un_called u)),
                 io_further = remove_nth k pcs\<rparr>"])
            (simp_all add: unfolded call_handler_def room [unfolded not_le])
      qed
    qed
  qed
qed

lemma begin_answers:
  assumes "answerable dk back" "peer_tid \<noteq> []"
  shows "snd (engine_on_begin dk bh clock peer_tid dp comps rejected back u ingress e) \<noteq> [] \<and>
    list_all (addressed back) (snd (engine_on_begin dk bh clock peer_tid dp comps rejected back u ingress e))"
proof -
  have ready: "answering back d" if "newly_begun our_tid peer_tid back d" for our_tid and d :: "'a dialogue"
    using that assms(2) by (simp add: newly_begun_def answering_def)
  show ?thesis
  proof (cases rule: begin_cases [of dk bh clock peer_tid dp comps rejected "back" u ingress e])
    case (refused a)
    then show ?thesis using send_abort_answers [OF assms(1)] by simp
  next
    case (declined d ending)
    then show ?thesis using decline_answers [OF assms(1) ready [OF declined(2)]] by (simp add: newly_begun_def)
  next
    case (served d h op)
    have "answering back (play dk clock t d)" for t using answers.law_play [of dk "back" d] assms(1) ready [OF served(2)] by blast
    then show ?thesis using finish_begin_answers [OF assms(1)] served(1) by simp
  qed
qed

section \<open>What the engine makes of a message\<close>

text \<open>The unitdata it reads, and the message understood of it, with the component that could not be read.\<close>

definition read_unitdata :: "('x, 'dp) dlg_codec \<Rightarrow> msu \<Rightarrow> ('x sccp_unit \<times> unitdata_form) option" where
  "read_unitdata dk m =
     (if msu_si m \<noteq> SI_SCCP then None
      else case cd_decode (dk_sccp dk) (msu_payload m) of
        None \<Rightarrow> None
      | Some u \<Rightarrow>
          if un_kind u = Udt then Some (u, FormUdt)
          else if un_kind u = Xudt \<and> \<not> is_segment (unit_view u) \<and> \<not> hop_counter_violated u then Some (u, FormXudt)
          else None)"

definition understood :: "('x, 'dp) dlg_codec \<Rightarrow> bytes \<Rightarrow> ('dp tcap_pdu \<times> rejected option) option" where
  "understood dk data =
     (case dk_detailed dk data of
        DecodedComplete msg \<Rightarrow> Some (msg, None)
      | DecodedProblem p \<Rightarrow>
          (case pb_fault p of
             FaultComponent i general \<Rightarrow>
               map_option (\<lambda>part. (part, Some \<lparr>rd_invoke_id = i, rd_problem = GeneralProblem general, rd_reject = pb_reject p\<rparr>)) (pb_partial p)
           | _ \<Rightarrow> None))"

lemma deliver_understood:
  assumes "read_unitdata dk m = Some (u, form)" "understood dk (un_data u) = Some (msg, rejected)"
  shows "deliver dk bh clock m ingress e = engine_on_message dk bh clock msg rejected (addressing_reverse u m form) u ingress e"
proof -
  have "un_kind u = Udt \<and> form = FormUdt \<or>
      un_kind u = Xudt \<and> \<not> is_segment (unit_view u) \<and> \<not> hop_counter_violated u \<and> form = FormXudt"
    and "msu_si m = SI_SCCP" "cd_decode (dk_sccp dk) (msu_payload m) = Some u"
    using assms(1) by (auto simp: read_unitdata_def split: if_splits option.splits)
  then show ?thesis using assms(2)
    by (auto simp: deliver_def understood_def engine_on_problem_def split: decoded.splits fault.splits)
qed


text \<open>An engine without handlers, over codecs that read every payload as one Begin.\<close>

definition sample_dlg_codec :: "'dp tcap_pdu \<Rightarrow> 'dp \<Rightarrow> (unit, 'dp) dlg_codec" where
  "sample_dlg_codec msg dp =
     \<lparr>dk_sccp = sample_codecs\<lparr>cd_decode := (\<lambda>_. Some (sample_unit Udt 0)), cd_encode := (\<lambda>_. Some [])\<rparr>,
      dk_detailed = (\<lambda>_. DecodedComplete msg), dk_decode = (\<lambda>_. Some msg), dk_encode = (\<lambda>_. Some []), dk_pdu = (\<lambda>_. Some None),
      dk_aarq = (\<lambda>_. Some dp), dk_aare = (\<lambda>_. Some dp), dk_abrt_user = dp, dk_abnormal_dialogue = dp, dk_no_common = (\<lambda>_. dp),
      dk_resource_limitation = 4, dk_unrecognized_tid = 1\<rparr>"

definition sample_terminating :: msu where
  "sample_terminating = \<lparr>msu_opc = 2, msu_dpc = 1, msu_si = 3, msu_ni = 2, msu_mp = 0, msu_sls = 0, msu_payload = []\<rparr>"

lemma sample_reads:
  "read_unitdata (sample_dlg_codec msg dp) sample_terminating = Some (sample_unit Udt 0, FormUdt)"
  "understood (sample_dlg_codec msg dp) data = Some (msg, None)"
  "answerable (sample_dlg_codec msg dp) back"
  by (simp_all add: read_unitdata_def understood_def answerable_def wrap_msu_def sample_dlg_codec_def sample_terminating_def SI_SCCP_def sample_unit_def)


end
