(* ===== verification/Dialogue_Life.thy ===== *)
theory Dialogue_Life
  imports Dialogue_Correct
begin

unbundle bit_operations_syntax

text \<open>
  The life of a dialogue as its handler sees it. The log of the engine, read for one transaction
  identifier, is the run of a small automaton: opened once, called while it is open by the handler that
  was given it, told once that it ended. Every history of the engine follows it, whatever the handlers
  do and whatever arrives, as long as the counter of identifiers has not come round (\<open>2 ^ 31\<close> dialogues).
\<close>

section \<open>The automaton\<close>

datatype life = Unborn | Alive nat | Over | Amiss

fun live :: "tid \<Rightarrow> dialogue_event \<Rightarrow> life \<Rightarrow> life" where
  "live t (EvCall h t' c) s =
     (if t' \<noteq> t then s
      else case (s, c) of
        (Unborn, OnBegin _) \<Rightarrow> Alive h
      | (Unborn, OnStart) \<Rightarrow> Alive h
      | (Alive h', OnContinue _) \<Rightarrow> if h' = h then s else Amiss
      | (Alive h', OnInvokeTimeout _) \<Rightarrow> if h' = h then s else Amiss
      | _ \<Rightarrow> Amiss)"
| "live t (EvTold h c) s = (if dc_otid c \<noteq> t then s else if s = Alive h then Over else Amiss)"
| "live t _ s = s"

definition life_of :: "tid \<Rightarrow> dialogue_event list \<Rightarrow> life" where
  "life_of t log = fold (live t) log Unborn"

lemma life_of_snoc [simp]: "life_of t (log @ [ev]) = live t ev (life_of t log)"
  by (simp add: life_of_def)

lemma life_of_Nil [simp]: "life_of t [] = Unborn"
  by (simp add: life_of_def)

text \<open>How often a handler was given the dialogue, and told of its end.\<close>

fun opens :: "tid \<Rightarrow> dialogue_event \<Rightarrow> bool" where
  "opens t (EvCall _ t' c) = (t' = t \<and> (case c of OnBegin _ \<Rightarrow> True | OnStart \<Rightarrow> True | _ \<Rightarrow> False))"
| "opens t _ = False"

fun tells :: "tid \<Rightarrow> dialogue_event \<Rightarrow> bool" where
  "tells t (EvTold _ c) = (dc_otid c = t)"
| "tells t _ = False"

definition tally :: "(dialogue_event \<Rightarrow> bool) \<Rightarrow> dialogue_event list \<Rightarrow> nat" where
  "tally p log = length (filter p log)"

lemma life_counts:
  "life_of t log \<noteq> Amiss \<Longrightarrow>
   tally (opens t) log = (case life_of t log of Unborn \<Rightarrow> 0 | _ \<Rightarrow> 1) \<and>
   tally (tells t) log = (case life_of t log of Over \<Rightarrow> 1 | _ \<Rightarrow> 0)"
proof (induction log rule: rev_induct)
  case (snoc ev log)
  then have "life_of t log \<noteq> Amiss" by (cases ev) (auto split: callback.splits if_splits)
  with snoc show ?case
    by (cases ev) (auto simp: tally_def split: life.splits callback.splits if_splits)
qed (simp add: tally_def)

section \<open>Transaction identifiers\<close>

definition issued :: "'x engine \<Rightarrow> tid set" where
  "issued e = {be_bytes (w OR 0x80000000) | w. 0 < w \<and> w \<le> en_tid_counter e}"

lemma be_bytes_inj: "be_bytes v = be_bytes w \<Longrightarrow> v = w"
proof -
  assume eq: "be_bytes v = be_bytes w"
  have bits: "bit (ucast (drop_bit k x) :: u8) n = bit x (k + n)" if "n < 8" for k n and x :: u32
    using that by (simp add: bit_ucast_iff bit_drop_bit_eq)
  have "bit v n = bit w n" if "n < 32" for n
  proof -
    define k where "k = 8 * (n div 8)"
    have "k \<in> {0, 8, 16, 24}" using that unfolding k_def by auto
    then have "(ucast (drop_bit k v) :: u8) = ucast (drop_bit k w)" using eq by (auto simp: be_bytes_def)
    moreover have "n mod 8 < 8" "k + n mod 8 = n" by (simp_all add: k_def)
    ultimately show ?thesis using bits by metis
  qed
  then show "v = w" by (intro bit_word_eqI) simp
qed

lemma high_bit: "bit (0x80000000 :: u32) n = (n = 31)"
proof -
  have "(0x80000000 :: u32) = 2 ^ 31" by simp
  then show ?thesis by (simp only: bit_exp_iff) auto
qed

lemma high_bit_inj:
  fixes v w :: u32
  assumes "v OR 0x80000000 = w OR 0x80000000" "v < 0x80000000" "w < 0x80000000"
  shows "v = w"
proof (rule bit_word_eqI)
  have top: "\<not> bit x 31" if "x < 0x80000000" for x :: u32
  proof
    assume "bit x 31"
    then have "x AND 0x80000000 = 0x80000000" by (intro bit_word_eqI) (metis bit_and_iff high_bit)
    then show False using that word_and_le1 [of x "0x80000000"] by (metis word_and_le2 linorder_not_le)
  qed
  fix n assume "n < LENGTH(32)"
  have "bit (v OR 0x80000000) n = bit (w OR 0x80000000) n" using assms(1) by simp
  then show "bit v n = bit w n" using top [OF assms(2)] top [OF assms(3)] by (metis bit_or_iff high_bit)
qed

section \<open>The invariant\<close>

text \<open>
  \<open>engine_ok out e\<close>: the table agrees with the log, \<open>out\<close> being the dialogue that was taken out of it for a
  turn of its handler, with that handler and the role.
\<close>

type_synonym taken = "(tid \<times> nat \<times> dialogue_role) option"

definition record_ok :: "tid \<Rightarrow> 'x drecord \<Rightarrow> bool" where
  "record_ok t rec \<longleftrightarrow> dg_our_tid (dr_dialogue rec) = t \<and> dg_closed (dr_dialogue rec) = None \<and> operations_ok (dr_dialogue rec)"

definition expected_life :: "taken \<Rightarrow> 'x engine \<Rightarrow> tid \<Rightarrow> life \<Rightarrow> bool" where
  "expected_life out e t s =
     (case bt_get t (en_dialogues e) of
        Some rec \<Rightarrow> s = Alive (dr_handler rec) \<and> map_option fst out \<noteq> Some t
      | None \<Rightarrow> (case out of Some (t', h, _) \<Rightarrow> if t' = t then s = Alive h else s = Unborn \<or> s = Over | None \<Rightarrow> s = Unborn \<or> s = Over))"

definition responders :: "'x engine \<Rightarrow> nat" where
  "responders e = length (filter (\<lambda>(_, rec). dg_role (dr_dialogue rec) = Responder) (en_dialogues e))"

definition engine_ok :: "taken \<Rightarrow> 'x engine \<Rightarrow> bool" where
  "engine_ok out e \<longleftrightarrow> bt_ok (en_dialogues e) \<and> (\<forall>t rec. bt_get t (en_dialogues e) = Some rec \<longrightarrow> record_ok t rec) \<and>
     (\<forall>t. expected_life out e t (life_of t (en_log e))) \<and> (\<forall>t. life_of t (en_log e) \<noteq> Unborn \<longrightarrow> t \<in> issued e) \<and>
     tally ((=) EvOpened) (en_log e) = tally ((=) EvReleased) (en_log e) + length (en_dialogues e) \<and>
     responders e + (case out of Some (_, _, Responder) \<Rightarrow> 1 | _ \<Rightarrow> 0) \<le> ts_max_dialogues (en_config e)"

lemma tally_snoc [simp]: "tally p (log @ [ev]) = tally p log + (if p ev then 1 else 0)"
  by (simp add: tally_def)

lemma logged_simps [simp]:
  "en_dialogues (logged ev e) = en_dialogues e" "en_log (logged ev e) = en_log e @ [ev]"
  "en_config (logged ev e) = en_config e" "en_tid_counter (logged ev e) = en_tid_counter e"
  by (simp_all add: logged_def)

lemma engine_frame [simp]:
  "issued (logged ev e) = issued e" "responders (logged ev e) = responders e"
  "expected_life out (logged ev e) t s = expected_life out e t s"
  by (simp_all add: issued_def responders_def expected_life_def)

lemma bt_remove_length:
  assumes "bt_ok m" "bt_get k m = Some v"
  shows "length (filter p m) = length (filter p (bt_remove k m)) + (if p (k, v) then 1 else 0)"
proof -
  have "distinct (map fst m)" "(k, v) \<in> set m" using bt_ok_distinct [OF assms(1)] assms(2) bt_get_in [OF assms(1)] by simp_all
  then show ?thesis
  proof (induction m)
    case (Cons kv m)
    show ?case
    proof (cases "kv = (k, v)")
      case True
      then have "bt_remove k m = m" using Cons.prems(1) by (auto simp: bt_remove_def filter_id_conv)
      then show ?thesis using True by (simp add: bt_remove_def)
    next
      case False
      then have "fst kv \<noteq> k" using Cons.prems by (auto simp: image_iff)
      then show ?thesis using False Cons by (simp add: bt_remove_def)
    qed
  qed simp
qed

lemma bt_insert_length:
  assumes "bt_get k m = None"
  shows "length (filter p (bt_insert k v m)) = length (filter p m) + (if p (k, v) then 1 else 0)"
  using assms
proof (induction m)
  case (Cons kv m)
  obtain k' v' where kv: "kv = (k', v')" by (cases kv)
  then have "k \<noteq> k'" "bt_get k m = None" using Cons.prems by (auto simp: bt_get_def split: if_splits)
  then show ?case using Cons.IH kv by simp
qed simp

lemma neutral_ok:
  assumes "engine_ok out e" "ev \<in> {EvDiscard x, EvNotUnitdata, EvHopLoop}"
  shows "engine_ok out (logged ev e)"
  using assms by (auto simp: engine_ok_def)

lemma take_ok:
  assumes ok: "engine_ok None e" and get: "bt_get t (en_dialogues e) = Some rec"
  shows "engine_ok (Some (t, dr_handler rec, dg_role (dr_dialogue rec)))
      (logged EvReleased (e\<lparr>en_dialogues := bt_remove t (en_dialogues e)\<rparr>))"
    "record_ok t rec"
proof -
  show "record_ok t rec" using assms by (simp add: engine_ok_def)
  have bt: "bt_ok (en_dialogues e)" using ok by (simp add: engine_ok_def)
  let ?e = "e\<lparr>en_dialogues := bt_remove t (en_dialogues e)\<rparr>"
  have "responders e = responders ?e + (if dg_role (dr_dialogue rec) = Responder then 1 else 0)"
    using bt_remove_length [OF bt get, of "\<lambda>(_, rec). dg_role (dr_dialogue rec) = Responder"] by (simp add: responders_def)
  moreover have "length (en_dialogues e) = Suc (length (bt_remove t (en_dialogues e)))"
    using bt_remove_length [OF bt get, of "\<lambda>_. True"] by simp
  moreover have "expected_life (Some (t, dr_handler rec, dg_role (dr_dialogue rec))) ?e t' s" if "expected_life None e t' s" for t' s
    using that get by (auto simp: expected_life_def split: option.splits)
  moreover have "issued ?e = issued e" by (simp add: issued_def)
  ultimately show "engine_ok (Some (t, dr_handler rec, dg_role (dr_dialogue rec))) (logged EvReleased ?e)"
    using ok by (auto simp: engine_ok_def split: dialogue_role.splits if_splits)
qed

lemma turn_ok:
  assumes "engine_ok (Some (t, h, r)) e" "c \<noteq> OnStart" "\<And>op. c \<noteq> OnBegin op"
  shows "engine_ok (Some (t, h, r)) (logged (EvCall h t c) e)"
proof -
  have "bt_get t (en_dialogues e) = None"
    using assms(1) by (auto simp: engine_ok_def expected_life_def split: option.splits)
  then have alive: "life_of t (en_log e) = Alive h"
    using assms(1) by (auto simp: engine_ok_def expected_life_def split: option.splits dest: spec [of _ t])
  then have "live t' (EvCall h t c) (life_of t' (en_log e)) = life_of t' (en_log e)" for t'
    using assms(2,3) by (cases c) auto
  then show ?thesis using assms(1) by (simp add: engine_ok_def del: live.simps)
qed

lemma told_ok:
  assumes "engine_ok (Some (t, h, r)) e" "dg_our_tid d = t"
  shows "engine_ok None (tell_closed h reason d e)"
proof -
  have none: "bt_get t (en_dialogues e) = None"
    using assms(1) by (auto simp: engine_ok_def expected_life_def split: option.splits)
  then have alive: "life_of t (en_log e) = Alive h"
    using assms(1) by (auto simp: engine_ok_def expected_life_def split: option.splits dest: spec [of _ t])
  have "expected_life None e t' (live t' (EvTold h (closed_event reason d)) (life_of t' (en_log e)))" for t'
  proof (cases "t' = t")
    case True
    then show ?thesis using none alive assms(2) by (simp add: expected_life_def closed_event_def)
  next
    case False
    have "expected_life (Some (t, h, r)) e t' (life_of t' (en_log e))" using assms(1) by (simp add: engine_ok_def)
    then show ?thesis using False assms(2) by (simp add: expected_life_def closed_event_def split: option.splits)
  qed
  moreover have "live t' (EvTold h (closed_event reason d)) (life_of t' (en_log e)) \<noteq> Unborn \<Longrightarrow> life_of t' (en_log e) \<noteq> Unborn" for t'
    using assms(2) alive by (auto simp: closed_event_def split: if_splits)
  ultimately show ?thesis using assms(1)
    by (auto simp: engine_ok_def tell_closed_def simp del: live.simps split: dialogue_role.splits)
qed

lemma store_ok:
  assumes "engine_ok (Some (dg_our_tid d, h, dg_role d)) e" "dg_closed d = None" "operations_ok d"
  shows "engine_ok None (store_dialogue d h ingress at e)"
proof -
  let ?t = "dg_our_tid d"
  let ?e = "e\<lparr>en_dialogues := bt_insert ?t \<lparr>dr_handler = h, dr_dialogue = d, dr_ingress = ingress, dr_last_activity = at,
    dr_claimed = False\<rparr> (en_dialogues e)\<rparr>"
  have none: "bt_get ?t (en_dialogues e) = None"
    using assms(1) by (auto simp: engine_ok_def expected_life_def split: option.splits)
  then have "expected_life None ?e t' s" if "expected_life (Some (?t, h, dg_role d)) e t' s" for t' s
    using that by (auto simp: expected_life_def split: option.splits if_splits)
  moreover have "responders ?e = responders e + (if dg_role d = Responder then 1 else 0)"
    using bt_insert_length [OF none] by (simp add: responders_def)
  moreover have "length (en_dialogues ?e) = Suc (length (en_dialogues e))"
    using bt_insert_length [OF none, where p = "\<lambda>_. True"] by simp
  moreover have "issued ?e = issued e" by (simp add: issued_def)
  moreover have "store_dialogue d h ingress at e = logged EvOpened ?e" by (simp add: store_dialogue_def)
  ultimately show ?thesis using assms
    by (auto simp: engine_ok_def record_ok_def split: dialogue_role.splits if_splits)
qed

section \<open>A new identifier\<close>

text \<open>The identifiers that were not given yet: the counter has not come round.\<close>

definition tids_left :: "'x engine \<Rightarrow> bool" where
  "tids_left e \<longleftrightarrow> en_tid_counter e < 0x7FFFFFFF"

lemma counter_Suc:
  assumes "c < (0x7FFFFFFF :: u32)"
  shows "c < c + 1" "c + 1 < 0x80000000"
proof -
  have small: "unat c < 0x7FFFFFFF" using assms by (simp add: word_less_nat_alt)
  then have "unat (c + 1) = unat c + 1" by (simp add: unat_word_ariths)
  then show "c < c + 1" "c + 1 < 0x80000000" using small by (simp_all add: word_less_nat_alt)
qed

lemma alloc_fresh:
  assumes "engine_ok None e" "tids_left e"
  shows "snd (alloc_tid e) \<notin> issued e" "snd (alloc_tid e) \<in> issued (fst (alloc_tid e))" "issued e \<subseteq> issued (fst (alloc_tid e))"
    "life_of (snd (alloc_tid e)) (en_log e) = Unborn" "bt_get (snd (alloc_tid e)) (en_dialogues e) = None"
    "engine_ok None (fst (alloc_tid e))"
proof -
  let ?c = "en_tid_counter e"
  have less: "?c < ?c + 1" "?c + 1 < 0x80000000" using counter_Suc assms(2) by (simp_all add: tids_left_def)
  show fresh: "snd (alloc_tid e) \<notin> issued e"
  proof
    assume "snd (alloc_tid e) \<in> issued e"
    then obtain w where w: "w \<le> ?c" "be_bytes ((?c + 1) OR 0x80000000) = be_bytes (w OR 0x80000000)"
      by (auto simp: issued_def alloc_tid_def Let_def)
    then have "w < 0x80000000" using less by simp
    then have "w = ?c + 1" using high_bit_inj [OF be_bytes_inj [OF w(2)] less(2)] by simp
    then show False using w(1) less(1) by simp
  qed
  have "0 < ?c + 1" using less(1) by (metis word_coorder.not_eq_extremum word_coorder.extremum_strict)
  then show new: "snd (alloc_tid e) \<in> issued (fst (alloc_tid e))" "issued e \<subseteq> issued (fst (alloc_tid e))"
    using less(1) by (auto simp: issued_def alloc_tid_def Let_def)
  show unborn: "life_of (snd (alloc_tid e)) (en_log e) = Unborn" using assms(1) fresh by (auto simp: engine_ok_def)
  then show "bt_get (snd (alloc_tid e)) (en_dialogues e) = None"
    using assms(1) by (auto simp: engine_ok_def expected_life_def split: option.splits dest: spec [of _ "snd (alloc_tid e)"])
  have "responders (fst (alloc_tid e)) = responders e" "expected_life out (fst (alloc_tid e)) t s = expected_life out e t s" for out t s
    by (simp_all add: alloc_tid_def Let_def responders_def expected_life_def)
  then show "engine_ok None (fst (alloc_tid e))" using assms(1) new(2) by (auto simp: engine_ok_def alloc_tid_def Let_def)
qed

lemma responders_le: "responders e \<le> length (en_dialogues e)"
  by (simp add: responders_def)

lemma alloc_simps [simp]:
  "en_dialogues (fst (alloc_tid e)) = en_dialogues e" "en_config (fst (alloc_tid e)) = en_config e"
  "en_log (fst (alloc_tid e)) = en_log e"
  by (simp_all add: alloc_tid_def Let_def)

lemma open_ok:
  assumes "engine_ok None e" "tids_left e" "c = OnStart \<or> (\<exists>op. c = OnBegin op)"
    "r = Initiator \<or> length (en_dialogues e) < ts_max_dialogues (en_config e)"
  shows "engine_ok (Some (snd (alloc_tid e), h, r)) (logged (EvCall h (snd (alloc_tid e)) c) (fst (alloc_tid e)))"
proof -
  let ?t = "snd (alloc_tid e)" and ?e = "fst (alloc_tid e)"
  note fresh = alloc_fresh [OF assms(1,2)]
  have born: "live t' (EvCall h ?t c) (life_of t' (en_log e)) = (if t' = ?t then Alive h else life_of t' (en_log e))" for t'
    using assms(3) fresh(4) by auto
  have "expected_life (Some (?t, h, r)) ?e t' (if t' = ?t then Alive h else life_of t' (en_log e))" for t'
  proof -
    have "expected_life None ?e t' (life_of t' (en_log e))" using fresh(6) by (simp add: engine_ok_def)
    then show ?thesis using fresh(5) by (auto simp: expected_life_def split: option.splits)
  qed
  moreover have "responders ?e + (case r of Responder \<Rightarrow> 1 | Initiator \<Rightarrow> 0) \<le> ts_max_dialogues (en_config e)"
    using assms(4) responders_le [of ?e] fresh(6) by (auto simp: engine_ok_def split: dialogue_role.splits)
  ultimately show ?thesis using fresh(2,6) by (auto simp: engine_ok_def born simp del: live.simps split: dialogue_role.splits)
qed

section \<open>Every operation keeps it\<close>

lemma same_party_play: "same_party d (play dk clock t d)"
  by (rule party.law_play) (simp add: same_party_def)

lemma abort_party: "dg_our_tid (fst (abort_as dk r d)) = dg_our_tid d" "dg_role (fst (abort_as dk r d)) = dg_role d"
  by (simp_all add: abort_as_def dialogue_emit_def dialogue_fail_def Let_def split: sum.splits)

lemma abort_operations: "operations_ok d \<Longrightarrow> operations_ok (fst (abort_as dk r d))"
  by (auto simp: abort_as_def dialogue_emit_def dialogue_fail_def Let_def operations_ok_def operation_ids_def split: sum.splits)

lemma finish_ok:
  assumes "engine_ok (Some (dg_our_tid d, h, dg_role d)) e" "operations_ok d"
  shows "engine_ok None (fst (finish_turn dk clock d h ingress kind at e))"
proof -
  define d' where "d' = (unanswered dk kind d)\<lparr>dg_send_error := None, dg_out := []\<rparr>"
  have d': "dg_our_tid d' = dg_our_tid d" "dg_role d' = dg_role d"
    by (simp_all add: d'_def unanswered_def abort_party)
  have "operations_ok (unanswered dk kind d)" using abort_operations [OF assms(2), of dk CrNoAnswer] assms(2) by (simp add: unanswered_def)
  then have ops: "operations_ok d'" by (simp add: d'_def operations_ok_def operation_ids_def)
  have "\<exists>at'. fst (finish_turn dk clock d h ingress kind at e) =
      (case dg_closed d' of Some reason \<Rightarrow> tell_closed h reason d' e | None \<Rightarrow> store_dialogue d' h ingress at' e)"
    by (auto simp: finish_turn_def Let_def d'_def split: option.splits)
  then obtain at' where fin: "fst (finish_turn dk clock d h ingress kind at e) =
      (case dg_closed d' of Some reason \<Rightarrow> tell_closed h reason d' e | None \<Rightarrow> store_dialogue d' h ingress at' e)" by blast
  show ?thesis
    using told_ok [OF assms(1) d'(1)] store_ok [of d' h e ingress at'] assms(1) d' ops by (cases "dg_closed d'") (simp_all add: fin)
qed

lemma play_finish_ok:
  assumes "engine_ok (Some (dg_our_tid d, h, dg_role d)) e" "operations_ok d"
  shows "engine_ok None (fst (finish_turn dk clock (play dk clock t d) h ingress kind at e))"
  using finish_ok [OF _ operations.law_play [OF assms(2), of dk clock t], of h e dk clock ingress kind at] assms(1)
    same_party_play [of d dk clock t] by (simp add: same_party_def)


lemma begin_ok:
  assumes "engine_ok None e" "tids_left e"
  shows "engine_ok None (fst (engine_on_begin dk bh clock peer_tid dp comps rejected back u ingress e))"
proof (cases rule: begin_cases [of dk bh clock peer_tid dp comps rejected "back" u ingress e])
  case (refused a)
  then show ?thesis using assms(1) by simp
next
  case (declined d ending)
  then show ?thesis using alloc_fresh(6) [OF assms] by simp
next
  case (served d h op)
  have "dg_our_tid d = snd (alloc_tid e)" "dg_role d = Responder" "operations_ok d"
    using served(2) by (simp_all add: newly_begun_def)
  then show ?thesis using open_ok [OF assms, of "OnBegin op" Responder h] served(3)
      play_finish_ok [of d h "logged (EvCall h (dg_our_tid d) (OnBegin op)) (fst (alloc_tid e))" dk clock]
    by (simp add: served(1))
qed

lemma on_turn_ok:
  assumes "engine_ok None e"
  shows "engine_ok None (fst (engine_on_turn dk bh clock t peer_otid comps rejected is_end back e))"
proof (cases "bt_get t (en_dialogues e)")
  case None
  then show ?thesis using assms neutral_ok [OF assms, of "EvDiscard UnknownTransaction" UnknownTransaction]
    by (auto simp: engine_on_turn_def take_dialogue_def split: option.splits)
next
  case (Some rec)
  define e1 where "e1 = logged EvReleased (e\<lparr>en_dialogues := bt_remove t (en_dialogues e)\<rparr>)"
  define d0 where "d0 = (case peer_otid of Some otid \<Rightarrow> if dg_peer_tid (dr_dialogue rec) = [] then (dr_dialogue rec)\<lparr>dg_peer_tid := otid\<rparr>
    else dr_dialogue rec | None \<Rightarrow> dr_dialogue rec)"
  obtain d pcs where recv: "receive_all is_end comps rejected d0 = (d, pcs)" by (cases "receive_all is_end comps rejected d0")
  note took = take_ok [OF assms Some, folded e1_def]
  have d0: "dg_our_tid d0 = t" "dg_role d0 = dg_role (dr_dialogue rec)" "operations_ok d0"
    using took(2) by (auto simp: d0_def record_ok_def operations_ok_def operation_ids_def split: option.splits)
  have trim: "trimmed d0 d" using receive_all_trimmed [of d0 is_end comps rejected] recv by simp
  then have d: "dg_our_tid d = t" "dg_role d = dg_role (dr_dialogue rec)" "operations_ok d"
    using d0 trimmed_operations by (auto simp: trimmed_def)
  define c where "c = OnContinue \<lparr>pt_is_end = is_end, pt_components = pcs\<rparr>"
  have called: "engine_ok (Some (t, dr_handler rec, dg_role d)) (logged (EvCall (dr_handler rec) t c) e1)"
    using turn_ok [OF took(1), of c] d(2) by (simp add: c_def)
  show ?thesis
  proof (cases is_end)
    case True
    define d' where "d' = d\<lparr>dg_outstanding := [], dg_rejects := [], dg_closed := Some CrPeerEnded\<rparr>"
    have "dg_our_tid (play dk clock tr d') = t" for tr using same_party_play [of d' dk clock tr] d(1) by (simp add: same_party_def d'_def)
    then show ?thesis using told_ok [OF called, of "play dk clock (bh (dr_handler rec) t c) d'" CrPeerEnded] True Some d(1) recv
      by (simp add: engine_on_turn_def take_dialogue_def e1_def [symmetric] d0_def [symmetric] Let_def call_handler_def c_def d'_def)
  next
    case False
    then show ?thesis using play_finish_ok [of d "dr_handler rec" "logged (EvCall (dr_handler rec) t c) e1" dk clock] called Some d recv
      by (simp add: engine_on_turn_def take_dialogue_def e1_def [symmetric] d0_def [symmetric] Let_def call_handler_def c_def)
  qed
qed

lemma release_ok:
  assumes "engine_ok None e" "take_dialogue t e = Some (e', rec)"
  shows "engine_ok None (tell_closed (dr_handler rec) reason (dr_dialogue rec) e')"
proof -
  have get: "bt_get t (en_dialogues e) = Some rec" "e' = logged EvReleased (e\<lparr>en_dialogues := bt_remove t (en_dialogues e)\<rparr>)"
    using assms(2) by (auto simp: take_dialogue_def)
  have "dg_our_tid (dr_dialogue rec) = t" using take_ok(2) [OF assms(1) get(1)] by (simp add: record_ok_def)
  from told_ok [OF take_ok(1) [OF assms(1) get(1)] this] show ?thesis by (simp add: get(2))
qed

lemma on_message_ok:
  assumes "engine_ok None e" "tids_left e"
  shows "engine_ok None (fst (engine_on_message dk bh clock msg rejected back u ingress e))"
proof (cases msg)
  case (MsgAbort a)
  then show ?thesis using neutral_ok [OF assms(1), of "EvDiscard UnknownTransaction" UnknownTransaction] release_ok [OF assms(1)]
    by (auto simp: engine_on_message_def engine_on_abort_def split: option.splits)
qed (simp_all add: engine_on_message_def begin_ok [OF assms] on_turn_ok [OF assms(1)] assms(1))

lemma deliver_ok:
  assumes "engine_ok None e" "tids_left e"
  shows "engine_ok None (fst (deliver dk bh clock m ingress e))"
proof -
  note neutral = neutral_ok [OF assms(1), of "EvDiscard Undecodable" Undecodable] neutral_ok [OF assms(1), of EvNotUnitdata]
    neutral_ok [OF assms(1), of EvHopLoop]
  have "engine_ok None (fst (engine_on_problem dk bh clock p back u ingress e))" for p "back" u
  proof (cases "pb_fault p")
    case (FaultComponent i g)
    then show ?thesis using on_message_ok [OF assms, of dk] neutral by (simp add: engine_on_problem_def split: option.splits)
  next
    case FaultDialogue
    then show ?thesis using neutral release_ok [OF assms(1)] release_ok [OF neutral(1)] assms(1)
      by (auto simp: engine_on_problem_def bind_eq_Some_conv bind_eq_None_conv split: option.splits)
  next
    case (FaultTransaction cause)
    then show ?thesis using neutral release_ok [OF assms(1)] release_ok [OF neutral(1)] assms(1)
      by (auto simp: engine_on_problem_def bind_eq_Some_conv bind_eq_None_conv split: option.splits)
  qed
  then show ?thesis using on_message_ok [OF assms, of dk] neutral
    by (simp add: deliver_def Let_def split: option.splits decoded.splits)
qed


lemma dialogue_new_tid [simp]: "dg_our_tid (dialogue_new role t peer ac i a ts) = t"
  by (simp add: dialogue_new_def)

lemma originate_ok:
  assumes "engine_ok None e" "tids_left e"
  shows "engine_ok None (fst (engine_begin dk bh clock req h e))"
proof -
  let ?t = "snd (alloc_tid e)" and ?e = "logged (EvCall h (snd (alloc_tid e)) OnStart) (fst (alloc_tid e))"
  define a where "a = \<lparr>ax_called = ob_called req, ax_calling = ob_calling req, ax_opc = ob_opc req, ax_dpc = ob_dpc req,
              ax_ni = ob_ni req, ax_sls = ob_sls req, ax_form = FormUdt\<rparr>"
  define d where "d = dialogue_new Initiator ?t [] (ob_application_context req) 0 a (en_config e)"
  define d' where "d' = (play dk clock (bh h ?t OnStart) d)\<lparr>dg_out := []\<rparr>"
  have "operations_ok d" by (simp add: d_def dialogue_new_def operations_ok_def operation_ids_def)
  from operations.law_play [OF this, of dk clock "bh h ?t OnStart"] have ops: "operations_ok d'"
    by (simp add: d'_def operations_ok_def operation_ids_def)
  have party: "dg_our_tid d' = ?t" "dg_role d' = Initiator"
    using same_party_play [of d dk clock "bh h ?t OnStart"] by (simp_all add: same_party_def d'_def d_def dialogue_new_def)
  have opened: "engine_ok (Some (?t, h, Initiator)) ?e" by (rule open_ok [OF assms]) simp_all
  have run: "engine_begin dk bh clock req h e =
     (let frames = dg_out (play dk clock (bh h ?t OnStart) d);
          error = (case dg_send_error d' of Some x \<Rightarrow> x | None \<Rightarrow> DeNothingSent)
      in case dg_closed d' of
           Some reason \<Rightarrow> (tell_closed h reason d' ?e, Inl error)
         | None \<Rightarrow> if frames = [] then (tell_closed h CrNotSent (d'\<lparr>dg_send_error := None\<rparr>) ?e, Inl error)
             else (store_dialogue d' h (ob_ingress req) clock ?e, Inr (?t, frames)))"
    unfolding engine_begin_def case_prod_beta Let_def call_handler_def d'_def d_def a_def by (simp cong: option.case_cong if_cong)
  show ?thesis
  proof (cases "dg_closed d'")
    case None
    have "engine_ok None (tell_closed h CrNotSent (d'\<lparr>dg_send_error := None\<rparr>) ?e)"
      "engine_ok None (store_dialogue d' h (ob_ingress req) clock ?e)"
      using told_ok [OF opened] store_ok [of d' h ?e] opened party ops None by simp_all
    then show ?thesis by (simp add: run None Let_def)
  next
    case (Some reason)
    then show ?thesis using told_ok [OF opened party(1)] by (simp add: run)
  qed
qed

lemma claims_ok:
  assumes "engine_ok None e" "\<And>k rec. \<exists>b. f k rec = rec\<lparr>dr_claimed := b\<rparr>"
  shows "engine_ok None (e\<lparr>en_dialogues := bt_map f (en_dialogues e)\<rparr>)"
proof -
  have f: "dr_dialogue (f k rec) = dr_dialogue rec" "dr_handler (f k rec) = dr_handler rec" for k rec
    using assms(2) [of k rec] by auto
  have "responders (e\<lparr>en_dialogues := bt_map f (en_dialogues e)\<rparr>) = responders e"
    by (simp add: responders_def bt_map_def filter_map comp_def case_prod_beta' f)
  moreover have "expected_life None (e\<lparr>en_dialogues := bt_map f (en_dialogues e)\<rparr>) t s = expected_life None e t s" for t s
    by (simp add: expected_life_def f split: option.split)
  moreover have "issued (e\<lparr>en_dialogues := bt_map f (en_dialogues e)\<rparr>) = issued e" by (simp add: issued_def)
  moreover have "length (bt_map f (en_dialogues e)) = length (en_dialogues e)" by (simp add: bt_map_def)
  ultimately show ?thesis using assms(1) by (auto simp: engine_ok_def record_ok_def f)
qed

lemma claim_ok: "engine_ok None e \<Longrightarrow> engine_ok None (fst (claim_expired now e))"
proof -
  assume ok: "engine_ok None e"
  have "\<exists>b. (if \<not> dr_claimed rec \<and> timers_due now rec then rec\<lparr>dr_claimed := True\<rparr> else rec) = rec\<lparr>dr_claimed := b\<rparr>" for rec :: "'a drecord"
    by (cases "\<not> dr_claimed rec \<and> timers_due now rec") (auto intro: exI [of _ "dr_claimed rec"])
  from claims_ok [OF ok this] show ?thesis by (simp add: claim_expired_def Let_def)
qed

lemma unclaim_ok: "engine_ok None e \<Longrightarrow> engine_ok None (unclaim t e)"
proof -
  assume ok: "engine_ok None e"
  have "\<exists>b. (if k = t then rec\<lparr>dr_claimed := False\<rparr> else rec) = rec\<lparr>dr_claimed := b\<rparr>" for k and rec :: "'a drecord"
    by (cases "k = t") (auto intro: exI [of _ "dr_claimed rec"])
  from claims_ok [OF ok this] show ?thesis by (simp add: unclaim_def)
qed

lemma expire_invokes_ok:
  assumes "engine_ok (Some (t, h, dg_role d)) e" "dg_our_tid d = t" "operations_ok d" "expire_invokes dk bh clock h qs d e = (e', d')"
  shows "engine_ok (Some (t, h, dg_role d)) e' \<and> dg_our_tid d' = t \<and> dg_role d' = dg_role d \<and> operations_ok d'"
  using assms
proof (induction qs arbitrary: d e)
  case (Cons q qs)
  define c where "c = OnInvokeTimeout \<lparr>it_invoke_id = ou_id q, it_operation_code = ou_op q, it_class = ou_class q\<rparr>"
  define d1 where "d1 = play dk clock (bh h t c) d"
  define d2 where "d2 = (if dg_closed d1 = Some CrAborted then d1\<lparr>dg_closed := Some (CrInvokeTimeout (ou_id q) (ou_op q))\<rparr> else d1)"
  have d2: "dg_our_tid d2 = t" "dg_role d2 = dg_role d" "operations_ok d2"
    using same_party_play [of d dk clock "bh h t c"] operations.law_play [OF Cons.prems(3), of dk clock "bh h t c"] Cons.prems(2)
    by (auto simp: d2_def d1_def same_party_def operations_ok_def operation_ids_def)
  have "engine_ok (Some (t, h, dg_role d2)) (logged (EvCall h t c) e)" using turn_ok [OF Cons.prems(1)] d2(2) by (simp add: c_def)
  from Cons.IH [OF this d2(1,3)] Cons.IH [OF Cons.prems(1-3)] Cons.prems d2(2) show ?case
    by (auto simp: call_handler_def c_def [symmetric] d1_def [symmetric] d2_def [symmetric] split: if_splits)
qed auto

lemma expire_ok:
  assumes "engine_ok None e"
  shows "engine_ok None (fst (expire dk bh clock now t e))"
proof (cases "bt_get t (en_dialogues e)")
  case None
  then show ?thesis using assms by (simp add: expire_def)
next
  case (Some rec)
  show ?thesis
  proof (cases "timers_due now rec")
    case False
    then show ?thesis using Some unclaim_ok [OF assms] by (simp add: expire_def)
  next
    case True
    define e1 where "e1 = logged EvReleased (e\<lparr>en_dialogues := bt_remove t (en_dialogues e)\<rparr>)"
    define d1 where "d1 = (dr_dialogue rec)\<lparr>dg_outstanding := filter (\<lambda>q. \<not> invoke_due now q) (dg_outstanding (dr_dialogue rec))\<rparr>"
    define qs where "qs = filter (invoke_due now) (dg_outstanding (dr_dialogue rec))"
    obtain e2 d2 where run: "expire_invokes dk bh clock (dr_handler rec) qs d1 e1 = (e2, d2)"
      by (cases "expire_invokes dk bh clock (dr_handler rec) qs d1 e1")
    define d3 where "d3 = (if dg_closed d2 = None \<and> idle_expired now rec then fst (abort_as dk CrIdleTimeout d2) else d2)"
    note took = take_ok [OF assms Some, folded e1_def]
    have "trimmed (dr_dialogue rec) d1" unfolding d1_def by (rule trimmed_outstanding) simp
    then have d1: "operations_ok d1" "dg_our_tid d1 = t" "dg_role d1 = dg_role (dr_dialogue rec)"
      using trimmed_operations [of "dr_dialogue rec" d1] took(2) by (auto simp: record_ok_def d1_def)
    have "engine_ok (Some (t, dr_handler rec, dg_role d1)) e1" using took(1) d1(3) by simp
    from expire_invokes_ok [OF this d1(2,1) run]
    have d3: "engine_ok (Some (dg_our_tid d3, dr_handler rec, dg_role d3)) e2" "operations_ok d3"
      using abort_operations [of d2 dk CrIdleTimeout] by (auto simp: d3_def abort_party)
    then show ?thesis using finish_ok [OF d3, of dk clock "dr_ingress rec" TurnOfTimer "dr_last_activity rec"] Some True run
      by (auto simp: expire_def Let_def e1_def [symmetric] d1_def [symmetric] qs_def [symmetric] d3_def case_prod_beta split: if_splits)
  qed
qed

section \<open>Every history\<close>

text \<open>
  What happens to an engine, in any order: handlers are registered, messages delivered, dialogues opened
  from here, due timers claimed, claims given back and timers run, each with whatever its handlers do then.
\<close>

inductive engine_runs :: "('x, 'dp) dlg_codec \<Rightarrow> tcap_settings \<Rightarrow> 'x engine \<Rightarrow> bool" for dk ts where
  runs_new: "engine_runs dk ts (engine_new ts)"
| runs_register: "engine_runs dk ts e \<Longrightarrow> engine_runs dk ts (register_handler ssn op h e)"
| runs_fallback: "engine_runs dk ts e \<Longrightarrow> engine_runs dk ts (register_fallback ssn op h e)"
| runs_deliver: "engine_runs dk ts e \<Longrightarrow> tids_left e \<Longrightarrow> engine_runs dk ts (fst (deliver dk bh clock m ingress e))"
| runs_begin: "engine_runs dk ts e \<Longrightarrow> tids_left e \<Longrightarrow> engine_runs dk ts (fst (engine_begin dk bh clock req h e))"
| runs_claim: "engine_runs dk ts e \<Longrightarrow> engine_runs dk ts (fst (claim_expired now e))"
| runs_release: "engine_runs dk ts e \<Longrightarrow> engine_runs dk ts (release_claim t e)"
| runs_expire: "engine_runs dk ts e \<Longrightarrow> engine_runs dk ts (fst (expire dk bh clock now t e))"

lemma runs_ok: "engine_runs dk ts e \<Longrightarrow> engine_ok None e"
proof (induction rule: engine_runs.induct)
  case runs_new
  show ?case by (simp add: engine_ok_def engine_new_def expected_life_def tally_def responders_def)
next
  case (runs_register e ssn op h)
  then show ?case by (simp add: engine_ok_def register_handler_def expected_life_def issued_def responders_def)
next
  case (runs_fallback e ssn op h)
  then show ?case by (simp add: engine_ok_def register_fallback_def expected_life_def issued_def responders_def)
qed (simp_all add: deliver_ok originate_ok claim_ok unclaim_ok release_claim_def expire_ok)


text \<open>
  C17: a handler is given a dialogue once and hears of its end exactly once. In every history of the engine
  (messages of every kind, damaged ones included, dialogues opened from here, timers, claims, in any order
  and whatever the handlers do) the events of a dialogue are: opened, then called by the handler that was
  given it and by no other while it is in the table, then told of its end when it leaves the table; and
  the gauge of open dialogues is the size of the table.
\<close>

theorem dialogue_lives:
  assumes "engine_runs dk ts e"
  shows "(case bt_get t (en_dialogues e) of
       Some rec \<Rightarrow> life_of t (en_log e) = Alive (dr_handler rec)
     | None \<Rightarrow> life_of t (en_log e) = Unborn \<or> life_of t (en_log e) = Over) \<and>
    tally (opens t) (en_log e) = tally (tells t) (en_log e) + (if bt_get t (en_dialogues e) = None then 0 else 1) \<and>
    tally (opens t) (en_log e) \<le> 1 \<and>
    tally ((=) EvOpened) (en_log e) = tally ((=) EvReleased) (en_log e) + open_dialogues e"
proof -
  have ok: "engine_ok None e" by (rule runs_ok [OF assms])
  then have life: "case bt_get t (en_dialogues e) of
       Some rec \<Rightarrow> life_of t (en_log e) = Alive (dr_handler rec)
     | None \<Rightarrow> life_of t (en_log e) = Unborn \<or> life_of t (en_log e) = Over"
    by (auto simp: engine_ok_def expected_life_def split: option.splits dest: spec [of _ t])
  then have "life_of t (en_log e) \<noteq> Amiss" by (auto split: option.splits)
  from life_counts [OF this] life ok show ?thesis by (auto simp: engine_ok_def open_dialogues_def split: option.splits)
qed

text \<open>
  C19: the operations of an open dialogue keep apart. In every history of the engine, a dialogue in the table
  is open, no two of its operations in progress or staged share an invoke identifier, each that was sent
  has its invocation timer, and the next identifier given is in range and free; none is given only when all
  256 are taken.
\<close>

theorem operations_distinct:
  assumes "engine_runs dk ts e" and "bt_get t (en_dialogues e) = Some rec"
  shows "\<not> is_closed (dr_dialogue rec) \<and> distinct (operation_ids (dr_dialogue rec)) \<and>
    list_all (\<lambda>q. ou_deadline q \<noteq> None) (dg_outstanding (dr_dialogue rec)) \<and>
    (case allocate_invoke_id (dr_dialogue rec) of
       None \<Rightarrow> set (operation_ids (dr_dialogue rec)) = {-128..127}
     | Some (_, i) \<Rightarrow> i \<in> {-128..127} \<and> i \<notin> set (operation_ids (dr_dialogue rec)))"
proof -
  have ok: "record_ok t rec" using runs_ok [OF assms(1)] assms(2) by (simp add: engine_ok_def)
  have "set (operation_ids (dr_dialogue rec)) = {-128..127}" if "allocate_invoke_id (dr_dialogue rec) = None"
  proof
    have "find (\<lambda>i. \<not> id_in_use (dr_dialogue rec) i) (id_order (dg_next_invoke_id (dr_dialogue rec))) = None"
      using that by (simp add: allocate_invoke_id_def)
    then have "set (id_order (dg_next_invoke_id (dr_dialogue rec))) \<subseteq> set (operation_ids (dr_dialogue rec))"
      by (auto simp: find_None_iff id_in_use_iff)
    then show "{-128..127} \<subseteq> set (operation_ids (dr_dialogue rec))" by (simp only: id_order_set)
  qed (use ok in \<open>simp add: record_ok_def operations_ok_def\<close>)
  then show ?thesis using ok allocate_fresh(1,2) [of "dr_dialogue rec"]
    by (auto simp: record_ok_def operations_ok_def is_closed_def split: option.splits)
qed

text \<open>
  The ceiling of dialogues holds. In every history of the engine, the dialogues peers have open here are
  never more than the setting allows.
\<close>

theorem dialogue_ceiling:
  assumes "engine_runs dk ts e"
  shows "responders e \<le> ts_max_dialogues (en_config e)"
  using runs_ok [OF assms] by (simp add: engine_ok_def)

section \<open>An example\<close>

text \<open>A handler that invokes one operation and sends the Begin, and ends what the peer continues.\<close>

definition sample_behaviour :: behaviour where
  "sample_behaviour h t c =
     (case c of OnStart \<Rightarrow> TurnInvoke 45 None ClassOne None (\<lambda>_. TurnSend (\<lambda>_. TurnOver)) | OnContinue _ \<Rightarrow> TurnEnd (\<lambda>_. TurnOver) | _ \<Rightarrow> TurnOver)"

definition sample_request :: "unit outgoing_begin" where
  "sample_request = \<lparr>ob_application_context = [0], ob_called = sample_address, ob_calling = sample_address, ob_opc = 1, ob_dpc = 2,
     ob_ni = 2, ob_sls = 0, ob_ingress = ''a''\<rparr>"

definition sample_open :: "unit engine" where
  "sample_open = fst (engine_begin (sample_dlg_codec MsgUnidirectional ()) sample_behaviour 0 sample_request 7 (engine_new tcap_settings_default))"

lemma sample_open_runs: "engine_runs (sample_dlg_codec MsgUnidirectional ()) tcap_settings_default sample_open"
  unfolding sample_open_def by (rule runs_begin [OF runs_new]) (simp add: tids_left_def engine_new_def)

lemma first_id:
  assumes "operation_ids d = []"
  shows "allocate_invoke_id d = Some (d\<lparr>dg_next_invoke_id := (max (dg_next_invoke_id d) 0 mod 128 + 1) mod 128\<rparr>, max (dg_next_invoke_id d) 0 mod 128)"
proof -
  have "id_order n = max n 0 mod 128 # tl (id_order n)" for n by (simp add: id_order_def upt_conv_Cons)
  then have "find (\<lambda>i. \<not> id_in_use d i) (id_order n) = Some (max n 0 mod 128)" for n
    using assms by (metis find.simps(2) id_in_use_iff list.set(1) empty_iff)
  then show ?thesis by (simp add: allocate_invoke_id_def)
qed

lemma sample_tid: "be_bytes 0x80000001 = [0x80, 0, 0, 1]"
  by code_simp

lemma sample_open_stored: "map_option (\<lambda>rec. map ou_id (dg_outstanding (dr_dialogue rec))) (bt_get [0x80, 0, 0, 1] (en_dialogues sample_open)) = Some [1]"
  by (simp add: sample_open_def engine_begin_def alloc_tid_def engine_new_def sample_tid call_handler_def sample_behaviour_def
      sample_request_def dialogue_new_def invoke_with_def first_id operation_ids_def flush_def dialogue_emit_def wrap_msu_def
      sample_dlg_codec_def store_dialogue_def Let_def bt_get_def tcap_settings_default_def)

theorem dialogue_lives_witness:
  "tally (opens [0x80, 0, 0, 1]) (en_log sample_open) = 1 \<and> tally (tells [0x80, 0, 0, 1]) (en_log sample_open) = 0"
  using dialogue_lives [OF sample_open_runs, of "[0x80, 0, 0, 1]"] sample_open_stored by (auto split: if_splits)

theorem operations_distinct_witness:
  "\<exists>rec. bt_get [0x80, 0, 0, 1] (en_dialogues sample_open) = Some rec \<and> \<not> is_closed (dr_dialogue rec)"
  using operations_distinct [OF sample_open_runs, of "[0x80, 0, 0, 1]"] sample_open_stored by auto

theorem dialogue_ceiling_witness: "responders sample_open \<le> ts_max_dialogues (en_config sample_open)"
  by (rule dialogue_ceiling [OF sample_open_runs])

end
