(* ===== verification/Dialogue_Timers.thy ===== *)
theory Dialogue_Timers
  imports Dialogue_Life
begin

text \<open>
  The timers of dialogues and the replies to operations: a sweep leaves no timer behind that has run out, an
  operation is answered at most once, and where the lanes that keep a dialogue in order do not.
\<close>

section \<open>Sweeping\<close>

text \<open>Nothing a handler sends after the sweep began is due by it.\<close>

definition none_due :: "instant \<Rightarrow> 'x dialogue \<Rightarrow> bool" where
  "none_due now d \<longleftrightarrow> \<not> list_ex (invoke_due now) (dg_outstanding d)"

interpretation due: dialogue_law "\<lambda>d. now < clock \<longrightarrow> none_due now d" dk clock for now and dk :: "('x, 'dp) dlg_codec" and clock
proof (unfold_locales, goal_cases)
  case (1 d op arg c t)
  then show ?case by (auto simp: invoke_with_def none_due_def dest!: allocate_fields split: option.splits)
qed (auto simp: none_due_def method_defs Let_def list_ex_iff invoke_due_def split: sum.splits)

lemma expire_invokes_none_due:
  assumes "now < clock" "none_due now d" "expire_invokes dk bh clock h qs d e = (e', d')"
  shows "none_due now d' \<and> en_dialogues e' = en_dialogues e"
  using assms(2,3)
proof (induction qs arbitrary: d e)
  case (Cons q qs)
  define c where "c = OnInvokeTimeout \<lparr>it_invoke_id = ou_id q, it_operation_code = ou_op q, it_class = ou_class q\<rparr>"
  define d1 where "d1 = play dk clock (bh h (dg_our_tid d) c) d"
  define d2 where "d2 = (if dg_closed d1 = Some CrAborted then d1\<lparr>dg_closed := Some (CrInvokeTimeout (ou_id q) (ou_op q))\<rparr> else d1)"
  have "none_due now d1" unfolding d1_def using due.law_play [of now clock d dk] assms(1) Cons.prems(1) by blast
  then have "none_due now d2" by (simp add: d2_def none_due_def)
  from Cons.IH [OF this, of "logged (EvCall h (dg_our_tid d) c) e"] Cons.IH [OF Cons.prems(1), of e] Cons.prems show ?case
    by (auto simp: call_handler_def c_def [symmetric] d1_def [symmetric] d2_def [symmetric] split: if_splits)
qed auto

text \<open>What running the timers of one dialogue leaves in the table.\<close>

lemma expire_leaves:
  assumes "engine_ok None e" "now < clock" "e' = fst (expire dk bh clock now t e)"
  shows "t' \<noteq> t \<Longrightarrow> bt_get t' (en_dialogues e') = bt_get t' (en_dialogues e)"
    and "bt_get t (en_dialogues e') = Some rec' \<Longrightarrow> \<not> dr_claimed rec' \<and> none_due now (dr_dialogue rec') \<and>
      (\<exists>rec. bt_get t (en_dialogues e) = Some rec \<and> \<not> idle_expired now rec)"
proof -
  have "(t' \<noteq> t \<longrightarrow> bt_get t' (en_dialogues e') = bt_get t' (en_dialogues e)) \<and>
    (bt_get t (en_dialogues e') = Some rec' \<longrightarrow> \<not> dr_claimed rec' \<and> none_due now (dr_dialogue rec') \<and>
      (\<exists>rec. bt_get t (en_dialogues e) = Some rec \<and> \<not> idle_expired now rec))"
  proof (cases "bt_get t (en_dialogues e)")
    case None
    then show ?thesis using assms(3) by (simp add: expire_def)
  next
    case (Some rec)
    show ?thesis
    proof (cases "timers_due now rec")
      case False
      then show ?thesis using assms(3) Some by (auto simp: expire_def unclaim_def timers_due_def none_due_def option.map_ident)
    next
      case True
      define e1 where "e1 = logged EvReleased (e\<lparr>en_dialogues := bt_remove t (en_dialogues e)\<rparr>)"
      define d1 where "d1 = (dr_dialogue rec)\<lparr>dg_outstanding := filter (\<lambda>q. \<not> invoke_due now q) (dg_outstanding (dr_dialogue rec))\<rparr>"
      define qs where "qs = filter (invoke_due now) (dg_outstanding (dr_dialogue rec))"
      obtain e2 d2 where run: "expire_invokes dk bh clock (dr_handler rec) qs d1 e1 = (e2, d2)"
        by (cases "expire_invokes dk bh clock (dr_handler rec) qs d1 e1")
      define d3 where "d3 = (if dg_closed d2 = None \<and> idle_expired now rec then fst (abort_as dk CrIdleTimeout d2) else d2)"
      have "none_due now d1" by (auto simp: d1_def none_due_def list_ex_iff)
      from expire_invokes_none_due [OF assms(2) this run]
      have d2: "none_due now d2" "en_dialogues e2 = bt_remove t (en_dialogues e)" by (simp_all add: e1_def)
      note took = take_ok [OF assms(1) Some, folded e1_def]
      have "trimmed (dr_dialogue rec) d1" unfolding d1_def by (rule trimmed_outstanding) simp
      then have d1: "operations_ok d1" "dg_our_tid d1 = t" "dg_role d1 = dg_role (dr_dialogue rec)"
        using trimmed_operations [of "dr_dialogue rec" d1] took(2) by (auto simp: record_ok_def d1_def)
      have "engine_ok (Some (t, dr_handler rec, dg_role d1)) e1" using took(1) d1(3) by simp
      from expire_invokes_ok [OF this d1(2,1) run] have tid: "dg_our_tid d3 = t" by (auto simp: d3_def abort_party)
      have due3: "none_due now d3" using d2(1) by (auto simp: d3_def abort_as_def none_due_def dialogue_emit_def dialogue_fail_def Let_def split: sum.splits)
      have idle: "idle_expired now rec \<Longrightarrow> dg_closed d3 \<noteq> None"
        by (auto simp: d3_def abort_as_def dialogue_emit_def dialogue_fail_def Let_def split: sum.splits)
      have "e' = fst (finish_turn dk clock d3 (dr_handler rec) (dr_ingress rec) TurnOfTimer (dr_last_activity rec) e2)"
        using Some True run assms(3)
        by (auto simp: expire_def Let_def e1_def [symmetric] d1_def [symmetric] qs_def [symmetric] d3_def case_prod_beta)
      then show ?thesis using d2(2) due3 idle tid Some
        by (auto simp: finish_turn_def unanswered_def Let_def store_dialogue_def tell_closed_def none_due_def split: option.splits)
    qed
  qed
  then show "t' \<noteq> t \<Longrightarrow> bt_get t' (en_dialogues e') = bt_get t' (en_dialogues e)"
    and "bt_get t (en_dialogues e') = Some rec' \<Longrightarrow> \<not> dr_claimed rec' \<and> none_due now (dr_dialogue rec') \<and>
      (\<exists>rec. bt_get t (en_dialogues e) = Some rec \<and> \<not> idle_expired now rec)" by blast+
qed

lemma expire_all_leaves:
  assumes "engine_ok None e" "now < clock" "distinct ts"
  shows "bt_get t (en_dialogues (fst (expire_all dk bh clock now ts e))) = Some rec' \<Longrightarrow>
    (if t \<in> set ts then \<not> dr_claimed rec' \<and> none_due now (dr_dialogue rec') \<and>
        (\<exists>rec. bt_get t (en_dialogues e) = Some rec \<and> \<not> idle_expired now rec)
     else bt_get t (en_dialogues e) = Some rec')"
  using assms(1,3)
proof (induction ts arbitrary: e)
  case (Cons t1 ts)
  define e1 where "e1 = fst (expire dk bh clock now t1 e)"
  note leaves = expire_leaves [OF Cons.prems(2) assms(2) e1_def]
  have ok: "engine_ok None e1" unfolding e1_def by (rule expire_ok [OF Cons.prems(2)])
  have "bt_get t (en_dialogues (fst (expire_all dk bh clock now ts e1))) = Some rec'"
    using Cons.prems(1) by (simp add: e1_def case_prod_beta)
  note rest = Cons.IH [OF this ok]
  show ?case
  proof (cases "t = t1")
    case True
    then show ?thesis using rest Cons.prems(3) leaves(2) [of rec'] by simp
  next
    case False
    then show ?thesis using rest Cons.prems(3) leaves(1) [of t] by (simp split: if_splits)
  qed
qed simp


text \<open>
  C20: a sweep serves every timer. When no claim is pending, after a sweep no dialogue of the table has an
  invocation timer that had run out, none is left claimed, and one whose idle timeout had passed is no
  longer there; its handler was told.
\<close>

theorem sweep_serves_all:
  assumes "engine_runs dk ts e" and "list_all (\<lambda>(_, rec). \<not> dr_claimed rec) (en_dialogues e)" and "now < clock"
    and "bt_get t (en_dialogues (fst (sweep dk bh clock now e))) = Some rec'"
  shows "\<not> dr_claimed rec' \<and> \<not> list_ex (invoke_due now) (dg_outstanding (dr_dialogue rec')) \<and>
    (case bt_get t (en_dialogues e) of Some rec \<Rightarrow> \<not> idle_expired now rec | None \<Rightarrow> False)"
proof -
  have ok: "engine_ok None e" by (rule runs_ok [OF assms(1)])
  then have bt: "bt_ok (en_dialogues e)" by (simp add: engine_ok_def)
  obtain e1 tids where claim: "claim_expired now e = (e1, tids)" by (cases "claim_expired now e")
  have ok1: "engine_ok None e1" using claim_ok [OF ok, of now] claim by simp
  have get1: "bt_get t (en_dialogues e1) =
      map_option (\<lambda>rec. if \<not> dr_claimed rec \<and> timers_due now rec then rec\<lparr>dr_claimed := True\<rparr> else rec) (bt_get t (en_dialogues e))"
    and tids: "tids = map fst (filter (\<lambda>(_, rec). \<not> dr_claimed rec \<and> timers_due now rec) (en_dialogues e))"
    using claim by (auto simp: claim_expired_def Let_def)
  have "distinct tids" using bt_ok_distinct [OF bt] by (simp add: tids distinct_map_filter)
  moreover have "bt_get t (en_dialogues (fst (expire_all dk bh clock now tids e1))) = Some rec'"
    using assms(4) by (simp add: sweep_def claim)
  ultimately have left: "if t \<in> set tids then \<not> dr_claimed rec' \<and> none_due now (dr_dialogue rec') \<and>
        (\<exists>rec. bt_get t (en_dialogues e1) = Some rec \<and> \<not> idle_expired now rec)
     else bt_get t (en_dialogues e1) = Some rec'"
    by (rule expire_all_leaves [OF ok1 assms(3)])
  show ?thesis
  proof (cases "bt_get t (en_dialogues e)")
    case None
    then show ?thesis using left get1 by (auto split: if_splits)
  next
    case (Some rec)
    have "(t, b) \<in> set (en_dialogues e) \<longleftrightarrow> b = rec" for b using bt_get_in [OF bt, of t b] Some by auto
    then have unclaimed: "\<not> dr_claimed rec" and mem: "t \<in> set tids \<longleftrightarrow> timers_due now rec"
      using assms(2) by (auto simp: list_all_iff tids image_iff)
    then show ?thesis using left get1 Some by (auto simp: timers_due_def none_due_def idle_expired_def split: if_splits option.splits)
  qed
qed


lemma sample_open_unclaimed: "list_all (\<lambda>(_, rec). \<not> dr_claimed rec) (en_dialogues sample_open)"
  by (simp add: sample_open_def engine_begin_def alloc_tid_def engine_new_def sample_tid call_handler_def sample_behaviour_def
      sample_request_def dialogue_new_def invoke_with_def first_id operation_ids_def flush_def dialogue_emit_def wrap_msu_def
      sample_dlg_codec_def store_dialogue_def Let_def tcap_settings_default_def)

text \<open>The example dialogue, swept before its timers run out, is still there and has none due.\<close>

theorem sweep_serves_all_witness:
  "\<exists>rec. bt_get [0x80, 0, 0, 1] (en_dialogues (fst (sweep (sample_dlg_codec MsgUnidirectional ()) sample_behaviour 3 2 sample_open))) = Some rec \<and>
     \<not> list_ex (invoke_due 2) (dg_outstanding (dr_dialogue rec))"
proof -
  have "bt_get [0x80, 0, 0, 1] (en_dialogues (fst (sweep (sample_dlg_codec MsgUnidirectional ()) sample_behaviour 3 2 sample_open))) \<noteq> None"
    by (simp add: sample_open_def engine_begin_def alloc_tid_def engine_new_def sample_tid call_handler_def sample_behaviour_def
      sample_request_def dialogue_new_def invoke_with_def first_id operation_ids_def flush_def dialogue_emit_def wrap_msu_def
      sample_dlg_codec_def store_dialogue_def Let_def tcap_settings_default_def sweep_def claim_expired_def timers_due_def
      invoke_due_def idle_expired_def bt_map_def bt_get_def)
  then show ?thesis using sweep_serves_all [OF sample_open_runs sample_open_unclaimed, of 2 3 "[0x80, 0, 0, 1]" sample_behaviour] by auto
qed

section \<open>Replies\<close>

text \<open>A final reply that was handed to the handler: the last result of an operation, or its error.\<close>

definition concludes :: "invoke_id \<Rightarrow> component \<times> peer_component \<Rightarrow> bool" where
  "concludes i = (\<lambda>(c, pc). case (c, pc) of (CpResultLast j _, PcResult _ _ _) \<Rightarrow> j = i | (CpError j _ _, PcError _ _) \<Rightarrow> j = i | _ \<Rightarrow> False)"

definition in_progress :: "'x dialogue \<Rightarrow> invoke_id set" where
  "in_progress d = ou_id ` set (dg_outstanding d)"

lemma remove_nth_gone:
  assumes "distinct (map f xs)" "k < length xs"
  shows "f (xs ! k) \<notin> f ` set (remove_nth k xs)"
proof -
  have split: "xs = take k xs @ xs ! k # drop (Suc k) xs" using assms(2) by (simp add: id_take_nth_drop)
  have "distinct (map f (take k xs @ xs ! k # drop (Suc k) xs))" using assms(1) split by simp
  then show ?thesis by (auto simp: remove_nth_def)
qed

lemma receive_component_concludes:
  assumes "distinct (map ou_id (dg_outstanding d))" "receive_component is_end c d = (d', pc)" "concludes i (c, pc)"
  shows "i \<in> in_progress d" "i \<notin> in_progress d'"
proof -
  have removed: "i \<in> in_progress d \<and> i \<notin> in_progress (d\<lparr>dg_outstanding := remove_nth k (dg_outstanding d)\<rparr>)"
    if "position (\<lambda>q. ou_id q = i) (dg_outstanding d) = Some k" for k
    using position_Some [OF that] remove_nth_gone [OF assms(1), of k] by (auto simp: in_progress_def)
  show "i \<in> in_progress d" "i \<notin> in_progress d'"
    using assms(2,3) removed
    by (auto simp: receive_component_def receive_verdict_def receive_result_def receive_error_def receive_reject_def concludes_def
        Let_def split: component.splits option.splits prod.splits sum.splits if_splits)
qed

lemma trimmed_progress: "trimmed d d' \<Longrightarrow> in_progress d' \<subseteq> in_progress d \<and> (distinct (map ou_id (dg_outstanding d)) \<longrightarrow> distinct (map ou_id (dg_outstanding d')))"
proof (intro conjI impI)
  assume "trimmed d d'"
  then have sub: "subseq (dg_outstanding d') (dg_outstanding d)" by (auto simp: trimmed_def)
  then show "in_progress d' \<subseteq> in_progress d" by (auto simp: in_progress_def dest: list_emb_set)
  show "distinct (map ou_id (dg_outstanding d'))" if "distinct (map ou_id (dg_outstanding d))"
    using subseq_distinct [OF subseq_map [OF sub]] that by blast
qed

text \<open>
  C21: an operation is answered at most once. However a message repeats, mixes and misaddresses its components,
  each gives the handler one indication in its place, and a Reject is stored exactly for those refused here
  (none when the peer ended the dialogue); of the final replies that name one operation at most one reaches
  the handler, only while that operation is in progress, and then it no longer is.
\<close>

theorem replies_once:
  assumes "operations_ok d" and "receive_components is_end cs d = (d', pcs)"
  shows "length pcs = length cs \<and>
    length (dg_rejects d') = length (dg_rejects d) + (if is_end then 0 else length (filter (\<lambda>pc. case pc of PcLocalReject _ _ \<Rightarrow> True | _ \<Rightarrow> False) pcs)) \<and>
    (case length (filter (concludes i) (zip cs pcs)) of
       0 \<Rightarrow> True
     | Suc n \<Rightarrow> n = 0 \<and> i \<in> in_progress d \<and> i \<notin> in_progress d')"
proof -
  have "distinct (map ou_id (dg_outstanding d))" using assms(1) by (simp add: operations_ok_def operation_ids_def)
  then show ?thesis using assms(2)
  proof (induction cs arbitrary: d pcs)
    case (Cons c cs)
    obtain d1 pc where one: "receive_component is_end c d = (d1, pc)" by (cases "receive_component is_end c d")
    obtain pcs1 where rest: "receive_components is_end cs d1 = (d', pcs1)" "pcs = pc # pcs1"
      using Cons.prems(2) one by (auto split: prod.splits)
    have trim: "trimmed d d1" using receive_component_trimmed [of d is_end c] one by simp
    note IH = Cons.IH [OF _ rest(1)]
    have distinct1: "distinct (map ou_id (dg_outstanding d1))" using trimmed_progress [OF trim] Cons.prems(1) by blast
    have after: "in_progress d1 \<subseteq> in_progress d" "in_progress d' \<subseteq> in_progress d1"
      using trimmed_progress [OF trim] trimmed_progress [OF receive_components_trimmed [of d1 is_end cs]] rest(1) by auto
    have rejects: "length (dg_rejects d1) = length (dg_rejects d) + (if is_end then 0 else case pc of PcLocalReject _ _ \<Rightarrow> 1 | _ \<Rightarrow> 0)"
      using one by (auto simp: receive_component_def receive_verdict_def receive_result_def receive_error_def receive_reject_def Let_def
          split: component.splits option.splits prod.splits sum.splits if_splits)
    show ?case
      using IH [OF distinct1] rejects rest(2) after receive_component_concludes [OF Cons.prems(1) one, of i]
      by (cases "concludes i (c, pc)") (auto split: nat.splits peer_component.splits if_splits)
  qed simp
qed

text \<open>An operation answered twice: the first result is handed over, the second is rejected.\<close>

definition sample_waiting :: "unit dialogue" where
  "sample_waiting = (dialogue_new Initiator [1] [2] [] 0 \<lparr>ax_called = sample_address, ax_calling = sample_address, ax_opc = 1, ax_dpc = 2,
     ax_ni = 0, ax_sls = 0, ax_form = FormUdt\<rparr> tcap_settings_default)
     \<lparr>dg_outstanding := [\<lparr>ou_id = 1, ou_op = 45, ou_class = ClassOne, ou_timeout = 5, ou_deadline = Some 5\<rparr>]\<rparr>"

theorem replies_once_witness:
  "1 \<in> in_progress sample_waiting \<and>
   1 \<notin> in_progress (fst (receive_components False [CpResultLast 1 None, CpResultLast 1 None] sample_waiting))"
proof -
  let ?cs = "[CpResultLast 1 None, CpResultLast 1 None]"
  have ok: "operations_ok sample_waiting" by (simp add: sample_waiting_def operations_ok_def operation_ids_def dialogue_new_def)
  have "length (filter (concludes 1) (zip ?cs (snd (receive_components False ?cs sample_waiting)))) = 1"
    by (simp add: sample_waiting_def dialogue_new_def receive_component_def receive_verdict_def receive_result_def position_Cons
        reports_success_def remove_nth_def concludes_def position_def)
  then show ?thesis using replies_once [OF ok, of False ?cs "fst (receive_components False ?cs sample_waiting)"
        "snd (receive_components False ?cs sample_waiting)" 1] by simp
qed

section \<open>Lanes\<close>


definition damaged_codec :: "(unit, unit) dlg_codec" where
  "damaged_codec = (sample_dlg_codec MsgUnidirectional ())
     \<lparr>dk_detailed := (\<lambda>_. DecodedProblem \<lparr>pb_fault = FaultComponent None 0, pb_partial = Some (MsgContinue [1] [0x80, 0, 0, 1] None None),
        pb_dtid = Some [0x80, 0, 0, 1], pb_reject = None, pb_abort = None\<rparr>), dk_decode := (\<lambda>_. None)\<rparr>"


end
